(* ===== verification/Prelude.thy ===== *)
theory Prelude
  imports Main "HOL-Library.Word" "HOL-Library.Multiset"
begin

section \<open>Shared vocabulary of the development\<close>

text \<open>
  What every component theory uses: the faults a C or C++ execution can end in, the result
  type of fallible code with its sequencing operation, the range checks of signed machine
  integers, and the list lemmas about in-place loops. A fault is a value, so a theorem that
  an operation returns \<open>Inr\<close> says that none of the listed undefined behaviours happens.
\<close>

named_theorems res_simps \<open>sequencing and range checks\<close>

text \<open>
  \<open>BadAlloc\<close> is the exception \<open>std::bad_alloc\<close>; \<open>DeadObject\<close> is the use of an object
  outside its lifetime; every other constructor is an undefined behaviour of the standards.
\<close>

datatype fault =
    NullDeref
  | OutOfBounds
  | UseAfterFree
  | DoubleFree
  | DeadObject
  | UninitRead
  | SignedOverflow
  | DivByZero
  | MissingReturn
  | LengthError
  | BadAlloc

type_synonym 'a res = "fault + 'a"

subsection \<open>Sequencing of fallible code\<close>

definition rbind :: "'a res \<Rightarrow> ('a \<Rightarrow> 'b res) \<Rightarrow> 'b res" where
  "rbind m f = (case m of Inl e \<Rightarrow> Inl e | Inr x \<Rightarrow> f x)"

lemma rbind_Inl [simp, res_simps]: "rbind (Inl e) f = Inl e"
  by (simp add: rbind_def)

lemma rbind_Inr [simp, res_simps]: "rbind (Inr x) f = f x"
  by (simp add: rbind_def)

lemma rbind_eq_Inr [res_simps]: "rbind m f = Inr y \<longleftrightarrow> (\<exists>x. m = Inr x \<and> f x = Inr y)"
  by (simp add: rbind_def split: sum.splits)

lemma rbind_assoc: "rbind (rbind m f) g = rbind m (\<lambda>x. rbind (f x) g)"
  by (simp add: rbind_def split: sum.splits)

lemma rbind_cong [fundef_cong]:
  "m = m' \<Longrightarrow> (\<And>x. m' = Inr x \<Longrightarrow> f x = f' x) \<Longrightarrow> rbind m f = rbind m' f'"
  by (simp add: rbind_def split: sum.splits)

lemma rbind_if:
  "rbind (if b then m else m') f = (if b then rbind m f else rbind m' f)"
  by simp

subsection \<open>Signed machine integers\<close>

text \<open>
  A C \<open>int\<close> is 32 bits and a \<open>long long\<close> or \<open>int64_t\<close> is 64 bits, in two's complement.
  Their values are HOL integers; \<open>chk32\<close> and \<open>chk64\<close> turn a result outside the range into
  the fault of signed overflow, which is undefined behaviour in both languages.
\<close>

abbreviation (input) int_min :: int where "int_min \<equiv> -2147483648"
abbreviation (input) int_max :: int where "int_max \<equiv> 2147483647"

definition in_int :: "int \<Rightarrow> bool" where
  "in_int x \<longleftrightarrow> -2147483648 \<le> x \<and> x \<le> 2147483647"

definition in_int64 :: "int \<Rightarrow> bool" where
  "in_int64 x \<longleftrightarrow> -9223372036854775808 \<le> x \<and> x \<le> 9223372036854775807"

definition chk32 :: "int \<Rightarrow> int res" where
  "chk32 x = (if in_int x then Inr x else Inl SignedOverflow)"

definition chk64 :: "int \<Rightarrow> int res" where
  "chk64 x = (if in_int64 x then Inr x else Inl SignedOverflow)"

lemma chk32_eq_Inr [simp, res_simps]: "chk32 x = Inr y \<longleftrightarrow> in_int x \<and> y = x"
  by (auto simp: chk32_def)

lemma chk64_eq_Inr [simp, res_simps]: "chk64 x = Inr y \<longleftrightarrow> in_int64 x \<and> y = x"
  by (auto simp: chk64_def)

lemma chk32_ok [simp]: "in_int x \<Longrightarrow> chk32 x = Inr x"
  by simp

lemma chk64_ok [simp]: "in_int64 x \<Longrightarrow> chk64 x = Inr x"
  by simp

text \<open>Conversion of a \<open>size_t\<close> to \<open>int\<close> keeps the low 32 bits.\<close>

definition size_to_int :: "nat \<Rightarrow> int" where
  "size_to_int n = (int n + 2147483648) mod 4294967296 - 2147483648"

lemma size_to_int_id: "n < 2147483648 \<Longrightarrow> size_to_int n = int n"
  by (simp add: size_to_int_def)

text \<open>
  The remainder of C and C++ truncates towards zero; \<open>c_rem\<close> is that remainder.
\<close>

definition c_rem :: "int \<Rightarrow> int \<Rightarrow> int" where
  "c_rem a b = sgn a * (\<bar>a\<bar> mod \<bar>b\<bar>)"

lemma c_rem_eq_0_iff: "c_rem a b = 0 \<longleftrightarrow> b dvd a"
proof -
  have "\<bar>a\<bar> mod \<bar>b\<bar> = 0 \<longleftrightarrow> \<bar>b\<bar> dvd \<bar>a\<bar>"
    by (rule mod_eq_0_iff_dvd)
  then show ?thesis
    by (auto simp: c_rem_def sgn_eq_0_iff)
qed

text \<open>The quotient truncates towards zero too.\<close>

definition c_quot :: "int \<Rightarrow> int \<Rightarrow> int" where
  "c_quot a b = sgn a * sgn b * (\<bar>a\<bar> div \<bar>b\<bar>)"

lemma c_quot_nonneg: "0 \<le> a \<Longrightarrow> 0 < b \<Longrightarrow> c_quot a b = a div b"
  by (cases "a = 0") (simp_all add: c_quot_def)

lemma c_quot_neg_le_0: "a \<le> 0 \<Longrightarrow> 0 < b \<Longrightarrow> c_quot a b \<le> 0"
  by (cases "a = 0") (simp_all add: c_quot_def pos_imp_zdiv_nonneg_iff)

subsection \<open>Counting loops\<close>

text \<open>\<open>for_range i n body\<close> is \<open>for (; i < n; ++i) body\<close>, where the body may end in a fault.\<close>

function for_range :: "nat \<Rightarrow> nat \<Rightarrow> (nat \<Rightarrow> 's \<Rightarrow> 's res) \<Rightarrow> 's \<Rightarrow> 's res" where
  "for_range i n body s =
     (if i < n then rbind (body i s) (\<lambda>s'. for_range (Suc i) n body s') else Inr s)"
  by pat_completeness auto
termination by (relation "measure (\<lambda>(i, n, _). n - i)") auto

declare for_range.simps [simp del]

lemma for_range_done [simp]: "n \<le> i \<Longrightarrow> for_range i n body s = Inr s"
  by (subst for_range.simps) simp

lemma for_range_step: "i < n \<Longrightarrow> for_range i n body s = rbind (body i s) (for_range (Suc i) n body)"
  by (subst for_range.simps) simp

text \<open>The rule for loops that never fault: an invariant of the state before each iteration.\<close>

lemma for_range_invariant:
  assumes "I i s" and "i \<le> n"
    and "\<And>k s. I k s \<Longrightarrow> i \<le> k \<Longrightarrow> k < n \<Longrightarrow> \<exists>s'. body k s = Inr s' \<and> I (Suc k) s'"
  shows "\<exists>s'. for_range i n body s = Inr s' \<and> I n s'"
  using assms
proof (induction "n - i" arbitrary: i s)
  case 0
  then show ?case by simp
next
  case (Suc d)
  then have "i < n" by simp
  with Suc.prems obtain s' where s': "body i s = Inr s'" "I (Suc i) s'" by blast
  have "\<exists>s''. for_range (Suc i) n body s' = Inr s'' \<and> I n s''"
    using Suc.hyps(2) \<open>i < n\<close> s'(2) Suc.prems(3) by (intro Suc.hyps(1)) auto
  with s' \<open>i < n\<close> show ?case by (simp add: for_range_step)
qed

subsection \<open>Decimal output\<close>

text \<open>What the conversion \<open>%d\<close> of \<open>printf\<close> and \<open>operator<<\<close> write for an integer.\<close>

definition digit :: "nat \<Rightarrow> char" where
  "digit d = char_of (48 + d)"

fun show_nat :: "nat \<Rightarrow> string" where
  "show_nat n = (if n < 10 then [digit n] else show_nat (n div 10) @ [digit (n mod 10)])"

declare show_nat.simps [simp del]

definition show_int :: "int \<Rightarrow> string" where
  "show_int x = (if x < 0 then CHR ''-'' # show_nat (nat (- x)) else show_nat (nat x))"

text \<open>Field widths of \<open>printf\<close>: \<open>%-ws\<close> pads on the right, \<open>%ws\<close> on the left; longer text is not cut.\<close>

definition field_left :: "nat \<Rightarrow> string \<Rightarrow> string" where
  "field_left w s = s @ replicate (w - length s) (CHR '' '')"

definition field_right :: "nat \<Rightarrow> string \<Rightarrow> string" where
  "field_right w s = replicate (w - length s) (CHR '' '') @ s"

lemma length_field [simp]: "length (field_left w s) = max w (length s)" "length (field_right w s) = max w (length s)"
  by (simp_all add: field_left_def field_right_def)

definition digit_value :: "char \<Rightarrow> nat" where
  "digit_value c = of_char c - 48"

definition read_nat :: "string \<Rightarrow> nat" where
  "read_nat = foldl (\<lambda>n c. 10 * n + digit_value c) 0"

lemma digit_value_digit: "d < 10 \<Longrightarrow> digit_value (digit d) = d"
  by (simp add: digit_value_def digit_def)

lemma read_show_nat: "read_nat (show_nat n) = n"
proof (induction n rule: less_induct)
  case (less n)
  show ?case
    using less [of "n div 10"]
    by (subst show_nat.simps) (auto simp: read_nat_def digit_value_digit)
qed

lemma length_show_nat: "n < 10 ^ k \<Longrightarrow> 0 < k \<Longrightarrow> length (show_nat n) \<le> k"
proof (induction k arbitrary: n)
  case 0
  then show ?case by simp
next
  case (Suc k)
  show ?case
  proof (cases "n < 10")
    case True
    then show ?thesis by (subst show_nat.simps) simp
  next
    case False
    then have "0 < k" using Suc.prems by (cases k) auto
    moreover have "n div 10 < 10 ^ k" using Suc.prems by (simp add: less_mult_imp_div_less mult.commute)
    ultimately have "length (show_nat (n div 10)) \<le> k" using Suc.IH by blast
    with False show ?thesis by (subst show_nat.simps) simp
  qed
qed

lemma length_show_int: "in_int x \<Longrightarrow> length (show_int x) \<le> 11"
proof -
  assume x: "in_int x"
  then have "nat (- x) < 10 ^ 10" "nat x < 10 ^ 10" by (auto simp: in_int_def)
  then have "length (show_nat (nat (- x))) \<le> 10" "length (show_nat (nat x)) \<le> 10"
    by (auto intro: length_show_nat)
  then show ?thesis by (simp add: show_int_def)
qed

lemma digit_not_null: "d < 10 \<Longrightarrow> digit d \<noteq> CHR 0x00"
proof
  assume "d < 10" and "digit d = CHR 0x00"
  then have "(of_char (digit d) :: nat) = 0" by simp
  with \<open>d < 10\<close> show False by (simp add: digit_def)
qed

lemma show_nat_no_null: "CHR 0x00 \<notin> set (show_nat n)"
proof (induction n rule: less_induct)
  case (less n)
  show ?case
  proof (cases "n < 10")
    case True
    then show ?thesis by (subst show_nat.simps) (simp add: digit_not_null [symmetric])
  next
    case False
    moreover have "CHR 0x00 \<notin> set (show_nat (n div 10))" using False by (intro less) simp
    ultimately show ?thesis
      by (subst show_nat.simps) (simp add: digit_not_null [symmetric])
  qed
qed

lemma show_int_no_null: "CHR 0x00 \<notin> set (show_int x)"
  by (simp add: show_int_def show_nat_no_null)

end
