(* ===== verification/C_Heap.thy ===== *)
theory C_Heap
  imports Prelude
begin

section \<open>A heap of array blocks\<close>

text \<open>
  The free store that \<open>new[]\<close>/\<open>delete[]\<close> and \<open>malloc\<close>/\<open>realloc\<close>/\<open>free\<close> manage: a finite map
  from block addresses to the contents of the block, and the next fresh address. An address
  is never handed out twice, so the use of a freed block is always the fault
  \<open>UseAfterFree\<close> and a second release is always \<open>DoubleFree\<close>. A pointer is \<open>None\<close> for the
  null pointer and \<open>Some a\<close> for the start of block \<open>a\<close>; the offset into the block is a
  separate argument of the accesses.
\<close>

type_synonym addr = nat
type_synonym ptr = "addr option"

record 'a heap =
  blocks :: "addr \<rightharpoonup> 'a list"
  brk :: addr

definition empty_heap :: "'a heap" where
  "empty_heap = \<lparr>blocks = Map.empty, brk = 0\<rparr>"

definition heap_ok :: "'a heap \<Rightarrow> bool" where
  "heap_ok h \<longleftrightarrow> (\<forall>a \<in> dom (blocks h). a < brk h)"

definition halloc :: "'a list \<Rightarrow> 'a heap \<Rightarrow> addr \<times> 'a heap" where
  "halloc xs h = (brk h, h\<lparr>blocks := (blocks h)(brk h \<mapsto> xs), brk := Suc (brk h)\<rparr>)"

definition hfree :: "ptr \<Rightarrow> 'a heap \<Rightarrow> 'a heap res" where
  "hfree p h =
     (case p of
        None \<Rightarrow> Inr h
      | Some a \<Rightarrow>
          (case blocks h a of
             None \<Rightarrow> Inl DoubleFree
           | Some _ \<Rightarrow> Inr (h\<lparr>blocks := (blocks h)(a := None)\<rparr>)))"

definition hblock :: "ptr \<Rightarrow> 'a heap \<Rightarrow> 'a list res" where
  "hblock p h =
     (case p of
        None \<Rightarrow> Inl NullDeref
      | Some a \<Rightarrow> (case blocks h a of None \<Rightarrow> Inl UseAfterFree | Some xs \<Rightarrow> Inr xs))"

definition hread :: "ptr \<Rightarrow> nat \<Rightarrow> 'a heap \<Rightarrow> 'a res" where
  "hread p i h =
     rbind (hblock p h) (\<lambda>xs. if i < length xs then Inr (xs ! i) else Inl OutOfBounds)"

definition hwrite :: "ptr \<Rightarrow> nat \<Rightarrow> 'a \<Rightarrow> 'a heap \<Rightarrow> 'a heap res" where
  "hwrite p i v h =
     rbind (hblock p h) (\<lambda>xs.
       if i < length xs then Inr (h\<lparr>blocks := (blocks h)(the p \<mapsto> xs[i := v])\<rparr>)
       else Inl OutOfBounds)"

subsection \<open>Laws of the heap operations\<close>

lemma heap_ok_empty [simp]: "heap_ok empty_heap"
  by (simp add: heap_ok_def empty_heap_def)

lemma heap_ok_fresh: "heap_ok h \<Longrightarrow> blocks h (brk h) = None"
  by (auto simp: heap_ok_def)

lemma heap_ok_lt: "heap_ok h \<Longrightarrow> blocks h a = Some xs \<Longrightarrow> a < brk h"
  by (auto simp: heap_ok_def)

lemma heap_ok_neq_brk: "heap_ok h \<Longrightarrow> blocks h a = Some xs \<Longrightarrow> a \<noteq> brk h"
  by (auto simp: heap_ok_def)

lemma heap_ok_halloc: "heap_ok h \<Longrightarrow> heap_ok (snd (halloc xs h))"
  by (auto simp: heap_ok_def halloc_def less_Suc_eq)

lemma hfree_None [simp]: "hfree None h = Inr h"
  by (simp add: hfree_def)

lemma hfree_Some: "blocks h a = Some xs \<Longrightarrow>
    hfree (Some a) h = Inr (h\<lparr>blocks := (blocks h)(a := None)\<rparr>)"
  by (simp add: hfree_def)

lemma heap_ok_hfree: "heap_ok h \<Longrightarrow> hfree p h = Inr h' \<Longrightarrow> heap_ok h'"
  by (auto simp: hfree_def heap_ok_def split: option.splits if_splits)

lemma hblock_Some: "blocks h a = Some xs \<Longrightarrow> hblock (Some a) h = Inr xs"
  by (simp add: hblock_def)

lemma hread_Some: "blocks h a = Some xs \<Longrightarrow> i < length xs \<Longrightarrow> hread (Some a) i h = Inr (xs ! i)"
  by (simp add: hread_def hblock_def)

lemma hread_bound: "blocks h a = Some xs \<Longrightarrow> hread (Some a) i h = Inr v \<longleftrightarrow> i < length xs \<and> v = xs ! i"
  by (auto simp: hread_def hblock_def)

lemma hwrite_Some: "blocks h a = Some xs \<Longrightarrow> i < length xs \<Longrightarrow>
    hwrite (Some a) i v h = Inr (h\<lparr>blocks := (blocks h)(a \<mapsto> xs[i := v])\<rparr>)"
  by (simp add: hwrite_def hblock_def)

lemma heap_ok_hwrite: "heap_ok h \<Longrightarrow> hwrite p i v h = Inr h' \<Longrightarrow> heap_ok h'"
  by (auto simp: hwrite_def hblock_def heap_ok_def split: option.splits if_splits)

lemma heap_upd_triv [simp]: "blocks h a = Some xs \<Longrightarrow> h\<lparr>blocks := (blocks h)(a \<mapsto> xs)\<rparr> = h"
  by (simp add: fun_upd_idem)

lemma hread_null [simp]: "hread None i h = Inl NullDeref"
  by (simp add: hread_def hblock_def)

lemma hwrite_null [simp]: "hwrite None i v h = Inl NullDeref"
  by (simp add: hwrite_def hblock_def)

lemma hread_out_of_bounds:
  "blocks h a = Some xs \<Longrightarrow> length xs \<le> i \<Longrightarrow> hread (Some a) i h = Inl OutOfBounds"
  by (simp add: hread_def hblock_def)

lemma hwrite_out_of_bounds:
  "blocks h a = Some xs \<Longrightarrow> length xs \<le> i \<Longrightarrow> hwrite (Some a) i v h = Inl OutOfBounds"
  by (simp add: hwrite_def hblock_def)

lemmas heap_access = hread_Some hwrite_Some hblock_Some hfree_Some

subsection \<open>Block sizes\<close>

definition bsize :: "ptr \<Rightarrow> 'a heap \<Rightarrow> nat" where
  "bsize p h = (case hblock p h of Inl _ \<Rightarrow> 0 | Inr xs \<Rightarrow> length xs)"

lemma hread_lt_bsize: "hread p i h = Inr v \<Longrightarrow> i < bsize p h"
  by (auto simp: hread_def bsize_def rbind_eq_Inr split: if_splits)

lemma bsize_hwrite: "hwrite p i v h = Inr h' \<Longrightarrow> bsize q h' = bsize q h"
  by (cases p; cases q) (auto simp: hwrite_def hblock_def bsize_def split: option.splits if_splits)

subsection \<open>Allocation in C\<close>

text \<open>
  The outcome of a \<open>malloc\<close> or \<open>realloc\<close> is an argument: \<open>None\<close> when the call returns the null
  pointer, \<open>Some f\<close> when it succeeds, where \<open>f\<close> gives the indeterminate initial contents. Sizes
  are in elements. A failing \<open>realloc\<close> to a nonzero size leaves the old block allocated; with
  size zero the old block is released in either case.
\<close>

type_synonym 'a alloc = "(nat \<Rightarrow> 'a) option"

definition c_malloc :: "'a alloc \<Rightarrow> nat \<Rightarrow> 'a heap \<Rightarrow> ptr \<times> 'a heap" where
  "c_malloc m n h =
     (case m of
        None \<Rightarrow> (None, h)
      | Some f \<Rightarrow> let (a, h') = halloc (map f [0..<n]) h in (Some a, h'))"

definition c_realloc :: "'a alloc \<Rightarrow> ptr \<Rightarrow> nat \<Rightarrow> 'a heap \<Rightarrow> (ptr \<times> 'a heap) res" where
  "c_realloc m p n h =
     (case p of
        None \<Rightarrow> Inr (c_malloc m n h)
      | Some a \<Rightarrow>
          rbind (hblock p h) (\<lambda>xs.
            case m of
              None \<Rightarrow> if n = 0 then rbind (hfree p h) (\<lambda>h'. Inr (None, h')) else Inr (None, h)
            | Some f \<Rightarrow>
                rbind (hfree p h) (\<lambda>h1.
                  let (b, h2) = halloc (take n xs @ map f [length xs..<n]) h1 in Inr (Some b, h2))))"

subsection \<open>Writing a string of elements\<close>

fun hwrite_list :: "ptr \<Rightarrow> nat \<Rightarrow> 'a list \<Rightarrow> 'a heap \<Rightarrow> 'a heap res" where
  "hwrite_list p i [] h = Inr h"
| "hwrite_list p i (x # xs) h = rbind (hwrite p i x h) (hwrite_list p (Suc i) xs)"

lemma hwrite_list_Some:
  "blocks h a = Some (pre @ old @ post) \<Longrightarrow> length pre = i \<Longrightarrow> length old = length xs \<Longrightarrow>
    hwrite_list (Some a) i xs h = Inr (h\<lparr>blocks := (blocks h)(a \<mapsto> pre @ xs @ post)\<rparr>)"
proof (induction xs arbitrary: i pre old h)
  case Nil
  then have "old = []" by simp
  with Nil have "blocks h a = Some (pre @ [] @ post)" by simp
  then show ?case unfolding hwrite_list.simps by (simp only: heap_upd_triv)
next
  case (Cons x xs)
  then obtain y ys where old: "old = y # ys" by (cases old) auto
  let ?h = "h\<lparr>blocks := (blocks h)(a \<mapsto> (pre @ [x]) @ ys @ post)\<rparr>"
  have "hwrite (Some a) i x h = Inr ?h"
    using Cons.prems old by (auto simp: hwrite_Some list_update_append)
  moreover have "hwrite_list (Some a) (Suc i) xs ?h =
      Inr (?h\<lparr>blocks := (blocks ?h)(a \<mapsto> (pre @ [x]) @ xs @ post)\<rparr>)"
    using Cons.prems old by (intro Cons.IH [of ?h "pre @ [x]" ys]) auto
  ultimately show ?case
    by simp (simp add: fun_upd_def)
qed

lemma hwrite_list_0:
  assumes "blocks h a = Some ys" and "length xs \<le> length ys"
  shows "hwrite_list (Some a) 0 xs h = Inr (h\<lparr>blocks := (blocks h)(a \<mapsto> xs @ drop (length xs) ys)\<rparr>)"
  using hwrite_list_Some [of h a "[]" "take (length xs) ys" "drop (length xs) ys" 0 xs] assms by simp

end
