(* ===== verification/Ownership_Spec.thy ===== *)
theory Ownership_Spec
  imports C_Heap
begin

section \<open>What an owning handle promises\<close>

text \<open>
  The RAII classes of the repository (\<open>ScopedFd\<close>, \<open>UniqueBuffer\<close>, \<open>Buffer\<close>) keep one
  promise: a resource has at most one owner, moving transfers it, assigning and destroying
  release what the target held, and nothing is released twice or leaked. This theory states
  the promise once, as an abstract machine over objects and resources, which \<open>ScopedFd\<close> refines
  directly, and as the locale \<open>raii_owner\<close> of a class whose constructor acquires the resource
  itself, which \<open>UniqueBuffer\<close> and \<open>Buffer\<close> interpret. An operation that allocates may throw
  \<open>std::bad_alloc\<close>: its result says so, and carries the state it leaves behind.
\<close>

type_synonym obj = nat

subsection \<open>The abstract ownership machine\<close>

text \<open>
  \<open>objs\<close>: the objects whose lifetime is running; \<open>own\<close>: the resource an object owns, if any;
  \<open>live\<close>: the resources that are acquired and not released; \<open>escaped\<close>: live resources no
  object is responsible for (they were there before, or were handed to a caller).
\<close>

record 'r ostate =
  objs :: "obj set"
  own :: "obj \<rightharpoonup> 'r"
  live :: "'r set"
  escaped :: "'r set"

definition inj_map :: "('k \<rightharpoonup> 'r) \<Rightarrow> bool" where
  "inj_map m \<longleftrightarrow> (\<forall>i j r. m i = Some r \<longrightarrow> m j = Some r \<longrightarrow> i = j)"

definition own_inv :: "'r ostate \<Rightarrow> bool" where
  "own_inv s \<longleftrightarrow>
     dom (own s) \<subseteq> objs s \<and> inj_map (own s) \<and>
     live s = ran (own s) \<union> escaped s \<and> ran (own s) \<inter> escaped s = {}"

definition abs_acquire :: "obj \<Rightarrow> 'r option \<Rightarrow> 'r ostate \<Rightarrow> 'r ostate" where
  "abs_acquire i r s =
     s\<lparr>objs := insert i (objs s), own := (own s)(i := r), live := set_option r \<union> live s\<rparr>"

definition abs_move_construct :: "obj \<Rightarrow> obj \<Rightarrow> 'r ostate \<Rightarrow> 'r ostate" where
  "abs_move_construct i j s =
     s\<lparr>objs := insert i (objs s), own := (own s)(i := own s j, j := None)\<rparr>"

definition abs_move_assign :: "obj \<Rightarrow> obj \<Rightarrow> 'r ostate \<Rightarrow> 'r ostate" where
  "abs_move_assign i j s =
     s\<lparr>own := (own s)(i := own s j, j := None), live := live s - set_option (own s i)\<rparr>"

definition abs_destroy :: "obj \<Rightarrow> 'r ostate \<Rightarrow> 'r ostate" where
  "abs_destroy i s =
     s\<lparr>objs := objs s - {i}, own := (own s)(i := None), live := live s - set_option (own s i)\<rparr>"

text \<open>An object takes over a resource that was acquired outside; resources come and go outside.\<close>

definition abs_adopt :: "obj \<Rightarrow> 'r option \<Rightarrow> 'r ostate \<Rightarrow> 'r ostate" where
  "abs_adopt i r s =
     s\<lparr>objs := insert i (objs s), own := (own s)(i := r), escaped := escaped s - set_option r\<rparr>"

definition abs_open :: "'r option \<Rightarrow> 'r ostate \<Rightarrow> 'r ostate" where
  "abs_open r s = s\<lparr>live := set_option r \<union> live s, escaped := set_option r \<union> escaped s\<rparr>"

definition abs_close :: "'r \<Rightarrow> 'r ostate \<Rightarrow> 'r ostate" where
  "abs_close r s = s\<lparr>live := live s - {r}, escaped := escaped s - {r}\<rparr>"

definition abs_release :: "obj \<Rightarrow> 'r ostate \<Rightarrow> 'r ostate" where
  "abs_release i s =
     s\<lparr>own := (own s)(i := None), escaped := set_option (own s i) \<union> escaped s\<rparr>"

text \<open>
  Moving the entry of \<open>j\<close> to \<open>i\<close> drops from the range exactly what \<open>i\<close> held, also when
  \<open>i = j\<close> (a self-move).
\<close>

lemma inj_mapD: "inj_map m \<Longrightarrow> m i = Some r \<Longrightarrow> m j = Some r \<Longrightarrow> i = j"
  unfolding inj_map_def by blast

lemma inj_map_upd: "inj_map m \<Longrightarrow> set_option r \<inter> ran m = {} \<Longrightarrow> inj_map (m(i := r))"
  unfolding inj_map_def by (cases r) (auto simp: ran_def)

lemma inj_map_move: "inj_map m \<Longrightarrow> inj_map (m(i := m j, j := None))"
  unfolding inj_map_def by (simp add: fun_upd_def) metis

lemma inj_map_drop: "inj_map m \<Longrightarrow> inj_map (m(i := None))"
  by (rule inj_map_upd) auto

lemma ran_upd_fresh: "m i = None \<Longrightarrow> ran (m(i := r)) = set_option r \<union> ran m"
  by (cases r) (auto simp: fun_upd_idem)

lemma ran_drop:
  assumes "inj_map m"
  shows "ran (m(i := None)) = ran m - set_option (m i)"
proof -
  have "m j \<noteq> Some r" if "m i = Some r" "j \<noteq> i" for j r
    using inj_mapD [OF assms that(1), of j] that(2) by auto
  then show ?thesis
    by (auto simp: ran_def) (metis option.set_sel option.set_intros)
qed

lemma ran_move:
  assumes "inj_map m"
  shows "ran (m(i := m j, j := None)) = ran m - set_option (m i)"
proof (cases "i = j")
  case True
  with ran_drop [OF assms, of i] show ?thesis by simp
next
  case False
  have "m(i := m j, j := None) = (m(i := None, j := None))(i := m j)"
    using False by auto
  then have "ran (m(i := m j, j := None)) = set_option (m j) \<union> ran (m(i := None, j := None))"
    using ran_upd_fresh [of "m(i := None, j := None)" i "m j"] False by simp
  also have "ran (m(i := None, j := None)) = ran m - set_option (m i) - set_option (m j)"
    using False ran_drop [OF inj_map_upd [OF assms, of None i], of j] ran_drop [OF assms, of i]
    by simp
  also have "set_option (m j) \<union> (ran m - set_option (m i) - set_option (m j))
      = ran m - set_option (m i)"
    using False inj_mapD [OF assms, of i _ j] by (auto simp: ran_def)
  finally show ?thesis .
qed

lemma own_inv_unique: "own_inv s \<Longrightarrow> own s i = Some r \<Longrightarrow> own s j = Some r \<Longrightarrow> i = j"
  unfolding own_inv_def by (blast dest: inj_mapD)

lemma own_inv_live: "own_inv s \<Longrightarrow> own s i = Some r \<Longrightarrow> r \<in> live s"
  by (auto simp: own_inv_def ran_def)

lemma own_inv_fresh_obj: "own_inv s \<Longrightarrow> i \<notin> objs s \<Longrightarrow> own s i = None"
  by (auto simp: own_inv_def)

lemma own_inv_own_sub: "own_inv s \<Longrightarrow> set_option (own s i) \<subseteq> ran (own s)"
  by (auto simp: ran_def)

lemma own_inv_acquire:
  assumes "own_inv s" and "i \<notin> objs s" and "set_option r \<inter> live s = {}"
  shows "own_inv (abs_acquire i r s)"
  using assms own_inv_fresh_obj [OF assms(1,2)]
  by (auto simp: own_inv_def abs_acquire_def ran_upd_fresh intro: inj_map_upd)

lemma own_inv_move_construct:
  assumes "own_inv s" and "i \<notin> objs s" and "j \<in> objs s"
  shows "own_inv (abs_move_construct i j s)"
  using assms own_inv_fresh_obj [OF assms(1,2)]
  by (auto simp: own_inv_def abs_move_construct_def ran_move
      intro: inj_map_move inj_map_drop split: if_splits)

lemma own_inv_move_assign:
  assumes "own_inv s" and "i \<in> objs s" and "j \<in> objs s"
  shows "own_inv (abs_move_assign i j s)"
  using assms own_inv_own_sub [OF assms(1), of i]
  by (auto simp: own_inv_def abs_move_assign_def ran_move
      intro: inj_map_move inj_map_drop split: if_splits)

lemma own_inv_destroy:
  assumes "own_inv s" and "i \<in> objs s"
  shows "own_inv (abs_destroy i s)"
  using assms own_inv_own_sub [OF assms(1), of i]
  by (auto simp: own_inv_def abs_destroy_def ran_drop intro: inj_map_drop)

lemma own_inv_release:
  assumes "own_inv s" and "i \<in> objs s"
  shows "own_inv (abs_release i s)"
  using assms own_inv_own_sub [OF assms(1), of i]
  by (auto simp: own_inv_def abs_release_def ran_drop intro: inj_map_drop)

lemma own_inv_adopt:
  assumes "own_inv s" and "i \<notin> objs s" and "set_option r \<subseteq> escaped s"
  shows "own_inv (abs_adopt i r s)"
proof -
  have "set_option r \<inter> ran (own s) = {}" using assms(1,3) by (auto simp: own_inv_def)
  with assms own_inv_fresh_obj [OF assms(1,2)] show ?thesis
    by (auto simp: own_inv_def abs_adopt_def ran_upd_fresh intro: inj_map_upd)
qed

lemma own_inv_open:
  assumes "own_inv s" and "set_option r \<inter> live s = {}"
  shows "own_inv (abs_open r s)"
  using assms by (auto simp: own_inv_def abs_open_def)

lemma own_inv_close:
  assumes "own_inv s" and "r \<in> escaped s"
  shows "own_inv (abs_close r s)"
  using assms by (auto simp: own_inv_def abs_close_def)

lemma own_inv_no_objs: "own_inv s \<Longrightarrow> objs s = {} \<Longrightarrow> live s = escaped s"
  by (auto simp: own_inv_def)

subsection \<open>Programs over objects\<close>

text \<open>
  What an operation that may throw did: it returned, or threw and left the state as given.
\<close>

datatype 's outcome = Returns 's | Throws 's

fun end_state :: "'s outcome \<Rightarrow> 's" where
  "end_state (Returns s) = s"
| "end_state (Throws s) = s"

text \<open>
  A client: a sequence of constructions, moves, destructions and other member calls
  (\<open>Use b\<close>) on objects named by numbers. C++ scoping guarantees that an object is constructed
  once, used while alive and destroyed once; \<open>legal\<close> is that guarantee. \<open>born a\<close> says whether
  a constructor with argument \<open>a\<close> returns: an object whose constructor threw never lived.
  \<open>pre b\<close> and \<open>post b\<close> say which objects a member call needs alive and which are alive after it.
\<close>

datatype ('a, 'b) obj_op =
    Construct obj 'a
  | MoveConstruct obj obj
  | MoveAssign obj obj
  | Destroy obj
  | Use 'b

fun op_legal :: "('b \<Rightarrow> obj set \<Rightarrow> bool) \<Rightarrow> ('a, 'b) obj_op \<Rightarrow> obj set \<Rightarrow> bool" where
  "op_legal pre (Construct i a) A = (i \<notin> A)"
| "op_legal pre (MoveConstruct i j) A = (i \<notin> A \<and> j \<in> A)"
| "op_legal pre (MoveAssign i j) A = (i \<in> A \<and> j \<in> A)"
| "op_legal pre (Destroy i) A = (i \<in> A)"
| "op_legal pre (Use b) A = pre b A"

fun op_alive :: "('a \<Rightarrow> bool) \<Rightarrow> ('b \<Rightarrow> obj set \<Rightarrow> obj set) \<Rightarrow> ('a, 'b) obj_op \<Rightarrow> obj set \<Rightarrow> obj set" where
  "op_alive born post (Construct i a) A = (if born a then insert i A else A)"
| "op_alive born post (MoveConstruct i j) A = insert i A"
| "op_alive born post (MoveAssign i j) A = A"
| "op_alive born post (Destroy i) A = A - {i}"
| "op_alive born post (Use b) A = post b A"

fun legal :: "('a \<Rightarrow> bool) \<Rightarrow> ('b \<Rightarrow> obj set \<Rightarrow> bool) \<Rightarrow> ('b \<Rightarrow> obj set \<Rightarrow> obj set) \<Rightarrow>
    obj set \<Rightarrow> ('a, 'b) obj_op list \<Rightarrow> bool" where
  "legal born pre post A [] = True"
| "legal born pre post A (x # ops) =
     (op_legal pre x A \<and> legal born pre post (op_alive born post x A) ops)"

fun alive_after :: "('a \<Rightarrow> bool) \<Rightarrow> ('b \<Rightarrow> obj set \<Rightarrow> obj set) \<Rightarrow> obj set \<Rightarrow>
    ('a, 'b) obj_op list \<Rightarrow> obj set" where
  "alive_after born post A [] = A"
| "alive_after born post A (x # ops) = alive_after born post (op_alive born post x A) ops"

text \<open>
  The program runner, over the operations of a class and its state. The client catches an
  exception where it is thrown and goes on; moves and destructors are \<open>noexcept\<close>.
\<close>

fun exec_op :: "(obj \<Rightarrow> 'a \<Rightarrow> 's \<Rightarrow> 's outcome res) \<Rightarrow> (obj \<Rightarrow> obj \<Rightarrow> 's \<Rightarrow> 's res) \<Rightarrow>
    (obj \<Rightarrow> obj \<Rightarrow> 's \<Rightarrow> 's res) \<Rightarrow> (obj \<Rightarrow> 's \<Rightarrow> 's res) \<Rightarrow> ('b \<Rightarrow> 's \<Rightarrow> 's outcome res) \<Rightarrow>
    ('a, 'b) obj_op \<Rightarrow> 's \<Rightarrow> 's res" where
  "exec_op ctor mctor massign dtor use (Construct i a) s = rbind (ctor i a s) (\<lambda>out. Inr (end_state out))"
| "exec_op ctor mctor massign dtor use (MoveConstruct i j) s = mctor i j s"
| "exec_op ctor mctor massign dtor use (MoveAssign i j) s = massign i j s"
| "exec_op ctor mctor massign dtor use (Destroy i) s = dtor i s"
| "exec_op ctor mctor massign dtor use (Use b) s = rbind (use b s) (\<lambda>out. Inr (end_state out))"

fun exec_prog :: "(obj \<Rightarrow> 'a \<Rightarrow> 's \<Rightarrow> 's outcome res) \<Rightarrow> (obj \<Rightarrow> obj \<Rightarrow> 's \<Rightarrow> 's res) \<Rightarrow>
    (obj \<Rightarrow> obj \<Rightarrow> 's \<Rightarrow> 's res) \<Rightarrow> (obj \<Rightarrow> 's \<Rightarrow> 's res) \<Rightarrow> ('b \<Rightarrow> 's \<Rightarrow> 's outcome res) \<Rightarrow>
    ('a, 'b) obj_op list \<Rightarrow> 's \<Rightarrow> 's res" where
  "exec_prog ctor mctor massign dtor use [] s = Inr s"
| "exec_prog ctor mctor massign dtor use (x # ops) s =
     rbind (exec_op ctor mctor massign dtor use x s) (exec_prog ctor mctor massign dtor use ops)"

subsection \<open>The interface of an owning class\<close>

text \<open>
  \<open>absS\<close> reads the ownership state off the class's own state; \<open>wf s n\<close> is the class's
  invariant together with room for \<open>n\<close> more operations (a class that counts its operations
  in an \<open>int\<close> can do finitely many). The laws: within its guard every operation comes back, it
  does on ownership what the abstract machine does, and it keeps the invariant; a constructor
  that throws leaves ownership as it was.
\<close>

locale raii_owner =
  fixes absS :: "'s \<Rightarrow> 'r ostate"
    and wf :: "'s \<Rightarrow> nat \<Rightarrow> bool"
    and born :: "'a \<Rightarrow> bool"
    and ctor :: "obj \<Rightarrow> 'a \<Rightarrow> 's \<Rightarrow> 's outcome res"
    and mctor :: "obj \<Rightarrow> obj \<Rightarrow> 's \<Rightarrow> 's res"
    and massign :: "obj \<Rightarrow> obj \<Rightarrow> 's \<Rightarrow> 's res"
    and dtor :: "obj \<Rightarrow> 's \<Rightarrow> 's res"
    and use :: "'b \<Rightarrow> 's \<Rightarrow> 's outcome res"
    and pre :: "'b \<Rightarrow> obj set \<Rightarrow> bool"
    and post :: "'b \<Rightarrow> obj set \<Rightarrow> obj set"
  assumes ctor_ok: "wf s (Suc n) \<Longrightarrow> own_inv (absS s) \<Longrightarrow> i \<notin> objs (absS s) \<Longrightarrow> born a \<Longrightarrow>
      \<exists>s' r. ctor i a s = Inr (Returns s') \<and> wf s' n \<and> absS s' = abs_acquire i r (absS s) \<and>
        set_option r \<inter> live (absS s) = {}"
    and ctor_throws: "wf s (Suc n) \<Longrightarrow> own_inv (absS s) \<Longrightarrow> i \<notin> objs (absS s) \<Longrightarrow> \<not> born a \<Longrightarrow>
      \<exists>s'. ctor i a s = Inr (Throws s') \<and> wf s' n \<and> absS s' = absS s"
    and mctor_ok: "wf s (Suc n) \<Longrightarrow> own_inv (absS s) \<Longrightarrow> i \<notin> objs (absS s) \<Longrightarrow>
      j \<in> objs (absS s) \<Longrightarrow>
      \<exists>s'. mctor i j s = Inr s' \<and> wf s' n \<and> absS s' = abs_move_construct i j (absS s)"
    and massign_ok: "wf s (Suc n) \<Longrightarrow> own_inv (absS s) \<Longrightarrow> i \<in> objs (absS s) \<Longrightarrow>
      j \<in> objs (absS s) \<Longrightarrow>
      \<exists>s'. massign i j s = Inr s' \<and> wf s' n \<and> absS s' = abs_move_assign i j (absS s)"
    and dtor_ok: "wf s (Suc n) \<Longrightarrow> own_inv (absS s) \<Longrightarrow> i \<in> objs (absS s) \<Longrightarrow>
      \<exists>s'. dtor i s = Inr s' \<and> wf s' n \<and> absS s' = abs_destroy i (absS s)"
    and use_ok: "wf s (Suc n) \<Longrightarrow> own_inv (absS s) \<Longrightarrow> pre b (objs (absS s)) \<Longrightarrow>
      \<exists>out. use b s = Inr out \<and> wf (end_state out) n \<and> own_inv (absS (end_state out)) \<and>
        objs (absS (end_state out)) = post b (objs (absS s)) \<and>
        escaped (absS (end_state out)) = escaped (absS s)"
begin

lemma step_safe:
  assumes "wf s (Suc n)" and "own_inv (absS s)" and "op_legal pre x (objs (absS s))"
  shows "\<exists>s'. exec_op ctor mctor massign dtor use x s = Inr s' \<and> wf s' n \<and> own_inv (absS s') \<and>
    objs (absS s') = op_alive born post x (objs (absS s)) \<and> escaped (absS s') = escaped (absS s)"
proof (cases x)
  case (Construct i a)
  show ?thesis
  proof (cases "born a")
    case True
    with Construct assms obtain s' r where "ctor i a s = Inr (Returns s')" "wf s' n"
      "absS s' = abs_acquire i r (absS s)" "set_option r \<inter> live (absS s) = {}"
      using ctor_ok [of s n i a] by auto
    with True Construct assms own_inv_acquire [of "absS s" i r] show ?thesis
      by (auto simp: abs_acquire_def)
  next
    case False
    with Construct assms ctor_throws [of s n i a] show ?thesis by auto
  qed
next
  case (MoveConstruct i j)
  with assms obtain s' where "mctor i j s = Inr s'" "wf s' n"
    "absS s' = abs_move_construct i j (absS s)"
    using mctor_ok [of s n i j] by auto
  with MoveConstruct assms own_inv_move_construct [of "absS s" i j] show ?thesis
    by (auto simp: abs_move_construct_def)
next
  case (MoveAssign i j)
  with assms obtain s' where "massign i j s = Inr s'" "wf s' n"
    "absS s' = abs_move_assign i j (absS s)"
    using massign_ok [of s n i j] by auto
  with MoveAssign assms own_inv_move_assign [of "absS s" i j] show ?thesis
    by (auto simp: abs_move_assign_def)
next
  case (Destroy i)
  with assms obtain s' where "dtor i s = Inr s'" "wf s' n" "absS s' = abs_destroy i (absS s)"
    using dtor_ok [of s n i] by auto
  with Destroy assms own_inv_destroy [of "absS s" i] show ?thesis
    by (auto simp: abs_destroy_def)
next
  case (Use b)
  with assms use_ok [of s n b] show ?thesis by auto
qed

text \<open>
  Every legal program runs to its end without a fault, and leaves every live resource with
  exactly one owner or among those no object answers for.
\<close>

lemma run_keeps:
  assumes "wf s (length ops + n)" and "own_inv (absS s)" and "legal born pre post (objs (absS s)) ops"
  shows "\<exists>s'. exec_prog ctor mctor massign dtor use ops s = Inr s' \<and> own_inv (absS s') \<and>
    wf s' n \<and> objs (absS s') = alive_after born post (objs (absS s)) ops \<and>
    escaped (absS s') = escaped (absS s)"
  using assms
proof (induction ops arbitrary: s)
  case Nil
  then show ?case by simp
next
  case (Cons x ops)
  from Cons.prems obtain t where t: "exec_op ctor mctor massign dtor use x s = Inr t"
    "wf t (length ops + n)" "own_inv (absS t)"
    "objs (absS t) = op_alive born post x (objs (absS s))" "escaped (absS t) = escaped (absS s)"
    using step_safe [of s "length ops + n" x] by auto
  moreover from t(4) Cons.prems(3) have "legal born pre post (objs (absS t)) ops" by simp
  ultimately show ?case using Cons.IH [OF t(2,3)] by auto
qed

lemmas run_safe = run_keeps [where n = 0, simplified]

text \<open>A program that destroys what it constructs leaks nothing and releases nothing foreign.\<close>

lemma run_no_leak:
  assumes "wf s (length ops)" and "own_inv (absS s)" and "legal born pre post (objs (absS s)) ops"
    and "alive_after born post (objs (absS s)) ops = {}"
  shows "\<exists>s'. exec_prog ctor mctor massign dtor use ops s = Inr s' \<and>
    wf s' 0 \<and> objs (absS s') = {} \<and> live (absS s') = escaped (absS s)"
  using run_safe [OF assms(1-3)] assms(4) own_inv_no_objs by metis

end

end
