(* ===== verification/Heap_Owner.thy ===== *)
theory Heap_Owner
  imports Ownership_Spec
begin

section \<open>Owners of heap blocks\<close>

text \<open>
  What the two buffer classes share: their objects own the block their data pointer points
  to. \<open>habs dat h st\<close> is the ownership state of a heap \<open>h\<close> and a store \<open>st\<close> of objects whose
  data pointer is selected by \<open>dat\<close>; the lemmas say how the heap operations and the pointer
  assignments of the classes act on it.
\<close>

definition hown :: "('x \<Rightarrow> ptr) \<Rightarrow> (obj \<rightharpoonup> 'x) \<Rightarrow> obj \<rightharpoonup> addr" where
  "hown dat st i = Option.bind (st i) dat"

definition habs :: "('x \<Rightarrow> ptr) \<Rightarrow> 'a heap \<Rightarrow> (obj \<rightharpoonup> 'x) \<Rightarrow> addr ostate" where
  "habs dat h st =
     \<lparr>objs = dom st, own = hown dat st, live = dom (blocks h),
      escaped = dom (blocks h) - ran (hown dat st)\<rparr>"

lemma habs_sel [simp]:
  "objs (habs dat h st) = dom st" "own (habs dat h st) = hown dat st"
  "live (habs dat h st) = dom (blocks h)"
  "escaped (habs dat h st) = dom (blocks h) - ran (hown dat st)"
  by (simp_all add: habs_def)

lemma hown_dead: "i \<notin> dom st \<Longrightarrow> hown dat st i = None"
  by (auto simp: hown_def domIff)

lemma hown_at: "st i = Some x \<Longrightarrow> hown dat st i = dat x"
  by (simp add: hown_def)

lemma hown_upd: "hown dat (st(i \<mapsto> x)) = (hown dat st)(i := dat x)"
  by (auto simp: hown_def)

lemma hown_del: "hown dat (st(i := None)) = (hown dat st)(i := None)"
  by (auto simp: hown_def)

lemma hown_init [simp]: "hown dat Map.empty = Map.empty"
  by (rule ext) (simp add: hown_def)

lemma own_inv_habs_init: "own_inv (habs dat h Map.empty)"
  by (simp add: own_inv_def inj_map_def)

lemma habs_inj: "own_inv (habs dat h st) \<Longrightarrow> inj_map (hown dat st)"
  by (simp add: own_inv_def)

lemma habs_block:
  assumes "own_inv (habs dat h st)" and "st i = Some x" and "dat x = Some a"
  shows "\<exists>xs. blocks h a = Some xs"
proof -
  have "own (habs dat h st) i = Some a" using assms(2,3) by (simp add: hown_at)
  then have "a \<in> live (habs dat h st)" by (rule own_inv_live [OF assms(1)])
  then show ?thesis by auto
qed

lemma habs_ran: "own_inv (habs dat h st) \<Longrightarrow> ran (hown dat st) \<subseteq> dom (blocks h)"
  by (auto simp: own_inv_def)

lemma habs_eqI:
  assumes "dom st' = objs t" and "hown dat st' = own t"
    and "dom (blocks h') = live t" and "dom (blocks h') - ran (hown dat st') = escaped t"
  shows "habs dat h' st' = (t :: addr ostate)"
  using assms by (intro ostate.equality) simp_all

lemma habs_alloc:
  assumes "heap_ok h" and "own_inv (habs dat h st)" and "i \<notin> dom st" and "dat x = Some (brk h)"
    and "blocks h' = (blocks h)(brk h \<mapsto> xs)"
  shows "habs dat h' (st(i \<mapsto> x)) = abs_acquire i (Some (brk h)) (habs dat h st)"
    and "set_option (Some (brk h)) \<inter> live (habs dat h st) = {}"
proof -
  have fresh: "brk h \<notin> dom (blocks h)" using heap_ok_fresh [OF assms(1)] by auto
  then show "set_option (Some (brk h)) \<inter> live (habs dat h st) = {}" by simp
  have "ran ((hown dat st)(i := Some (brk h))) = insert (brk h) (ran (hown dat st))"
    using ran_upd_fresh [of "hown dat st" i "Some (brk h)"] hown_dead [OF assms(3), of dat] by simp
  then show "habs dat h' (st(i \<mapsto> x)) = abs_acquire i (Some (brk h)) (habs dat h st)"
    using assms(3-5) fresh habs_ran [OF assms(2)]
    by (intro habs_eqI) (auto simp: abs_acquire_def hown_upd)
qed

lemma habs_move_construct:
  assumes "own_inv (habs dat h st)" and "i \<notin> dom st" and "st j = Some y"
    and "dat x' = dat y" and "dat y' = None"
  shows "habs dat h (st(i \<mapsto> x', j \<mapsto> y')) = abs_move_construct i j (habs dat h st)"
proof -
  have ij: "i \<noteq> j" "hown dat st i = None" using assms(2,3) by (auto simp: hown_dead)
  have "hown dat (st(i \<mapsto> x', j \<mapsto> y')) = (hown dat st)(i := hown dat st j, j := None)"
    using assms(3-5) by (simp add: hown_upd hown_at)
  then show ?thesis
    using assms(3) ran_move [OF habs_inj [OF assms(1)], of i j] ij
    by (intro habs_eqI) (auto simp: abs_move_construct_def)
qed

lemma habs_free:
  assumes "own_inv (habs dat h st)" and "st i = Some x"
  shows "\<exists>h'. hfree (dat x) h = Inr h' \<and> dom (blocks h') = dom (blocks h) - set_option (hown dat st i) \<and>
    brk h' = brk h \<and> (\<forall>a. hown dat st i \<noteq> Some a \<longrightarrow> blocks h' a = blocks h a)"
proof (cases "dat x")
  case None
  with assms(2) show ?thesis by (simp add: hown_at)
next
  case (Some a)
  with habs_block [OF assms Some] assms(2) show ?thesis
    by (auto simp: hfree_Some hown_at)
qed

lemma habs_move_assign:
  assumes "own_inv (habs dat h st)" and "dom st' = dom st"
    and "hown dat st' = (hown dat st)(i := hown dat st j, j := None)"
    and "dom (blocks h') = dom (blocks h) - set_option (hown dat st i)"
  shows "habs dat h' st' = abs_move_assign i j (habs dat h st)"
  using assms(2-4) ran_move [OF habs_inj [OF assms(1)], of i j]
  by (intro habs_eqI) (auto simp: abs_move_assign_def ran_def)

lemma habs_destroy:
  assumes "own_inv (habs dat h st)"
    and "dom (blocks h') = dom (blocks h) - set_option (hown dat st i)"
  shows "habs dat h' (st(i := None)) = abs_destroy i (habs dat h st)"
  using assms(2) ran_drop [OF habs_inj [OF assms(1)], of i]
  by (intro habs_eqI) (auto simp: abs_destroy_def hown_del ran_def)

text \<open>Replacing the block of an object is a destruction followed by an acquisition.\<close>

lemma habs_replace:
  assumes "own_inv (habs dat h st)" and "heap_ok h" and "st i = Some x" and "dat x' = Some (brk h)"
    and "blocks h' = (blocks h1)(brk h \<mapsto> xs)"
    and "dom (blocks h1) = dom (blocks h) - set_option (hown dat st i)"
  shows "own_inv (habs dat h' (st(i \<mapsto> x')))"
    and "escaped (habs dat h' (st(i \<mapsto> x'))) = escaped (habs dat h st)"
proof -
  let ?t = "abs_acquire i (Some (brk h)) (abs_destroy i (habs dat h st))"
  have fresh: "brk h \<notin> dom (blocks h)" using heap_ok_fresh [OF assms(2)] by auto
  have "ran ((hown dat st)(i := Some (brk h))) = insert (brk h) (ran ((hown dat st)(i := None)))"
    using ran_upd_fresh [of "(hown dat st)(i := None)" i "Some (brk h)"] by simp
  moreover have "brk h \<notin> ran (hown dat st)" using fresh habs_ran [OF assms(1)] by auto
  ultimately have eq: "habs dat h' (st(i \<mapsto> x')) = ?t"
    using assms(3-6) fresh ran_drop [OF habs_inj [OF assms(1)], of i]
    by (intro habs_eqI) (auto simp: abs_acquire_def abs_destroy_def hown_upd ran_def)
  have "own_inv (abs_destroy i (habs dat h st))"
    using assms(1,3) by (intro own_inv_destroy) auto
  then have "own_inv ?t"
    using fresh by (intro own_inv_acquire) (auto simp: abs_destroy_def)
  with eq show "own_inv (habs dat h' (st(i \<mapsto> x')))" by simp
  have "escaped ?t = escaped (habs dat h st)" by (simp add: abs_acquire_def abs_destroy_def)
  with eq show "escaped (habs dat h' (st(i \<mapsto> x'))) = escaped (habs dat h st)" by metis
qed

end
