(* ===== verification/Ownership.thy ===== *)
theory Ownership
  imports Heap_Owner
begin

section \<open>RAII wrappers: ScopedFd, UniqueBuffer, ScopeGuard\<close>

text \<open>
  Model of \<open>02-modern-cpp/exercises/ex1-raii-ownership/ownership.hpp\<close>. Objects live in a
  store, so that the two operands of a move assignment may be the same object. \<open>ScopedFd\<close>
  wraps any \<open>int\<close> it is given and acts on the descriptor table of the process. The kernel is not
  part of the program: its answer to \<open>open\<close> is an argument (\<open>-1\<close>, or a descriptor that POSIX
  promises not to be open), and \<open>close\<close> of a descriptor that is not open is the error EBADF,
  which is counted here. \<open>UniqueBuffer\<close> acts on the free store; its constructor takes the outcome
  of \<open>new T[n]\<close>, whose elements are indeterminate, \<open>None\<close> here, until they are written.
\<close>

subsection \<open>The descriptor table\<close>

record kernel =
  ftab :: "int list"
  ebadf :: nat

definition sys_open :: "int \<Rightarrow> kernel \<Rightarrow> kernel" where
  "sys_open fd k = (if fd = -1 then k else k\<lparr>ftab := fd # ftab k\<rparr>)"

definition sys_close :: "int \<Rightarrow> kernel \<Rightarrow> kernel" where
  "sys_close fd k =
     (if fd \<in> set (ftab k) then k\<lparr>ftab := removeAll fd (ftab k)\<rparr> else k\<lparr>ebadf := Suc (ebadf k)\<rparr>)"

subsection \<open>ScopedFd\<close>

record scoped_fd =
  fdm :: int

definition ScopedFd :: "int \<Rightarrow> scoped_fd" where
  "ScopedFd fd = \<lparr>fdm = fd\<rparr>"

definition fd_get :: "scoped_fd \<Rightarrow> int" where
  "fd_get x = fdm x"

definition fd_valid :: "scoped_fd \<Rightarrow> bool" where
  "fd_valid x \<longleftrightarrow> fdm x \<noteq> -1"

definition fd_release :: "scoped_fd \<Rightarrow> int \<times> scoped_fd" where
  "fd_release x = (if fd_valid x then (fdm x, x\<lparr>fdm := -1\<rparr>) else (-1, x))"

definition fd_dtor :: "scoped_fd \<Rightarrow> kernel \<Rightarrow> kernel" where
  "fd_dtor x k = (if fd_valid x then let (fd, x') = fd_release x in sys_close fd k else k)"

definition fd_move :: "scoped_fd \<Rightarrow> scoped_fd \<times> scoped_fd" where
  "fd_move other = (let this = ScopedFd (-1) in (this\<lparr>fdm := fdm other\<rparr>, other\<lparr>fdm := -1\<rparr>))"

text \<open>The objects of a program, and the operations on them.\<close>

record fd_state =
  kern :: kernel
  fdobjs :: "obj \<rightharpoonup> scoped_fd"

definition fd_construct :: "obj \<Rightarrow> int \<Rightarrow> fd_state \<Rightarrow> fd_state res" where
  "fd_construct i fd s = Inr (s\<lparr>fdobjs := (fdobjs s)(i \<mapsto> ScopedFd fd)\<rparr>)"

definition fd_move_construct :: "obj \<Rightarrow> obj \<Rightarrow> fd_state \<Rightarrow> fd_state res" where
  "fd_move_construct i j s =
     (case fdobjs s j of
        None \<Rightarrow> Inl DeadObject
      | Some other \<Rightarrow>
          (let (this, other') = fd_move other
           in Inr (s\<lparr>fdobjs := (fdobjs s)(i \<mapsto> this, j \<mapsto> other')\<rparr>)))"

definition fd_move_assign :: "obj \<Rightarrow> obj \<Rightarrow> fd_state \<Rightarrow> fd_state res" where
  "fd_move_assign i j s =
     (case fdobjs s i of
        None \<Rightarrow> Inl DeadObject
      | Some this \<Rightarrow>
          (case fdobjs s j of
             None \<Rightarrow> Inl DeadObject
           | Some other \<Rightarrow>
               (let k = (if fd_valid this then sys_close (fdm this) (kern s) else kern s);
                    st = (fdobjs s)(i \<mapsto> this\<lparr>fdm := fdm other\<rparr>);
                    st' = st(j \<mapsto> (the (st j))\<lparr>fdm := -1\<rparr>)
                in Inr (s\<lparr>kern := k, fdobjs := st'\<rparr>))))"

definition fd_destroy :: "obj \<Rightarrow> fd_state \<Rightarrow> fd_state res" where
  "fd_destroy i s =
     (case fdobjs s i of
        None \<Rightarrow> Inl DeadObject
      | Some this \<Rightarrow> Inr (s\<lparr>kern := fd_dtor this (kern s), fdobjs := (fdobjs s)(i := None)\<rparr>))"

definition fd_release_obj :: "obj \<Rightarrow> fd_state \<Rightarrow> fd_state res" where
  "fd_release_obj i s =
     (case fdobjs s i of
        None \<Rightarrow> Inl DeadObject
      | Some this \<Rightarrow> Inr (s\<lparr>fdobjs := (fdobjs s)(i \<mapsto> snd (fd_release this))\<rparr>))"

text \<open>
  Programs over the objects: besides the operations on them, the client opens descriptors (the
  argument is the kernel's answer), closes a descriptor it holds itself, and releases an object.
\<close>

datatype fd_call = FdOpen int | FdClose int | FdRelease obj

fun fd_use :: "fd_call \<Rightarrow> fd_state \<Rightarrow> fd_state res" where
  "fd_use (FdOpen fd) s = Inr (s\<lparr>kern := sys_open fd (kern s)\<rparr>)"
| "fd_use (FdClose fd) s = Inr (s\<lparr>kern := sys_close fd (kern s)\<rparr>)"
| "fd_use (FdRelease i) s = fd_release_obj i s"

fun fd_step :: "(int, fd_call) obj_op \<Rightarrow> fd_state \<Rightarrow> fd_state res" where
  "fd_step (Construct i fd) s = fd_construct i fd s"
| "fd_step (MoveConstruct i j) s = fd_move_construct i j s"
| "fd_step (MoveAssign i j) s = fd_move_assign i j s"
| "fd_step (Destroy i) s = fd_destroy i s"
| "fd_step (Use b) s = fd_use b s"

fun fd_prog :: "(int, fd_call) obj_op list \<Rightarrow> fd_state \<Rightarrow> fd_state res" where
  "fd_prog [] s = Inr s"
| "fd_prog (x # ops) s = rbind (fd_step x s) (fd_prog ops)"

text \<open>
  The contract of the client and the kernel, as the abstract machine they drive. An object is
  constructed while it does not live, from \<open>-1\<close> or from an open descriptor no object owns; the
  other operations use living objects; the kernel answers \<open>open\<close> with \<open>-1\<close> or with a
  descriptor, not negative, that is not open; the client itself closes only open descriptors no
  object owns. Outside the contract the machine stops.
\<close>

definition fd_res :: "int \<Rightarrow> int option" where
  "fd_res fd = (if fd = -1 then None else Some fd)"

fun owner_step :: "(int, fd_call) obj_op \<Rightarrow> int ostate \<Rightarrow> int ostate option" where
  "owner_step (Construct i fd) a =
     (if i \<notin> objs a \<and> (fd = -1 \<or> fd \<in> escaped a) then Some (abs_adopt i (fd_res fd) a) else None)"
| "owner_step (MoveConstruct i j) a =
     (if i \<notin> objs a \<and> j \<in> objs a then Some (abs_move_construct i j a) else None)"
| "owner_step (MoveAssign i j) a =
     (if i \<in> objs a \<and> j \<in> objs a then Some (abs_move_assign i j a) else None)"
| "owner_step (Destroy i) a = (if i \<in> objs a then Some (abs_destroy i a) else None)"
| "owner_step (Use (FdOpen fd)) a =
     (if fd = -1 \<or> 0 \<le> fd \<and> fd \<notin> live a then Some (abs_open (fd_res fd) a) else None)"
| "owner_step (Use (FdClose fd)) a = (if fd \<in> escaped a then Some (abs_close fd a) else None)"
| "owner_step (Use (FdRelease i)) a = (if i \<in> objs a then Some (abs_release i a) else None)"

fun owner_run :: "(int, fd_call) obj_op list \<Rightarrow> int ostate \<Rightarrow> int ostate option" where
  "owner_run [] a = Some a"
| "owner_run (x # ops) a = (case owner_step x a of None \<Rightarrow> None | Some b \<Rightarrow> owner_run ops b)"

definition owner_start :: "kernel \<Rightarrow> int ostate" where
  "owner_start k = \<lparr>objs = {}, own = Map.empty, live = set (ftab k), escaped = set (ftab k)\<rparr>"

text \<open>The open descriptors a client without \<open>release\<close> answers for itself.\<close>

fun raw_after :: "(int, fd_call) obj_op list \<Rightarrow> int set \<Rightarrow> int set" where
  "raw_after [] R = R"
| "raw_after (Construct i fd # ops) R = raw_after ops (R - set_option (fd_res fd))"
| "raw_after (Use (FdOpen fd) # ops) R = raw_after ops (set_option (fd_res fd) \<union> R)"
| "raw_after (Use (FdClose fd) # ops) R = raw_after ops (R - {fd})"
| "raw_after (x # ops) R = raw_after ops R"

fun releases :: "(int, fd_call) obj_op \<Rightarrow> bool" where
  "releases (Use (FdRelease i)) = True"
| "releases x = False"

text \<open>What the store says about ownership.\<close>

definition fd_own :: "fd_state \<Rightarrow> obj \<rightharpoonup> int" where
  "fd_own s i =
     (case fdobjs s i of None \<Rightarrow> None | Some x \<Rightarrow> if fd_valid x then Some (fdm x) else None)"

definition fd_abs :: "fd_state \<Rightarrow> int ostate" where
  "fd_abs s =
     \<lparr>objs = dom (fdobjs s), own = fd_own s, live = set (ftab (kern s)),
      escaped = set (ftab (kern s)) - ran (fd_own s)\<rparr>"

lemmas fd_defs = ScopedFd_def fd_get_def fd_valid_def fd_release_def fd_dtor_def fd_move_def
lemmas fd_ops = fd_construct_def fd_move_construct_def fd_move_assign_def fd_destroy_def

lemma fd_abs_sel [simp]:
  "objs (fd_abs s) = dom (fdobjs s)" "own (fd_abs s) = fd_own s"
  "live (fd_abs s) = set (ftab (kern s))"
  "escaped (fd_abs s) = set (ftab (kern s)) - ran (fd_own s)"
  by (simp_all add: fd_abs_def)

lemma fd_own_dead: "i \<notin> dom (fdobjs s) \<Longrightarrow> fd_own s i = None"
  by (simp add: fd_own_def domIff)

lemma own_inv_fd_inj: "own_inv (fd_abs s) \<Longrightarrow> inj_map (fd_own s)"
  by (simp add: own_inv_def)

lemma own_inv_fd_open: "own_inv (fd_abs s) \<Longrightarrow> fd_own s i = Some fd \<Longrightarrow> fd \<in> set (ftab (kern s))"
  using own_inv_live [of "fd_abs s"] by simp

lemma fd_abs_eqI:
  assumes "objs (fd_abs s) = objs t" and "fd_own s = own t"
    and "set (ftab (kern s)) = live t" and "set (ftab (kern s)) - ran (fd_own s) = escaped t"
  shows "fd_abs s = (t :: int ostate)"
  using assms by (intro ostate.equality) simp_all

lemma fd_construct_ok:
  assumes "own_inv (fd_abs s)" and "i \<notin> objs (fd_abs s)" and "fd = -1 \<or> fd \<in> escaped (fd_abs s)"
  shows "\<exists>s'. fd_construct i fd s = Inr s' \<and> ebadf (kern s') = ebadf (kern s) \<and>
    fd_abs s' = abs_adopt i (fd_res fd) (fd_abs s)"
proof -
  let ?s' = "s\<lparr>fdobjs := (fdobjs s)(i \<mapsto> ScopedFd fd)\<rparr>"
  have own: "fd_own ?s' = (fd_own s)(i := fd_res fd)"
    by (auto simp: fd_own_def fd_defs fd_res_def)
  have "fd_abs ?s' = abs_adopt i (fd_res fd) (fd_abs s)"
    using own ran_upd_fresh [of "fd_own s" i "fd_res fd"] fd_own_dead [of i s] assms(2)
    by (intro fd_abs_eqI) (auto simp: abs_adopt_def)
  then show ?thesis by (simp add: fd_construct_def)
qed

lemma fd_move_construct_ok:
  assumes "own_inv (fd_abs s)"
    and "i \<notin> objs (fd_abs s)" and "j \<in> objs (fd_abs s)"
  shows "\<exists>s'. fd_move_construct i j s = Inr s' \<and> ebadf (kern s') = ebadf (kern s) \<and>
    fd_abs s' = abs_move_construct i j (fd_abs s)"
proof -
  from assms(3) obtain x where x: "fdobjs s j = Some x" by auto
  let ?s' = "s\<lparr>fdobjs := (fdobjs s)(i \<mapsto> fst (fd_move x), j \<mapsto> snd (fd_move x))\<rparr>"
  have "i \<noteq> j" "fd_own s i = None" using assms(2) x by (auto simp: fd_own_dead)
  then have own: "fd_own ?s' = (fd_own s)(i := fd_own s j, j := None)"
    using x by (auto simp: fd_own_def fd_defs Let_def)
  then have "fd_abs ?s' = abs_move_construct i j (fd_abs s)"
    using x ran_move [OF own_inv_fd_inj [OF assms(1)], of i j] \<open>fd_own s i = None\<close>
    by (intro fd_abs_eqI) (auto simp: abs_move_construct_def)
  with x show ?thesis
    by (simp add: fd_move_construct_def case_prod_beta)
qed

lemma sys_close_open:
  "fd \<in> set (ftab k) \<Longrightarrow> set (ftab (sys_close fd k)) = set (ftab k) - {fd} \<and> ebadf (sys_close fd k) = ebadf k"
  by (simp add: sys_close_def)

lemma close_owned:
  assumes "own_inv (fd_abs s)" and "fdobjs s i = Some x"
    and "k = (if fd_valid x then sys_close (fdm x) (kern s) else kern s)"
  shows "set (ftab k) = set (ftab (kern s)) - set_option (fd_own s i)" and "ebadf k = ebadf (kern s)"
proof -
  have "set (ftab k) = set (ftab (kern s)) - set_option (fd_own s i) \<and> ebadf k = ebadf (kern s)"
  proof (cases "fd_valid x")
    case True
    then have "fd_own s i = Some (fdm x)" using assms(2) by (simp add: fd_own_def)
    with True assms(3) own_inv_fd_open [OF assms(1)] sys_close_open show ?thesis by simp
  next
    case False
    with assms(2,3) show ?thesis by (simp add: fd_own_def)
  qed
  then show "set (ftab k) = set (ftab (kern s)) - set_option (fd_own s i)"
    and "ebadf k = ebadf (kern s)" by simp_all
qed

lemma fd_move_assign_ok:
  assumes "own_inv (fd_abs s)"
    and "i \<in> objs (fd_abs s)" and "j \<in> objs (fd_abs s)"
  shows "\<exists>s'. fd_move_assign i j s = Inr s' \<and> ebadf (kern s') = ebadf (kern s) \<and>
    fd_abs s' = abs_move_assign i j (fd_abs s)"
proof -
  from assms(2,3) obtain x y where x: "fdobjs s i = Some x" "fdobjs s j = Some y" by auto
  then obtain s' where s': "fd_move_assign i j s = Inr s'"
    by (simp add: fd_move_assign_def Let_def)
  have own: "fd_own s' = (fd_own s)(i := fd_own s j, j := None)" "dom (fdobjs s') = dom (fdobjs s)"
    using x s' by (auto simp: fd_own_def fd_defs fd_move_assign_def Let_def split: if_splits)
  have "kern s' = (if fd_valid x then sys_close (fdm x) (kern s) else kern s)"
    using x s' by (auto simp: fd_move_assign_def Let_def)
  note k = close_owned [OF assms(1) x(1) this]
  have "fd_abs s' = abs_move_assign i j (fd_abs s)"
    using own k ran_move [OF own_inv_fd_inj [OF assms(1)], of i j]
    by (intro fd_abs_eqI) (auto simp: abs_move_assign_def ran_def)
  with s' k show ?thesis by simp
qed

lemma fd_destroy_ok:
  assumes "own_inv (fd_abs s)" and "i \<in> objs (fd_abs s)"
  shows "\<exists>s'. fd_destroy i s = Inr s' \<and> ebadf (kern s') = ebadf (kern s) \<and> fd_abs s' = abs_destroy i (fd_abs s)"
proof -
  from assms(2) obtain x where x: "fdobjs s i = Some x" by auto
  let ?s' = "s\<lparr>kern := fd_dtor x (kern s), fdobjs := (fdobjs s)(i := None)\<rparr>"
  have own: "fd_own ?s' = (fd_own s)(i := None)" by (auto simp: fd_own_def)
  have "fd_dtor x (kern s) = (if fd_valid x then sys_close (fdm x) (kern s) else kern s)"
    by (simp add: fd_dtor_def fd_release_def)
  note k = close_owned [OF assms(1) x this]
  have "fd_abs ?s' = abs_destroy i (fd_abs s)"
    using own k ran_drop [OF own_inv_fd_inj [OF assms(1)], of i]
    by (intro fd_abs_eqI) (auto simp: abs_destroy_def ran_def)
  with x k show ?thesis by (simp add: fd_destroy_def)
qed

lemma fd_release_ok:
  assumes "own_inv (fd_abs s)" and "i \<in> objs (fd_abs s)"
  shows "\<exists>s'. fd_release_obj i s = Inr s' \<and> ebadf (kern s') = ebadf (kern s) \<and> fd_abs s' = abs_release i (fd_abs s)"
proof -
  from assms(2) obtain x where x: "fdobjs s i = Some x" by auto
  let ?s' = "s\<lparr>fdobjs := (fdobjs s)(i \<mapsto> snd (fd_release x))\<rparr>"
  have own: "fd_own ?s' = (fd_own s)(i := None)" by (auto simp: fd_own_def fd_defs)
  have "set_option (fd_own s i) \<subseteq> set (ftab (kern s))"
    using own_inv_fd_open [OF assms(1), of i] by auto
  then have "fd_abs ?s' = abs_release i (fd_abs s)"
    using x own ran_drop [OF own_inv_fd_inj [OF assms(1)], of i]
    by (intro fd_abs_eqI) (auto simp: abs_release_def ran_def)
  with x show ?thesis by (simp add: fd_release_obj_def)
qed

text \<open>One step and one run of the objects and the descriptor table follow the abstract machine.\<close>

lemma fd_step_refines:
  assumes "own_inv (fd_abs s)" and "owner_step x (fd_abs s) = Some a"
  shows "\<exists>s'. fd_step x s = Inr s' \<and> ebadf (kern s') = ebadf (kern s) \<and> fd_abs s' = a \<and> own_inv a"
proof (cases x)
  case (Construct i fd)
  with assms have "i \<notin> objs (fd_abs s)" "fd = -1 \<or> fd \<in> escaped (fd_abs s)"
      "a = abs_adopt i (fd_res fd) (fd_abs s)"
    by (auto simp del: fd_abs_sel split: if_splits)
  moreover from this have "own_inv a"
    using own_inv_adopt [OF assms(1), of i "fd_res fd"] by (auto simp: fd_res_def simp del: fd_abs_sel)
  ultimately show ?thesis using Construct fd_construct_ok [OF assms(1), of i fd] by simp
next
  case (MoveConstruct i j)
  with assms have "i \<notin> objs (fd_abs s)" "j \<in> objs (fd_abs s)" "a = abs_move_construct i j (fd_abs s)"
    by (auto simp del: fd_abs_sel split: if_splits)
  with MoveConstruct fd_move_construct_ok [OF assms(1), of i j] own_inv_move_construct [OF assms(1), of i j]
  show ?thesis by simp
next
  case (MoveAssign i j)
  with assms have "i \<in> objs (fd_abs s)" "j \<in> objs (fd_abs s)" "a = abs_move_assign i j (fd_abs s)"
    by (auto simp del: fd_abs_sel split: if_splits)
  with MoveAssign fd_move_assign_ok [OF assms(1), of i j] own_inv_move_assign [OF assms(1), of i j]
  show ?thesis by simp
next
  case (Destroy i)
  with assms have "i \<in> objs (fd_abs s)" "a = abs_destroy i (fd_abs s)"
    by (auto simp del: fd_abs_sel split: if_splits)
  with Destroy fd_destroy_ok [OF assms(1), of i] own_inv_destroy [OF assms(1), of i]
  show ?thesis by simp
next
  case (Use b)
  then show ?thesis
  proof (cases b)
    case (FdOpen fd)
    with Use assms have fd: "fd = -1 \<or> 0 \<le> fd \<and> fd \<notin> live (fd_abs s)" "a = abs_open (fd_res fd) (fd_abs s)"
      by (auto simp del: fd_abs_sel split: if_splits)
    with own_inv_open [OF assms(1), of "fd_res fd"] have inv: "own_inv a"
      by (auto simp: fd_res_def simp del: fd_abs_sel)
    have "ran (fd_own s) \<subseteq> set (ftab (kern s))"
      using own_inv_fd_open [OF assms(1)] by (auto simp: ran_def)
    with fd have "fd_abs (s\<lparr>kern := sys_open fd (kern s)\<rparr>) = a"
      by (intro fd_abs_eqI) (auto simp: abs_open_def sys_open_def fd_res_def fd_own_def [abs_def])
    with Use FdOpen inv show ?thesis by (simp add: sys_open_def)
  next
    case (FdClose fd)
    with Use assms have fd: "fd \<in> escaped (fd_abs s)" "a = abs_close fd (fd_abs s)"
      by (auto simp del: fd_abs_sel split: if_splits)
    then have "fd_abs (s\<lparr>kern := sys_close fd (kern s)\<rparr>) = a"
      by (intro fd_abs_eqI) (auto simp: abs_close_def sys_close_def fd_own_def [abs_def])
    with Use FdClose fd own_inv_close [OF assms(1) fd(1)] show ?thesis by (simp add: sys_close_def)
  next
    case (FdRelease i)
    with Use assms have "i \<in> objs (fd_abs s)" "a = abs_release i (fd_abs s)"
      by (auto simp del: fd_abs_sel split: if_splits)
    with Use FdRelease fd_release_ok [OF assms(1), of i] own_inv_release [OF assms(1), of i]
    show ?thesis by simp
  qed
qed

lemma fd_prog_refines:
  assumes "own_inv (fd_abs s)" and "owner_run ops (fd_abs s) = Some a"
  shows "\<exists>s'. fd_prog ops s = Inr s' \<and> ebadf (kern s') = ebadf (kern s) \<and> fd_abs s' = a \<and> own_inv a"
  using assms
proof (induction ops arbitrary: s)
  case (Cons x ops)
  then obtain b where b: "owner_step x (fd_abs s) = Some b" "owner_run ops b = Some a"
    by (auto split: option.splits)
  obtain t where "fd_step x s = Inr t" "ebadf (kern t) = ebadf (kern s)" "fd_abs t = b" "own_inv b"
    using fd_step_refines [OF Cons.prems(1) b(1)] by blast
  with Cons.IH [of t] b(2) show ?case by auto
qed simp

lemma owner_step_raw:
  assumes "owner_step x a = Some c" and "\<not> releases x"
  shows "raw_after (x # ops) (escaped a) = raw_after ops (escaped c)"
proof (cases x)
  case (Use b)
  with assms show ?thesis
    by (cases b) (auto simp: abs_open_def abs_close_def split: if_splits)
qed (use assms in \<open>auto simp: abs_adopt_def abs_move_construct_def abs_move_assign_def
    abs_destroy_def split: if_splits\<close>)

lemma owner_run_raw:
  "owner_run ops a = Some b \<Longrightarrow> \<not> list_ex releases ops \<Longrightarrow> escaped b = raw_after ops (escaped a)"
proof (induction ops arbitrary: a)
  case (Cons x ops)
  then obtain c where "owner_step x a = Some c" "owner_run ops c = Some b" by (auto split: option.splits)
  moreover from this Cons have "escaped b = raw_after ops (escaped c)" by simp
  ultimately show ?case
    using Cons.prems(2) owner_step_raw [of x a c ops] by simp
qed simp

subsection \<open>UniqueBuffer\<close>

record unique_buffer =
  ub_data :: ptr
  ub_size :: nat

record 'a ub_state =
  uheap :: "'a option heap"
  uobjs :: "obj \<rightharpoonup> unique_buffer"

definition ub_construct :: "bool \<Rightarrow> obj \<Rightarrow> nat \<Rightarrow> 'a ub_state \<Rightarrow> 'a ub_state outcome res" where
  "ub_construct ok i n s =
     (let this = \<lparr>ub_data = None, ub_size = 0\<rparr>\<lparr>ub_size := n\<rparr>
      in if \<not> ok then Inr (Throws s)
         else let (a, h) = halloc (replicate n None) (uheap s)
              in Inr (Returns (s\<lparr>uheap := h, uobjs := (uobjs s)(i \<mapsto> this\<lparr>ub_data := Some a\<rparr>)\<rparr>)))"

definition ub_destroy :: "obj \<Rightarrow> 'a ub_state \<Rightarrow> 'a ub_state res" where
  "ub_destroy i s =
     (case uobjs s i of
        None \<Rightarrow> Inl DeadObject
      | Some this \<Rightarrow>
          rbind (hfree (ub_data this) (uheap s)) (\<lambda>h.
            Inr (s\<lparr>uheap := h, uobjs := (uobjs s)(i := None)\<rparr>)))"

definition ub_move_construct :: "obj \<Rightarrow> obj \<Rightarrow> 'a ub_state \<Rightarrow> 'a ub_state res" where
  "ub_move_construct i j s =
     (case uobjs s j of
        None \<Rightarrow> Inl DeadObject
      | Some other \<Rightarrow>
          (let this = \<lparr>ub_data = None, ub_size = 0\<rparr>
                        \<lparr>ub_size := ub_size other, ub_data := ub_data other\<rparr>
           in Inr (s\<lparr>uobjs := (uobjs s)(i \<mapsto> this, j \<mapsto> other\<lparr>ub_size := 0, ub_data := None\<rparr>)\<rparr>)))"

definition ub_move_assign :: "obj \<Rightarrow> obj \<Rightarrow> 'a ub_state \<Rightarrow> 'a ub_state res" where
  "ub_move_assign i j s =
     (case uobjs s i of
        None \<Rightarrow> Inl DeadObject
      | Some this \<Rightarrow>
          (case uobjs s j of
             None \<Rightarrow> Inl DeadObject
           | Some other \<Rightarrow>
               rbind (hfree (ub_data this) (uheap s)) (\<lambda>h.
                 let st = (uobjs s)(i \<mapsto> this\<lparr>ub_size := ub_size other, ub_data := ub_data other\<rparr>);
                     st' = st(j \<mapsto> (the (st j))\<lparr>ub_size := 0, ub_data := None\<rparr>)
                 in Inr (s\<lparr>uheap := h, uobjs := st'\<rparr>))))"

text \<open>Element access through \<open>operator[]\<close>: no bounds check of its own.\<close>

definition ub_read :: "obj \<Rightarrow> nat \<Rightarrow> 'a ub_state \<Rightarrow> 'a res" where
  "ub_read i k s =
     (case uobjs s i of
        None \<Rightarrow> Inl DeadObject
      | Some this \<Rightarrow>
          rbind (hread (ub_data this) k (uheap s)) (\<lambda>v.
            case v of None \<Rightarrow> Inl UninitRead | Some x \<Rightarrow> Inr x))"

definition ub_write :: "obj \<Rightarrow> nat \<Rightarrow> 'a \<Rightarrow> 'a ub_state \<Rightarrow> 'a ub_state res" where
  "ub_write i k v s =
     (case uobjs s i of
        None \<Rightarrow> Inl DeadObject
      | Some this \<Rightarrow>
          rbind (hwrite (ub_data this) k (Some v) (uheap s)) (\<lambda>h. Inr (s\<lparr>uheap := h\<rparr>)))"

definition ub_ctor :: "obj \<Rightarrow> bool \<times> nat \<Rightarrow> 'a ub_state \<Rightarrow> 'a ub_state outcome res" where
  "ub_ctor i a s = ub_construct (fst a) i (snd a) s"

text \<open>Programs: a construction carries the outcome of its \<open>new[]\<close>; there are no other calls.\<close>

definition ub_prog :: "(bool \<times> nat, unit) obj_op list \<Rightarrow> 'a ub_state \<Rightarrow> 'a ub_state res" where
  "ub_prog = exec_prog ub_ctor ub_move_construct ub_move_assign ub_destroy (\<lambda>_ s. Inr (Returns s))"

definition ub_abs :: "'a ub_state \<Rightarrow> addr ostate" where
  "ub_abs s = habs ub_data (uheap s) (uobjs s)"

definition ub_wf :: "'a ub_state \<Rightarrow> nat \<Rightarrow> bool" where
  "ub_wf s n \<longleftrightarrow> heap_ok (uheap s)"

lemma ub_ctor_ok:
  assumes "ub_wf s (Suc n)" and "own_inv (ub_abs s)" and "i \<notin> objs (ub_abs s)" and "fst a"
  shows "\<exists>s' r. ub_ctor i a s = Inr (Returns s') \<and> ub_wf s' n \<and>
    ub_abs s' = abs_acquire i r (ub_abs s) \<and> set_option r \<inter> live (ub_abs s) = {}"
proof -
  let ?x = "\<lparr>ub_data = Some (brk (uheap s)), ub_size = snd a\<rparr>"
  let ?h = "snd (halloc (replicate (snd a) None) (uheap s))"
  have ok: "heap_ok (uheap s)" using assms(1) by (simp add: ub_wf_def)
  have "blocks ?h = (blocks (uheap s))(brk (uheap s) \<mapsto> replicate (snd a) None)"
    by (simp add: halloc_def)
  note al = habs_alloc [OF ok, of ub_data "uobjs s" i ?x ?h, OF _ _ _ this]
  have eq: "ub_ctor i a s = Inr (Returns (s\<lparr>uheap := ?h, uobjs := (uobjs s)(i \<mapsto> ?x)\<rparr>))"
    using assms(4) by (simp add: ub_ctor_def ub_construct_def halloc_def)
  show ?thesis
    unfolding eq using assms al heap_ok_halloc [OF ok]
    by (auto simp: ub_abs_def ub_wf_def intro!: exI [of _ "Some (brk (uheap s))"])
qed

lemma ub_ctor_throws: "\<not> fst a \<Longrightarrow> ub_ctor i a s = Inr (Throws s)"
  by (simp add: ub_ctor_def ub_construct_def)

lemma ub_move_construct_ok:
  assumes "ub_wf s (Suc n)" and "own_inv (ub_abs s)" and "i \<notin> objs (ub_abs s)"
    and "j \<in> objs (ub_abs s)"
  shows "\<exists>s'. ub_move_construct i j s = Inr s' \<and> ub_wf s' n \<and>
    ub_abs s' = abs_move_construct i j (ub_abs s)"
proof -
  from assms(4) obtain y where y: "uobjs s j = Some y" by (auto simp: ub_abs_def)
  have *: "own_inv (habs ub_data (uheap s) (uobjs s))" "i \<notin> dom (uobjs s)"
    using assms(2,3) by (simp_all add: ub_abs_def)
  show ?thesis
    using assms(1) y habs_move_construct [OF * y]
    by (simp add: ub_move_construct_def ub_wf_def ub_abs_def Let_def)
qed

lemma ub_move_assign_ok:
  assumes "ub_wf s (Suc n)" and "own_inv (ub_abs s)" and "i \<in> objs (ub_abs s)"
    and "j \<in> objs (ub_abs s)"
  shows "\<exists>s'. ub_move_assign i j s = Inr s' \<and> ub_wf s' n \<and>
    ub_abs s' = abs_move_assign i j (ub_abs s)"
proof -
  from assms(3,4) obtain x y where xy: "uobjs s i = Some x" "uobjs s j = Some y"
    by (auto simp: ub_abs_def)
  have inv: "own_inv (habs ub_data (uheap s) (uobjs s))" using assms(2) by (simp add: ub_abs_def)
  from habs_free [OF inv xy(1)] obtain h where h: "hfree (ub_data x) (uheap s) = Inr h"
    "dom (blocks h) = dom (blocks (uheap s)) - set_option (hown ub_data (uobjs s) i)"
    by blast
  let ?st = "(uobjs s)(i \<mapsto> x\<lparr>ub_size := ub_size y, ub_data := ub_data y\<rparr>)"
  let ?st' = "?st(j \<mapsto> (the (?st j))\<lparr>ub_size := 0, ub_data := None\<rparr>)"
  have "dom ?st' = dom (uobjs s)" using xy by auto
  moreover have "hown ub_data ?st' = (hown ub_data (uobjs s))(i := hown ub_data (uobjs s) j, j := None)"
    using xy by (simp add: hown_upd hown_at)
  ultimately have "habs ub_data h ?st' = abs_move_assign i j (habs ub_data (uheap s) (uobjs s))"
    using h(2) by (rule habs_move_assign [OF inv])
  with xy h(1) assms(1) heap_ok_hfree [OF _ h(1)] show ?thesis
    by (simp add: ub_move_assign_def ub_abs_def ub_wf_def Let_def)
qed

lemma ub_destroy_ok:
  assumes "ub_wf s (Suc n)" and "own_inv (ub_abs s)" and "i \<in> objs (ub_abs s)"
  shows "\<exists>s'. ub_destroy i s = Inr s' \<and> ub_wf s' n \<and> ub_abs s' = abs_destroy i (ub_abs s)"
proof -
  from assms(3) obtain x where x: "uobjs s i = Some x" by (auto simp: ub_abs_def)
  have inv: "own_inv (habs ub_data (uheap s) (uobjs s))" using assms(2) by (simp add: ub_abs_def)
  from habs_free [OF inv x] obtain h where h: "hfree (ub_data x) (uheap s) = Inr h"
    "dom (blocks h) = dom (blocks (uheap s)) - set_option (hown ub_data (uobjs s) i)"
    by blast
  with x assms(1) heap_ok_hfree [OF _ h(1)] habs_destroy [OF inv h(2)] show ?thesis
    by (simp add: ub_destroy_def ub_abs_def ub_wf_def)
qed

interpretation ubuf: raii_owner ub_abs ub_wf fst ub_ctor ub_move_construct ub_move_assign
  ub_destroy "\<lambda>_ s. Inr (Returns s)" "\<lambda>_ _. True" "\<lambda>_ A. A"
proof (unfold_locales, goal_cases)
  case (2 s n i a)
  with ub_ctor_throws [of a i s] show ?case by (simp add: ub_wf_def)
next
  case (6 s n b)
  then show ?case by (simp add: ub_wf_def)
qed (use ub_ctor_ok ub_move_construct_ok ub_move_assign_ok ub_destroy_ok in auto)

subsection \<open>ScopeGuard\<close>

text \<open>
  The callable is a function on the state of the enclosing program; the guarded scope is a
  list of statements, and leaving it, by its end or by an exception, runs the destructor.
\<close>

record 's scope_guard =
  sg_fn :: "'s \<Rightarrow> 's"
  sg_active :: bool

definition make_scope_guard :: "('s \<Rightarrow> 's) \<Rightarrow> 's scope_guard" where
  "make_scope_guard fn = \<lparr>sg_fn = fn, sg_active = True\<rparr>"

definition sg_dismiss :: "'s scope_guard \<Rightarrow> 's scope_guard" where
  "sg_dismiss g = g\<lparr>sg_active := False\<rparr>"

definition sg_dtor :: "'s scope_guard \<Rightarrow> 's \<Rightarrow> 's" where
  "sg_dtor g s = (if sg_active g then sg_fn g s else s)"

datatype 's guard_stmt = Do "'s \<Rightarrow> 's" | Dismiss | Throw

fun guarded :: "'s scope_guard \<Rightarrow> 's guard_stmt list \<Rightarrow> 's \<Rightarrow> 's scope_guard \<times> 's \<times> bool" where
  "guarded g [] s = (g, s, False)"
| "guarded g (Do f # ps) s = guarded g ps (f s)"
| "guarded g (Dismiss # ps) s = guarded (sg_dismiss g) ps s"
| "guarded g (Throw # ps) s = (g, s, True)"

definition guard_scope :: "('s \<Rightarrow> 's) \<Rightarrow> 's guard_stmt list \<Rightarrow> 's \<Rightarrow> 's \<times> bool" where
  "guard_scope fn ps s =
     (let (g, s', threw) = guarded (make_scope_guard fn) ps s in (sg_dtor g s', threw))"

fun before_throw :: "'s guard_stmt list \<Rightarrow> 's guard_stmt list" where
  "before_throw [] = []"
| "before_throw (Throw # ps) = []"
| "before_throw (p # ps) = p # before_throw ps"

fun work :: "'s guard_stmt list \<Rightarrow> 's \<Rightarrow> 's" where
  "work [] s = s"
| "work (Do f # ps) s = work ps (f s)"
| "work (p # ps) s = work ps s"

lemma guarded_spec:
  "guarded g ps s =
     (g\<lparr>sg_active := sg_active g \<and> Dismiss \<notin> set (before_throw ps)\<rparr>,
      work (before_throw ps) s, Throw \<in> set ps)"
  by (induction g ps s rule: guarded.induct) (auto simp: sg_dismiss_def)

subsection \<open>Properties\<close>

lemma fd_own_init [simp]: "fd_own \<lparr>kern = k, fdobjs = Map.empty\<rparr> = Map.empty"
  by (rule ext) (simp add: fd_own_def)

lemma fd_abs_init: "fd_abs \<lparr>kern = k, fdobjs = Map.empty\<rparr> = owner_start k"
  by (rule fd_abs_eqI) (simp_all add: owner_start_def)

lemma own_inv_start: "own_inv (owner_start k)"
  by (simp add: own_inv_def inj_map_def owner_start_def)

text \<open>C6: Take a client of \<open>ScopedFd\<close> objects that keeps the ownership contract: it constructs an object,
  while it does not live, from \<open>-1\<close> or from an open descriptor that no object owns; it moves, destroys and
  releases living objects only, self-moves included; it closes by itself only open descriptors no object owns;
  and the kernel answers each \<open>open\<close> with \<open>-1\<close> or a non-negative descriptor that is not open. Then the program runs
  without touching a dead object and without a single \<open>close\<close> of a descriptor that is not open, and its state
  is the one the abstract ownership machine reaches: the same objects live, each holds the
  descriptor the machine says (or none), the open descriptors are those of the machine, two different objects
  never hold the same descriptor, and every held descriptor is open.\<close>

theorem scoped_fd_programs_safe:
  assumes "ebadf k = 0" and "owner_run ops (owner_start k) = Some a"
  shows "\<exists>s'. fd_prog ops \<lparr>kern = k, fdobjs = Map.empty\<rparr> = Inr s' \<and> ebadf (kern s') = 0 \<and>
    dom (fdobjs s') = objs a \<and> set (ftab (kern s')) = live a \<and>
    (\<forall>i x. fdobjs s' i = Some x \<longrightarrow> own a i = (if fd_valid x then Some (fd_get x) else None)) \<and>
    (\<forall>i j x y. fdobjs s' i = Some x \<and> fdobjs s' j = Some y \<and> fd_valid x \<and> fd_get x = fd_get y
       \<longrightarrow> i = j) \<and>
    (\<forall>i x. fdobjs s' i = Some x \<and> fd_valid x \<longrightarrow> fd_get x \<in> set (ftab (kern s')))"
proof -
  let ?s = "\<lparr>kern = k, fdobjs = Map.empty\<rparr>"
  obtain s' where s': "fd_prog ops ?s = Inr s'" "ebadf (kern s') = 0" "fd_abs s' = a" "own_inv a"
    using fd_prog_refines [of ?s ops a] own_inv_start [of k] assms by (auto simp: fd_abs_init)
  then have a: "dom (fdobjs s') = objs a" "set (ftab (kern s')) = live a" "fd_own s' = own a"
    by auto
  have holds: "own a i = (if fd_valid x then Some (fd_get x) else None)" if "fdobjs s' i = Some x" for i x
    using that by (simp add: fd_own_def fd_get_def flip: a(3))
  have "i = j" if "fdobjs s' i = Some x" "fdobjs s' j = Some y" "fd_valid x" "fd_get x = fd_get y"
    for i j x y
    using that holds [of i x] holds [of j y] own_inv_unique [OF s'(4), of i _ j]
    by (simp add: fd_valid_def fd_get_def)
  moreover have "fd_get x \<in> set (ftab (kern s'))" if "fdobjs s' i = Some x" "fd_valid x" for i x
    using own_inv_live [OF s'(4), of i "fd_get x"] holds [OF that(1)] that(2) a(2) by simp
  ultimately show ?thesis
    by (intro exI [of _ s'] conjI s'(1,2) a(1,2)) (use holds in blast)+
qed

theorem scoped_fd_programs_safe_witness:
  "\<exists>s'. fd_prog [Use (FdOpen 3), Construct 0 3, Use (FdOpen 4), Construct 1 4, MoveAssign 0 1, MoveAssign 0 0,
      Use (FdOpen 3), Construct 2 3, Use (FdRelease 2), Use (FdOpen (- 1)), Construct 3 (- 1), Destroy 1]
      \<lparr>kern = \<lparr>ftab = [0, 1, 2], ebadf = 0\<rparr>, fdobjs = Map.empty\<rparr> = Inr s' \<and> ebadf (kern s') = 0 \<and>
    set (ftab (kern s')) = {0, 1, 2, 3} \<and> dom (fdobjs s') = {0, 2, 3}"
proof -
  let ?k = "\<lparr>ftab = [0, 1, 2], ebadf = 0\<rparr>"
  let ?ops = "[Use (FdOpen 3), Construct 0 3, Use (FdOpen 4), Construct 1 4, MoveAssign 0 1, MoveAssign 0 0,
      Use (FdOpen 3), Construct 2 3, Use (FdRelease 2), Use (FdOpen (- 1)), Construct 3 (- 1), Destroy 1]"
  note defs = owner_start_def abs_adopt_def abs_open_def abs_release_def abs_move_assign_def
    abs_destroy_def fd_res_def
  let ?a = "the (owner_run ?ops (owner_start ?k))"
  have a: "owner_run ?ops (owner_start ?k) = Some ?a" by (simp add: defs)
  have "live ?a = {0, 1, 2, 3}" "objs ?a = {0, 2, 3}" by (simp add: defs; auto)+
  then show ?thesis using scoped_fd_programs_safe [OF _ a] by (simp del: fd_prog.simps owner_run.simps; metis)
qed

text \<open>C7: When a client that keeps the ownership contract of \<open>ScopedFd\<close> (constructions from \<open>-1\<close> or an open
  descriptor no object owns, operations on living objects only, its own \<open>close\<close> only of open descriptors no object owns, a
  kernel that answers \<open>open\<close> with \<open>-1\<close> or a descriptor not open) has destroyed all its objects, the open
  descriptors are exactly those it still answers for itself; if it never called \<open>release\<close>, these are the descriptors
  open at the start and those it opened, less those it closed and those it gave to an object: no wrapped descriptor leaks and nothing
  foreign is closed.\<close>

theorem scoped_fd_no_leak:
  assumes "ebadf k = 0" and "owner_run ops (owner_start k) = Some a" and "objs a = {}"
  shows "\<exists>s'. fd_prog ops \<lparr>kern = k, fdobjs = Map.empty\<rparr> = Inr s' \<and> fdobjs s' = Map.empty \<and>
    ebadf (kern s') = 0 \<and> set (ftab (kern s')) = escaped a \<and>
    (\<not> list_ex releases ops \<longrightarrow> set (ftab (kern s')) = raw_after ops (set (ftab k)))"
proof -
  obtain s' where s': "fd_prog ops \<lparr>kern = k, fdobjs = Map.empty\<rparr> = Inr s'" "ebadf (kern s') = 0"
      "fd_abs s' = a" "own_inv a"
    using fd_prog_refines [of "\<lparr>kern = k, fdobjs = Map.empty\<rparr>" ops a] own_inv_start [of k] assms(1,2)
    by (auto simp: fd_abs_init)
  then have "dom (fdobjs s') = {}" "set (ftab (kern s')) = escaped a"
    using assms(3) own_inv_no_objs [OF s'(4)] by auto
  moreover have "escaped (owner_start k) = set (ftab k)" by (simp add: owner_start_def)
  ultimately show ?thesis using s' owner_run_raw [OF assms(2)] by auto
qed

theorem scoped_fd_no_leak_witness:
  "\<exists>s'. fd_prog [Use (FdOpen 3), Construct 0 3, Use (FdOpen (- 1)), Construct 1 (- 1), MoveConstruct 2 0,
      Use (FdOpen 4), MoveAssign 1 2, Destroy 2, Destroy 1, Destroy 0]
      \<lparr>kern = \<lparr>ftab = [0, 1, 2], ebadf = 0\<rparr>, fdobjs = Map.empty\<rparr> = Inr s' \<and>
    set (ftab (kern s')) = {0, 1, 2, 4} \<and> ebadf (kern s') = 0"
proof -
  let ?k = "\<lparr>ftab = [0, 1, 2], ebadf = 0\<rparr>"
  let ?ops = "[Use (FdOpen 3), Construct 0 3, Use (FdOpen (- 1)), Construct 1 (- 1), MoveConstruct 2 0,
      Use (FdOpen 4), MoveAssign 1 2, Destroy 2, Destroy 1, Destroy 0]"
  obtain a where a: "owner_run ?ops (owner_start ?k) = Some a" "objs a = {}"
    by (auto simp: owner_start_def abs_adopt_def abs_open_def abs_move_construct_def abs_move_assign_def
        abs_destroy_def fd_res_def)
  have "\<not> list_ex releases ?ops" "raw_after ?ops (set (ftab ?k)) = {0, 1, 2, 4}"
    by (simp, simp add: fd_res_def, auto)
  then show ?thesis using scoped_fd_no_leak [OF _ a] by (simp del: fd_prog.simps owner_run.simps; metis)
qed

text \<open>The contract is needed: when two \<open>ScopedFd\<close> objects wrap the same open descriptor, the destructor of the
  first closes it and the destructor of the second closes the number again. If nobody opened the number in between,
  that \<open>close\<close> fails with \<open>EBADF\<close>; if the kernel gave the number to somebody else in between, that foreign
  descriptor is closed. (Both objects are new, the descriptor is open and not \<open>-1\<close>.)\<close>

theorem scoped_fd_shared_closes_twice:
  assumes "fd \<in> set (ftab (kern s))" and "fd \<noteq> -1" and "i \<noteq> j" and "i \<notin> dom (fdobjs s)" and "j \<notin> dom (fdobjs s)"
  shows "\<exists>s1 s2. fd_prog [Construct i fd, Construct j fd, Destroy j] s = Inr s1 \<and>
    fd \<notin> set (ftab (kern s1)) \<and> ebadf (kern s1) = ebadf (kern s) \<and>
    (\<exists>s2. fd_prog [Destroy i] s1 = Inr s2 \<and> ebadf (kern s2) = Suc (ebadf (kern s))) \<and>
    fd_prog [Use (FdOpen fd), Destroy i] s1 = Inr s2 \<and> fd \<notin> set (ftab (kern s2))"
  using assms
  by (simp add: fd_construct_def fd_destroy_def fd_dtor_def fd_valid_def fd_release_def ScopedFd_def
      sys_close_def sys_open_def)

theorem scoped_fd_shared_closes_twice_witness:
  "\<exists>s1. fd_prog [Construct 0 3, Construct 1 3, Destroy 1]
      \<lparr>kern = \<lparr>ftab = [0, 1, 2, 3], ebadf = 0\<rparr>, fdobjs = Map.empty\<rparr> = Inr s1 \<and>
    (\<exists>s2. fd_prog [Destroy 0] s1 = Inr s2 \<and> ebadf (kern s2) = 1)"
  using scoped_fd_shared_closes_twice [of 3 "\<lparr>kern = \<lparr>ftab = [0, 1, 2, 3], ebadf = 0\<rparr>, fdobjs = Map.empty\<rparr>" 0 1]
  by auto

text \<open>Take a program of \<open>UniqueBuffer\<close> objects that constructs an object only once at a time, uses only
  living objects, destroys what it constructs and catches the \<open>bad_alloc\<close> that any of its constructors may throw, with
  any moves and self-moves in between. It runs without a fault (no double free, no dead object) and
  leaves allocated exactly the blocks that were allocated before.\<close>

theorem unique_buffer_programs_safe:
  assumes "heap_ok h" and "legal fst (\<lambda>_ _. True) (\<lambda>_ A. A) {} ops"
    and "alive_after fst (\<lambda>_ A. A) {} ops = {}"
  shows "\<exists>s'. ub_prog ops \<lparr>uheap = h, uobjs = Map.empty\<rparr> = Inr s' \<and> uobjs s' = Map.empty \<and>
    dom (blocks (uheap s')) = dom (blocks h)"
proof -
  let ?s = "\<lparr>uheap = h, uobjs = Map.empty\<rparr>"
  have "own_inv (ub_abs ?s)" by (simp add: ub_abs_def own_inv_habs_init)
  moreover have "ub_wf ?s (length ops)" using assms(1) by (simp add: ub_wf_def)
  moreover have "legal fst (\<lambda>_ _. True) (\<lambda>_ A. A) (objs (ub_abs ?s)) ops"
      "alive_after fst (\<lambda>_ A. A) (objs (ub_abs ?s)) ops = {}"
    using assms(2,3) by (simp_all add: ub_abs_def)
  ultimately obtain s' where "ub_prog ops ?s = Inr s'" "objs (ub_abs s') = {}"
      "live (ub_abs s') = escaped (ub_abs ?s)"
    unfolding ub_prog_def using ubuf.run_no_leak by blast
  then show ?thesis by (auto simp: ub_abs_def)
qed

theorem unique_buffer_programs_safe_witness:
  "\<exists>s'. ub_prog [Construct 0 (True, 4), Construct 2 (False, 7), Construct 1 (True, 2), MoveAssign 0 1, MoveAssign 0 0,
      Destroy 1, Destroy 0]
      \<lparr>uheap = (empty_heap :: int option heap), uobjs = Map.empty\<rparr> = Inr s' \<and>
    dom (blocks (uheap s')) = dom (blocks (empty_heap :: int option heap))"
  using unique_buffer_programs_safe [of "empty_heap :: int option heap"
      "[Construct 0 (True, 4), Construct 2 (False, 7), Construct 1 (True, 2), MoveAssign 0 1, MoveAssign 0 0,
      Destroy 1, Destroy 0]"]
  by auto

text \<open>What is written into a \<open>UniqueBuffer\<close> (whose \<open>new[]\<close> succeeded) is read back after the buffer was moved into a
  new object, through the same block (no copy), and the source is left empty: its data pointer is
  null, its size 0, and an access through it is a null dereference.\<close>

theorem unique_buffer_move_transfers:
  assumes "heap_ok (uheap s)" and "i \<notin> dom (uobjs s)" and "j \<notin> dom (uobjs s)" and "i \<noteq> j"
    and "k < n"
  shows "\<exists>s1 s2 s3 p. ub_construct True j n s = Inr (Returns s1) \<and> ub_write j k v s1 = Inr s2 \<and>
    ub_move_construct i j s2 = Inr s3 \<and> ub_read i k s3 = Inr v \<and>
    map_option ub_data (uobjs s2 j) = Some p \<and> uobjs s3 i = Some \<lparr>ub_data = p, ub_size = n\<rparr> \<and>
    uobjs s3 j = Some \<lparr>ub_data = None, ub_size = 0\<rparr> \<and> ub_read j k s3 = Inl NullDeref"
  using assms
  by (simp add: ub_construct_def ub_write_def ub_move_construct_def ub_read_def halloc_def
      hwrite_Some hread_Some Let_def)

theorem unique_buffer_move_transfers_witness:
  "\<exists>s1 s2 s3 p. ub_construct True 7 3 \<lparr>uheap = empty_heap, uobjs = Map.empty\<rparr> = Inr (Returns s1) \<and>
    ub_write 7 2 (42 :: int) s1 = Inr s2 \<and> ub_move_construct 8 7 s2 = Inr s3 \<and>
    ub_read 8 2 s3 = Inr 42 \<and> map_option ub_data (uobjs s2 7) = Some p \<and>
    uobjs s3 8 = Some \<lparr>ub_data = p, ub_size = 3\<rparr> \<and>
    uobjs s3 7 = Some \<lparr>ub_data = None, ub_size = 0\<rparr> \<and> ub_read 7 2 s3 = Inl NullDeref"
  by (rule unique_buffer_move_transfers) simp_all

text \<open>A guarded scope runs its cleanup exactly once, after the work done, unless a \<open>dismiss\<close>
  was executed before the scope was left; this is so whether the scope is left by its end or by
  an exception, which is propagated.\<close>

theorem scope_guard_runs_once:
  "guard_scope fn ps s =
     ((if Dismiss \<in> set (before_throw ps) then work (before_throw ps) s
       else fn (work (before_throw ps) s)), Throw \<in> set ps)"
  by (simp add: guard_scope_def guarded_spec sg_dtor_def make_scope_guard_def)

end
