(* ===== verification/Move_Buffer.thy ===== *)
theory Move_Buffer
  imports Heap_Owner
begin

section \<open>Buffer: copy and move semantics\<close>

text \<open>
  Model of \<open>02-modern-cpp/exercises/ex3-move-semantics/buffer.hpp\<close>: a heap-allocated byte
  array with copy and move operations and the two static counters of copies and moves, which
  are C++ \<open>int\<close>s and overflow as such. The byte loop of the copies reads and writes through
  the heap, so that a copy assignment whose operands are the same object is covered. The
  operations that call \<open>new[]\<close> take its outcome as an argument, \<open>ok\<close>; when it throws
  \<open>std::bad_alloc\<close> the operation throws, and leaves what it did before.
\<close>

type_synonym byte = "8 word"

record buffer =
  bf_data :: ptr
  bf_size :: nat

record buf_state =
  bheap :: "byte heap"
  bobjs :: "obj \<rightharpoonup> buffer"
  s_copies :: int
  s_moves :: int

subsection \<open>The operations\<close>

text \<open>The loop \<open>while (num++ < other.size_) { *ptr = *ptr2; ptr++; ptr2++; }\<close>.\<close>

function copy_bytes :: "nat \<Rightarrow> nat \<Rightarrow> ptr \<Rightarrow> nat \<Rightarrow> ptr \<Rightarrow> nat \<Rightarrow> byte heap \<Rightarrow> byte heap res" where
  "copy_bytes num n dst d src k h =
     (if num < n then
        rbind (hread src k h) (\<lambda>v.
        rbind (hwrite dst d v h) (\<lambda>h'.
          copy_bytes (Suc num) n dst (Suc d) src (Suc k) h'))
      else Inr h)"
  by pat_completeness auto
termination
  by (relation "measure (\<lambda>(num, n, dst, d, src, k, h). n - num)") auto

declare copy_bytes.simps [simp del]

definition buf_construct :: "bool \<Rightarrow> obj \<Rightarrow> nat \<Rightarrow> buf_state \<Rightarrow> buf_state outcome res" where
  "buf_construct ok i n s =
     (if \<not> ok then Inr (Throws s)
      else let (a, h) = halloc (replicate n 0) (bheap s)
           in Inr (Returns (s\<lparr>bheap := h, bobjs := (bobjs s)(i \<mapsto> \<lparr>bf_data = Some a, bf_size = n\<rparr>)\<rparr>)))"

definition make_buffer :: "bool \<Rightarrow> obj \<Rightarrow> nat \<Rightarrow> buf_state \<Rightarrow> buf_state outcome res" where
  "make_buffer ok i n s = buf_construct ok i n s"

definition buf_copy_construct :: "bool \<Rightarrow> obj \<Rightarrow> obj \<Rightarrow> buf_state \<Rightarrow> buf_state outcome res" where
  "buf_copy_construct ok i j s =
     (case bobjs s j of
        None \<Rightarrow> Inl DeadObject
      | Some other \<Rightarrow>
          (if \<not> ok then Inr (Throws s)
           else let (a, h) = halloc (replicate (bf_size other) 0) (bheap s);
               this = \<lparr>bf_data = Some a, bf_size = bf_size other\<rparr>
           in rbind (copy_bytes 0 (bf_size other) (bf_data this) 0 (bf_data other) 0 h) (\<lambda>h'.
              rbind (chk32 (s_copies s + 1)) (\<lambda>c.
                Inr (Returns (s\<lparr>bheap := h', bobjs := (bobjs s)(i \<mapsto> this), s_copies := c\<rparr>))))))"

text \<open>The copy assignment has deleted its block when it allocates: if that throws, \<open>data_\<close> still
  points to the deleted block.\<close>

definition buf_copy_assign :: "bool \<Rightarrow> obj \<Rightarrow> obj \<Rightarrow> buf_state \<Rightarrow> buf_state outcome res" where
  "buf_copy_assign ok i j s =
     (case bobjs s i of
        None \<Rightarrow> Inl DeadObject
      | Some this \<Rightarrow>
          (case bobjs s j of
             None \<Rightarrow> Inl DeadObject
           | Some other \<Rightarrow>
               rbind (hfree (bf_data this) (bheap s)) (\<lambda>h.
                 if \<not> ok then Inr (Throws (s\<lparr>bheap := h\<rparr>))
                 else let (a, h') = halloc (replicate (bf_size other) 0) h;
                     this' = this\<lparr>bf_data := Some a, bf_size := bf_size other\<rparr>;
                     st = (bobjs s)(i \<mapsto> this');
                     other' = the (st j)
                 in rbind (copy_bytes 0 (bf_size other') (bf_data this') 0 (bf_data other') 0 h') (\<lambda>h''.
                    rbind (chk32 (s_copies s + 1)) (\<lambda>c.
                      Inr (Returns (s\<lparr>bheap := h'', bobjs := st, s_copies := c\<rparr>)))))))"

definition buf_move_construct :: "obj \<Rightarrow> obj \<Rightarrow> buf_state \<Rightarrow> buf_state res" where
  "buf_move_construct i j s =
     (case bobjs s j of
        None \<Rightarrow> Inl DeadObject
      | Some other \<Rightarrow>
          (let this = \<lparr>bf_data = bf_data other, bf_size = bf_size other\<rparr>
           in rbind (chk32 (s_moves s + 1)) (\<lambda>c.
                Inr (s\<lparr>bobjs := (bobjs s)(i \<mapsto> this, j \<mapsto> other\<lparr>bf_data := None, bf_size := 0\<rparr>),
                       s_moves := c\<rparr>))))"

definition buf_move_assign :: "obj \<Rightarrow> obj \<Rightarrow> buf_state \<Rightarrow> buf_state res" where
  "buf_move_assign i j s =
     (case bobjs s i of
        None \<Rightarrow> Inl DeadObject
      | Some this \<Rightarrow>
          (case bobjs s j of
             None \<Rightarrow> Inl DeadObject
           | Some other \<Rightarrow>
               rbind (hfree (bf_data this) (bheap s)) (\<lambda>h.
                 let st = (bobjs s)(i \<mapsto> this\<lparr>bf_data := bf_data other, bf_size := bf_size other\<rparr>);
                     st' = st(j \<mapsto> (the (st j))\<lparr>bf_data := None, bf_size := 0\<rparr>)
                 in rbind (chk32 (s_moves s + 1)) (\<lambda>c.
                      Inr (s\<lparr>bheap := h, bobjs := st', s_moves := c\<rparr>)))))"

definition buf_destroy :: "obj \<Rightarrow> buf_state \<Rightarrow> buf_state res" where
  "buf_destroy i s =
     (case bobjs s i of
        None \<Rightarrow> Inl DeadObject
      | Some this \<Rightarrow>
          rbind (hfree (bf_data this) (bheap s)) (\<lambda>h.
            Inr (s\<lparr>bheap := h, bobjs := (bobjs s)(i := None)\<rparr>)))"

definition buf_read :: "obj \<Rightarrow> nat \<Rightarrow> buf_state \<Rightarrow> byte res" where
  "buf_read i k s =
     (case bobjs s i of None \<Rightarrow> Inl DeadObject | Some this \<Rightarrow> hread (bf_data this) k (bheap s))"

definition buf_write :: "obj \<Rightarrow> nat \<Rightarrow> byte \<Rightarrow> buf_state \<Rightarrow> buf_state res" where
  "buf_write i k v s =
     (case bobjs s i of
        None \<Rightarrow> Inl DeadObject
      | Some this \<Rightarrow>
          rbind (hwrite (bf_data this) k v (bheap s)) (\<lambda>h. Inr (s\<lparr>bheap := h\<rparr>)))"

definition reset_counters :: "buf_state \<Rightarrow> buf_state" where
  "reset_counters s = s\<lparr>s_moves := 0, s_copies := 0\<rparr>"

text \<open>
  Programs over buffers: a construction and a copy carry the outcome of their \<open>new[]\<close>. The guard
  \<open>buf_pre\<close> of a copy assignment asks that its \<open>new[]\<close> succeeds; constructors and copy
  constructors may throw.
\<close>

definition buf_ctor :: "obj \<Rightarrow> bool \<times> nat \<Rightarrow> buf_state \<Rightarrow> buf_state outcome res" where
  "buf_ctor i a s = buf_construct (fst a) i (snd a) s"

datatype buf_call = BufCopyConstruct bool obj obj | BufCopyAssign bool obj obj

fun buf_use :: "buf_call \<Rightarrow> buf_state \<Rightarrow> buf_state outcome res" where
  "buf_use (BufCopyConstruct ok i j) s = buf_copy_construct ok i j s"
| "buf_use (BufCopyAssign ok i j) s = buf_copy_assign ok i j s"

fun buf_pre :: "buf_call \<Rightarrow> obj set \<Rightarrow> bool" where
  "buf_pre (BufCopyConstruct ok i j) A = (i \<notin> A \<and> j \<in> A)"
| "buf_pre (BufCopyAssign ok i j) A = (i \<in> A \<and> j \<in> A \<and> ok)"

fun buf_post :: "buf_call \<Rightarrow> obj set \<Rightarrow> obj set" where
  "buf_post (BufCopyConstruct ok i j) A = (if ok then insert i A else A)"
| "buf_post (BufCopyAssign ok i j) A = A"

definition buf_prog :: "(bool \<times> nat, buf_call) obj_op list \<Rightarrow> buf_state \<Rightarrow> buf_state res" where
  "buf_prog = exec_prog buf_ctor buf_move_construct buf_move_assign buf_destroy buf_use"

subsection \<open>Invariant and abstraction\<close>

definition buf_abs :: "buf_state \<Rightarrow> addr ostate" where
  "buf_abs s = habs bf_data (bheap s) (bobjs s)"

text \<open>An object's size is the length of its block; an object without a block has size 0.\<close>

definition buf_fits :: "byte heap \<Rightarrow> buffer \<Rightarrow> bool" where
  "buf_fits h x \<longleftrightarrow>
     (case bf_data x of
        None \<Rightarrow> bf_size x = 0
      | Some a \<Rightarrow> (case blocks h a of None \<Rightarrow> False | Some bs \<Rightarrow> length bs = bf_size x))"

definition cnt_ok :: "int \<Rightarrow> nat \<Rightarrow> bool" where
  "cnt_ok c n \<longleftrightarrow> 0 \<le> c \<and> c + int n \<le> 2147483647"

definition buf_wf :: "buf_state \<Rightarrow> nat \<Rightarrow> bool" where
  "buf_wf s n \<longleftrightarrow>
     heap_ok (bheap s) \<and> (\<forall>i x. bobjs s i = Some x \<longrightarrow> buf_fits (bheap s) x) \<and>
     cnt_ok (s_copies s) n \<and> cnt_ok (s_moves s) n"

definition buf_bytes :: "obj \<Rightarrow> buf_state \<Rightarrow> byte list option" where
  "buf_bytes i s =
     (case bobjs s i of
        None \<Rightarrow> None
      | Some x \<Rightarrow> (case bf_data x of None \<Rightarrow> Some [] | Some a \<Rightarrow> blocks (bheap s) a))"

lemma buf_fits_Some: "buf_fits h x \<Longrightarrow> bf_data x = Some a \<Longrightarrow>
    \<exists>bs. blocks h a = Some bs \<and> length bs = bf_size x"
  by (auto simp: buf_fits_def split: option.splits)

lemma buf_fits_None: "buf_fits h x \<Longrightarrow> bf_data x = None \<Longrightarrow> bf_size x = 0"
  by (simp add: buf_fits_def)

lemma buf_fits_cong: "(\<And>a. bf_data x = Some a \<Longrightarrow> blocks h' a = blocks h a) \<Longrightarrow> buf_fits h' x = buf_fits h x"
  by (simp add: buf_fits_def split: option.splits)

lemma buf_fits_eq: "bf_data x = bf_data y \<Longrightarrow> bf_size x = bf_size y \<Longrightarrow> buf_fits h x = buf_fits h y"
  by (simp add: buf_fits_def split: option.splits)

lemma cnt_ok_Suc: "cnt_ok c (Suc n) \<Longrightarrow> cnt_ok c n \<and> cnt_ok (c + 1) n \<and> in_int (c + 1)"
  by (auto simp: cnt_ok_def in_int_def)

lemma buf_wf_Suc: "buf_wf s (Suc n) \<Longrightarrow> buf_wf s n"
  by (auto simp: buf_wf_def dest: cnt_ok_Suc)

subsection \<open>The copy loop\<close>

lemma copy_bytes_step:
  assumes "num < n" and "blocks h b = Some ys" and "k < length ys"
    and "blocks h a = Some xs" and "d < length xs"
  shows "copy_bytes num n (Some a) d (Some b) k h =
    copy_bytes (Suc num) n (Some a) (Suc d) (Some b) (Suc k)
      (h\<lparr>blocks := (blocks h)(a \<mapsto> xs[d := ys ! k])\<rparr>)"
  using assms by (subst copy_bytes.simps) (simp add: hread_Some hwrite_Some)

lemma copy_bytes_done: "\<not> num < n \<Longrightarrow> copy_bytes num n p d q k h = Inr h"
  by (subst copy_bytes.simps) simp

lemma copy_bytes_other:
  assumes "a \<noteq> b" and "blocks h a = Some xs" and "blocks h b = Some ys"
    and "length xs = n" and "length ys = n" and "num \<le> n"
  shows "copy_bytes num n (Some a) num (Some b) num h =
    Inr (h\<lparr>blocks := (blocks h)(a \<mapsto> take num xs @ drop num ys)\<rparr>)"
  using assms
proof (induction "n - num" arbitrary: num xs h)
  case 0
  then have "take num xs @ drop num ys = xs" by simp
  then have "h\<lparr>blocks := (blocks h)(a \<mapsto> take num xs @ drop num ys)\<rparr> = h"
    using 0 by (simp only: heap_upd_triv)
  then show ?case using 0 by (simp only: copy_bytes_done)
next
  case (Suc m)
  then have lt: "num < n" by simp
  let ?h = "h\<lparr>blocks := (blocks h)(a \<mapsto> xs[num := ys ! num])\<rparr>"
  have "copy_bytes (Suc num) n (Some a) (Suc num) (Some b) (Suc num) ?h =
      Inr (?h\<lparr>blocks := (blocks ?h)(a \<mapsto> take (Suc num) (xs[num := ys ! num]) @ drop (Suc num) ys)\<rparr>)"
    using Suc.prems Suc.hyps(2) lt by (intro Suc.hyps(1)) auto
  moreover have "take (Suc num) (xs[num := ys ! num]) @ drop (Suc num) ys = take num xs @ drop num ys"
    using Suc.prems lt by (simp add: take_Suc_conv_app_nth Cons_nth_drop_Suc)
  ultimately show ?case
    using copy_bytes_step [OF lt Suc.prems(3) _ Suc.prems(2)] Suc.prems lt by simp
qed

lemma copy_bytes_same:
  assumes "blocks h a = Some xs" and "length xs = n" and "num \<le> n"
  shows "copy_bytes num n (Some a) num (Some a) num h = Inr h"
  using assms
proof (induction "n - num" arbitrary: num)
  case 0
  then show ?case by (simp add: copy_bytes_done)
next
  case (Suc m)
  then have lt: "num < n" by simp
  have "(blocks h)(a \<mapsto> xs[num := xs ! num]) = blocks h" using Suc.prems(1) by auto
  then have "h\<lparr>blocks := (blocks h)(a \<mapsto> xs[num := xs ! num])\<rparr> = h" by simp
  with Suc lt show ?case
    by (subst copy_bytes_step [OF lt Suc.prems(1) _ Suc.prems(1)]) auto
qed

text \<open>
  The loop as the copies use it: the destination is the block just allocated, the source is
  the block of an object whose size is right (or none, and then nothing is copied).
\<close>

lemma copy_bytes_fresh:
  assumes "buf_fits h y" and "bf_data y \<noteq> Some a" and "blocks h a = Some (replicate (bf_size y) 0)"
  shows "\<exists>bs. copy_bytes 0 (bf_size y) (Some a) 0 (bf_data y) 0 h =
      Inr (h\<lparr>blocks := (blocks h)(a \<mapsto> bs)\<rparr>) \<and> length bs = bf_size y \<and>
      (case bf_data y of None \<Rightarrow> bs = [] | Some b \<Rightarrow> blocks h b = Some bs)"
proof (cases "bf_data y")
  case None
  with buf_fits_None [OF assms(1) None] assms(3) show ?thesis
    by (simp add: copy_bytes_done exI [of _ "[]"])
next
  case (Some b)
  with buf_fits_Some [OF assms(1) Some] obtain bs where
    "blocks h b = Some bs" "length bs = bf_size y" by blast
  with Some assms(2,3) copy_bytes_other [of a b h "replicate (bf_size y) 0" bs "bf_size y" 0]
  show ?thesis by auto
qed

subsection \<open>Functional behaviour of the copies\<close>

lemma buf_wf_fits: "buf_wf s n \<Longrightarrow> bobjs s i = Some x \<Longrightarrow> buf_fits (bheap s) x"
  by (simp add: buf_wf_def)

lemma buf_wf_old: "buf_wf s n \<Longrightarrow> bobjs s i = Some x \<Longrightarrow> bf_data x \<noteq> Some (brk (bheap s))"
  using buf_fits_Some [OF buf_wf_fits, of s n i x] heap_ok_fresh [of "bheap s"]
  by (auto simp: buf_wf_def)

lemma buf_copy_construct_spec:
  assumes "buf_wf s (Suc n)" and "bobjs s j = Some y" and "i \<notin> dom (bobjs s)"
  shows "\<exists>bs. buf_copy_construct True i j s = Inr (Returns (s\<lparr>
      bheap := bheap s\<lparr>blocks := (blocks (bheap s))(brk (bheap s) \<mapsto> bs), brk := Suc (brk (bheap s))\<rparr>,
      bobjs := (bobjs s)(i \<mapsto> \<lparr>bf_data = Some (brk (bheap s)), bf_size = bf_size y\<rparr>),
      s_copies := s_copies s + 1\<rparr>)) \<and> length bs = bf_size y \<and> buf_bytes j s = Some bs"
proof -
  let ?a = "brk (bheap s)"
  let ?h = "snd (halloc (replicate (bf_size y) 0) (bheap s))"
  have old: "bf_data y \<noteq> Some ?a" by (rule buf_wf_old [OF assms(1,2)])
  then have fits: "buf_fits ?h y"
    using buf_wf_fits [OF assms(1,2)]
    by (subst buf_fits_cong [of y ?h "bheap s"]) (auto simp: halloc_def)
  obtain bs where bs: "copy_bytes 0 (bf_size y) (Some ?a) 0 (bf_data y) 0 ?h =
      Inr (?h\<lparr>blocks := (blocks ?h)(?a \<mapsto> bs)\<rparr>)" "length bs = bf_size y"
      "case bf_data y of None \<Rightarrow> bs = [] | Some b \<Rightarrow> blocks ?h b = Some bs"
    using copy_bytes_fresh [OF fits old] by (auto simp: halloc_def)
  moreover have "buf_bytes j s = Some bs"
    using bs(3) old assms(2) by (auto simp: buf_bytes_def halloc_def split: option.splits if_splits)
  moreover have "in_int (s_copies s + 1)" using assms(1) by (auto simp: buf_wf_def dest: cnt_ok_Suc)
  ultimately show ?thesis
    using assms(2) by (auto simp: buf_copy_construct_def halloc_def Let_def)
qed

lemma buf_copy_assign_spec:
  assumes "buf_wf s (Suc n)" and "own_inv (buf_abs s)" and "bobjs s i = Some x"
    and "bobjs s j = Some y" and "i \<noteq> j"
  shows "\<exists>bs h1. buf_copy_assign True i j s = Inr (Returns (s\<lparr>
      bheap := h1\<lparr>blocks := (blocks h1)(brk (bheap s) \<mapsto> bs), brk := Suc (brk (bheap s))\<rparr>,
      bobjs := (bobjs s)(i \<mapsto> x\<lparr>bf_data := Some (brk (bheap s)), bf_size := bf_size y\<rparr>),
      s_copies := s_copies s + 1\<rparr>)) \<and> length bs = bf_size y \<and> buf_bytes j s = Some bs \<and>
      hfree (bf_data x) (bheap s) = Inr h1"
proof -
  let ?a = "brk (bheap s)"
  have inv: "own_inv (habs bf_data (bheap s) (bobjs s))" using assms(2) by (simp add: buf_abs_def)
  from habs_free [OF inv assms(3)] obtain h1 where h1: "hfree (bf_data x) (bheap s) = Inr h1"
    "brk h1 = ?a" "\<forall>a. hown bf_data (bobjs s) i \<noteq> Some a \<longrightarrow> blocks h1 a = blocks (bheap s) a"
    by blast
  let ?h = "snd (halloc (replicate (bf_size y) 0) h1)"
  have old: "bf_data y \<noteq> Some ?a" by (rule buf_wf_old [OF assms(1,4)])
  have keep: "blocks h1 b = blocks (bheap s) b" if "bf_data y = Some b" for b
    using that h1(3) assms(4,5) inj_mapD [OF habs_inj [OF inv], of i b j] by (auto simp: hown_at)
  then have fits: "buf_fits ?h y"
    using buf_wf_fits [OF assms(1,4)] old h1(2)
    by (subst buf_fits_cong [of y ?h "bheap s"]) (auto simp: halloc_def)
  obtain bs where bs: "copy_bytes 0 (bf_size y) (Some ?a) 0 (bf_data y) 0 ?h =
      Inr (?h\<lparr>blocks := (blocks ?h)(?a \<mapsto> bs)\<rparr>)" "length bs = bf_size y"
      "case bf_data y of None \<Rightarrow> bs = [] | Some b \<Rightarrow> blocks ?h b = Some bs"
    using copy_bytes_fresh [OF fits old] h1(2) by (auto simp: halloc_def)
  moreover have "buf_bytes j s = Some bs"
    using bs(3) old keep assms(4) h1(2)
    by (auto simp: buf_bytes_def halloc_def split: option.splits if_splits)
  moreover have "in_int (s_copies s + 1)" using assms(1) by (auto simp: buf_wf_def dest: cnt_ok_Suc)
  ultimately show ?thesis
    using assms(3-5) h1 by (auto simp: buf_copy_assign_def halloc_def Let_def)
qed

text \<open>With both operands the same object the old block is gone before it could be copied.\<close>

lemma buf_copy_assign_self:
  assumes "buf_wf s (Suc n)" and "own_inv (buf_abs s)" and "bobjs s i = Some x"
  shows "\<exists>h1. buf_copy_assign True i i s = Inr (Returns (s\<lparr>
      bheap := h1\<lparr>blocks := (blocks h1)(brk (bheap s) \<mapsto> replicate (bf_size x) 0),
        brk := Suc (brk (bheap s))\<rparr>,
      bobjs := (bobjs s)(i \<mapsto> x\<lparr>bf_data := Some (brk (bheap s)), bf_size := bf_size x\<rparr>),
      s_copies := s_copies s + 1\<rparr>)) \<and> hfree (bf_data x) (bheap s) = Inr h1"
proof -
  have inv: "own_inv (habs bf_data (bheap s) (bobjs s))" using assms(2) by (simp add: buf_abs_def)
  from habs_free [OF inv assms(3)] obtain h1 where h1: "hfree (bf_data x) (bheap s) = Inr h1"
    "brk h1 = brk (bheap s)" by blast
  let ?h = "snd (halloc (replicate (bf_size x) 0) h1)"
  have "copy_bytes 0 (bf_size x) (Some (brk h1)) 0 (Some (brk h1)) 0 ?h = Inr ?h"
    by (rule copy_bytes_same [where xs = "replicate (bf_size x) 0"]) (simp_all add: halloc_def)
  moreover have "in_int (s_copies s + 1)" using assms(1) by (auto simp: buf_wf_def dest: cnt_ok_Suc)
  ultimately show ?thesis
    using assms(3) h1 by (simp add: buf_copy_assign_def halloc_def Let_def)
qed

subsection \<open>Buffer keeps the ownership contract\<close>

text \<open>Objects other than the one written to keep their sizes right.\<close>

lemma fits_others:
  assumes "own_inv (habs bf_data h st)" and "st k = Some z" and "k \<noteq> i"
    and "\<forall>a. hown bf_data st i \<noteq> Some a \<longrightarrow> blocks h' a = blocks h a"
  shows "buf_fits h' z = buf_fits h z"
proof (rule buf_fits_cong)
  fix a assume a: "bf_data z = Some a"
  with assms(2) have "hown bf_data st k = Some a" by (simp add: hown_at)
  with inj_mapD [OF habs_inj [OF assms(1)], of i a k] assms(3,4)
  show "blocks h' a = blocks h a" by auto
qed

lemma buf_construct_ok:
  assumes "buf_wf s (Suc n)" and "own_inv (buf_abs s)" and "i \<notin> objs (buf_abs s)"
  shows "\<exists>s' r. buf_construct True i a s = Inr (Returns s') \<and> buf_wf s' n \<and>
    buf_abs s' = abs_acquire i r (buf_abs s) \<and> set_option r \<inter> live (buf_abs s) = {}"
proof -
  let ?x = "\<lparr>bf_data = Some (brk (bheap s)), bf_size = a\<rparr>"
  let ?h = "snd (halloc (replicate a 0) (bheap s))"
  let ?s' = "s\<lparr>bheap := ?h, bobjs := (bobjs s)(i \<mapsto> ?x)\<rparr>"
  have ok: "heap_ok (bheap s)" using assms(1) by (simp add: buf_wf_def)
  have blk: "blocks ?h = (blocks (bheap s))(brk (bheap s) \<mapsto> replicate a 0)"
    by (simp add: halloc_def)
  note al = habs_alloc [OF ok, of bf_data "bobjs s" i ?x ?h, OF _ _ _ blk]
  have "buf_fits ?h z" if "bobjs s k = Some z" for k z
    using buf_wf_fits [OF assms(1) that] buf_wf_old [OF assms(1) that] blk
    by (subst buf_fits_cong [of z ?h "bheap s"]) auto
  then have "buf_wf ?s' n"
    using buf_wf_Suc [OF assms(1)] heap_ok_halloc [OF ok] blk by (auto simp: buf_wf_def buf_fits_def)
  moreover have "buf_construct True i a s = Inr (Returns ?s')" by (simp add: buf_construct_def halloc_def)
  ultimately show ?thesis
    using assms al by (auto simp: buf_abs_def intro!: exI [of _ "Some (brk (bheap s))"])
qed

lemma buf_move_construct_ok:
  assumes "buf_wf s (Suc n)" and "own_inv (buf_abs s)" and "i \<notin> objs (buf_abs s)"
    and "j \<in> objs (buf_abs s)"
  shows "\<exists>s'. buf_move_construct i j s = Inr s' \<and> buf_wf s' n \<and>
    buf_abs s' = abs_move_construct i j (buf_abs s)"
proof -
  from assms(4) obtain y where y: "bobjs s j = Some y" by (auto simp: buf_abs_def)
  have *: "own_inv (habs bf_data (bheap s) (bobjs s))" "i \<notin> dom (bobjs s)"
    using assms(2,3) by (simp_all add: buf_abs_def)
  let ?x = "\<lparr>bf_data = bf_data y, bf_size = bf_size y\<rparr>"
  let ?s' = "s\<lparr>bobjs := (bobjs s)(i \<mapsto> ?x, j \<mapsto> y\<lparr>bf_data := None, bf_size := 0\<rparr>),
      s_moves := s_moves s + 1\<rparr>"
  have "buf_fits (bheap s) ?x"
    using buf_wf_fits [OF assms(1) y] buf_fits_eq [of ?x y] by simp
  then have "buf_wf ?s' n" using assms(1) by (auto simp: buf_wf_def buf_fits_def dest: cnt_ok_Suc)
  moreover have "buf_move_construct i j s = Inr ?s'"
    using assms(1) y by (auto simp: buf_move_construct_def buf_wf_def Let_def dest: cnt_ok_Suc)
  ultimately show ?thesis
    using habs_move_construct [OF * y, of ?x "y\<lparr>bf_data := None, bf_size := 0\<rparr>"]
    by (simp add: buf_abs_def)
qed

lemma buf_move_assign_ok:
  assumes "buf_wf s (Suc n)" and "own_inv (buf_abs s)" and "i \<in> objs (buf_abs s)"
    and "j \<in> objs (buf_abs s)"
  shows "\<exists>s'. buf_move_assign i j s = Inr s' \<and> buf_wf s' n \<and>
    buf_abs s' = abs_move_assign i j (buf_abs s)"
proof -
  from assms(3,4) obtain x y where xy: "bobjs s i = Some x" "bobjs s j = Some y"
    by (auto simp: buf_abs_def)
  have inv: "own_inv (habs bf_data (bheap s) (bobjs s))" using assms(2) by (simp add: buf_abs_def)
  from habs_free [OF inv xy(1)] obtain h where h: "hfree (bf_data x) (bheap s) = Inr h"
    "dom (blocks h) = dom (blocks (bheap s)) - set_option (hown bf_data (bobjs s) i)"
    "\<forall>a. hown bf_data (bobjs s) i \<noteq> Some a \<longrightarrow> blocks h a = blocks (bheap s) a"
    by blast
  let ?st = "(bobjs s)(i \<mapsto> x\<lparr>bf_data := bf_data y, bf_size := bf_size y\<rparr>)"
  let ?st' = "?st(j \<mapsto> (the (?st j))\<lparr>bf_data := None, bf_size := 0\<rparr>)"
  let ?s' = "s\<lparr>bheap := h, bobjs := ?st', s_moves := s_moves s + 1\<rparr>"
  have "dom ?st' = dom (bobjs s)" using xy by auto
  moreover have "hown bf_data ?st' = (hown bf_data (bobjs s))(i := hown bf_data (bobjs s) j, j := None)"
    using xy by (simp add: hown_upd hown_at)
  ultimately have abs: "habs bf_data h ?st' = abs_move_assign i j (habs bf_data (bheap s) (bobjs s))"
    using h(2) by (rule habs_move_assign [OF inv])
  have old: "buf_fits h z" if "bobjs s k = Some z" "k \<noteq> i" for k z
    using fits_others [OF inv that h(3)] buf_wf_fits [OF assms(1) that(1)] by simp
  have "buf_fits h z" if z: "?st' k = Some z" for k z
  proof (cases "k = j")
    case True
    with z show ?thesis by (auto simp: buf_fits_def)
  next
    case False
    with z show ?thesis
      using old [of j y] old [of k z] xy buf_fits_eq [of z y] by (auto split: if_splits)
  qed
  then have "buf_wf ?s' n"
    using assms(1) heap_ok_hfree [OF _ h(1)] by (auto simp: buf_wf_def dest: cnt_ok_Suc)
  moreover have "buf_move_assign i j s = Inr ?s'"
    using assms(1) xy h(1) by (auto simp: buf_move_assign_def buf_wf_def Let_def dest: cnt_ok_Suc)
  ultimately show ?thesis using abs by (simp add: buf_abs_def)
qed

lemma buf_destroy_ok:
  assumes "buf_wf s (Suc n)" and "own_inv (buf_abs s)" and "i \<in> objs (buf_abs s)"
  shows "\<exists>s'. buf_destroy i s = Inr s' \<and> buf_wf s' n \<and> buf_abs s' = abs_destroy i (buf_abs s)"
proof -
  from assms(3) obtain x where x: "bobjs s i = Some x" by (auto simp: buf_abs_def)
  have inv: "own_inv (habs bf_data (bheap s) (bobjs s))" using assms(2) by (simp add: buf_abs_def)
  from habs_free [OF inv x] obtain h where h: "hfree (bf_data x) (bheap s) = Inr h"
    "dom (blocks h) = dom (blocks (bheap s)) - set_option (hown bf_data (bobjs s) i)"
    "\<forall>a. hown bf_data (bobjs s) i \<noteq> Some a \<longrightarrow> blocks h a = blocks (bheap s) a"
    by blast
  have "buf_fits h z" if "bobjs s k = Some z" "k \<noteq> i" for k z
    using fits_others [OF inv that h(3)] buf_wf_fits [OF assms(1) that(1)] by simp
  then have "buf_wf (s\<lparr>bheap := h, bobjs := (bobjs s)(i := None)\<rparr>) n"
    using buf_wf_Suc [OF assms(1)] heap_ok_hfree [OF _ h(1)] by (auto simp: buf_wf_def)
  with x h(1) habs_destroy [OF inv h(2)] show ?thesis
    by (simp add: buf_destroy_def buf_abs_def)
qed

lemma heap_ok_alloc_after:
  assumes "heap_ok h1" and "brk h1 = a"
  shows "heap_ok (h1\<lparr>blocks := (blocks h1)(a \<mapsto> bs), brk := Suc a\<rparr>)"
  using assms by (auto simp: heap_ok_def less_Suc_eq)

lemma buf_copy_construct_ok:
  assumes "buf_wf s (Suc n)" and "own_inv (buf_abs s)" and "i \<notin> objs (buf_abs s)"
    and "j \<in> objs (buf_abs s)"
  shows "\<exists>s' r. buf_copy_construct True i j s = Inr (Returns s') \<and> buf_wf s' n \<and>
    buf_abs s' = abs_acquire i r (buf_abs s) \<and> set_option r \<inter> live (buf_abs s) = {}"
proof -
  from assms(4) obtain y where y: "bobjs s j = Some y" by (auto simp: buf_abs_def)
  have fresh: "i \<notin> dom (bobjs s)" using assms(3) by (simp add: buf_abs_def)
  have ok: "heap_ok (bheap s)" using assms(1) by (simp add: buf_wf_def)
  obtain bs where bs: "length bs = bf_size y" and
    eq: "buf_copy_construct True i j s = Inr (Returns (s\<lparr>
      bheap := bheap s\<lparr>blocks := (blocks (bheap s))(brk (bheap s) \<mapsto> bs), brk := Suc (brk (bheap s))\<rparr>,
      bobjs := (bobjs s)(i \<mapsto> \<lparr>bf_data = Some (brk (bheap s)), bf_size = bf_size y\<rparr>),
      s_copies := s_copies s + 1\<rparr>))" (is "_ = Inr (Returns ?s')")
    using buf_copy_construct_spec [OF assms(1) y fresh] by blast
  have "buf_fits (bheap ?s') z" if "bobjs s k = Some z" for k z
    using buf_wf_fits [OF assms(1) that] buf_wf_old [OF assms(1) that]
    by (subst buf_fits_cong [of z _ "bheap s"]) auto
  then have "buf_wf ?s' n"
    using assms(1) bs heap_ok_alloc_after [OF ok refl]
    by (auto simp: buf_wf_def buf_fits_def dest: cnt_ok_Suc)
  moreover have "brk (bheap s) \<notin> dom (blocks (bheap s))" using heap_ok_fresh [OF ok] by auto
  moreover note habs_alloc(1) [OF ok, of bf_data "bobjs s" i _ "bheap ?s'" bs]
  ultimately show ?thesis
    unfolding eq using assms(2) fresh
    by (auto simp: buf_abs_def intro!: exI [of _ "Some (brk (bheap s))"])
qed

lemma replaced_ok:
  assumes "buf_wf s (Suc n)" and "own_inv (buf_abs s)" and "bobjs s i = Some x"
    and "hfree (bf_data x) (bheap s) = Inr h1" and "length bs = m"
    and "s' = s\<lparr>
      bheap := h1\<lparr>blocks := (blocks h1)(brk (bheap s) \<mapsto> bs), brk := Suc (brk (bheap s))\<rparr>,
      bobjs := (bobjs s)(i \<mapsto> x\<lparr>bf_data := Some (brk (bheap s)), bf_size := m\<rparr>),
      s_copies := s_copies s + 1\<rparr>"
  shows "buf_wf s' n \<and> own_inv (buf_abs s') \<and> objs (buf_abs s') = objs (buf_abs s) \<and>
    escaped (buf_abs s') = escaped (buf_abs s)"
proof -
  have inv: "own_inv (habs bf_data (bheap s) (bobjs s))" using assms(2) by (simp add: buf_abs_def)
  from habs_free [OF inv assms(3)] assms(4) have h1: "brk h1 = brk (bheap s)"
    "dom (blocks h1) = dom (blocks (bheap s)) - set_option (hown bf_data (bobjs s) i)"
    "\<forall>a. hown bf_data (bobjs s) i \<noteq> Some a \<longrightarrow> blocks h1 a = blocks (bheap s) a"
    by auto
  have ok: "heap_ok (bheap s)" using assms(1) by (simp add: buf_wf_def)
  have "buf_fits (bheap s') z" if z: "bobjs s k = Some z" "k \<noteq> i" for k z
  proof -
    have "buf_fits h1 z" using fits_others [OF inv z h1(3)] buf_wf_fits [OF assms(1) z(1)] by simp
    then show ?thesis
      using buf_wf_old [OF assms(1) z(1)] assms(6) by (subst buf_fits_cong [of z _ h1]) auto
  qed
  then have "buf_wf s' n"
    using assms(1,5,6) heap_ok_alloc_after [OF heap_ok_hfree [OF ok assms(4)] h1(1)]
    by (auto simp: buf_wf_def buf_fits_def dest: cnt_ok_Suc)
  with habs_replace [OF inv ok assms(3) _ _ h1(2),
      of "x\<lparr>bf_data := Some (brk (bheap s)), bf_size := m\<rparr>" "bheap s'" bs] assms(3,6)
  show ?thesis by (auto simp: buf_abs_def)
qed

lemma buf_copy_assign_ok:
  assumes "buf_wf s (Suc n)" and "own_inv (buf_abs s)" and "i \<in> objs (buf_abs s)"
    and "j \<in> objs (buf_abs s)"
  shows "\<exists>s'. buf_copy_assign True i j s = Inr (Returns s') \<and> buf_wf s' n \<and> own_inv (buf_abs s') \<and>
    objs (buf_abs s') = objs (buf_abs s) \<and> escaped (buf_abs s') = escaped (buf_abs s)"
proof -
  from assms(3,4) obtain x y where xy: "bobjs s i = Some x" "bobjs s j = Some y"
    by (auto simp: buf_abs_def)
  show ?thesis
  proof (cases "i = j")
    case True
    obtain h1 s' where s': "buf_copy_assign True i i s = Inr (Returns s')" "hfree (bf_data x) (bheap s) = Inr h1"
      "s' = s\<lparr>bheap := h1\<lparr>blocks := (blocks h1)(brk (bheap s) \<mapsto> replicate (bf_size x) 0),
          brk := Suc (brk (bheap s))\<rparr>,
        bobjs := (bobjs s)(i \<mapsto> x\<lparr>bf_data := Some (brk (bheap s)), bf_size := bf_size x\<rparr>),
        s_copies := s_copies s + 1\<rparr>"
      using buf_copy_assign_self [OF assms(1,2) xy(1)] by blast
    with True replaced_ok [OF assms(1,2) xy(1) s'(2) _ s'(3)] show ?thesis by simp
  next
    case False
    obtain bs h1 s' where s': "buf_copy_assign True i j s = Inr (Returns s')" "hfree (bf_data x) (bheap s) = Inr h1"
      "length bs = bf_size y"
      "s' = s\<lparr>bheap := h1\<lparr>blocks := (blocks h1)(brk (bheap s) \<mapsto> bs), brk := Suc (brk (bheap s))\<rparr>,
        bobjs := (bobjs s)(i \<mapsto> x\<lparr>bf_data := Some (brk (bheap s)), bf_size := bf_size y\<rparr>),
        s_copies := s_copies s + 1\<rparr>"
      using buf_copy_assign_spec [OF assms(1,2) xy False] by blast
    with replaced_ok [OF assms(1,2) xy(1) s'(2,3,4)] show ?thesis by simp
  qed
qed

lemma buf_ctor_ok:
  assumes "buf_wf s (Suc n)" and "own_inv (buf_abs s)" and "i \<notin> objs (buf_abs s)" and "fst a"
  shows "\<exists>s' r. buf_ctor i a s = Inr (Returns s') \<and> buf_wf s' n \<and>
    buf_abs s' = abs_acquire i r (buf_abs s) \<and> set_option r \<inter> live (buf_abs s) = {}"
  using buf_construct_ok [OF assms(1-3), of "snd a"] assms(4) by (simp add: buf_ctor_def)

text \<open>What throws without having changed anything.\<close>

lemma buf_ctor_throws: "\<not> fst a \<Longrightarrow> buf_ctor i a s = Inr (Throws s)"
  by (simp add: buf_ctor_def buf_construct_def)

lemma buf_copy_construct_throws:
  "bobjs s j = Some y \<Longrightarrow> buf_copy_construct False i j s = Inr (Throws s)"
  by (simp add: buf_copy_construct_def)

interpretation mbuf: raii_owner buf_abs buf_wf fst buf_ctor buf_move_construct buf_move_assign
  buf_destroy buf_use buf_pre buf_post
proof (unfold_locales, goal_cases)
  case (2 s n i a)
  with buf_ctor_throws [of a i s] buf_wf_Suc [of s n] show ?case by auto
next
  case (6 s n b)
  then show ?case
  proof (cases b)
    case (BufCopyConstruct ok i j)
    show ?thesis
    proof (cases ok)
      case True
      with BufCopyConstruct 6 obtain s' r where s': "buf_copy_construct True i j s = Inr (Returns s')"
        "buf_wf s' n" "buf_abs s' = abs_acquire i r (buf_abs s)" "set_option r \<inter> live (buf_abs s) = {}"
        using buf_copy_construct_ok [of s n i j] by auto
      with True 6 BufCopyConstruct own_inv_acquire [of "buf_abs s" i r] show ?thesis
        by (simp add: abs_acquire_def)
    next
      case False
      with BufCopyConstruct 6 obtain y where "bobjs s j = Some y" by (auto simp: buf_abs_def)
      with False BufCopyConstruct 6 buf_copy_construct_throws [of s j y i] buf_wf_Suc [of s n]
      show ?thesis by simp
    qed
  next
    case (BufCopyAssign ok i j)
    with 6 buf_copy_assign_ok [of s n i j] show ?thesis by auto
  qed
qed (use buf_ctor_ok buf_move_construct_ok buf_move_assign_ok buf_destroy_ok in auto)

subsection \<open>Properties\<close>

fun copied :: "buf_call \<Rightarrow> bool" where
  "copied (BufCopyConstruct ok i j) = ok"
| "copied (BufCopyAssign ok i j) = ok"

fun copies_in :: "(bool \<times> nat, buf_call) obj_op list \<Rightarrow> int" where
  "copies_in [] = 0"
| "copies_in (Use b # ops) = of_bool (copied b) + copies_in ops"
| "copies_in (x # ops) = copies_in ops"

fun moves_in :: "(bool \<times> nat, buf_call) obj_op list \<Rightarrow> int" where
  "moves_in [] = 0"
| "moves_in (MoveConstruct i j # ops) = 1 + moves_in ops"
| "moves_in (MoveAssign i j # ops) = 1 + moves_in ops"
| "moves_in (x # ops) = moves_in ops"

lemma buf_op_counts:
  assumes "exec_op buf_ctor buf_move_construct buf_move_assign buf_destroy buf_use x s = Inr t"
  shows "s_copies t = s_copies s + copies_in [x] \<and> s_moves t = s_moves s + moves_in [x]"
proof (cases x)
  case (Use b)
  with assms show ?thesis
    by (cases b) (auto simp: buf_copy_construct_def buf_copy_assign_def rbind_eq_Inr Let_def
        halloc_def split: option.splits if_splits)
qed (use assms in \<open>auto simp: buf_ctor_def buf_construct_def buf_move_construct_def buf_move_assign_def
    buf_destroy_def rbind_eq_Inr Let_def halloc_def split: option.splits if_splits\<close>)

lemma buf_prog_Cons: "buf_prog (x # ops) s =
    rbind (exec_op buf_ctor buf_move_construct buf_move_assign buf_destroy buf_use x s) (buf_prog ops)"
  by (simp add: buf_prog_def)

lemma copies_in_Cons: "copies_in (x # ops) = copies_in [x] + copies_in ops"
  by (cases x) auto

lemma moves_in_Cons: "moves_in (x # ops) = moves_in [x] + moves_in ops"
  by (cases x) auto

definition buf_init :: "byte heap \<Rightarrow> buf_state" where
  "buf_init h = \<lparr>bheap = h, bobjs = Map.empty, s_copies = 0, s_moves = 0\<rparr>"

text \<open>C5: Take a program of \<open>Buffer\<close> objects (constructions, copy constructions, moves, self-moves, copy
  assignments, self-assignments, destructions) of at most \<open>2^31 - 1\<close> operations that starts with both
  counters 0, constructs an object only once at a time, uses only living objects and destroys what it
  constructs. The \<open>new[]\<close> of any constructor or copy constructor may throw, and the program catches
  that and goes on; the \<open>new[]\<close> of its copy assignments succeeds. Then it runs without a fault: no block
  is freed twice, none is used after it was freed, the byte loops stay inside their blocks, the
  counters do not overflow, and exactly the blocks allocated before it are allocated after it.\<close>

theorem buffer_programs_safe:
  assumes "heap_ok h" and "legal fst buf_pre buf_post {} ops" and "alive_after fst buf_post {} ops = {}"
    and "length ops \<le> 2147483647"
  shows "\<exists>s'. buf_prog ops (buf_init h) = Inr s' \<and> bobjs s' = Map.empty \<and>
    dom (blocks (bheap s')) = dom (blocks h)"
proof -
  have "own_inv (buf_abs (buf_init h))" by (simp add: buf_abs_def buf_init_def own_inv_habs_init)
  moreover have "buf_wf (buf_init h) (length ops)"
    using assms(1,4) by (simp add: buf_wf_def buf_init_def cnt_ok_def)
  moreover have "legal fst buf_pre buf_post (objs (buf_abs (buf_init h))) ops"
      "alive_after fst buf_post (objs (buf_abs (buf_init h))) ops = {}"
    using assms(2,3) by (simp_all add: buf_abs_def buf_init_def)
  ultimately obtain s' where "buf_prog ops (buf_init h) = Inr s'" "objs (buf_abs s') = {}"
      "live (buf_abs s') = escaped (buf_abs (buf_init h))"
    unfolding buf_prog_def using mbuf.run_no_leak by blast
  then show ?thesis by (auto simp: buf_abs_def buf_init_def)
qed

theorem buffer_programs_safe_witness:
  "\<exists>s'. buf_prog [Construct 0 (True, 4), Construct 1 (False, 9), Use (BufCopyConstruct False 1 0),
      Use (BufCopyConstruct True 1 0), Use (BufCopyAssign True 0 0), MoveAssign 1 0,
      Use (BufCopyAssign True 0 1), Destroy 0, Destroy 1] (buf_init empty_heap) = Inr s' \<and>
    bobjs s' = Map.empty \<and> dom (blocks (bheap s')) = dom (blocks (empty_heap :: byte heap))"
  by (rule buffer_programs_safe) auto

text \<open>C20: When the \<open>new[]\<close> of a copy assignment throws, the object it assigned to, if it held a block, is
  left with \<open>data_\<close> pointing to the block already deleted, its old size, and the counters unchanged: reading any byte of
  it is a use after free, and its destructor, a move assignment to it and a further copy assignment to it, from any
  living object, delete that block a second time. The other objects keep their bytes. (The heap and the objects are in a
  good state before: every object owns a block of its own of the object's size, or none.)\<close>

theorem buffer_throwing_copy_assign_dangles:
  assumes "buf_wf s n" and "own_inv (buf_abs s)" and "bobjs s i = Some x" and "bobjs s j = Some y"
    and "bf_data x = Some a"
  shows "\<exists>t. buf_copy_assign False i j s = Inr (Throws t) \<and> bobjs t = bobjs s \<and>
    s_copies t = s_copies s \<and> s_moves t = s_moves s \<and>
    (\<forall>k. buf_read i k t = Inl UseAfterFree) \<and> buf_destroy i t = Inl DoubleFree \<and>
    (\<forall>k z ok. bobjs s k = Some z \<longrightarrow>
       buf_move_assign i k t = Inl DoubleFree \<and> buf_copy_assign ok i k t = Inl DoubleFree) \<and>
    (\<forall>k. k \<noteq> i \<longrightarrow> buf_bytes k t = buf_bytes k s)"
proof -
  have inv: "own_inv (habs bf_data (bheap s) (bobjs s))" using assms(2) by (simp add: buf_abs_def)
  let ?t = "s\<lparr>bheap := (bheap s)\<lparr>blocks := (blocks (bheap s))(a := None)\<rparr>\<rparr>"
  obtain bs where bs: "blocks (bheap s) a = Some bs"
    using buf_fits_Some [OF buf_wf_fits [OF assms(1,3)] assms(5)] by blast
  have "bf_data z \<noteq> Some a" if "bobjs s k = Some z" "k \<noteq> i" for k z
    using that assms(3,5) inj_mapD [OF habs_inj [OF inv], of i a k] by (auto simp: hown_at)
  then have "buf_bytes k ?t = buf_bytes k s" if "k \<noteq> i" for k
    using that by (auto simp: buf_bytes_def split: option.splits)
  moreover have "buf_copy_assign False i j s = Inr (Throws ?t)"
    using assms(3-5) bs by (simp add: buf_copy_assign_def hfree_Some)
  ultimately show ?thesis
    using assms(3,5)
    by (auto simp: buf_read_def buf_destroy_def buf_move_assign_def buf_copy_assign_def hread_def
        hblock_def hfree_def intro!: exI [of _ ?t])
qed

theorem buffer_throwing_copy_assign_dangles_witness:
  "\<exists>t. buf_copy_assign False 1 0 \<lparr>bheap = \<lparr>blocks = [3 \<mapsto> [7, 8], 4 \<mapsto> [1]], brk = 5\<rparr>,
      bobjs = [0 \<mapsto> \<lparr>bf_data = Some 3, bf_size = 2\<rparr>, 1 \<mapsto> \<lparr>bf_data = Some 4, bf_size = 1\<rparr>],
      s_copies = 0, s_moves = 0\<rparr> = Inr (Throws t) \<and> buf_destroy 1 t = Inl DoubleFree \<and>
    buf_read 1 0 t = Inl UseAfterFree"
proof -
  let ?s = "\<lparr>bheap = \<lparr>blocks = [3 \<mapsto> [7, 8], 4 \<mapsto> [1]], brk = 5\<rparr>,
      bobjs = [0 \<mapsto> \<lparr>bf_data = Some 3, bf_size = 2\<rparr>, 1 \<mapsto> \<lparr>bf_data = Some 4, bf_size = 1\<rparr>],
      s_copies = 0, s_moves = 0\<rparr>"
  have wf: "buf_wf ?s 0"
    by (auto simp: buf_wf_def heap_ok_def cnt_ok_def buf_fits_def split: if_splits)
  have inv: "own_inv (buf_abs ?s)"
    by (auto simp: own_inv_def buf_abs_def habs_def hown_def inj_map_def ran_def split: if_splits)
  show ?thesis
    using buffer_throwing_copy_assign_dangles [OF wf inv, of 1 "\<lparr>bf_data = Some 4, bf_size = 1\<rparr>" 0
        "\<lparr>bf_data = Some 3, bf_size = 2\<rparr>" 4] by auto
qed

text \<open>The static counters are exact: after any program that comes to its end, \<open>s_copies_\<close> has grown by
  the number of copy constructions and copy assignments in it that did not throw and \<open>s_moves_\<close> by the
  number of move constructions and move assignments.\<close>

theorem buffer_counters_exact:
  "buf_prog ops s = Inr s' \<Longrightarrow>
    s_copies s' = s_copies s + copies_in ops \<and> s_moves s' = s_moves s + moves_in ops"
proof (induction ops arbitrary: s)
  case Nil
  then show ?case by (simp add: buf_prog_def)
next
  case (Cons x ops)
  then obtain t where "exec_op buf_ctor buf_move_construct buf_move_assign buf_destroy buf_use x s
      = Inr t" "buf_prog ops t = Inr s'"
    by (auto simp: buf_prog_Cons rbind_eq_Inr)
  with Cons.IH buf_op_counts show ?case
    by (simp add: copies_in_Cons [of x ops] moves_in_Cons [of x ops])
qed

theorem buffer_counters_exact_witness:
  "\<exists>s'. buf_prog [Construct 0 (True, 2), Use (BufCopyConstruct True 1 0), Use (BufCopyAssign False 0 1),
      MoveConstruct 2 1] (buf_init empty_heap) = Inr s' \<and> s_copies s' = 1 \<and> s_moves s' = 1"
proof -
  let ?ops = "[Construct 0 (True, 2), Use (BufCopyConstruct True 1 0), Use (BufCopyAssign False 0 1),
      MoveConstruct 2 1]"
  have "\<exists>s'. buf_prog ?ops (buf_init empty_heap) = Inr s'"
    by (simp add: buf_prog_def buf_init_def empty_heap_def buf_ctor_def buf_construct_def
        buf_copy_construct_def buf_copy_assign_def buf_move_construct_def halloc_def hread_def
        hwrite_def hblock_def hfree_def copy_bytes.simps in_int_def numeral_2_eq_2)
  then show ?thesis
    using buffer_counters_exact [of ?ops "buf_init empty_heap"] by (auto simp: buf_init_def)
qed

text \<open>The copy constructor, when its \<open>new[]\<close> succeeds, makes a deep copy: the new object holds the bytes of the source in a
  block of its own, the source and every other object keep their bytes, the copy is counted, and a
  later write through the new object does not change the source. (Hypotheses: the heap and the objects are in a good
  state, the copy counter is below \<open>2^31 - 1\<close>, the source is alive and the name of the copy is free.)\<close>

theorem buffer_copy_is_deep:
  assumes "buf_wf s (Suc n)" and "bobjs s j = Some y" and "i \<notin> dom (bobjs s)"
  shows "\<exists>s' x. buf_copy_construct True i j s = Inr (Returns s') \<and> buf_bytes i s' = buf_bytes j s \<and>
    buf_bytes j s \<noteq> None \<and> bobjs s' i = Some x \<and> bf_data x \<noteq> bf_data y \<and>
    (\<forall>k. k \<noteq> i \<longrightarrow> buf_bytes k s' = buf_bytes k s) \<and> s_copies s' = s_copies s + 1 \<and>
    s_moves s' = s_moves s \<and>
    (\<forall>p v s''. buf_write i p v s' = Inr s'' \<longrightarrow> buf_bytes j s'' = buf_bytes j s)"
proof -
  obtain bs where bs: "buf_bytes j s = Some bs" and
    eq: "buf_copy_construct True i j s = Inr (Returns (s\<lparr>
      bheap := bheap s\<lparr>blocks := (blocks (bheap s))(brk (bheap s) \<mapsto> bs), brk := Suc (brk (bheap s))\<rparr>,
      bobjs := (bobjs s)(i \<mapsto> \<lparr>bf_data = Some (brk (bheap s)), bf_size = bf_size y\<rparr>),
      s_copies := s_copies s + 1\<rparr>))" (is "_ = Inr (Returns ?s')")
    using buf_copy_construct_spec [OF assms] by blast
  have old: "bf_data z \<noteq> Some (brk (bheap s))" if "bobjs s k = Some z" for k z
    using buf_wf_old [OF assms(1) that] .
  have others: "buf_bytes k ?s' = buf_bytes k s" if "k \<noteq> i" for k
    using that old [of k] by (auto simp: buf_bytes_def split: option.splits)
  have "j \<noteq> i" using assms(2,3) by auto
  have "buf_bytes j s'' = buf_bytes j s" if "buf_write i p v ?s' = Inr s''" for p v s''
    using that \<open>j \<noteq> i\<close> assms(2) old [OF assms(2)]
    by (auto simp: buf_write_def buf_bytes_def hwrite_def hblock_def split: option.splits if_splits)
  then show ?thesis
    unfolding eq using bs others old [OF assms(2)] by (auto simp: buf_bytes_def)
qed

theorem buffer_copy_is_deep_witness:
  "\<exists>s' x. buf_copy_construct True 1 0 \<lparr>bheap = \<lparr>blocks = [3 \<mapsto> [7, 8, 9]], brk = 4\<rparr>,
      bobjs = [0 \<mapsto> \<lparr>bf_data = Some 3, bf_size = 3\<rparr>], s_copies = 0, s_moves = 0\<rparr> = Inr (Returns s') \<and>
    buf_bytes 1 s' = Some [7, 8, 9] \<and> bobjs s' 1 = Some x \<and> bf_data x \<noteq> Some 3 \<and> s_copies s' = 1"
proof -
  let ?s = "\<lparr>bheap = \<lparr>blocks = [3 \<mapsto> [7, 8, 9]], brk = 4\<rparr>,
      bobjs = [0 \<mapsto> \<lparr>bf_data = Some 3, bf_size = 3\<rparr>], s_copies = 0, s_moves = 0\<rparr>"
  have "buf_wf ?s (Suc 0)"
    by (simp add: buf_wf_def heap_ok_def cnt_ok_def buf_fits_def)
  from buffer_copy_is_deep [OF this, of 0 _ 1] show ?thesis
    by (auto simp: buf_bytes_def)
qed

text \<open>Copy assignment between different objects, when its \<open>new[]\<close> succeeds, releases what the target held
  and gives it the bytes of the source in a block of its own; every other object keeps its bytes.\<close>

theorem buffer_copy_assign_copies:
  assumes "buf_wf s (Suc n)" and "own_inv (buf_abs s)" and "bobjs s i = Some x"
    and "bobjs s j = Some y" and "i \<noteq> j"
  shows "\<exists>s'. buf_copy_assign True i j s = Inr (Returns s') \<and> buf_bytes i s' = buf_bytes j s \<and>
    buf_bytes j s \<noteq> None \<and> (\<forall>k. k \<noteq> i \<longrightarrow> buf_bytes k s' = buf_bytes k s) \<and>
    (\<forall>a. bf_data x = Some a \<longrightarrow> blocks (bheap s') a = None) \<and> s_copies s' = s_copies s + 1"
proof -
  have inv: "own_inv (habs bf_data (bheap s) (bobjs s))" using assms(2) by (simp add: buf_abs_def)
  obtain bs h1 where bs: "buf_bytes j s = Some bs" and h: "hfree (bf_data x) (bheap s) = Inr h1" and
    eq: "buf_copy_assign True i j s = Inr (Returns (s\<lparr>
      bheap := h1\<lparr>blocks := (blocks h1)(brk (bheap s) \<mapsto> bs), brk := Suc (brk (bheap s))\<rparr>,
      bobjs := (bobjs s)(i \<mapsto> x\<lparr>bf_data := Some (brk (bheap s)), bf_size := bf_size y\<rparr>),
      s_copies := s_copies s + 1\<rparr>))" (is "_ = Inr (Returns ?s')")
    using buf_copy_assign_spec [OF assms] by blast
  from habs_free [OF inv assms(3)] h have h1:
    "\<forall>a. hown bf_data (bobjs s) i \<noteq> Some a \<longrightarrow> blocks h1 a = blocks (bheap s) a" by auto
  have "buf_bytes k ?s' = buf_bytes k s" if "k \<noteq> i" for k
  proof (cases "bobjs s k")
    case None
    with that show ?thesis by (simp add: buf_bytes_def)
  next
    case (Some z)
    have "blocks h1 a = blocks (bheap s) a" if "bf_data z = Some a" for a
      using h1 that Some \<open>k \<noteq> i\<close> inj_mapD [OF habs_inj [OF inv], of i a k] by (auto simp: hown_at)
    with Some that buf_wf_old [OF assms(1) Some] show ?thesis
      by (auto simp: buf_bytes_def split: option.splits)
  qed
  moreover have "blocks (bheap ?s') a = None" if "bf_data x = Some a" for a
    using that h buf_wf_old [OF assms(1,3)] by (auto simp: hfree_def split: option.splits)
  ultimately show ?thesis
    unfolding eq using bs by (auto simp: buf_bytes_def)
qed

theorem buffer_copy_assign_copies_witness:
  "\<exists>s'. buf_copy_assign True 1 0 \<lparr>bheap = \<lparr>blocks = [3 \<mapsto> [7, 8], 4 \<mapsto> [1]], brk = 5\<rparr>,
      bobjs = [0 \<mapsto> \<lparr>bf_data = Some 3, bf_size = 2\<rparr>, 1 \<mapsto> \<lparr>bf_data = Some 4, bf_size = 1\<rparr>],
      s_copies = 0, s_moves = 0\<rparr> = Inr (Returns s') \<and> buf_bytes 1 s' = Some [7, 8] \<and> blocks (bheap s') 4 = None"
proof -
  let ?s = "\<lparr>bheap = \<lparr>blocks = [3 \<mapsto> [7, 8], 4 \<mapsto> [1]], brk = 5\<rparr>,
      bobjs = [0 \<mapsto> \<lparr>bf_data = Some 3, bf_size = 2\<rparr>, 1 \<mapsto> \<lparr>bf_data = Some 4, bf_size = 1\<rparr>],
      s_copies = 0, s_moves = 0\<rparr>"
  have wf: "buf_wf ?s (Suc 0)"
    by (auto simp: buf_wf_def heap_ok_def cnt_ok_def buf_fits_def split: if_splits)
  have inv: "own_inv (buf_abs ?s)"
    by (auto simp: own_inv_def buf_abs_def habs_def hown_def inj_map_def ran_def split: if_splits)
  obtain s' where "buf_copy_assign True 1 0 ?s = Inr (Returns s')" "buf_bytes 1 s' = buf_bytes 0 ?s"
      "blocks (bheap s') 4 = None"
    using buffer_copy_assign_copies [OF wf inv, of 1 "\<lparr>bf_data = Some 4, bf_size = 1\<rparr>" 0
        "\<lparr>bf_data = Some 3, bf_size = 2\<rparr>"] by auto
  moreover have "buf_bytes 0 ?s = Some [7, 8]" by (simp add: buf_bytes_def)
  ultimately show ?thesis by metis
qed

text \<open>C39: Copy assignment of an object to itself, when its \<open>new[]\<close> succeeds, does not keep its bytes: the old
  block is deleted first and the fresh one, all zeros, is copied onto itself, so the object ends with as many zero
  bytes as it had bytes. (Hypotheses: the object is alive, heap and objects are in a good state, and the copy counter can
  be incremented.)\<close>

theorem buffer_self_copy_assign_zeroes:
  assumes "buf_wf s (Suc n)" and "own_inv (buf_abs s)" and "bobjs s i = Some x"
  shows "\<exists>s'. buf_copy_assign True i i s = Inr (Returns s') \<and> buf_bytes i s' = Some (replicate (bf_size x) 0)"
  using buf_copy_assign_self [OF assms] by (auto simp: buf_bytes_def)

theorem buffer_self_copy_assign_zeroes_witness:
  "\<exists>s'. buf_copy_assign True 0 0 \<lparr>bheap = \<lparr>blocks = [3 \<mapsto> [7, 8, 9]], brk = 4\<rparr>,
      bobjs = [0 \<mapsto> \<lparr>bf_data = Some 3, bf_size = 3\<rparr>], s_copies = 0, s_moves = 0\<rparr> = Inr (Returns s') \<and>
    buf_bytes 0 s' = Some [0, 0, 0]"
proof -
  let ?s = "\<lparr>bheap = \<lparr>blocks = [3 \<mapsto> [7, 8, 9]], brk = 4\<rparr>,
      bobjs = [0 \<mapsto> \<lparr>bf_data = Some 3, bf_size = 3\<rparr>], s_copies = 0, s_moves = 0\<rparr>"
  have wf: "buf_wf ?s (Suc 0)"
    by (simp add: buf_wf_def heap_ok_def cnt_ok_def buf_fits_def)
  have inv: "own_inv (buf_abs ?s)"
    by (auto simp: own_inv_def buf_abs_def habs_def hown_def inj_map_def ran_def split: if_splits)
  show ?thesis
    using buffer_self_copy_assign_zeroes [OF wf inv, of 0] by (auto simp: numeral_3_eq_3)
qed

end
