(* ===== verification/Primitives.thy ===== *)
theory Primitives
  imports Prelude
begin

section \<open>Type-safe order primitives\<close>

text \<open>
  Model of \<open>02-modern-cpp/exercises/ex2-type-safe-primitives/primitives.hpp\<close>: the strong
  typedefs \<open>Price\<close> and \<open>Quantity\<close> over \<open>int64_t\<close>, the side of an order, the order message and
  the compile-time symbol table. Arithmetic that leaves the 64-bit range is signed overflow.
  Price and Quantity are different types, so no operation mixes them.
\<close>

subsection \<open>Price\<close>

datatype price = Price (price_value: int)

definition price_add :: "price \<Rightarrow> price \<Rightarrow> price res" where
  "price_add this other =
     rbind (chk64 (price_value this + price_value other)) (\<lambda>v. Inr (Price v))"

definition price_sub :: "price \<Rightarrow> price \<Rightarrow> price res" where
  "price_sub this other =
     rbind (chk64 (price_value this - price_value other)) (\<lambda>v. Inr (Price v))"

definition price_eq :: "price \<Rightarrow> price \<Rightarrow> bool" where
  "price_eq this other \<longleftrightarrow> price_value this = price_value other"

definition price_ne :: "price \<Rightarrow> price \<Rightarrow> bool" where
  "price_ne this other \<longleftrightarrow> price_value this \<noteq> price_value other"

definition price_lt :: "price \<Rightarrow> price \<Rightarrow> bool" where
  "price_lt this other \<longleftrightarrow> price_value this < price_value other"

definition price_gt :: "price \<Rightarrow> price \<Rightarrow> bool" where
  "price_gt this other \<longleftrightarrow> price_value this > price_value other"

definition price_le :: "price \<Rightarrow> price \<Rightarrow> bool" where
  "price_le this other \<longleftrightarrow> price_value this \<le> price_value other"

definition price_ge :: "price \<Rightarrow> price \<Rightarrow> bool" where
  "price_ge this other \<longleftrightarrow> price_value this \<ge> price_value other"

subsection \<open>Quantity\<close>

datatype quantity = Quantity (quantity_value: int)

definition quantity_add :: "quantity \<Rightarrow> quantity \<Rightarrow> quantity res" where
  "quantity_add this other =
     rbind (chk64 (quantity_value this + quantity_value other)) (\<lambda>v. Inr (Quantity v))"

definition quantity_sub :: "quantity \<Rightarrow> quantity \<Rightarrow> quantity res" where
  "quantity_sub this other =
     rbind (chk64 (quantity_value this - quantity_value other)) (\<lambda>v. Inr (Quantity v))"

definition quantity_scale :: "quantity \<Rightarrow> int \<Rightarrow> quantity res" where
  "quantity_scale this scale =
     rbind (chk64 (quantity_value this * scale)) (\<lambda>v. Inr (Quantity v))"

definition quantity_eq :: "quantity \<Rightarrow> quantity \<Rightarrow> bool" where
  "quantity_eq this other \<longleftrightarrow> quantity_value this = quantity_value other"

definition quantity_ne :: "quantity \<Rightarrow> quantity \<Rightarrow> bool" where
  "quantity_ne this other \<longleftrightarrow> quantity_value this \<noteq> quantity_value other"

definition quantity_lt :: "quantity \<Rightarrow> quantity \<Rightarrow> bool" where
  "quantity_lt this other \<longleftrightarrow> quantity_value this < quantity_value other"

definition quantity_gt :: "quantity \<Rightarrow> quantity \<Rightarrow> bool" where
  "quantity_gt this other \<longleftrightarrow> quantity_value this > quantity_value other"

definition quantity_le :: "quantity \<Rightarrow> quantity \<Rightarrow> bool" where
  "quantity_le this other \<longleftrightarrow> quantity_value this \<le> quantity_value other"

definition quantity_ge :: "quantity \<Rightarrow> quantity \<Rightarrow> bool" where
  "quantity_ge this other \<longleftrightarrow> quantity_value this \<ge> quantity_value other"

lemmas price_ops = price_add_def price_sub_def price_eq_def price_ne_def price_lt_def price_gt_def
  price_le_def price_ge_def
lemmas quantity_ops = quantity_add_def quantity_sub_def quantity_scale_def quantity_eq_def
  quantity_ne_def quantity_lt_def quantity_gt_def quantity_le_def quantity_ge_def

text \<open>Both are linearly ordered by their comparison operators, so the library's order facts apply.\<close>

instantiation price :: linorder
begin

definition less_eq_price :: "price \<Rightarrow> price \<Rightarrow> bool" where
  "less_eq_price = price_le"

definition less_price :: "price \<Rightarrow> price \<Rightarrow> bool" where
  "less_price = price_lt"

instance
  by standard (auto simp: less_eq_price_def less_price_def price_ops intro: price.expand)

end

instantiation quantity :: linorder
begin

definition less_eq_quantity :: "quantity \<Rightarrow> quantity \<Rightarrow> bool" where
  "less_eq_quantity = quantity_le"

definition less_quantity :: "quantity \<Rightarrow> quantity \<Rightarrow> bool" where
  "less_quantity = quantity_lt"

instance
  by standard (auto simp: less_eq_quantity_def less_quantity_def quantity_ops intro: quantity.expand)

end

subsection \<open>The contract of a strong typedef\<close>

locale strong_int64 =
  fixes mk :: "int \<Rightarrow> 'v"
    and val :: "'v \<Rightarrow> int"
    and add :: "'v \<Rightarrow> 'v \<Rightarrow> 'v res"
    and sub :: "'v \<Rightarrow> 'v \<Rightarrow> 'v res"
    and eq ne lt gt le ge :: "'v \<Rightarrow> 'v \<Rightarrow> bool"
  assumes val_mk: "val (mk v) = v"
    and mk_val: "mk (val p) = p"
    and add_val: "add p q = rbind (chk64 (val p + val q)) (\<lambda>v. Inr (mk v))"
    and sub_val: "sub p q = rbind (chk64 (val p - val q)) (\<lambda>v. Inr (mk v))"
    and eq_val: "eq p q \<longleftrightarrow> val p = val q"
    and ne_val: "ne p q \<longleftrightarrow> val p \<noteq> val q"
    and lt_val: "lt p q \<longleftrightarrow> val p < val q"
    and gt_val: "gt p q \<longleftrightarrow> val p > val q"
    and le_val: "le p q \<longleftrightarrow> val p \<le> val q"
    and ge_val: "ge p q \<longleftrightarrow> val p \<ge> val q"
begin

lemma eq_iff_same: "eq p q \<longleftrightarrow> p = q"
  by (metis eq_val mk_val)

lemma comparisons_agree:
  "(ne p q \<longleftrightarrow> \<not> eq p q) \<and> (gt p q \<longleftrightarrow> lt q p) \<and> (ge p q \<longleftrightarrow> le q p) \<and>
   (le p q \<longleftrightarrow> lt p q \<or> eq p q) \<and> (lt p q \<longleftrightarrow> \<not> ge p q) \<and>
   (lt p q \<or> eq p q \<or> gt p q)"
  by (auto simp: eq_val ne_val lt_val gt_val le_val ge_val)

lemma add_exact:
  "add p q = (if in_int64 (val p + val q) then Inr (mk (val p + val q)) else Inl SignedOverflow)"
  by (simp add: add_val chk64_def)

lemma sub_undoes_add:
  assumes "in_int64 (val p)" and "add p q = Inr r"
  shows "sub r q = Inr p"
  using assms by (auto simp: add_exact sub_val val_mk mk_val split: if_splits)

lemma add_mono:
  assumes "le p p'" and "add p q = Inr r" and "add p' q = Inr r'"
  shows "le r r'"
  using assms by (auto simp: add_exact le_val val_mk split: if_splits)

end

interpretation pr: strong_int64 Price price_value price_add price_sub price_eq price_ne price_lt
  price_gt price_le price_ge
  by unfold_locales (simp_all add: price_ops)

interpretation qt: strong_int64 Quantity quantity_value quantity_add quantity_sub quantity_eq
  quantity_ne quantity_lt quantity_gt quantity_le quantity_ge
  by unfold_locales (simp_all add: quantity_ops)

subsection \<open>Side and Order\<close>

datatype side = Buy | Sell

definition opposite :: "side \<Rightarrow> side" where
  "opposite s = (if s = Buy then Sell else Buy)"

definition side_str :: "side \<Rightarrow> string" where
  "side_str s = (if s = Buy then ''Buy'' else ''Sell'')"

record order =
  order_id :: "64 word"
  order_price :: price
  order_qty :: quantity
  order_side :: side

definition Order :: "64 word \<Rightarrow> price \<Rightarrow> quantity \<Rightarrow> side \<Rightarrow> order" where
  "Order i p q s = \<lparr>order_id = i, order_price = p, order_qty = q, order_side = s\<rparr>"

lemma opposite_opposite [simp]: "opposite (opposite s) = s"
  by (cases s) (simp_all add: opposite_def)

lemma opposite_neq [simp]: "opposite s \<noteq> s"
  by (cases s) (simp_all add: opposite_def)

subsection \<open>The symbol table\<close>

text \<open>
  A C string is the list of the characters before its terminating NUL (a NUL inside the list
  ends it too); \<open>deref\<close> is what \<open>*p\<close> reads.
\<close>

abbreviation nul :: char where "nul \<equiv> CHR 0x00"

definition deref :: "string \<Rightarrow> char" where
  "deref p = (case p of [] \<Rightarrow> nul | c # _ \<Rightarrow> c)"

definition cstr :: "string \<Rightarrow> string" where
  "cstr p = takeWhile (\<lambda>c. c \<noteq> nul) p"

definition SYMBOL_TABLE :: "(string \<times> int) list" where
  "SYMBOL_TABLE =
     [(''AAPL'', 0), (''MSFT'', 1), (''GOOG'', 2), (''AMZN'', 3),
      (''META'', 4), (''NVDA'', 5), (''TSLA'', 6), (''JPM'', 7)]"

definition NUM_SYMBOLS :: nat where
  "NUM_SYMBOLS = length SYMBOL_TABLE"

text \<open>The inner loop advances both pointers while they show the same non-NUL character.\<close>

fun skip_common :: "string \<Rightarrow> string \<Rightarrow> string \<times> string" where
  "skip_common (t # ts) (n # ns) =
     (if t \<noteq> nul \<and> n \<noteq> nul \<and> t = n then skip_common ts ns else (t # ts, n # ns))"
| "skip_common ts ns = (ts, ns)"

fun symbol_search :: "(string \<times> int) list \<Rightarrow> string \<Rightarrow> int" where
  "symbol_search [] start = -1"
| "symbol_search ((ticker, i) # tab) start =
     (let (t, n) = skip_common ticker start
      in if deref t = nul \<and> deref n = nul then i else symbol_search tab start)"

definition symbol_id :: "string \<Rightarrow> int" where
  "symbol_id name = symbol_search SYMBOL_TABLE name"

lemma skip_common_match:
  "(case skip_common ts ns of (t, n) \<Rightarrow> deref t = nul \<and> deref n = nul) \<longleftrightarrow> cstr ts = cstr ns"
  by (induction ts ns rule: skip_common.induct) (auto simp: deref_def cstr_def split: list.splits)

lemma symbol_search_spec:
  "symbol_search tab name =
     (case find (\<lambda>(s, i). cstr s = cstr name) tab of None \<Rightarrow> -1 | Some (s, i) \<Rightarrow> i)"
proof (induction tab)
  case Nil
  then show ?case by simp
next
  case (Cons p tab)
  obtain s i where p: "p = (s, i)" by fastforce
  obtain t n where tn: "skip_common s name = (t, n)" by fastforce
  then have "deref t = nul \<and> deref n = nul \<longleftrightarrow> cstr s = cstr name"
    using skip_common_match [of s name] by simp
  with Cons p tn show ?case by simp
qed

subsection \<open>Properties\<close>

text \<open>Adding two prices returns the exact sum when it fits in \<open>int64_t\<close> and is signed
  overflow otherwise, subtracting the second summand gives the first back, and addition is
  monotone in the order of prices.\<close>

theorem price_addition_exact:
  assumes "in_int64 (price_value p)"
  shows "price_add p q =
      (if in_int64 (price_value p + price_value q) then Inr (Price (price_value p + price_value q))
       else Inl SignedOverflow) \<and>
    (price_add p q = Inr r \<longrightarrow> price_sub r q = Inr p) \<and>
    (p \<le> p' \<and> price_add p q = Inr r \<and> price_add p' q = Inr r' \<longrightarrow> r \<le> r')"
  using pr.add_exact [of p q] pr.sub_undoes_add [OF assms, of q r] pr.add_mono [of p p' q r r']
  unfolding less_eq_price_def by blast

theorem price_addition_exact_witness:
  "price_add (Price 9223372036854775807) (Price 1) = Inl SignedOverflow \<and>
   price_add (Price 100) (Price 5) = Inr (Price 105) \<and> price_sub (Price 105) (Price 5) = Inr (Price 100)"
  using price_addition_exact [of "Price 9223372036854775807" "Price 1"]
    price_addition_exact [of "Price 100" "Price 5" "Price 105"]
  by (simp add: in_int64_def)

text \<open>The six comparison operators of \<open>Price\<close> and of \<open>Quantity\<close> are one linear order each:
  \<open>!=\<close>, \<open>>\<close>, \<open>>=\<close> and \<open><=\<close> are what they should be in terms of \<open>==\<close> and \<open><\<close>, exactly one of
  less, equal and greater holds, and equality of the wrappers is equality of the objects.\<close>

theorem strong_typedefs_ordered:
  "(price_ne p q \<longleftrightarrow> \<not> price_eq p q) \<and> (price_gt p q \<longleftrightarrow> price_lt q p) \<and>
   (price_ge p q \<longleftrightarrow> price_le q p) \<and> (price_le p q \<longleftrightarrow> price_lt p q \<or> price_eq p q) \<and>
   (price_lt p q \<longleftrightarrow> \<not> price_ge p q) \<and> (price_eq p q \<longleftrightarrow> p = q) \<and>
   (price_lt p q \<or> price_eq p q \<or> price_gt p q) \<and>
   (quantity_ne a b \<longleftrightarrow> \<not> quantity_eq a b) \<and> (quantity_gt a b \<longleftrightarrow> quantity_lt b a) \<and>
   (quantity_ge a b \<longleftrightarrow> quantity_le b a) \<and> (quantity_le a b \<longleftrightarrow> quantity_lt a b \<or> quantity_eq a b) \<and>
   (quantity_lt a b \<longleftrightarrow> \<not> quantity_ge a b) \<and> (quantity_eq a b \<longleftrightarrow> a = b) \<and>
   (quantity_lt a b \<or> quantity_eq a b \<or> quantity_gt a b)"
  using pr.comparisons_agree [of p q] pr.eq_iff_same [of p q]
    qt.comparisons_agree [of a b] qt.eq_iff_same [of a b] by blast

text \<open>\<open>symbol_id\<close> is the lookup in the symbol table: it returns the id of the entry whose
  name is the given C string and \<open>-1\<close> when there is none, never stopping at a mere prefix.\<close>

theorem symbol_id_is_lookup:
  "symbol_id name = (case map_of SYMBOL_TABLE (cstr name) of None \<Rightarrow> -1 | Some i \<Rightarrow> i)"
proof -
  have "\<forall>(s, i) \<in> set SYMBOL_TABLE. cstr s = s"
    by (simp add: SYMBOL_TABLE_def cstr_def)
  then have "find (\<lambda>(s, i). cstr s = cstr name) SYMBOL_TABLE =
      find (\<lambda>(s, i). s = cstr name) SYMBOL_TABLE"
    by (intro find_cong) auto
  moreover have "(case find (\<lambda>(s, i). s = x) tab of None \<Rightarrow> -1 | Some (s, i) \<Rightarrow> i) =
      (case map_of tab x of None \<Rightarrow> -1 | Some i \<Rightarrow> i)" for x and tab :: "(string \<times> int) list"
    by (induction tab) auto
  ultimately show ?thesis by (simp add: symbol_id_def symbol_search_spec)
qed

text \<open>The table and the search are inverse: searching the name of entry \<open>k\<close> returns \<open>k\<close>, and
  an id returned other than \<open>-1\<close> names the entry that was searched.\<close>

theorem symbol_id_roundtrip:
  assumes "k < NUM_SYMBOLS"
  shows "symbol_id (fst (SYMBOL_TABLE ! k)) = int k \<and>
    (symbol_id name = int k \<longrightarrow> cstr name = fst (SYMBOL_TABLE ! k))"
proof -
  have k: "k \<in> {0, 1, 2, 3, 4, 5, 6, 7}" using assms by (auto simp: NUM_SYMBOLS_def SYMBOL_TABLE_def)
  have look: "symbol_id name = int k \<longrightarrow> (cstr name, int k) \<in> set SYMBOL_TABLE" for name
    by (auto simp: symbol_id_def symbol_search_spec SYMBOL_TABLE_def cstr_def split: if_splits)
  show ?thesis
    using k look by (auto simp: SYMBOL_TABLE_def symbol_id_def deref_def)
qed

theorem symbol_id_roundtrip_witness: "symbol_id ''NVDA'' = 5"
  using symbol_id_roundtrip [of 5] by (simp add: NUM_SYMBOLS_def SYMBOL_TABLE_def)

end
