(* ===== verification/Bitwise.thy ===== *)
theory Bitwise
  imports Prelude
begin

unbundle bit_operations_syntax

section \<open>Bit puzzles on 32-bit integers\<close>

text \<open>
  Model of \<open>01-bits-and-bytes/exercises/ex1-bitwise-basics/bits.c\<close>. An \<open>int\<close> is a HOL integer
  in the 32-bit range; \<open>&\<close>, \<open>|\<close>, \<open>^\<close>, \<open>~\<close> act on the infinite two's complement
  representation, which on that range is the 32-bit one, and \<open>>>\<close> is the arithmetic shift the
  file assumes. What an addition or subtraction does when it leaves the range is the parameter
  \<open>ov\<close>: \<open>chk32\<close> is the C standard (overflow is undefined), \<open>wrap32\<close> is the wrap-around that
  the file's header assumes ("two's complement representation"). The Makefile does not ask the
  compiler for wrap-around, so both readings matter.
\<close>

type_synonym overflow = "int \<Rightarrow> int res"

definition wrap32 :: overflow where
  "wrap32 x = Inr ((x + 2147483648) mod 4294967296 - 2147483648)"

definition sar :: "int \<Rightarrow> nat \<Rightarrow> int" where
  "sar x n = drop_bit n x"

subsection \<open>The functions\<close>

definition bit_and :: "int \<Rightarrow> int \<Rightarrow> int" where
  "bit_and x y = x AND y"

definition bit_negate :: "overflow \<Rightarrow> int \<Rightarrow> int res" where
  "bit_negate ov x = ov (NOT x + 1)"

definition bit_abs :: "overflow \<Rightarrow> int \<Rightarrow> int res" where
  "bit_abs ov x = ov ((x XOR sar x 31) - sar x 31)"

definition is_power_of_2 :: "overflow \<Rightarrow> int \<Rightarrow> int res" where
  "is_power_of_2 ov x =
     rbind (ov (x - 1)) (\<lambda>x1.
       let v = x AND x1 in
     rbind (ov (NOT x + 1)) (\<lambda>nx.
       let not_zero = sar (x OR nx) 31;
           not_neg = NOT (sar x 31) in
     rbind (ov (NOT v + 1)) (\<lambda>nv.
       let v_zero = NOT (sar (v OR nv) 31) in
       Inr (v_zero AND not_zero AND not_neg AND 1))))"

definition is_negative :: "overflow \<Rightarrow> int \<Rightarrow> int res" where
  "is_negative ov x = ov (NOT (sar x 31) + 1)"

definition add_ok :: "overflow \<Rightarrow> int \<Rightarrow> int \<Rightarrow> int res" where
  "add_ok ov x y =
     rbind (is_negative ov x) (\<lambda>nx.
     rbind (is_negative ov y) (\<lambda>ny.
       let inputs_different_sign = nx XOR ny in
     rbind (bit_abs ov (NOT inputs_different_sign)) (\<lambda>inputs_same_sign.
     rbind (ov (x + y)) (\<lambda>s.
     rbind (is_negative ov s) (\<lambda>ns.
     rbind (is_negative ov x) (\<lambda>nx'.
       let output_opposite_sign = ns XOR nx' in
     rbind (ov ((inputs_same_sign AND output_opposite_sign) - 1)) (\<lambda>r.
       bit_abs ov r)))))))"

definition conditional :: "overflow \<Rightarrow> int \<Rightarrow> int \<Rightarrow> int \<Rightarrow> int res" where
  "conditional ov x y z =
     rbind (ov (NOT x + 1)) (\<lambda>nx.
       let non_zero = sar (x OR nx) 31 in
     rbind (ov ((non_zero AND y) + (non_zero AND z))) (\<lambda>a.
     rbind (ov (a + (NOT non_zero AND z))) (\<lambda>b.
       ov (b - (non_zero AND z)))))"

text \<open>The 32 summands of \<open>bit_count\<close>, added from left to right.\<close>

definition bit_count :: "overflow \<Rightarrow> int \<Rightarrow> int res" where
  "bit_count ov x =
     foldl (\<lambda>acc i. rbind acc (\<lambda>s. ov (s + (sar x i AND 1)))) (Inr (x AND 1)) [1..<32]"

subsection \<open>Shifts and masks\<close>

lemma sar31: "in_int x \<Longrightarrow> sar x 31 = (if x < 0 then -1 else 0)"
  by (auto simp: sar_def drop_bit_eq_div in_int_def)

lemma not_eq: "NOT (x :: int) = - x - 1"
  by (simp add: not_int_def)

lemma or_int_neg: "((x :: int) OR y) < 0 \<longleftrightarrow> x < 0 \<or> y < 0"
  by simp

lemma or_in_int: "in_int x \<Longrightarrow> in_int y \<Longrightarrow> in_int (x OR y)"
proof -
  assume "in_int x" "in_int y"
  then have "sar x 31 \<in> {-1, 0}" "sar y 31 \<in> {-1, 0}" by (auto simp: sar31)
  then have "drop_bit 31 (x OR y) \<in> {-1, 0}" by (auto simp: sar_def)
  then show "in_int (x OR y)"
    by (auto simp: drop_bit_eq_div in_int_def)
qed

lemma and_in_int: "in_int x \<Longrightarrow> in_int y \<Longrightarrow> in_int (x AND y)"
proof -
  assume "in_int x" "in_int y"
  then have "sar x 31 \<in> {-1, 0}" "sar y 31 \<in> {-1, 0}" by (auto simp: sar31)
  then have "drop_bit 31 (x AND y) \<in> {-1, 0}" by (auto simp: sar_def)
  then show "in_int (x AND y)"
    by (auto simp: drop_bit_eq_div in_int_def)
qed

lemma wrap32_exact: "in_int x \<Longrightarrow> wrap32 x = Inr x"
  by (simp add: wrap32_def in_int_def)

lemma wrap32_in_int: "wrap32 x = Inr y \<Longrightarrow> in_int y"
  by (auto simp: wrap32_def in_int_def)

text \<open>\<open>wrap32\<close> is the arithmetic of the library's 32-bit words, read as signed.\<close>

lemma wrap32_word: "wrap32 x = Inr (sint (word_of_int x :: 32 word))"
  by (simp add: wrap32_def sint_uint signed_take_bit_eq_take_bit_shift take_bit_eq_mod uint_word_of_int mod_simps)

text \<open>The classic test for powers of two.\<close>

lemma and_pred_pow2_nat: "0 < n \<Longrightarrow> n AND (n - 1) = 0 \<longleftrightarrow> (\<exists>k. n = 2 ^ k)" for n :: nat
proof (induction n rule: less_induct)
  case (less n)
  show ?case
  proof (cases "even n")
    case True
    then obtain m where m: "n = 2 * m" by blast
    with less.prems have "0 < m" "m < n" "(n - 1) div 2 = m - 1" by auto
    then have "n AND (n - 1) = 2 * (m AND (m - 1))"
      using m by (subst and_nat_rec) simp
    with less.IH [OF \<open>m < n\<close> \<open>0 < m\<close>] have "n AND (n - 1) = 0 \<longleftrightarrow> (\<exists>k. m = 2 ^ k)" by simp
    also have "\<dots> \<longleftrightarrow> (\<exists>k. n = 2 ^ k)"
    proof
      assume "\<exists>k. m = 2 ^ k"
      then obtain k where "m = 2 ^ k" by blast
      then have "n = 2 ^ Suc k" using m by simp
      then show "\<exists>k. n = 2 ^ k" by blast
    next
      assume "\<exists>k. n = 2 ^ k"
      then obtain k where k: "n = 2 ^ k" by blast
      with True obtain k' where "k = Suc k'" by (cases k) auto
      with k m show "\<exists>k. m = 2 ^ k" by auto
    qed
    finally show ?thesis .
  next
    case False
    then obtain m where m: "n = 2 * m + 1" by (rule oddE)
    then have "n AND (n - 1) = 2 * m"
      by (subst and_nat_rec) simp
    moreover have "(\<exists>k. n = 2 ^ k) \<longleftrightarrow> m = 0"
    proof
      assume "\<exists>k. n = 2 ^ k"
      then obtain k where k: "n = 2 ^ k" by blast
      with False have "k = 0" by (cases k) auto
      with k m show "m = 0" by simp
    next
      assume "m = 0"
      with m have "n = 2 ^ 0" by simp
      then show "\<exists>k. n = 2 ^ k" by blast
    qed
    ultimately show ?thesis by simp
  qed
qed

lemma and_pred_pow2: "0 < x \<Longrightarrow> x AND (x - 1) = 0 \<longleftrightarrow> (\<exists>k. x = 2 ^ k)" for x :: int
proof -
  assume x: "0 < x"
  then have "x AND (x - 1) = int (nat x AND (nat x - 1))"
    by (simp add: of_nat_and_eq of_nat_diff)
  moreover have "(\<exists>k. nat x = 2 ^ k) \<longleftrightarrow> (\<exists>k. x = 2 ^ k)"
    using x by (metis of_nat_eq_iff of_nat_numeral of_nat_power pos_int_cases nat_int)
  ultimately show ?thesis using and_pred_pow2_nat [of "nat x"] x by simp
qed

lemma pow2_pos: "x = 2 ^ k \<Longrightarrow> 0 < (x :: int)"
  by simp

subsection \<open>Where no operation overflows, both readings agree\<close>

text \<open>
  An overflow behaviour is one that is exact on the 32-bit range. The lemmas of the locale hold
  for the C standard and for wrap-around alike.
\<close>

locale int_arith =
  fixes ov :: overflow
  assumes exact: "in_int x \<Longrightarrow> ov x = Inr x"
begin

lemma negate_exact: "in_int x \<Longrightarrow> bit_negate ov x = (if x = -2147483648 then ov 2147483648 else Inr (- x))"
  by (auto simp: bit_negate_def not_eq in_int_def exact)

lemma abs_exact: "in_int x \<Longrightarrow> bit_abs ov x = (if x = -2147483648 then ov 2147483648 else Inr \<bar>x\<bar>)"
  by (auto simp: bit_abs_def sar31 not_eq) (auto simp: in_int_def exact)

lemma is_negative_exact: "in_int x \<Longrightarrow> is_negative ov x = Inr (if x < 0 then 1 else 0)"
  by (auto simp: is_negative_def sar31) (auto simp: in_int_def exact)

lemma nonzero_mask:
  assumes "in_int x" and "in_int nx" and "nx = - x \<or> (x = -2147483648 \<and> nx = x)"
  shows "sar (x OR nx) 31 = (if x = 0 then 0 else -1)"
  using assms by (auto simp: sar31 or_in_int or_int_neg)

lemma is_power_of_2_exact:
  assumes "0 \<le> x" and "in_int x"
  shows "is_power_of_2 ov x = Inr (if \<exists>k. x = 2 ^ k then 1 else 0)"
proof -
  let ?v = "x AND (x - 1)"
  have x: "in_int (x - 1)" "in_int (- x)" using assms by (auto simp: in_int_def)
  have "0 \<le> ?v" using assms(1) by simp
  then have v: "in_int ?v" "in_int (- ?v)"
    using and_in_int [OF assms(2) x(1)] unfolding in_int_def by linarith+
  have "is_power_of_2 ov x = Inr (NOT (sar (?v OR - ?v) 31) AND sar (x OR - x) 31 AND NOT (sar x 31) AND 1)"
    using x v assms(2) by (simp add: is_power_of_2_def exact not_eq Let_def)
  also have "\<dots> = Inr (if ?v = 0 \<and> x \<noteq> 0 then 1 else 0)"
    using assms x v by (simp add: nonzero_mask sar31)
  also have "?v = 0 \<and> x \<noteq> 0 \<longleftrightarrow> (\<exists>k. x = 2 ^ k)"
    using assms(1) and_pred_pow2 [of x] pow2_pos by (cases "x = 0") auto
  finally show ?thesis by simp
qed

lemma add_ok_exact:
  assumes "in_int x" and "in_int y" and "ov (x + y) = Inr s" and "in_int s"
  shows "add_ok ov x y = Inr (if (x < 0 \<longleftrightarrow> y < 0) \<and> (s < 0 \<longleftrightarrow> x \<ge> 0) then 0 else 1)"
proof -
  have small: "ov v = Inr v" if "v \<in> {-2, -1, 0, 1, 2}" for v
    using that by (intro exact) (auto simp: in_int_def)
  show ?thesis
    using assms small
    by (simp add: add_ok_def is_negative_exact bit_abs_def sar31 [of "-1"] sar31 [of "-2"]
        sar31 [of 0] in_int_def not_eq)
qed

lemma conditional_zero: "in_int z \<Longrightarrow> conditional ov 0 y z = Inr z"
proof -
  assume z: "in_int z"
  have "sar 0 31 = 0" by (simp add: sar_def)
  with z exact [of 0] exact [OF z] show ?thesis
    by (simp add: conditional_def not_eq in_int_def)
qed

lemma conditional_nonzero:
  assumes "x \<noteq> 0" and "in_int x" and "ov (- x) = Inr nx" and "in_int nx"
    and "nx = - x \<or> (x = -2147483648 \<and> nx = x)"
  shows "conditional ov x y z = rbind (ov (y + z)) (\<lambda>a. rbind (ov a) (\<lambda>b. ov (b - z)))"
  using assms nonzero_mask [OF assms(2,4,5)] by (simp add: conditional_def not_eq)

end

interpretation std: int_arith chk32
  by unfold_locales simp

interpretation wrp: int_arith wrap32
  by unfold_locales (rule wrap32_exact)

subsection \<open>Counting bits\<close>

lemma sar_and_one: "sar x i AND 1 = of_bool (bit x i)"
  by (simp add: sar_def bit_iff_odd_drop_bit and_one_eq mod_2_eq_odd)

lemma bit_count_fold:
  assumes "\<And>v. in_int v \<Longrightarrow> ov v = Inr v" and "n \<le> 32" and "0 < n"
  shows "foldl (\<lambda>acc i. rbind acc (\<lambda>s. ov (s + (sar x i AND 1)))) (Inr (x AND 1)) [1..<n] =
    Inr (\<Sum>i<n. of_bool (bit x i))"
  using assms(2,3)
proof (induction n)
  case 0
  then show ?case by simp
next
  case (Suc n)
  have small: "(\<Sum>i<m. of_bool (bit x i) :: int) \<le> int m" for m
    using sum_mono [of "{..<m}" "\<lambda>i. of_bool (bit x i) :: int" "\<lambda>_. 1"] by simp
  have pos: "0 \<le> (\<Sum>i<m. of_bool (bit x i) :: int)" for m
    by (rule sum_nonneg) simp
  show ?case
  proof (cases n)
    case 0
    then show ?thesis by (simp add: and_one_eq mod_2_eq_odd bit_0)
  next
    case (Suc m)
    have "in_int ((\<Sum>i<n. of_bool (bit x i)) + of_bool (bit x n))"
      using small [of "Suc n"] pos [of "Suc n"] Suc.prems by (simp add: in_int_def)
    with Suc Suc.IH Suc.prems assms(1) show ?thesis
      by (simp add: sar_and_one upt_Suc)
  qed
qed

subsection \<open>The extremes\<close>

lemma wrap32_int_min: "wrap32 2147483648 = Inr (-2147483648)"
  by (simp add: wrap32_def)

lemma wrap32_neg:
  assumes "in_int x"
  obtains nx where "wrap32 (- x) = Inr nx" and "in_int nx"
    and "nx = - x \<or> (x = -2147483648 \<and> nx = x)"
proof (cases "x = -2147483648")
  case True
  then show ?thesis using that [of x] assms by (simp add: wrap32_int_min)
next
  case False
  then have "in_int (- x)" using assms by (auto simp: in_int_def)
  then show ?thesis using that [of "- x"] by (simp add: wrap32_exact)
qed

lemma is_power_of_2_negative:
  assumes "x < 0" and "in_int x"
  shows "is_power_of_2 wrap32 x = Inr 0"
  using assms by (simp add: is_power_of_2_def wrap32_def Let_def sar31)

lemma add_sign_wrap:
  assumes "in_int x" and "in_int y" and "wrap32 (x + y) = Inr s"
  shows "in_int (x + y) \<longleftrightarrow> \<not> ((x < 0 \<longleftrightarrow> y < 0) \<and> (s < 0 \<longleftrightarrow> x \<ge> 0))"
proof -
  define q where "q = (x + y + 2147483648) div 4294967296"
  have "s = x + y - 4294967296 * q"
    using assms(3) unfolding q_def wrap32_def by (auto simp: algebra_simps minus_mult_div_eq_mod [symmetric])
  moreover have "q = -1 \<or> q = 0 \<or> q = 1"
    using assms(1,2) unfolding q_def in_int_def by auto
  ultimately have "s = x + y \<or> s = x + y - 4294967296 \<or> s = x + y + 4294967296"
    by auto
  moreover have "in_int s" by (rule wrap32_in_int [OF assms(3)])
  ultimately show ?thesis using assms(1,2) unfolding in_int_def by auto
qed

lemma wrap32_cancel:
  assumes "in_int y" and "wrap32 (y + z) = Inr s"
  shows "wrap32 (s - z) = Inr y"
proof -
  have "wrap32 (s - z) = wrap32 y"
    using assms(2) by (auto simp: wrap32_def mod_simps)
  with assms(1) show ?thesis by (simp add: wrap32_exact)
qed

lemma bits_above_31: "in_int x \<Longrightarrow> 31 \<le> i \<Longrightarrow> bit x i \<longleftrightarrow> x < 0"
proof -
  assume x: "in_int x" and i: "31 \<le> i"
  then have "drop_bit i x = drop_bit (i - 31) (sar x 31)"
    by (simp add: sar_def)
  with x show ?thesis by (simp add: bit_iff_odd_drop_bit sar31)
qed

subsection \<open>Main results\<close>

text \<open>Under the wrap-around the file assumes, \<open>bit_negate\<close>, \<open>bit_abs\<close> and \<open>is_negative\<close>
  compute negation, absolute value and the sign test of every 32-bit integer, the first two
  returning the smallest integer unchanged. By the C standard the same results hold except at that
  integer, where the two functions overflow.\<close>

theorem negate_abs_correct:
  assumes "in_int x"
  shows "bit_negate wrap32 x = (if x = -2147483648 then Inr x else Inr (- x))"
    and "bit_abs wrap32 x = (if x = -2147483648 then Inr x else Inr \<bar>x\<bar>)"
    and "bit_negate chk32 x = (if x = -2147483648 then Inl SignedOverflow else Inr (- x))"
    and "bit_abs chk32 x = (if x = -2147483648 then Inl SignedOverflow else Inr \<bar>x\<bar>)"
    and "is_negative wrap32 x = Inr (if x < 0 then 1 else 0)"
    and "is_negative chk32 x = Inr (if x < 0 then 1 else 0)"
  using assms
  by (simp_all add: wrp.negate_exact wrp.abs_exact std.negate_exact std.abs_exact
      wrp.is_negative_exact std.is_negative_exact wrap32_int_min chk32_def in_int_def)

theorem negate_abs_correct_witness:
  "bit_negate wrap32 (-5) = Inr 5 \<and> bit_abs chk32 (-2147483648) = Inl SignedOverflow"
  using negate_abs_correct(1) [of "-5"] negate_abs_correct(4) [of "-2147483648"]
  by (simp add: in_int_def)

text \<open>\<open>is_power_of_2\<close> returns 1 exactly on the positive powers of two and 0 on every other
  32-bit integer, negative ones included.\<close>

theorem is_power_of_2_correct:
  assumes "in_int x"
  shows "is_power_of_2 wrap32 x = Inr (if \<exists>k. x = 2 ^ k then 1 else 0)"
proof (cases "x < 0")
  case True
  then have "\<nexists>k. x = 2 ^ k" using pow2_pos by fastforce
  with True assms show ?thesis by (simp add: is_power_of_2_negative)
next
  case False
  with assms show ?thesis by (simp add: wrp.is_power_of_2_exact)
qed

theorem is_power_of_2_correct_witness:
  "is_power_of_2 wrap32 1024 = Inr 1 \<and> is_power_of_2 wrap32 (-1) = Inr 0"
proof -
  have "\<exists>k. (1024 :: int) = 2 ^ k" by (rule exI [of _ 10]) simp
  moreover have "\<nexists>k. (-1 :: int) = 2 ^ k" using pow2_pos by fastforce
  ultimately show ?thesis
    using is_power_of_2_correct [of 1024] is_power_of_2_correct [of "-1"] by (simp add: in_int_def)
qed

lemma add_ok_correct_parts:
  assumes "in_int x" and "in_int y"
  shows "add_ok wrap32 x y = Inr (if in_int (x + y) then 1 else 0)"
    and "add_ok chk32 x y = (if in_int (x + y) then Inr 1 else Inl SignedOverflow)"
proof -
  obtain s where s: "wrap32 (x + y) = Inr s" by (simp add: wrap32_def)
  show "add_ok wrap32 x y = Inr (if in_int (x + y) then 1 else 0)"
    using wrp.add_ok_exact [OF assms s wrap32_in_int [OF s]] add_sign_wrap [OF assms s] by simp
  show "add_ok chk32 x y = (if in_int (x + y) then Inr 1 else Inl SignedOverflow)"
  proof (cases "in_int (x + y)")
    case True
    then show ?thesis using std.add_ok_exact [OF assms, of "x + y"] by auto
  next
    case False
    have "bit_abs chk32 (-1) = Inr 1" "bit_abs chk32 (-2) = Inr 2"
      by (simp_all add: std.abs_exact in_int_def)
    with False assms show ?thesis
      by (auto simp: add_ok_def std.is_negative_exact chk32_def Let_def not_eq)
  qed
qed

text \<open>C30: For any two \<open>int\<close>s: when \<open>int\<close> wraps around, \<open>add_ok\<close> returns 1 when their mathematical sum fits into 32 bits and 0 otherwise.
  By the C standard it returns 1 there too, but in every case in which it should return 0 the
  addition it performs for the test overflows, so its behaviour is undefined.\<close>

theorem add_ok_correct:
  assumes "in_int x" and "in_int y"
  shows "(add_ok wrap32 x y = Inr (if in_int (x + y) then 1 else 0)) \<and>
    (add_ok chk32 x y = (if in_int (x + y) then Inr 1 else Inl SignedOverflow))"
  using add_ok_correct_parts [OF assms] by blast

theorem add_ok_correct_witness:
  "add_ok wrap32 2147483647 1 = Inr 0 \<and> add_ok chk32 2147483647 1 = Inl SignedOverflow"
  using add_ok_correct [of 2147483647 1] by (simp add: in_int_def)

lemma conditional_correct_parts:
  assumes "in_int x" and "in_int y" and "in_int z"
  shows "conditional wrap32 x y z = Inr (if x \<noteq> 0 then y else z)"
    and "x \<noteq> 0 \<Longrightarrow> \<not> in_int (y + z) \<Longrightarrow> conditional chk32 x y z = Inl SignedOverflow"
proof -
  show "conditional wrap32 x y z = Inr (if x \<noteq> 0 then y else z)"
  proof (cases "x = 0")
    case True
    then show ?thesis using assms by (simp add: wrp.conditional_zero)
  next
    case False
    obtain nx where nx: "wrap32 (- x) = Inr nx" "in_int nx"
      "nx = - x \<or> (x = -2147483648 \<and> nx = x)"
      using assms(1) by (rule wrap32_neg)
    obtain s where s: "wrap32 (y + z) = Inr s" by (simp add: wrap32_def)
    have "conditional wrap32 x y z = Inr y"
      using wrp.conditional_nonzero [OF False assms(1) nx, of y z] s
        wrap32_exact [OF wrap32_in_int [OF s]] wrap32_cancel [OF assms(2) s] by simp
    with False show ?thesis by simp
  qed
next
  assume "x \<noteq> 0" and no: "\<not> in_int (y + z)"
  show "conditional chk32 x y z = Inl SignedOverflow"
  proof (cases "x = -2147483648")
    case True
    then show ?thesis by (simp add: conditional_def chk32_def not_eq in_int_def)
  next
    case False
    then have nx: "in_int (- x)" using assms(1) by (auto simp: in_int_def)
    then show ?thesis
      using std.conditional_nonzero [OF \<open>x \<noteq> 0\<close> assms(1), of "- x" y z] no by (simp add: chk32_def)
  qed
qed

text \<open>Under wrap-around \<open>conditional\<close> returns its second argument when the first is nonzero
  and its third otherwise, for all 32-bit integers; by the C standard the nonzero case is undefined
  whenever the sum of the second and third argument does not fit, although that sum cancels.\<close>

theorem conditional_correct:
  assumes "in_int x" and "in_int y" and "in_int z"
  shows "(conditional wrap32 x y z = Inr (if x \<noteq> 0 then y else z)) \<and>
    (x \<noteq> 0 \<longrightarrow> \<not> in_int (y + z) \<longrightarrow> conditional chk32 x y z = Inl SignedOverflow)"
  using conditional_correct_parts [OF assms] by blast

theorem conditional_correct_witness:
  "conditional wrap32 7 2147483647 1 = Inr 2147483647 \<and>
   conditional chk32 7 2147483647 1 = Inl SignedOverflow"
  using conditional_correct [of 7 2147483647 1] by (simp add: in_int_def)

lemma bit_count_correct_parts:
  "bit_count chk32 x = Inr (int (card {i. i < 32 \<and> bit x i}))"
  "bit_count wrap32 x = Inr (int (card {i. i < 32 \<and> bit x i}))"
proof -
  have "(\<Sum>i<32. of_bool (bit x i) :: int) = int (card ({..<32} \<inter> {i. bit x i}))"
    by (simp add: sum_of_bool_eq)
  also have "{..<32} \<inter> {i. bit x i} = {i. i < 32 \<and> bit x i}" by auto
  finally have sum: "(\<Sum>i<32. of_bool (bit x i) :: int) = int (card {i. i < 32 \<and> bit x i})" .
  show "bit_count chk32 x = Inr (int (card {i. i < 32 \<and> bit x i}))"
    unfolding bit_count_def by (subst bit_count_fold) (simp_all add: sum)
  show "bit_count wrap32 x = Inr (int (card {i. i < 32 \<and> bit x i}))"
    unfolding bit_count_def by (subst bit_count_fold) (simp_all add: sum wrap32_exact)
qed

text \<open>\<open>bit_count\<close> returns the number of the 32 bits that are set, under either reading of
  overflow.\<close>

theorem bit_count_correct:
  "(bit_count chk32 x = Inr (int (card {i. i < 32 \<and> bit x i}))) \<and>
    (bit_count wrap32 x = Inr (int (card {i. i < 32 \<and> bit x i})))"
  using bit_count_correct_parts by blast

end
