(* ===== verification/Float_Bits.thy ===== *)
theory Float_Bits
  imports Complex_Main Prelude
begin

unbundle bit_operations_syntax

section \<open>Single-precision floats as bit patterns\<close>

text \<open>
  Model of \<open>01-bits-and-bytes/exercises/ex2-ieee754/float_bits.c\<close>. A \<open>float_bits\<close> is a 32-bit
  word. The local variables of type \<open>int\<close> hold an exponent between 0 and 255, its shift by 23, or
  the sign bit; converting them to and from \<open>unsigned\<close> keeps the bits, so they are words here.
\<close>

type_synonym float_bits = "32 word"

subsection \<open>The functions\<close>

definition float_negate :: "float_bits \<Rightarrow> float_bits" where
  "float_negate f =
     (let expo = drop_bit 23 f AND 0xFF;
          frac = f AND 0x007FFFFF
      in if expo = 0xFF \<and> frac \<noteq> 0 then f else f XOR 0x80000000)"

definition float_abs :: "float_bits \<Rightarrow> float_bits" where
  "float_abs f = f AND 0x7FFFFFFF"

definition float_twice :: "float_bits \<Rightarrow> float_bits" where
  "float_twice f =
     (let exponent = drop_bit 23 (f AND 0x7F800000) in
      if exponent = 0 then
        let is_negative = f AND 0x80000000;
            f1 = push_bit 1 f;
            f2 = f1 AND 0x7FFFFFFF
        in f2 OR is_negative
      else if exponent = 0xFF then f
      else
        let exponent1 = exponent + 1;
            exponent2 = push_bit 23 exponent1;
            f1 = f AND NOT 0x7F800000
        in f1 OR exponent2)"

definition float_half :: "float_bits \<Rightarrow> float_bits" where
  "float_half f =
     (let exponent = drop_bit 23 (f AND 0x7F800000) in
      if exponent = 0 then
        let is_negative = f AND 0x80000000;
            f1 = drop_bit 1 f;
            f2 = f1 AND 0x7FFFFFFF;
            f3 = f2 AND 0xBFFFFFFF
        in f3 OR is_negative
      else if exponent = 0xFF then f
      else
        let exponent1 = exponent - 1;
            exponent2 = push_bit 23 exponent1;
            f1 = f AND NOT 0x7F800000
        in f1 OR exponent2)"

definition float_is_nan :: "float_bits \<Rightarrow> int" where
  "float_is_nan f =
     (let exponent = drop_bit 23 (f AND 0x7F800000);
          mantissa = f AND 0x007FFFFF
      in if exponent = 0xFF \<and> mantissa \<noteq> 0 then 1 else 0)"

text \<open>
  The body of \<open>int_to_float\<close> computes three local variables and falls off its end: a caller that
  uses the result has undefined behaviour.
\<close>

definition int_to_float :: "32 word \<Rightarrow> float_bits res" where
  "int_to_float x =
     (let is_negative = x AND 0x80000000;
          exponent = drop_bit 23 (x AND 0x7F800000) - 127;
          mantissa = x AND 0x007FFFFF
      in Inl MissingReturn)"

subsection \<open>What a bit pattern denotes\<close>

text \<open>
  Sign, biased exponent and fraction of a pattern. Every finite float is an integer multiple of
  the smallest denormal \<open>2\<^sup>-\<^sup>1\<^sup>4\<^sup>9\<close>; \<open>units\<close> is that integer and \<open>fval\<close> the real number of
  IEEE 754.
\<close>

definition fsign :: "float_bits \<Rightarrow> nat" where
  "fsign f = unat f div 2 ^ 31"

definition fexp :: "float_bits \<Rightarrow> nat" where
  "fexp f = unat f div 2 ^ 23 mod 256"

definition ffrac :: "float_bits \<Rightarrow> nat" where
  "ffrac f = unat f mod 2 ^ 23"

definition units :: "float_bits \<Rightarrow> int" where
  "units f = (-1) ^ fsign f *
     (if fexp f = 0 then int (ffrac f) else (2 ^ 23 + int (ffrac f)) * 2 ^ (fexp f - 1))"

definition fval :: "float_bits \<Rightarrow> real" where
  "fval f = of_int (units f) / 2 ^ 149"

definition is_nan :: "float_bits \<Rightarrow> bool" where
  "is_nan f \<longleftrightarrow> fexp f = 255 \<and> ffrac f \<noteq> 0"

definition is_inf :: "float_bits \<Rightarrow> bool" where
  "is_inf f \<longleftrightarrow> fexp f = 255 \<and> ffrac f = 0"

subsection \<open>Fields\<close>

lemma unat_lt: "unat (f :: float_bits) < 4294967296"
  using unsigned_less [of f, where ?'a = nat] by simp

lemma fields: "unat f = fsign f * 2 ^ 31 + fexp f * 2 ^ 23 + ffrac f"
  and fields_bound: "fsign f < 2" "fexp f < 256" "ffrac f < 2 ^ 23"
proof -
  show "fsign f < 2" "fexp f < 256" "ffrac f < 2 ^ 23"
    unfolding fsign_def fexp_def ffrac_def using unat_lt [of f] by simp_all
  have "unat f div 2 ^ 31 = unat f div 2 ^ 23 div 256"
    by (simp add: div_mult2_eq [symmetric])
  moreover have "n = d * 2147483648 + e * 8388608 + m"
    if "q * 8388608 + m = n" "d * 256 + e = q" for n q d e m :: nat
    using that by simp
  note this [of "unat f div 2 ^ 23" "unat f mod 2 ^ 23" "unat f" "unat f div 2 ^ 23 div 256"
      "unat f div 2 ^ 23 mod 256"]
  ultimately show "unat f = fsign f * 2 ^ 31 + fexp f * 2 ^ 23 + ffrac f"
    unfolding fsign_def fexp_def ffrac_def by simp
qed

lemma fields_unique:
  assumes "unat f = s * 2 ^ 31 + e * 2 ^ 23 + m" and "e < 256" and "m < 2 ^ 23"
  shows "fsign f = s" "fexp f = e" "ffrac f = m"
proof -
  have eq: "unat f = m + 2 ^ 23 * (e + 256 * s)" using assms(1) by simp
  have "unat f div 2 ^ 23 = e + 256 * s"
    unfolding eq using assms(3) by (simp del: distrib_left_numeral)
  then show "fexp f = e" using assms(2) by (simp add: fexp_def)
  show "ffrac f = m" unfolding ffrac_def eq using assms(3) by (simp del: distrib_left_numeral)
  show "fsign f = s" unfolding fsign_def using assms by simp
qed

lemma fields_eqI:
  assumes "fsign f = fsign g" and "fexp f = fexp g" and "ffrac f = ffrac g"
  shows "f = g"
  using assms fields [of f] fields [of g] by (metis word_unat_eq_iff)

lemma masks:
  "(0x7F800000 :: float_bits) = push_bit 23 (mask 8)"
  "(0x007FFFFF :: float_bits) = mask 23"
  "(0x7FFFFFFF :: float_bits) = mask 31"
  "(0x80000000 :: float_bits) = NOT (mask 31)"
  "(0xFF :: float_bits) = mask 8"
  by (simp_all add: mask_eq_exp_minus_1 push_bit_eq_mult)

lemma unat_frac: "unat (f AND 0x007FFFFF) = ffrac f"
  by (simp only: masks ffrac_def take_bit_eq_mask [symmetric] unsigned_take_bit_eq) (simp add: take_bit_eq_mod)

lemma expo_word: "drop_bit 23 (f AND 0x7F800000) = drop_bit 23 f AND 0xFF" for f :: float_bits
  by (simp only: masks) (rule bit_word_eqI, auto simp: bit_simps)

lemma unat_expo: "unat (drop_bit 23 f AND 0xFF) = fexp f"
  by (simp only: masks fexp_def take_bit_eq_mask [symmetric] unsigned_take_bit_eq unsigned_drop_bit_eq)
    (simp add: take_bit_eq_mod drop_bit_eq_div unat_lt)

lemma unat_sign: "unat (f AND 0x80000000) = fsign f * 2 ^ 31"
proof -
  have top: "n = 31" if "n < 32" "31 \<le> n" for n :: nat
    using that by simp
  have "f AND 0x80000000 = push_bit 31 (drop_bit 31 f)"
    by (simp only: masks) (rule bit_word_eqI, auto simp: bit_simps not_less dest: top)
  moreover have "unat (drop_bit 31 f) = fsign f"
    by (simp only: fsign_def unsigned_drop_bit_eq) (simp add: drop_bit_eq_div take_bit_eq_mod unat_lt)
  ultimately show ?thesis
    using fields_bound(1) [of f]
    by (simp only: unsigned_push_bit_eq) (simp add: take_bit_eq_mod push_bit_eq_mult)
qed

lemma unat_or_disjoint:
  assumes "a AND b = 0" and "unat a + unat b < 2 ^ 32"
  shows "unat (a OR b :: float_bits) = unat a + unat b"
  using assms by (simp add: disjunctive_add_eq_or [OF assms(1), symmetric] unat_word_ariths)

lemma unat_push23: "unat e < 256 \<Longrightarrow> unat (push_bit 23 e :: float_bits) = unat e * 2 ^ 23"
  by (simp only: unsigned_push_bit_eq) (simp add: take_bit_eq_mod push_bit_eq_mult)

lemma unat_clear_expo: "unat (f AND NOT 0x7F800000) = fsign f * 2 ^ 31 + ffrac f"
proof -
  have "f AND NOT 0x7F800000 = (f AND 0x80000000) OR (f AND 0x007FFFFF)"
    by (simp only: masks) (rule bit_word_eqI, auto simp: bit_simps)
  moreover have "(f AND 0x80000000) AND (f AND 0x007FFFFF) = 0"
    by (simp only: masks) (rule bit_word_eqI, auto simp: bit_simps)
  ultimately show ?thesis
    using fields_bound [of f] by (simp add: unat_or_disjoint unat_sign unat_frac)
qed

lemma set_expo_disjoint: "unat e < 256 \<Longrightarrow> (f AND NOT 0x7F800000) AND push_bit 23 e = (0 :: float_bits)"
proof -
  assume "unat e < 256"
  then have "take_bit 8 e = e" by (simp add: word_unat_eq_iff unsigned_take_bit_eq take_bit_nat_eq_self)
  then have "push_bit 23 e = push_bit 23 (take_bit 8 e)" by simp
  then show ?thesis
    by (simp only: masks) (rule bit_word_eqI, auto simp: bit_simps)
qed

lemma unat_set_expo:
  assumes "unat e < 256"
  shows "unat ((f AND NOT 0x7F800000) OR push_bit 23 e) = fsign f * 2 ^ 31 + unat e * 2 ^ 23 + ffrac f"
proof -
  have "unat (f AND NOT 0x7F800000) + unat (push_bit 23 e :: float_bits) =
      fsign f * 2 ^ 31 + unat e * 2 ^ 23 + ffrac f"
    unfolding unat_clear_expo unat_push23 [OF assms] by simp
  moreover have "fsign f * 2 ^ 31 + unat e * 2 ^ 23 + ffrac f < 2 ^ 32"
    using assms fields_bound [of f] by simp
  ultimately show ?thesis
    using unat_or_disjoint [OF set_expo_disjoint [OF assms]] by metis
qed

subsection \<open>The fields of the results\<close>

lemma expo_eq_iff: "n < 256 \<Longrightarrow> drop_bit 23 f AND 0xFF = of_nat n \<longleftrightarrow> fexp f = n"
  unfolding word_unat_eq_iff unat_expo
  by (simp add: unsigned_of_nat take_bit_nat_eq_self)

lemma expo_eq_0: "drop_bit 23 f AND 0xFF = 0 \<longleftrightarrow> fexp f = 0"
  using expo_eq_iff [of 0 f] by simp

lemma expo_eq_255: "drop_bit 23 f AND 0xFF = 0xFF \<longleftrightarrow> fexp f = 255"
  using expo_eq_iff [of 255 f] by simp

lemma frac_eq_0: "f AND 0x007FFFFF = 0 \<longleftrightarrow> ffrac f = 0"
  unfolding word_unat_eq_iff unat_frac by simp

lemma twice_normal:
  assumes "0 < fexp f" and "fexp f < 255"
  shows "unat (float_twice f) = fsign f * 2 ^ 31 + (fexp f + 1) * 2 ^ 23 + ffrac f"
proof -
  let ?e = "drop_bit 23 f AND 0xFF"
  have "unat (?e + 1) = fexp f + 1"
    using assms by (simp add: unat_word_ariths unat_expo)
  moreover have "float_twice f = (f AND NOT 0x7F800000) OR push_bit 23 (?e + 1)"
    using assms unfolding float_twice_def Let_def expo_word expo_eq_0 expo_eq_255 by simp
  ultimately show ?thesis
    using unat_set_expo [of "?e + 1" f] assms by simp
qed

lemma half_normal:
  assumes "0 < fexp f" and "fexp f < 255"
  shows "unat (float_half f) = fsign f * 2 ^ 31 + (fexp f - 1) * 2 ^ 23 + ffrac f"
proof -
  let ?e = "drop_bit 23 f AND 0xFF"
  have "1 \<le> ?e" using assms by (simp add: word_le_nat_alt unat_expo)
  then have "unat (?e - 1) = fexp f - 1"
    by (simp add: unat_sub unat_expo)
  moreover have "float_half f = (f AND NOT 0x7F800000) OR push_bit 23 (?e - 1)"
    using assms unfolding float_half_def Let_def expo_word expo_eq_0 expo_eq_255 by simp
  ultimately show ?thesis
    using unat_set_expo [of "?e - 1" f] assms by simp
qed

lemma twice_denormal:
  assumes "fexp f = 0"
  shows "unat (float_twice f) = fsign f * 2 ^ 31 + 2 * ffrac f"
proof -
  have "float_twice f = (push_bit 1 f AND 0x7FFFFFFF) OR (f AND 0x80000000)"
    using assms unfolding float_twice_def Let_def expo_word expo_eq_0 by simp
  moreover have "(push_bit 1 f AND 0x7FFFFFFF) AND (f AND 0x80000000) = 0"
    by (simp only: masks) (rule bit_word_eqI, auto simp: bit_simps)
  moreover have "unat (push_bit 1 f AND 0x7FFFFFFF) = 2 * ffrac f"
    using fields [of f] fields_bound [of f] assms
    by (simp only: masks take_bit_eq_mask [symmetric] unsigned_take_bit_eq unsigned_push_bit_eq)
      (simp add: take_bit_eq_mod push_bit_eq_mult)
  ultimately show ?thesis
    using fields_bound [of f] by (simp add: unat_or_disjoint unat_sign)
qed

lemma half_denormal:
  assumes "fexp f = 0"
  shows "unat (float_half f) = fsign f * 2 ^ 31 + ffrac f div 2"
proof -
  have "float_half f = ((drop_bit 1 f AND 0x7FFFFFFF) AND 0xBFFFFFFF) OR (f AND 0x80000000)"
    using assms unfolding float_half_def Let_def expo_word expo_eq_0 by simp
  moreover have "((drop_bit 1 f AND 0x7FFFFFFF) AND 0xBFFFFFFF) AND (f AND 0x80000000) = 0"
    by (simp only: masks) (rule bit_word_eqI, auto simp: bit_simps)
  moreover have "(drop_bit 1 f AND 0x7FFFFFFF) AND 0xBFFFFFFF = take_bit 30 (drop_bit 1 f)"
    by (simp add: and.assoc take_bit_eq_mask mask_eq_exp_minus_1)
  moreover have "unat (take_bit 30 (drop_bit 1 f)) = ffrac f div 2"
  proof -
    have "unat f div 2 = fsign f * 1073741824 + ffrac f div 2"
      using fields [of f] assms div_mult_self1 [of 2 "ffrac f" "fsign f * 1073741824"] by (simp add: ac_simps)
    then show ?thesis
      using fields_bound(3) [of f]
      by (simp only: unsigned_take_bit_eq unsigned_drop_bit_eq)
        (simp add: take_bit_eq_mod drop_bit_eq_div unat_lt)
  qed
  ultimately show ?thesis
    using fields_bound [of f] by (simp add: unat_or_disjoint unat_sign)
qed

lemmas twice_fields = fields_unique [OF twice_normal]
lemmas half_fields = fields_unique [OF half_normal]

lemma twice_special: "fexp f = 255 \<Longrightarrow> float_twice f = f"
  unfolding float_twice_def Let_def expo_word expo_eq_0 expo_eq_255 by simp

lemma half_special: "fexp f = 255 \<Longrightarrow> float_half f = f"
  unfolding float_half_def Let_def expo_word expo_eq_0 expo_eq_255 by simp

lemma half_denormal_fields:
  assumes "fexp f = 0"
  shows "fsign (float_half f) = fsign f" "fexp (float_half f) = 0" "ffrac (float_half f) = ffrac f div 2"
  using fields_unique [of "float_half f" "fsign f" 0 "ffrac f div 2"] half_denormal [OF assms]
    fields_bound [of f] by simp_all

text \<open>Doubling a denormal whose leading fraction bit is set makes it normal.\<close>

lemma twice_denormal_fields:
  assumes "fexp f = 0"
  shows "fsign (float_twice f) = fsign f"
    and "fexp (float_twice f) = (if ffrac f < 2 ^ 22 then 0 else 1)"
    and "ffrac (float_twice f) = (if ffrac f < 2 ^ 22 then 2 * ffrac f else 2 * ffrac f - 2 ^ 23)"
proof -
  have "2 * ffrac f = 2 ^ 23 + (2 * ffrac f - 2 ^ 23)" if "\<not> ffrac f < 2 ^ 22"
    using that by simp
  then show "fsign (float_twice f) = fsign f"
    and "fexp (float_twice f) = (if ffrac f < 2 ^ 22 then 0 else 1)"
    and "ffrac (float_twice f) = (if ffrac f < 2 ^ 22 then 2 * ffrac f else 2 * ffrac f - 2 ^ 23)"
    using fields_unique [of "float_twice f" "fsign f" 0 "2 * ffrac f"]
      fields_unique [of "float_twice f" "fsign f" 1 "2 * ffrac f - 2 ^ 23"]
      twice_denormal [OF assms] fields_bound [of f]
    by (cases "ffrac f < 2 ^ 22"; simp)+
qed

lemma units_twice: "fexp f < 254 \<Longrightarrow> units (float_twice f) = 2 * units f"
proof (cases "fexp f = 0")
  case True
  then show ?thesis by (auto simp: units_def twice_denormal_fields of_nat_diff)
next
  case False
  assume "fexp f < 254"
  with False have "fsign (float_twice f) = fsign f" "fexp (float_twice f) = fexp f + 1"
    "ffrac (float_twice f) = ffrac f"
    using twice_fields [of f] fields_bound [of f] by simp_all
  with False show ?thesis by (cases "fexp f") (simp_all add: units_def)
qed

lemma units_half_normal: "2 \<le> fexp f \<Longrightarrow> fexp f < 255 \<Longrightarrow> 2 * units (float_half f) = units f"
proof -
  assume e: "2 \<le> fexp f" "fexp f < 255"
  then have "fsign (float_half f) = fsign f" "fexp (float_half f) = fexp f - 1"
    "ffrac (float_half f) = ffrac f"
    using half_fields [of f] fields_bound [of f] by simp_all
  moreover obtain k where "fexp f = Suc (Suc k)"
    using e(1) by (metis Suc_le_D numeral_2_eq_2 Suc_le_mono)
  ultimately show ?thesis by (simp add: units_def)
qed

subsection \<open>Operations on the sign\<close>

lemma fsign_bit: "fsign f = of_bool (bit f 31)"
proof -
  have "bit (unat f) 31 \<longleftrightarrow> bit f 31" by (simp add: bit_unsigned_iff)
  then have "bit f 31 \<longleftrightarrow> odd (unat f div 2 ^ 31)" by (simp only: bit_iff_odd [of "unat f"])
  then show ?thesis
    using fields_bound(1) [of f] unfolding fsign_def by (auto simp: less_2_cases_iff)
qed

lemma unat_clear_sign: "unat (f AND 0x7FFFFFFF) = fexp f * 2 ^ 23 + ffrac f"
proof -
  have "unat f mod 2 ^ 31 = fexp f * 2 ^ 23 + ffrac f"
    using fields [of f] fields_bound [of f] mod_mult_self1 [of "fexp f * 2 ^ 23 + ffrac f" "fsign f" "2 ^ 31"]
    by (simp add: ac_simps)
  then show ?thesis
    by (simp only: masks take_bit_eq_mask [symmetric] unsigned_take_bit_eq) (simp add: take_bit_eq_mod)
qed

lemma unat_flip_sign: "unat (f XOR 0x80000000) = (1 - fsign f) * 2 ^ 31 + fexp f * 2 ^ 23 + ffrac f"
proof -
  have "f XOR 0x80000000 = (f AND 0x7FFFFFFF) OR (NOT f AND 0x80000000)"
    and "(f AND 0x7FFFFFFF) AND (NOT f AND 0x80000000) = 0"
    by (simp_all only: masks) (rule bit_word_eqI, auto simp: bit_simps)+
  moreover have "fsign (NOT f) = 1 - fsign f"
    by (simp add: fsign_bit bit_not_iff)
  ultimately show ?thesis
    using fields_bound [of f] by (simp add: unat_or_disjoint unat_clear_sign unat_sign)
qed

lemma abs_fields: "fsign (float_abs f) = 0" "fexp (float_abs f) = fexp f" "ffrac (float_abs f) = ffrac f"
  using fields_unique [of "float_abs f" 0] fields_bound [of f]
  by (simp_all add: float_abs_def unat_clear_sign)

lemma negate_fields:
  assumes "\<not> is_nan f"
  shows "fsign (float_negate f) = 1 - fsign f" "fexp (float_negate f) = fexp f"
    "ffrac (float_negate f) = ffrac f"
proof -
  have "float_negate f = f XOR 0x80000000"
    using assms unfolding float_negate_def Let_def expo_eq_255 frac_eq_0 is_nan_def by auto
  then show "fsign (float_negate f) = 1 - fsign f" "fexp (float_negate f) = fexp f"
    "ffrac (float_negate f) = ffrac f"
    using fields_unique [OF unat_flip_sign] fields_bound [of f] by simp_all
qed

subsection \<open>Main results\<close>

lemma float_twice_correct_parts:
  "fexp f < 254 \<Longrightarrow>
     fval (float_twice f) = 2 * fval f \<and> fsign (float_twice f) = fsign f \<and> fexp (float_twice f) < 255"
  "is_nan f \<or> is_inf f \<Longrightarrow> float_twice f = f"
proof -
  assume e: "fexp f < 254"
  have "fsign (float_twice f) = fsign f \<and> fexp (float_twice f) < 255"
    using e twice_fields [of f] fields_bound [of f]
    by (cases "fexp f = 0") (simp_all add: twice_denormal_fields)
  with e show "fval (float_twice f) = 2 * fval f \<and> fsign (float_twice f) = fsign f \<and> fexp (float_twice f) < 255"
    by (simp add: fval_def units_twice)
next
  assume "is_nan f \<or> is_inf f"
  then show "float_twice f = f" by (auto simp: is_nan_def is_inf_def twice_special)
qed

text \<open>C24: \<open>float_twice\<close> doubles the value of every finite float whose exponent is below the largest
  finite one, denormals that become normal included, keeps the sign, and returns infinities and
  NaNs unchanged.\<close>

theorem float_twice_correct:
  "(fexp f < 254 \<longrightarrow> fval (float_twice f) = 2 * fval f \<and> fsign (float_twice f) = fsign f \<and> fexp (float_twice f) < 255) \<and>
    (is_nan f \<or> is_inf f \<longrightarrow> float_twice f = f)"
  using float_twice_correct_parts by blast

theorem float_twice_correct_witness:
  "fval (float_twice 0x3FC00000) = 2 * fval 0x3FC00000 \<and> float_twice 0x7F800000 = 0x7F800000"
proof -
  have "fexp 0x3FC00000 < 254" "is_inf 0x7F800000" by (simp_all add: fexp_def ffrac_def is_inf_def)
  then show ?thesis using float_twice_correct [of "0x3FC00000"] float_twice_correct [of "0x7F800000"] by simp
qed

lemma float_twice_overflow_parts:
  assumes "fexp f = 254"
  shows "is_inf (float_twice f) \<longleftrightarrow> ffrac f = 0" and "is_nan (float_twice f) \<longleftrightarrow> ffrac f \<noteq> 0"
  using twice_fields [of f] fields_bound [of f] assms by (simp_all add: is_inf_def is_nan_def)

text \<open>At the largest finite exponent, where doubling overflows, \<open>float_twice\<close> returns an
  infinity only for a zero fraction; every other float of that binade becomes a NaN.\<close>

theorem float_twice_overflow:
  assumes "fexp f = 254"
  shows "(is_inf (float_twice f) \<longleftrightarrow> ffrac f = 0) \<and>
    (is_nan (float_twice f) \<longleftrightarrow> ffrac f \<noteq> 0)"
  using float_twice_overflow_parts [OF assms] by blast

theorem float_twice_overflow_witness: "is_nan (float_twice 0x7F7FFFFF)"
proof -
  have "fexp 0x7F7FFFFF = 254" "ffrac 0x7F7FFFFF \<noteq> 0" by (simp_all add: fexp_def ffrac_def)
  then show ?thesis using float_twice_overflow [of "0x7F7FFFFF"] by simp
qed

lemma float_half_correct_parts:
  "2 \<le> fexp f \<Longrightarrow> fexp f < 255 \<Longrightarrow> fval (float_half f) = fval f / 2"
  "fexp f = 0 \<Longrightarrow> units (float_half f) = (-1) ^ fsign f * (\<bar>units f\<bar> div 2)"
  "is_nan f \<or> is_inf f \<Longrightarrow> float_half f = f"
  "fexp f = 1 \<Longrightarrow> \<bar>units f\<bar> = 2 ^ 23 + int (ffrac f) \<and> \<bar>units (float_half f)\<bar> = int (ffrac f)"
proof -
  assume "2 \<le> fexp f" "fexp f < 255"
  then have "real_of_int (2 * units (float_half f)) = real_of_int (units f)"
    by (simp only: units_half_normal)
  then show "fval (float_half f) = fval f / 2" by (simp add: fval_def)
next
  assume "fexp f = 0"
  then show "units (float_half f) = (-1) ^ fsign f * (\<bar>units f\<bar> div 2)"
    by (simp add: units_def half_denormal_fields abs_mult zdiv_int)
next
  assume "is_nan f \<or> is_inf f"
  then show "float_half f = f" by (auto simp: is_nan_def is_inf_def half_special)
next
  assume "fexp f = 1"
  then show "\<bar>units f\<bar> = 2 ^ 23 + int (ffrac f) \<and> \<bar>units (float_half f)\<bar> = int (ffrac f)"
    using half_fields [of f] fields_bound [of f] by (simp add: units_def abs_mult)
qed

text \<open>C25: \<open>float_half\<close> halves the value of every normal float with exponent at least 2, halves a
  denormal rounding towards zero, and returns infinities and NaNs unchanged. On the boundary
  exponent 1 the implicit leading one is lost: the result is the fraction alone instead of half
  of the significand.\<close>

theorem float_half_correct:
  "(2 \<le> fexp f \<longrightarrow> fexp f < 255 \<longrightarrow> fval (float_half f) = fval f / 2) \<and>
    (fexp f = 0 \<longrightarrow> units (float_half f) = (-1) ^ fsign f * (\<bar>units f\<bar> div 2)) \<and>
    (is_nan f \<or> is_inf f \<longrightarrow> float_half f = f) \<and>
    (fexp f = 1 \<longrightarrow> \<bar>units f\<bar> = 2 ^ 23 + int (ffrac f) \<and> \<bar>units (float_half f)\<bar> = int (ffrac f))"
  using float_half_correct_parts by blast

theorem float_half_correct_witness:
  "fval (float_half 0x40400000) = fval 0x40400000 / 2 \<and> \<bar>units (float_half 0x00800000)\<bar> = 0"
proof -
  have "2 \<le> fexp 0x40400000" "fexp 0x40400000 < 255" "fexp 0x00800000 = 1" "ffrac 0x00800000 = 0"
    by (simp_all add: fexp_def ffrac_def)
  then show ?thesis
    using float_half_correct [of "0x40400000"] float_half_correct [of "0x00800000"] by simp
qed

lemma float_half_twice_parts:
  "fexp f \<in> {1..253} \<or> fexp f = 255 \<or> (fexp f = 0 \<and> ffrac f < 2 ^ 22) \<Longrightarrow>
     float_half (float_twice f) = f"
  "2 \<le> fexp f \<Longrightarrow> float_twice (float_half f) = f"
proof -
  assume "fexp f \<in> {1..253} \<or> fexp f = 255 \<or> (fexp f = 0 \<and> ffrac f < 2 ^ 22)"
  then consider "1 \<le> fexp f" "fexp f \<le> 253" | "fexp f = 255" | "fexp f = 0" "ffrac f < 2 ^ 22"
    by auto
  then show "float_half (float_twice f) = f"
  proof cases
    case 1
    then show ?thesis
      using twice_fields [of f] half_fields [of "float_twice f"] fields_bound [of f]
      by (intro fields_eqI) simp_all
  next
    case 2
    then show ?thesis by (simp add: twice_special half_special)
  next
    case 3
    then show ?thesis
      by (intro fields_eqI) (simp_all add: half_denormal_fields twice_denormal_fields)
  qed
next
  assume e: "2 \<le> fexp f"
  show "float_twice (float_half f) = f"
  proof (cases "fexp f = 255")
    case True
    then show ?thesis by (simp add: twice_special half_special)
  next
    case False
    then show ?thesis
      using e half_fields [of f] twice_fields [of "float_half f"] fields_bound [of f]
      by (intro fields_eqI) simp_all
  qed
qed

text \<open>\<open>float_half\<close> undoes \<open>float_twice\<close> bit for bit on every normal float that does not overflow,
  on every denormal that stays denormal, and on infinities and NaNs; \<open>float_twice\<close> undoes
  \<open>float_half\<close> from exponent 2 upwards.\<close>

theorem float_half_twice:
  "(fexp f \<in> {1..253} \<or> fexp f = 255 \<or> (fexp f = 0 \<and> ffrac f < 2 ^ 22) \<longrightarrow> float_half (float_twice f) = f) \<and>
    (2 \<le> fexp f \<longrightarrow> float_twice (float_half f) = f)"
  using float_half_twice_parts by blast

theorem float_half_twice_witness: "float_half (float_twice 0x00200001) = 0x00200001"
proof -
  have "fexp 0x00200001 = 0" "ffrac 0x00200001 < 2 ^ 22" by (simp_all add: fexp_def ffrac_def)
  then show ?thesis using float_half_twice [of "0x00200001"] by simp
qed

text \<open>\<open>float_is_nan\<close> recognises exactly the NaN patterns; \<open>float_negate\<close> returns them unchanged
  and negates the value of every other pattern; \<open>float_abs\<close> computes the absolute value, and it also
  clears the sign of a NaN.\<close>

theorem float_sign_operations:
  "float_is_nan f = (if is_nan f then 1 else 0)"
  "is_nan f \<Longrightarrow> float_negate f = f"
  "\<not> is_nan f \<Longrightarrow> fval (float_negate f) = - fval f \<and> float_negate (float_negate f) = f"
  "fval (float_abs f) = \<bar>fval f\<bar>"
  "is_nan f \<Longrightarrow> is_nan (float_abs f) \<and> (float_abs f = f \<longleftrightarrow> fsign f = 0)"
proof -
  show "float_is_nan f = (if is_nan f then 1 else 0)"
    unfolding float_is_nan_def Let_def expo_word expo_eq_255 frac_eq_0 is_nan_def by simp
  show "is_nan f \<Longrightarrow> float_negate f = f"
    unfolding float_negate_def Let_def expo_eq_255 frac_eq_0 is_nan_def by simp
  show "is_nan f \<Longrightarrow> is_nan (float_abs f) \<and> (float_abs f = f \<longleftrightarrow> fsign f = 0)"
    using fields_eqI [of "float_abs f" f] abs_fields [of f] by (auto simp: is_nan_def)
  show "fval (float_abs f) = \<bar>fval f\<bar>"
    by (simp add: fval_def units_def abs_fields abs_mult)
next
  assume nan: "\<not> is_nan f"
  then have "\<not> is_nan (float_negate f)" by (simp add: is_nan_def negate_fields)
  with nan have "float_negate (float_negate f) = f"
    using fields_bound(1) [of f] by (intro fields_eqI) (simp_all add: negate_fields)
  moreover have "units (float_negate f) = - units f"
    using nan fields_bound(1) [of f] by (auto simp: units_def negate_fields less_2_cases_iff)
  ultimately show "fval (float_negate f) = - fval f \<and> float_negate (float_negate f) = f"
    by (simp add: fval_def)
qed

theorem float_sign_operations_witness:
  "float_negate 0x7FC00000 = 0x7FC00000 \<and> fval (float_negate 0x3F800000) = - fval 0x3F800000 \<and>
   is_nan (float_abs 0xFFC00000)"
proof -
  have "is_nan 0x7FC00000" "\<not> is_nan 0x3F800000" "is_nan 0xFFC00000"
    by (simp_all add: is_nan_def fexp_def ffrac_def)
  then show ?thesis
    using float_sign_operations(2) [of "0x7FC00000"] float_sign_operations(3) [of "0x3F800000"]
      float_sign_operations(5) [of "0xFFC00000"] by simp
qed

end
