(* ===== verification/In_Place.thy ===== *)
theory In_Place
  imports C_Heap
begin

section \<open>Reversal in place by swapping\<close>

text \<open>
  \<open>array_reverse\<close> of \<open>hello.c\<close> and \<open>str_reverse\<close> of \<open>strings.c\<close> run the same loop with bodies that
  read and write in different orders. The interface \<open>swap_body\<close> is what both bodies promise, one
  exchange of mirrored elements; the loop around any such body reverses the first \<open>n\<close> elements
  and leaves the others, and every other block, alone. The array may start at an offset in its block.
\<close>

text \<open>The contents after the first \<open>i\<close> exchanges.\<close>

definition exchanged :: "nat \<Rightarrow> nat \<Rightarrow> 'a list \<Rightarrow> 'a list" where
  "exchanged n i xs =
     map (\<lambda>k. if k < n \<and> (k < i \<or> n - 1 - k < i) then xs ! (n - 1 - k) else xs ! k) [0..<length xs]"

lemma length_exchanged [simp]: "length (exchanged n i xs) = length xs"
  by (simp add: exchanged_def)

lemma nth_exchanged: "k < length xs \<Longrightarrow>
    exchanged n i xs ! k = (if k < n \<and> (k < i \<or> n - 1 - k < i) then xs ! (n - 1 - k) else xs ! k)"
  by (auto simp: exchanged_def)

lemma exchanged_0 [simp]: "exchanged n 0 xs = xs"
  by (rule nth_equalityI) (simp_all add: nth_exchanged)

lemma exchanged_Suc:
  assumes "i < n div 2" and "n \<le> length xs"
  shows "(exchanged n i xs)[i := exchanged n i xs ! (n - 1 - i), n - 1 - i := exchanged n i xs ! i] =
    exchanged n (Suc i) xs"
  using assms by (intro nth_equalityI) (auto simp: nth_exchanged nth_list_update)

lemma exchanged_all:
  assumes "n \<le> length xs"
  shows "exchanged n (n div 2) xs = rev (take n xs) @ drop n xs"
proof (rule nth_equalityI)
  fix k assume "k < length (exchanged n (n div 2) xs)"
  moreover have "n - 1 - k = k" if "k < n" "\<not> k < n div 2" "\<not> n - 1 - k < n div 2"
    using that by linarith
  ultimately show "exchanged n (n div 2) xs ! k = (rev (take n xs) @ drop n xs) ! k"
    using assms by (auto simp: nth_exchanged nth_append rev_nth min_def)
qed (use assms in simp)

locale swap_body =
  fixes body :: "nat \<Rightarrow> ptr \<Rightarrow> nat \<Rightarrow> nat \<Rightarrow> 'a heap \<Rightarrow> 'a heap res"
  assumes swaps: "blocks h a = Some (pre @ xs) \<Longrightarrow> length pre = off \<Longrightarrow> n \<le> length xs \<Longrightarrow> i < n div 2 \<Longrightarrow>
    body n (Some a) off i h =
      Inr (h\<lparr>blocks := (blocks h)(a \<mapsto> pre @ xs[i := xs ! (n - 1 - i), n - 1 - i := xs ! i])\<rparr>)"
begin

lemma loop_reverses:
  assumes "blocks h a = Some (pre @ xs)" and "length pre = off" and "n \<le> length xs"
  shows "for_range 0 (n div 2) (body n (Some a) off) h =
    Inr (h\<lparr>blocks := (blocks h)(a \<mapsto> pre @ rev (take n xs) @ drop n xs)\<rparr>)"
proof -
  let ?I = "\<lambda>i h'. h' = h\<lparr>blocks := (blocks h)(a \<mapsto> pre @ exchanged n i xs)\<rparr>"
  have "\<exists>h'. for_range 0 (n div 2) (body n (Some a) off) h = Inr h' \<and> ?I (n div 2) h'"
  proof (rule for_range_invariant)
    show "?I 0 h" using assms(1) by simp
    show "\<exists>s'. body n (Some a) off k s = Inr s' \<and> ?I (Suc k) s'" if "?I k s" "k < n div 2" for k s
      using that swaps [of s a pre "exchanged n k xs" off n k] assms(2,3)
        exchanged_Suc [of k n xs] by simp
  qed simp
  then show ?thesis using assms(3) by (simp add: exchanged_all)
qed

end

end
