(* ===== verification/Hello_C.thy ===== *)
theory Hello_C
  imports In_Place
begin

section \<open>First C functions\<close>

text \<open>
  Model of \<open>00-c-for-programmers/exercises/ex1-hello-c/hello.c\<close>. An \<open>int *\<close> argument is a pointer
  to a block of a heap of integers, so a length argument that does not match the block makes the
  loops fault; a \<open>char *\<close> argument is a pointer into a heap of characters.
\<close>

subsection \<open>The functions\<close>

definition max_of :: "int \<Rightarrow> int \<Rightarrow> int" where
  "max_of a b = (if a > b then a else b)"

definition min_of :: "int \<Rightarrow> int \<Rightarrow> int" where
  "min_of a b = (if a > b then b else a)"

definition clamp :: "int \<Rightarrow> int \<Rightarrow> int \<Rightarrow> int" where
  "clamp val lo hi = (if val < lo then lo else if val > hi then hi else val)"

definition array_sum :: "ptr \<Rightarrow> int \<Rightarrow> int heap \<Rightarrow> int res" where
  "array_sum arr n h =
     for_range 0 (nat n) (\<lambda>i s. rbind (hread arr i h) (\<lambda>x. chk32 (s + x))) 0"

definition array_max_index :: "ptr \<Rightarrow> int \<Rightarrow> int heap \<Rightarrow> int res" where
  "array_max_index arr n h =
     (if n \<le> 0 then Inr (-1)
      else
        rbind (hread arr 0 h) (\<lambda>x0.
        rbind (for_range 1 (nat n)
                 (\<lambda>i (largest, largest_idx).
                    rbind (hread arr i h) (\<lambda>x.
                      if x > largest then Inr (x, int i) else Inr (largest, largest_idx)))
                 (x0, 0)) (\<lambda>(largest, largest_idx).
        Inr largest_idx)))"

definition reverse_body :: "nat \<Rightarrow> ptr \<Rightarrow> nat \<Rightarrow> nat \<Rightarrow> int heap \<Rightarrow> int heap res" where
  "reverse_body n arr off i h =
     rbind (hread arr (off + i) h) (\<lambda>temp.
       let mirror_idx = n - 1 - i in
     rbind (hread arr (off + mirror_idx) h) (\<lambda>m.
     rbind (hwrite arr (off + i) m h) (\<lambda>h1.
     hwrite arr (off + mirror_idx) temp h1)))"

definition array_reverse :: "ptr \<Rightarrow> int \<Rightarrow> int heap \<Rightarrow> int heap res" where
  "array_reverse arr n h = for_range 0 (nat (c_quot n 2)) (reverse_body (nat n) arr 0) h"

function contains_loop :: "ptr \<Rightarrow> int \<Rightarrow> int \<Rightarrow> bool \<Rightarrow> nat \<Rightarrow> int heap \<Rightarrow> bool res" where
  "contains_loop arr n val found i h =
     (if \<not> found \<and> int i < n
      then rbind (hread arr i h) (\<lambda>x.
             contains_loop arr n val (if x = val then True else found) (Suc i) h)
      else Inr found)"
  by pat_completeness auto
termination by (relation "measure (\<lambda>(_, n, _, _, i, _). nat n - i)") auto

declare contains_loop.simps [simp del]

definition array_contains :: "ptr \<Rightarrow> int \<Rightarrow> int \<Rightarrow> int heap \<Rightarrow> int res" where
  "array_contains arr n val h =
     (if n \<le> 0 then Inr 0
      else rbind (contains_loop arr n val False 0 h) (\<lambda>found. Inr (if found then 1 else 0)))"

text \<open>\<open>sprintf\<close> with a formatted text writes the text and a null terminator.\<close>

definition c_sprintf :: "ptr \<Rightarrow> string \<Rightarrow> char heap \<Rightarrow> char heap res" where
  "c_sprintf buf txt = hwrite_list buf 0 (txt @ [CHR 0x00])"

definition fizzbuzz :: "int \<Rightarrow> ptr \<Rightarrow> char heap \<Rightarrow> char heap res" where
  "fizzbuzz n buf h =
     (if c_rem n 15 = 0 then c_sprintf buf ''FizzBuzz'' h
      else if c_rem n 5 = 0 then c_sprintf buf ''Buzz'' h
      else if c_rem n 3 = 0 then c_sprintf buf ''Fizz'' h
      else c_sprintf buf (show_int n) h)"

subsection \<open>The loops\<close>

interpretation arr_rev: swap_body reverse_body
proof
  fix h :: "int heap" and a pre xs off n i
  assume h: "blocks h a = Some (pre @ xs)" "length pre = off" and "n \<le> length xs" "i < n div 2"
  then have "i < length xs" "n - 1 - i < length xs" by auto
  with h show "reverse_body n (Some a) off i h =
      Inr (h\<lparr>blocks := (blocks h)(a \<mapsto> pre @ xs[i := xs ! (n - 1 - i), n - 1 - i := xs ! i])\<rparr>)"
    by (auto simp: reverse_body_def heap_access Let_def list_update_append)
qed

text \<open>A loop that adds up elements faults exactly when a partial sum leaves the range of \<open>int\<close>.\<close>

lemma sum_loop:
  assumes "blocks h a = Some xs" and "i \<le> n" and "n \<le> length xs" and "s = sum_list (take i xs)"
  shows "for_range i n (\<lambda>i s. rbind (hread (Some a) i h) (\<lambda>x. chk32 (s + x))) s =
    (if \<forall>k. i < k \<and> k \<le> n \<longrightarrow> in_int (sum_list (take k xs)) then Inr (sum_list (take n xs))
     else Inl SignedOverflow)"
  using assms(2,4)
proof (induction "n - i" arbitrary: i s)
  case 0
  then show ?case by simp
next
  case (Suc d)
  then have i: "i < n" by simp
  have next_sum: "s + xs ! i = sum_list (take (Suc i) xs)"
    using Suc.prems i assms(3) by (simp add: take_Suc_conv_app_nth)
  have split: "(\<forall>k. i < k \<and> k \<le> n \<longrightarrow> P k) \<longleftrightarrow> P (Suc i) \<and> (\<forall>k. Suc i < k \<and> k \<le> n \<longrightarrow> P k)" for P
    using i by (auto simp: Suc_le_eq) (metis Suc_lessI)
  show ?case
  proof (cases "in_int (sum_list (take (Suc i) xs))")
    case True
    have "Suc i \<le> n" "d = n - Suc i" using Suc.hyps(2) i by simp_all
    note IH = Suc.hyps(1) [OF this(2,1) refl]
    from True i assms(1,3) show ?thesis
      by (simp add: for_range_step hread_Some next_sum IH split [of "\<lambda>k. in_int (sum_list (take k xs))"])
  next
    case False
    with i assms(1,3) show ?thesis
      by (simp add: for_range_step hread_Some next_sum chk32_def
          split [of "\<lambda>k. in_int (sum_list (take k xs))"])
  qed
qed

lemma contains_loop_spec:
  assumes "blocks h a = Some xs" and "nat n \<le> length xs"
  shows "contains_loop (Some a) n val False i h = Inr (val \<in> set (drop i (take (nat n) xs)))"
proof (induction "nat n - i" arbitrary: i)
  case 0
  then have "\<not> int i < n" by auto
  with 0 show ?case by (subst contains_loop.simps) simp
next
  case (Suc d)
  then have i: "int i < n" "i < length xs" "i < nat n" using assms(2) by auto
  then have "drop i (take (nat n) xs) = xs ! i # drop (Suc i) (take (nat n) xs)"
    using assms(2) by (simp add: Cons_nth_drop_Suc [symmetric])
  moreover have "contains_loop (Some a) n val True (Suc i) h = Inr True"
    by (subst contains_loop.simps) simp
  moreover have "contains_loop (Some a) n val False (Suc i) h =
      Inr (val \<in> set (drop (Suc i) (take (nat n) xs)))"
    using Suc.hyps by (intro Suc.hyps(1)) simp
  ultimately show ?case
    using i assms(1) by (subst contains_loop.simps) (auto simp: hread_Some)
qed

lemma max_loop:
  fixes xs :: "int list"
  assumes "blocks h a = Some xs" and "0 < n" and "n \<le> length xs"
  shows "\<exists>l m. for_range 1 n
      (\<lambda>i (largest, largest_idx).
         rbind (hread (Some a) i h) (\<lambda>x. if x > largest then Inr (x, int i) else Inr (largest, largest_idx)))
      (xs ! 0, 0) = Inr (l, int m) \<and>
    m < n \<and> l = xs ! m \<and> (\<forall>k<n. xs ! k \<le> xs ! m) \<and> (\<forall>k<m. xs ! k < xs ! m)"
proof -
  let ?I = "\<lambda>i (l, j). \<exists>m. j = int m \<and> m < i \<and> l = xs ! m \<and>
    (\<forall>k<i. xs ! k \<le> xs ! m) \<and> (\<forall>k<m. xs ! k < xs ! m)"
  let ?body = "\<lambda>i (largest, largest_idx).
    rbind (hread (Some a) i h) (\<lambda>x. if x > largest then Inr (x, int i) else Inr (largest, largest_idx))"
  have "\<exists>s'. for_range 1 n ?body (xs ! 0, 0) = Inr s' \<and> ?I n s'"
  proof (rule for_range_invariant)
    show "?I 1 (xs ! 0, 0)" by (auto intro: exI [of _ 0])
    show "1 \<le> n" using assms(2) by simp
    fix k s assume I: "?I k s" and k: "k < n"
    obtain l j where s: "s = (l, j)" by (cases s)
    with I obtain m where m: "j = int m" "m < k" "l = xs ! m" "\<forall>k'<k. xs ! k' \<le> xs ! m"
      "\<forall>k'<m. xs ! k' < xs ! m" by auto
    have read: "hread (Some a) k h = Inr (xs ! k)" using assms k by (simp add: hread_Some)
    show "\<exists>s'. ?body k s = Inr s' \<and> ?I (Suc k) s'"
    proof (cases "xs ! k > xs ! m")
      case True
      then have "\<forall>k'<Suc k. xs ! k' \<le> xs ! k" "\<forall>k'<k. xs ! k' < xs ! k"
        using m(4) by (fastforce simp: less_Suc_eq)+
      with True show ?thesis using read by (auto simp: s m)
    next
      case False
      then have "\<forall>k'<Suc k. xs ! k' \<le> xs ! m" using m(4) by (auto simp: less_Suc_eq)
      with False show ?thesis using read m by (auto simp: s)
    qed
  qed
  then show ?thesis by auto
qed

subsection \<open>Main results\<close>

text \<open>\<open>array_reverse\<close> on the first \<open>n\<close> elements of a block never faults, reverses exactly those
  elements, leaves the rest of the block and every other block unchanged, and does nothing for a
  negative \<open>n\<close>.\<close>

theorem array_reverse_correct:
  assumes "blocks h a = Some xs" and "n \<le> int (length xs)"
  shows "array_reverse (Some a) n h =
    Inr (h\<lparr>blocks := (blocks h)(a \<mapsto> rev (take (nat n) xs) @ drop (nat n) xs)\<rparr>)"
proof (cases "0 \<le> n")
  case True
  then have "nat (c_quot n 2) = nat n div 2" by (simp add: c_quot_nonneg nat_div_distrib)
  with assms show ?thesis by (simp add: array_reverse_def arr_rev.loop_reverses [where pre = "[]"])
next
  case False
  then have "nat (c_quot n 2) = 0" using c_quot_neg_le_0 [of n 2] by simp
  with False assms(1) show ?thesis by (simp add: array_reverse_def)
qed

theorem array_reverse_correct_witness:
  "array_reverse (Some 0) 3 \<lparr>blocks = [0 \<mapsto> [1, 2, 3, 4]], brk = 1\<rparr> =
   Inr \<lparr>blocks = [0 \<mapsto> [3, 2, 1, 4]], brk = 1\<rparr>"
  using array_reverse_correct [of "\<lparr>blocks = [0 \<mapsto> [1, 2, 3, 4]], brk = 1\<rparr>" 0 "[1, 2, 3, 4]" 3]
  by simp

text \<open>\<open>array_max_index\<close> returns -1 for a length that is not positive and otherwise the first
  index of a largest element.\<close>

theorem array_max_index_correct:
  assumes "blocks h a = Some xs" and "n \<le> int (length xs)"
  shows "n \<le> 0 \<Longrightarrow> array_max_index (Some a) n h = Inr (-1)"
    and "0 < n \<Longrightarrow> \<exists>m. array_max_index (Some a) n h = Inr (int m) \<and> int m < n \<and>
      (\<forall>k. int k < n \<longrightarrow> xs ! k \<le> xs ! m) \<and> (\<forall>k<m. xs ! k < xs ! m)"
proof -
  show "n \<le> 0 \<Longrightarrow> array_max_index (Some a) n h = Inr (-1)" by (simp add: array_max_index_def)
  assume n: "0 < n"
  have len: "0 < nat n" "nat n \<le> length xs" using n assms(2) by auto
  obtain l m where loop: "for_range 1 (nat n)
      (\<lambda>i (largest, largest_idx).
         rbind (hread (Some a) i h) (\<lambda>x. if x > largest then Inr (x, int i) else Inr (largest, largest_idx)))
      (xs ! 0, 0) = Inr (l, int m)" and m: "m < nat n"
    "\<forall>k<nat n. xs ! k \<le> xs ! m" "\<forall>k<m. xs ! k < xs ! m"
    using max_loop [OF assms(1) len] by blast
  have "hread (Some a) 0 h = Inr (xs ! 0)" using assms(1) len by (intro hread_Some) auto
  then have "array_max_index (Some a) n h = Inr (int m)"
    unfolding array_max_index_def using n loop by simp
  moreover have "int k < n \<longleftrightarrow> k < nat n" for k using n by linarith
  ultimately show "\<exists>m. array_max_index (Some a) n h = Inr (int m) \<and> int m < n \<and>
      (\<forall>k. int k < n \<longrightarrow> xs ! k \<le> xs ! m) \<and> (\<forall>k<m. xs ! k < xs ! m)"
    using m by blast
qed

theorem array_max_index_correct_witness:
  "\<exists>m. array_max_index (Some 0) 4 \<lparr>blocks = [0 \<mapsto> [3, 9, -2, 9]], brk = 1\<rparr> = Inr (int m)"
  using array_max_index_correct(2) [of "\<lparr>blocks = [0 \<mapsto> [3, 9, -2, 9]], brk = 1\<rparr>" 0 "[3, 9, -2, 9]" 4]
  by auto

text \<open>\<open>array_sum\<close> returns the sum of the first \<open>n\<close> elements if every partial sum fits into an
  \<open>int\<close>; otherwise, even if the total would fit, the execution has a signed overflow.\<close>

theorem array_sum_correct:
  assumes "blocks h a = Some xs" and "n \<le> int (length xs)"
  shows "array_sum (Some a) n h =
    (if \<forall>k\<le>nat n. in_int (sum_list (take k xs)) then Inr (sum_list (take (nat n) xs))
     else Inl SignedOverflow)"
proof -
  have "in_int (sum_list (take 0 xs))" by (simp add: in_int_def)
  then have "(\<forall>k. 0 < k \<and> k \<le> nat n \<longrightarrow> in_int (sum_list (take k xs))) \<longleftrightarrow>
      (\<forall>k\<le>nat n. in_int (sum_list (take k xs)))"
    by (metis neq0_conv)
  with sum_loop [OF assms(1), of 0 "nat n" 0] assms(2) show ?thesis
    by (simp add: array_sum_def)
qed

theorem array_sum_correct_witness:
  "array_sum (Some 0) 3 \<lparr>blocks = [0 \<mapsto> [2147483647, 1, -1]], brk = 1\<rparr> = Inl SignedOverflow"
proof -
  have "\<not> (\<forall>k\<le>nat 3. in_int (sum_list (take k [2147483647, 1, -1])))"
    by (auto simp: in_int_def intro: exI [of _ 2])
  then show ?thesis
    using array_sum_correct [of "\<lparr>blocks = [0 \<mapsto> [2147483647, 1, -1]], brk = 1\<rparr>" 0 "[2147483647, 1, -1]" 3]
    by simp
qed

text \<open>\<open>array_contains\<close> returns 1 exactly when the value is among the first \<open>n\<close> elements.\<close>

theorem array_contains_correct:
  assumes "blocks h a = Some xs" and "n \<le> int (length xs)"
  shows "array_contains (Some a) n val h = Inr (if val \<in> set (take (nat n) xs) then 1 else 0)"
  using assms contains_loop_spec [OF assms(1), of n val 0] by (simp add: array_contains_def)

theorem array_contains_correct_witness:
  "array_contains (Some 0) 2 7 \<lparr>blocks = [0 \<mapsto> [5, 7, 9]], brk = 1\<rparr> = Inr 1"
  using array_contains_correct [of "\<lparr>blocks = [0 \<mapsto> [5, 7, 9]], brk = 1\<rparr>" 0 "[5, 7, 9]" 2 7]
  by (simp add: numeral_2_eq_2)

definition fizzbuzz_text :: "int \<Rightarrow> string" where
  "fizzbuzz_text n =
     (if 3 dvd n \<and> 5 dvd n then ''FizzBuzz''
      else if 3 dvd n then ''Fizz''
      else if 5 dvd n then ''Buzz''
      else show_int n)"

text \<open>For every \<open>int\<close>, \<open>fizzbuzz\<close> writes the text the header asks for and its terminator at the
  start of a buffer of at least 12 characters: "FizzBuzz", "Buzz" or "Fizz" by divisibility, or the
  decimal notation, which reads back as the number.\<close>

theorem fizzbuzz_correct:
  assumes "blocks h a = Some buf" and "12 \<le> length buf" and "in_int n"
  shows "fizzbuzz n (Some a) h =
    Inr (h\<lparr>blocks := (blocks h)(a \<mapsto> fizzbuzz_text n @ [CHR 0x00] @ drop (Suc (length (fizzbuzz_text n))) buf)\<rparr>)"
proof -
  have dvd15: "15 dvd n \<longleftrightarrow> 3 dvd n \<and> 5 dvd n" by presburger
  then have "fizzbuzz n (Some a) h = c_sprintf (Some a) (fizzbuzz_text n) h"
    by (auto simp: fizzbuzz_def fizzbuzz_text_def c_rem_eq_0_iff)
  moreover have "length (fizzbuzz_text n) \<le> 11"
    using length_show_int [OF assms(3)] by (simp add: fizzbuzz_text_def)
  ultimately show ?thesis
    using hwrite_list_0 [of h a buf "fizzbuzz_text n @ [CHR 0x00]"] assms by (simp add: c_sprintf_def)
qed

theorem fizzbuzz_correct_witness:
  "fizzbuzz (-30) (Some 0) \<lparr>blocks = [0 \<mapsto> replicate 12 (CHR ''x'')], brk = 1\<rparr> =
   Inr \<lparr>blocks = [0 \<mapsto> ''FizzBuzz'' @ [CHR 0x00] @ ''xxx''], brk = 1\<rparr>"
proof -
  have "fizzbuzz_text (-30) = ''FizzBuzz''" by (simp add: fizzbuzz_text_def)
  then show ?thesis
    using fizzbuzz_correct [of "\<lparr>blocks = [0 \<mapsto> replicate 12 (CHR ''x'')], brk = 1\<rparr>" 0 "replicate 12 (CHR ''x'')" "-30"]
    by (simp add: in_int_def numeral_eq_Suc)
qed

end
