(* ===== verification/C_Strings.thy ===== *)
theory C_Strings
  imports In_Place
begin

section \<open>C strings\<close>

text \<open>
  Model of the string functions of \<open>00-c-for-programmers/exercises/ex2-strings-and-arrays/strings.c\<close>.
  A \<open>char *\<close> is a block of the character heap and an offset into it. Every loop that walks to the
  terminator terminates because it faults at the end of the block at the latest. Lengths are
  \<open>size_t\<close>; where the code stores one in an \<open>int\<close>, \<open>size_to_int\<close> is the conversion.
\<close>

abbreviation (input) NUL :: char where "NUL \<equiv> CHR 0x00"

subsection \<open>The functions\<close>

function strlen_loop :: "ptr \<Rightarrow> nat \<Rightarrow> char heap \<Rightarrow> nat res" where
  "strlen_loop s p h =
     rbind (hread s p h) (\<lambda>c. if c \<noteq> NUL then strlen_loop s (Suc p) h else Inr p)"
  by pat_completeness auto
termination
  by (relation "measure (\<lambda>(s, p, h). bsize s h - p)") (auto dest: hread_lt_bsize)

definition my_strlen :: "ptr \<times> nat \<Rightarrow> char heap \<Rightarrow> nat res" where
  "my_strlen s h = rbind (strlen_loop (fst s) (snd s) h) (\<lambda>p. Inr (p - snd s))"

function strcpy_loop :: "ptr \<Rightarrow> nat \<Rightarrow> ptr \<Rightarrow> nat \<Rightarrow> char heap \<Rightarrow> (nat \<times> char heap) res" where
  "strcpy_loop dst i src j h =
     rbind (hread src j h) (\<lambda>c.
       if c \<noteq> NUL
       then rbind (hwrite dst i c h) (\<lambda>h'. strcpy_loop dst (Suc i) src (Suc j) h')
       else Inr (i, h))"
  by pat_completeness auto
termination
  by (relation "measure (\<lambda>(dst, i, src, j, h). bsize src h - j)")
    (auto simp: bsize_hwrite dest!: hread_lt_bsize)

definition my_strcpy :: "ptr \<times> nat \<Rightarrow> ptr \<times> nat \<Rightarrow> char heap \<Rightarrow> ((ptr \<times> nat) \<times> char heap) res" where
  "my_strcpy dst src h =
     (let start = dst in
      rbind (strcpy_loop (fst dst) (snd dst) (fst src) (snd src) h) (\<lambda>(i, h1).
      rbind (hwrite (fst dst) i NUL h1) (\<lambda>h2.
      Inr (start, h2))))"

function strcmp_loop :: "ptr \<Rightarrow> nat \<Rightarrow> ptr \<Rightarrow> nat \<Rightarrow> char heap \<Rightarrow> (nat \<times> nat) res" where
  "strcmp_loop a i b j h =
     rbind (hread a i h) (\<lambda>x.
     rbind (hread b j h) (\<lambda>y.
       if x = y \<and> x \<noteq> NUL then strcmp_loop a (Suc i) b (Suc j) h else Inr (i, j)))"
  by pat_completeness auto
termination
  by (relation "measure (\<lambda>(a, i, b, j, h). bsize a h - i)") (auto dest: hread_lt_bsize)

definition my_strcmp :: "ptr \<times> nat \<Rightarrow> ptr \<times> nat \<Rightarrow> char heap \<Rightarrow> int res" where
  "my_strcmp a b h =
     rbind (strcmp_loop (fst a) (snd a) (fst b) (snd b) h) (\<lambda>(i, j).
     rbind (hread (fst a) i h) (\<lambda>x.
     rbind (hread (fst b) j h) (\<lambda>y.
       if x = y then Inr 0 else Inr (of_char x - of_char y))))"

definition my_strcat :: "ptr \<times> nat \<Rightarrow> ptr \<times> nat \<Rightarrow> char heap \<Rightarrow> ((ptr \<times> nat) \<times> char heap) res" where
  "my_strcat dst src h =
     rbind (my_strlen dst h) (\<lambda>n.
       let l = size_to_int n; loc = int (snd dst) + l in
       if loc < 0 then Inl OutOfBounds
       else rbind (my_strcpy (fst dst, nat loc) src h) (\<lambda>(_, h'). Inr (dst, h')))"

text \<open>A negative \<open>int\<close> passed to \<open>malloc\<close> is a huge \<open>size_t\<close>, which no allocation satisfies.\<close>

definition malloc_int :: "char alloc \<Rightarrow> int \<Rightarrow> char heap \<Rightarrow> ptr \<times> char heap" where
  "malloc_int m n h = (if n < 0 then c_malloc None 0 h else c_malloc m (nat n) h)"

definition my_strdup :: "char alloc \<Rightarrow> ptr \<times> nat \<Rightarrow> char heap \<Rightarrow> ((ptr \<times> nat) \<times> char heap) res" where
  "my_strdup m s h =
     rbind (my_strlen s h) (\<lambda>n.
     rbind (chk32 (size_to_int n + 1)) (\<lambda>size.
       let (dup, h1) = malloc_int m size h in
     rbind (my_strcpy (dup, 0) s h1) (\<lambda>(_, h2).
     Inr ((dup, 0), h2))))"

definition str_join :: "char alloc \<Rightarrow> ptr \<times> nat \<Rightarrow> ptr \<times> nat \<Rightarrow> char heap \<Rightarrow> ((ptr \<times> nat) \<times> char heap) res" where
  "str_join m a b h =
     rbind (my_strlen a h) (\<lambda>na.
     rbind (my_strlen b h) (\<lambda>nb.
       let len = size_to_int (na + nb + 1);
           (result, h1) = malloc_int m len h in
     rbind (my_strcpy (result, 0) a h1) (\<lambda>(_, h2).
     rbind (my_strlen a h2) (\<lambda>na'.
     rbind (my_strcpy (result, na') b h2) (\<lambda>(_, h3).
     Inr ((result, 0), h3))))))"

definition str_reverse_body :: "nat \<Rightarrow> ptr \<Rightarrow> nat \<Rightarrow> nat \<Rightarrow> char heap \<Rightarrow> char heap res" where
  "str_reverse_body len s off i h =
     rbind (hread s (off + (len - 1 - i)) h) (\<lambda>tmp.
     rbind (hread s (off + i) h) (\<lambda>c.
     rbind (hwrite s (off + (len - 1 - i)) c h) (\<lambda>h1.
     hwrite s (off + i) tmp h1)))"

definition str_reverse :: "ptr \<times> nat \<Rightarrow> char heap \<Rightarrow> char heap res" where
  "str_reverse s h =
     rbind (my_strlen s h) (\<lambda>len.
     for_range 0 (len div 2) (str_reverse_body len (fst s) (snd s)) h)"

function palindrome_loop :: "ptr \<Rightarrow> nat \<Rightarrow> nat \<Rightarrow> nat \<Rightarrow> nat \<Rightarrow> char heap \<Rightarrow> int res" where
  "palindrome_loop s off len j i h =
     (if i < len div 2 then
        rbind (hread s (off + i) h) (\<lambda>x.
        rbind (hread s (off + (j - i)) h) (\<lambda>y.
          if x \<noteq> y then Inr 0 else palindrome_loop s off len j (Suc i) h))
      else Inr 1)"
  by pat_completeness auto
termination by (relation "measure (\<lambda>(s, off, len, j, i, h). len div 2 - i)") auto

text \<open>For the empty string \<open>len - 1\<close> wraps to the largest \<open>size_t\<close>, which the loop never uses.\<close>

definition str_is_palindrome :: "ptr \<times> nat \<Rightarrow> char heap \<Rightarrow> int res" where
  "str_is_palindrome s h =
     rbind (my_strlen s h) (\<lambda>len.
       let j = (if len = 0 then 18446744073709551615 else len - 1) in
       palindrome_loop (fst s) (snd s) len j 0 h)"

declare strlen_loop.simps [simp del] strcpy_loop.simps [simp del] strcmp_loop.simps [simp del]
  palindrome_loop.simps [simp del]

subsection \<open>Strings in memory\<close>

definition str_at :: "char heap \<Rightarrow> ptr \<times> nat \<Rightarrow> string \<Rightarrow> bool" where
  "str_at h p s \<longleftrightarrow> NUL \<notin> set s \<and>
     (\<exists>a pre post. p = (Some a, length pre) \<and> blocks h a = Some (pre @ s @ NUL # post))"

lemma str_atI: "NUL \<notin> set s \<Longrightarrow> blocks h a = Some (pre @ s @ NUL # post) \<Longrightarrow> n = length pre \<Longrightarrow>
    str_at h (Some a, n) s"
  unfolding str_at_def by blast

lemma str_atE:
  assumes "str_at h p s"
  obtains a pre post where "p = (Some a, length pre)" and "blocks h a = Some (pre @ s @ NUL # post)"
    and "NUL \<notin> set s"
  using assms unfolding str_at_def by blast

lemma hread_at: "blocks h a = Some (pre @ x # post) \<Longrightarrow> hread (Some a) (length pre) h = Inr x"
  by (simp add: hread_Some)

lemma hwrite_at: "blocks h a = Some (pre @ x # post) \<Longrightarrow>
    hwrite (Some a) (length pre) y h = Inr (h\<lparr>blocks := (blocks h)(a \<mapsto> pre @ y # post)\<rparr>)"
  by (simp add: hwrite_Some list_update_append)

lemma strlen_loop_ok:
  "blocks h a = Some (pre @ s @ NUL # post) \<Longrightarrow> NUL \<notin> set s \<Longrightarrow>
    strlen_loop (Some a) (length pre) h = Inr (length pre + length s)"
proof (induction s arbitrary: pre)
  case Nil
  then show ?case by (subst strlen_loop.simps) (simp add: hread_at)
next
  case (Cons c s)
  then have "strlen_loop (Some a) (length (pre @ [c])) h = Inr (length (pre @ [c]) + length s)"
    by (intro Cons.IH) auto
  with Cons.prems show ?case by (subst strlen_loop.simps) (auto simp: hread_at)
qed

lemma strlen_ok: "str_at h p s \<Longrightarrow> my_strlen p h = Inr (length s)"
  by (auto elim!: str_atE simp: my_strlen_def strlen_loop_ok)

lemma strcpy_loop_ok:
  "blocks h b = Some (sp @ s @ NUL # sq) \<Longrightarrow> NUL \<notin> set s \<Longrightarrow> a \<noteq> b \<Longrightarrow>
    blocks h a = Some (pre @ old @ post) \<Longrightarrow> length old = length s \<Longrightarrow>
    strcpy_loop (Some a) (length pre) (Some b) (length sp) h =
      Inr (length pre + length s, h\<lparr>blocks := (blocks h)(a \<mapsto> pre @ s @ post)\<rparr>)"
proof (induction s arbitrary: sp pre old h)
  case Nil
  then have upd: "h\<lparr>blocks := (blocks h)(a \<mapsto> pre @ [] @ post)\<rparr> = h"
    by (intro heap_upd_triv) simp
  from Nil show ?case unfolding upd by (subst strcpy_loop.simps) (simp add: hread_at)
next
  case (Cons c s)
  then obtain y ys where old: "old = y # ys" by (cases old) auto
  let ?h = "h\<lparr>blocks := (blocks h)(a \<mapsto> pre @ c # ys @ post)\<rparr>"
  have "strcpy_loop (Some a) (length (pre @ [c])) (Some b) (length (sp @ [c])) ?h =
      Inr (length (pre @ [c]) + length s, ?h\<lparr>blocks := (blocks ?h)(a \<mapsto> (pre @ [c]) @ s @ post)\<rparr>)"
    using Cons.prems old by (intro Cons.IH [of ?h "sp @ [c]" "pre @ [c]" ys]) auto
  with Cons.prems old show ?case
    by (subst strcpy_loop.simps) (auto simp: hread_at hwrite_at)
qed

text \<open>Without room for the characters the copy runs off the end of the destination.\<close>

lemma strcpy_loop_short:
  "blocks h b = Some (sp @ s @ NUL # sq) \<Longrightarrow> NUL \<notin> set s \<Longrightarrow> a \<noteq> b \<Longrightarrow>
    blocks h a = Some (pre @ old) \<Longrightarrow> length old < length s \<Longrightarrow>
    strcpy_loop (Some a) (length pre) (Some b) (length sp) h = Inl OutOfBounds"
proof (induction s arbitrary: sp pre old h)
  case Nil
  then show ?case by simp
next
  case (Cons c s)
  show ?case
  proof (cases old)
    case Nil
    with Cons.prems show ?thesis
      by (subst strcpy_loop.simps) (auto simp: hread_at hwrite_out_of_bounds)
  next
    case (Cons y ys)
    let ?h = "h\<lparr>blocks := (blocks h)(a \<mapsto> pre @ c # ys)\<rparr>"
    have "strcpy_loop (Some a) (length (pre @ [c])) (Some b) (length (sp @ [c])) ?h = Inl OutOfBounds"
      using Cons.prems Cons by (intro Cons.IH [of ?h "sp @ [c]" "pre @ [c]" ys]) auto
    with Cons.prems Cons show ?thesis
      by (subst strcpy_loop.simps) (auto simp: hread_at hwrite_at)
  qed
qed

lemma strcpy_ok:
  assumes "str_at h (Some b, j) s" and "a \<noteq> b"
    and "blocks h a = Some (pre @ old @ post)" and "length old = Suc (length s)"
  shows "my_strcpy (Some a, length pre) (Some b, j) h =
    Inr ((Some a, length pre), h\<lparr>blocks := (blocks h)(a \<mapsto> pre @ s @ NUL # post)\<rparr>)"
proof -
  obtain sp sq where src: "j = length sp" "blocks h b = Some (sp @ s @ NUL # sq)" "NUL \<notin> set s"
    using assms(1) by (auto elim: str_atE)
  obtain ys y where old: "old = ys @ [y]" using assms(4) by (cases old rule: rev_cases) auto
  let ?h = "h\<lparr>blocks := (blocks h)(a \<mapsto> (pre @ s) @ y # post)\<rparr>"
  have "strcpy_loop (Some a) (length pre) (Some b) j h = Inr (length (pre @ s), ?h)"
    using strcpy_loop_ok [OF src(2,3) assms(2), of pre ys "y # post"] assms(3,4) old src(1) by simp
  moreover have "hwrite (Some a) (length (pre @ s)) NUL ?h =
      Inr (?h\<lparr>blocks := (blocks ?h)(a \<mapsto> (pre @ s) @ NUL # post)\<rparr>)"
    by (rule hwrite_at) simp
  ultimately show ?thesis by (simp add: my_strcpy_def)
qed

lemma strcpy_overflow:
  assumes "str_at h (Some b, j) s" and "a \<noteq> b"
    and "blocks h a = Some xs" and "i \<le> length xs" and "length xs \<le> i + length s"
  shows "my_strcpy (Some a, i) (Some b, j) h = Inl OutOfBounds"
proof -
  obtain sp sq where src: "j = length sp" "blocks h b = Some (sp @ s @ NUL # sq)" "NUL \<notin> set s"
    using assms(1) by (auto elim: str_atE)
  have xs: "blocks h a = Some (take i xs @ drop i xs)" "length (take i xs) = i"
    using assms(3,4) by simp_all
  show ?thesis
  proof (cases "length (drop i xs) < length s")
    case True
    then show ?thesis
      using strcpy_loop_short [OF src(2,3) assms(2) xs(1)] xs(2) src(1) by (simp add: my_strcpy_def)
  next
    case False
    then have "length (drop i xs) = length s" using assms(4,5) by simp
    then have "strcpy_loop (Some a) i (Some b) j h =
        Inr (i + length s, h\<lparr>blocks := (blocks h)(a \<mapsto> take i xs @ s @ [])\<rparr>)"
      using strcpy_loop_ok [OF src(2,3) assms(2), of "take i xs" "drop i xs" "[]"] xs src(1) by simp
    then show ?thesis
      using xs(2) by (simp add: my_strcpy_def hwrite_out_of_bounds)
  qed
qed

lemma strcmp_loop_ok:
  "blocks h a = Some (ap @ s @ NUL # aq) \<Longrightarrow> NUL \<notin> set s \<Longrightarrow>
   blocks h b = Some (bp @ t @ NUL # bq) \<Longrightarrow> NUL \<notin> set t \<Longrightarrow>
   \<exists>k. strcmp_loop (Some a) (length ap) (Some b) (length bp) h = Inr (length ap + k, length bp + k) \<and>
     k \<le> length s \<and> k \<le> length t \<and> take k s = take k t \<and>
     ((s @ [NUL]) ! k \<noteq> (t @ [NUL]) ! k \<or> (k = length s \<and> k = length t))"
proof (induction s arbitrary: t ap bp)
  case Nil
  then show ?case
    by (subst strcmp_loop.simps) (cases t; auto simp: hread_at intro!: exI [of _ 0])
next
  case (Cons c s)
  show ?case
  proof (cases t)
    case Nil
    with Cons.prems show ?thesis
      by (subst strcmp_loop.simps) (auto simp: hread_at intro!: exI [of _ 0])
  next
    case t: (Cons d t')
    show ?thesis
    proof (cases "c = d")
      case True
      obtain k where k: "strcmp_loop (Some a) (length (ap @ [c])) (Some b) (length (bp @ [d])) h =
          Inr (length (ap @ [c]) + k, length (bp @ [d]) + k)"
        "k \<le> length s" "k \<le> length t'" "take k s = take k t'"
        "(s @ [NUL]) ! k \<noteq> (t' @ [NUL]) ! k \<or> (k = length s \<and> k = length t')"
        using Cons.IH [of "ap @ [c]" "bp @ [d]" t'] Cons.prems t by auto
      with Cons.prems t True show ?thesis
        by (subst strcmp_loop.simps) (auto simp: hread_at intro!: exI [of _ "Suc k"])
    next
      case False
      with Cons.prems t show ?thesis
        by (subst strcmp_loop.simps) (auto simp: hread_at intro!: exI [of _ 0])
    qed
  qed
qed

lemma palindrome_loop_ok:
  assumes "blocks h a = Some (pre @ s @ NUL # post)"
  shows "palindrome_loop (Some a) (length pre) (length s) (length s - 1) i h =
    Inr (if \<forall>k. i \<le> k \<and> k < length s div 2 \<longrightarrow> s ! k = s ! (length s - 1 - k) then 1 else 0)"
proof (induction "length s div 2 - i" arbitrary: i)
  case 0
  then show ?case by (subst palindrome_loop.simps) auto
next
  case (Suc d)
  then have i: "i < length s div 2" by simp
  then have "hread (Some a) (length pre + i) h = Inr (s ! i)"
    "hread (Some a) (length pre + (length s - 1 - i)) h = Inr (s ! (length s - 1 - i))"
    using assms by (auto simp: hread_Some nth_append)
  moreover have "d = length s div 2 - Suc i" using Suc.hyps(2) by simp
  note IH = Suc.hyps(1) [OF this]
  moreover have "(\<forall>k. i \<le> k \<and> k < length s div 2 \<longrightarrow> P k) \<longleftrightarrow>
      P i \<and> (\<forall>k. Suc i \<le> k \<and> k < length s div 2 \<longrightarrow> P k)" for P
    using i by (auto simp: Suc_le_eq) (metis le_neq_implies_less)
  ultimately show ?case
    using i by (subst palindrome_loop.simps) (simp add: IH)
qed

lemma palindrome_halves:
  "(\<forall>k < length s div 2. s ! k = s ! (length s - 1 - k)) \<longleftrightarrow> s = rev s"
proof
  assume half: "\<forall>k < length s div 2. s ! k = s ! (length s - 1 - k)"
  show "s = rev s"
  proof (rule nth_equalityI)
    fix k assume k: "k < length s"
    consider "k < length s div 2" | "length s - 1 - k < length s div 2" | "length s - 1 - k = k"
      using k by linarith
    then have "s ! k = s ! (length s - 1 - k)"
    proof cases
      case 1
      then show ?thesis using half by blast
    next
      case 2
      then have "s ! (length s - 1 - k) = s ! (length s - 1 - (length s - 1 - k))" using half by blast
      also have "length s - 1 - (length s - 1 - k) = k" using k by linarith
      finally show ?thesis by (rule sym)
    qed simp
    then show "s ! k = rev s ! k" using k by (simp add: rev_nth)
  qed simp
next
  assume pal: "s = rev s"
  show "\<forall>k < length s div 2. s ! k = s ! (length s - 1 - k)"
  proof (intro allI impI)
    fix k assume "k < length s div 2"
    then have "rev s ! k = s ! (length s - 1 - k)" by (simp add: rev_nth)
    then show "s ! k = s ! (length s - 1 - k)" by (simp only: pal [symmetric])
  qed
qed

interpretation str_rev: swap_body str_reverse_body
proof
  fix h :: "char heap" and a pre xs off n i
  assume h: "blocks h a = Some (pre @ xs)" "length pre = off" and "n \<le> length xs" and i: "i < n div 2"
  then have "i < length xs" "n - 1 - i < length xs" by auto
  moreover have "xs[n - 1 - i := y, i := x] = xs[i := x, n - 1 - i := y]" for x y
    using i by (intro list_update_swap) linarith
  ultimately show "str_reverse_body n (Some a) off i h =
      Inr (h\<lparr>blocks := (blocks h)(a \<mapsto> pre @ xs[i := xs ! (n - 1 - i), n - 1 - i := xs ! i])\<rparr>)"
    using h by (auto simp: str_reverse_body_def heap_access list_update_append)
qed

text \<open>A duplicate is a fresh block of exactly the needed size, whatever it contained.\<close>

lemma strdup_ok:
  assumes "heap_ok h" and "str_at h p s" and "length s < 2147483647"
  shows "my_strdup (Some f) p h =
    Inr ((Some (brk h), 0), h\<lparr>blocks := (blocks h)(brk h \<mapsto> s @ [NUL]), brk := Suc (brk h)\<rparr>)"
proof -
  obtain a ap aq where a: "p = (Some a, length ap)" "blocks h a = Some (ap @ s @ NUL # aq)" "NUL \<notin> set s"
    using assms(2) by (rule str_atE)
  define ys where "ys = map f [0..<Suc (length s)]"
  have ys: "length ys = Suc (length s)" by (simp add: ys_def)
  let ?upd = "\<lambda>xs. h\<lparr>blocks := (blocks h)(brk h \<mapsto> xs), brk := Suc (brk h)\<rparr>"
  have fresh: "a \<noteq> brk h" using assms(1) a(2) by (auto dest: heap_ok_neq_brk)
  have "str_at (?upd ys) (Some a, length ap) s" by (rule str_atI) (use a fresh in auto)
  then have "my_strcpy (Some (brk h), length ([] :: string)) (Some a, length ap) (?upd ys) =
      Inr ((Some (brk h), length ([] :: string)), (?upd ys)\<lparr>blocks := (blocks (?upd ys))(brk h \<mapsto> [] @ s @ NUL # [])\<rparr>)"
    by (rule strcpy_ok [where old = ys]) (use fresh ys in auto)
  then have "my_strcpy (Some (brk h), 0) p (?upd ys) = Inr ((Some (brk h), 0), ?upd (s @ [NUL]))"
    by (simp add: a(1))
  moreover have "malloc_int (Some f) (int (length s) + 1) h = (Some (brk h), ?upd ys)"
    unfolding ys_def malloc_int_def c_malloc_def halloc_def by (simp add: nat_add_distrib del: upt_Suc)
  moreover have "chk32 (size_to_int (length s) + 1) = Inr (int (length s) + 1)"
    using assms(3) by (simp add: size_to_int_id in_int_def)
  ultimately show ?thesis
    using strlen_ok [OF assms(2)] by (simp add: my_strdup_def)
qed

text \<open>The first position at which two terminated strings differ decides their order.\<close>

lemma first_difference:
  assumes "NUL \<notin> set s" and "NUL \<notin> set t" and "take k s = take k t" and "k \<le> length s" "k \<le> length t"
    and "(s @ [NUL]) ! k \<noteq> (t @ [NUL]) ! k \<or> (k = length s \<and> k = length t)"
  defines "d \<equiv> if (s @ [NUL]) ! k = (t @ [NUL]) ! k then 0
    else of_char ((s @ [NUL]) ! k) - of_char ((t @ [NUL]) ! k) :: int"
  shows "(d = 0 \<longleftrightarrow> s = t) \<and>
    (d < 0 \<longleftrightarrow> (map of_char s :: nat list, map of_char t) \<in> lexord {(x, y). x < y}) \<and> \<bar>d\<bar> \<le> 255"
proof -
  obtain u s' t' where st: "s = u @ s'" "t = u @ t'" "length u = k"
    using assms(3,4) by (metis append_take_drop_id length_take min.absorb2)
  have lex: "(map of_char s :: nat list, map of_char t) \<in> lexord {(x, y). x < y} \<longleftrightarrow>
      (map of_char s' :: nat list, map of_char t') \<in> lexord {(x, y). x < y}"
    by (simp add: st lexord_same_pref_iff)
  have code: "(of_char c :: int) = int (of_char c)" for c
    by (rule of_nat_of_char [symmetric])
  have small: "of_char c \<le> (255 :: nat)" for c
    using nat_of_char_less_256 [of c] by linarith
  have pos: "0 < (of_char c :: nat)" if "c \<noteq> NUL" for c
  proof (rule gr0I)
    assume "(of_char c :: nat) = 0"
    also have "0 = (of_char NUL :: nat)" by simp
    finally show False using that by (simp only: of_char_eq_iff)
  qed
  show ?thesis
  proof (cases s'; cases t')
    fix y ys assume *: "s' = []" "t' = y # ys"
    then have "y \<noteq> NUL" using assms(2) st by auto
    with * show ?thesis unfolding lex using small [of y] pos [of y] st by (auto simp: d_def code)
  next
    fix x xs assume *: "s' = x # xs" "t' = []"
    then have "x \<noteq> NUL" using assms(1) st by auto
    with * show ?thesis unfolding lex using small [of x] pos [of x] st by (auto simp: d_def code)
  next
    fix x xs y ys assume *: "s' = x # xs" "t' = y # ys"
    then have "x \<noteq> y" using assms(6) st by auto
    then have "(of_char x :: nat) \<noteq> of_char y" by simp
    with * \<open>x \<noteq> y\<close> show ?thesis
      unfolding lex using small [of x] small [of y] st by (auto simp: d_def code)
  next
    assume "s' = []" "t' = []"
    then show ?thesis unfolding lex using st by (auto simp: d_def)
  qed
qed

subsection \<open>Main results\<close>

lemma strcpy_correct_parts:
  assumes "str_at h (Some b, j) s" and "a \<noteq> b" and "blocks h a = Some xs" and "i \<le> length xs"
  shows "i + length s < length xs \<Longrightarrow>
      my_strcpy (Some a, i) (Some b, j) h =
        Inr ((Some a, i), h\<lparr>blocks := (blocks h)(a \<mapsto> take i xs @ s @ NUL # drop (i + length s + 1) xs)\<rparr>)"
    and "length xs \<le> i + length s \<Longrightarrow> my_strcpy (Some a, i) (Some b, j) h = Inl OutOfBounds"
proof -
  assume room: "i + length s < length xs"
  have "xs = take i xs @ take (Suc (length s)) (drop i xs) @ drop (i + length s + 1) xs"
    by (metis add.commute append_take_drop_id drop_drop Suc_eq_plus1 add_Suc)
  with strcpy_ok [OF assms(1,2), of "take i xs" "take (Suc (length s)) (drop i xs)" "drop (i + length s + 1) xs"]
    assms(3) room
  show "my_strcpy (Some a, i) (Some b, j) h =
      Inr ((Some a, i), h\<lparr>blocks := (blocks h)(a \<mapsto> take i xs @ s @ NUL # drop (i + length s + 1) xs)\<rparr>)"
    by simp
next
  assume "length xs \<le> i + length s"
  then show "my_strcpy (Some a, i) (Some b, j) h = Inl OutOfBounds"
    by (rule strcpy_overflow [OF assms])
qed

text \<open>\<open>my_strcpy\<close> into another block with room for the string and its terminator copies both,
  returns the destination and changes nothing else; with less room, which the function cannot see,
  it writes out of bounds.\<close>

theorem strcpy_correct:
  assumes "str_at h (Some b, j) s" and "a \<noteq> b" and "blocks h a = Some xs" and "i \<le> length xs"
  shows "(i + length s < length xs \<longrightarrow> my_strcpy (Some a, i) (Some b, j) h =
      Inr ((Some a, i), h\<lparr>blocks := (blocks h)(a \<mapsto> take i xs @ s @ NUL # drop (i + length s + 1) xs)\<rparr>)) \<and>
    (length xs \<le> i + length s \<longrightarrow> my_strcpy (Some a, i) (Some b, j) h = Inl OutOfBounds)"
  using strcpy_correct_parts [OF assms] by blast

definition str_example :: "char heap" where
  "str_example = \<lparr>blocks = [0 \<mapsto> ''ab'' @ [NUL], 1 \<mapsto> ''xyz'' @ [NUL] @ ''tail''], brk = 2\<rparr>"

theorem strcpy_correct_witness:
  "my_strcpy (Some 1, 1) (Some 0, 0) str_example =
     Inr ((Some 1, 1), str_example\<lparr>blocks := (blocks str_example)(1 \<mapsto> ''xab'' @ [NUL] @ ''tail'')\<rparr>)"
proof -
  have "str_at str_example (Some 0, 0) ''ab''"
    by (rule str_atI [where pre = "[]" and post = "[]"]) (simp_all add: str_example_def)
  then show ?thesis
    using strcpy_correct [of str_example 0 0 "''ab''" 1 "''xyz'' @ [NUL] @ ''tail''" 1]
    by (simp add: str_example_def)
qed

text \<open>C28: \<open>my_strcmp\<close> of pointers to two zero-terminated strings, each inside an allocated block, possibly the
  same one, reads inside these blocks only; the result is zero exactly when the strings are equal and
  otherwise has the sign of their lexicographic order by unsigned character code, and lies between -255 and 255.\<close>

theorem strcmp_correct:
  assumes "str_at h p s" and "str_at h q t"
  shows "\<exists>d. my_strcmp p q h = Inr d \<and> (d = 0 \<longleftrightarrow> s = t) \<and>
    (d < 0 \<longleftrightarrow> (map of_char s :: nat list, map of_char t) \<in> lexord {(x, y). x < y}) \<and> \<bar>d\<bar> \<le> 255"
proof -
  obtain a ap aq where a: "p = (Some a, length ap)" "blocks h a = Some (ap @ s @ NUL # aq)" "NUL \<notin> set s"
    using assms(1) by (rule str_atE)
  obtain b bp bq where b: "q = (Some b, length bp)" "blocks h b = Some (bp @ t @ NUL # bq)" "NUL \<notin> set t"
    using assms(2) by (rule str_atE)
  obtain k where k: "strcmp_loop (Some a) (length ap) (Some b) (length bp) h = Inr (length ap + k, length bp + k)"
    "k \<le> length s" "k \<le> length t" "take k s = take k t"
    "(s @ [NUL]) ! k \<noteq> (t @ [NUL]) ! k \<or> (k = length s \<and> k = length t)"
    using strcmp_loop_ok [OF a(2,3) b(2,3)] by blast
  let ?x = "(s @ [NUL]) ! k" and ?y = "(t @ [NUL]) ! k"
  have "hread (Some a) (length ap + k) h = Inr ?x" "hread (Some b) (length bp + k) h = Inr ?y"
    using a(2) b(2) k(2,3) by (auto simp: hread_Some nth_append)
  then have res: "my_strcmp p q h = Inr (if ?x = ?y then 0 else of_char ?x - of_char ?y)"
    using k(1) by (simp add: my_strcmp_def a(1) b(1))
  then show ?thesis
    using first_difference [OF a(3) b(3) k(4,2,3,5)] by (intro exI) (rule conjI [OF res])
qed

theorem strcmp_correct_witness:
  "\<exists>d. my_strcmp (Some 0, 0) (Some 1, 0) str_example = Inr d \<and> d < 0"
proof -
  have "str_at str_example (Some 0, 0) ''ab''"
    by (rule str_atI [where pre = "[]" and post = "[]"]) (simp_all add: str_example_def)
  moreover have "str_at str_example (Some 1, 0) ''xyz''"
    by (rule str_atI [where pre = "[]" and post = "''tail''"]) (simp_all add: str_example_def)
  ultimately show ?thesis
    using strcmp_correct [of str_example "(Some 0, 0)" "''ab''" "(Some 1, 0)" "''xyz''"] by auto
qed

text \<open>\<open>my_strcat\<close> appends: with room in the destination for both strings and the terminator,
  the destination then holds the concatenation and the source is intact.\<close>

theorem strcat_correct:
  assumes "str_at h (Some b, j) s" and "a \<noteq> b"
    and "blocks h a = Some (pre @ d @ NUL # rest)" and "NUL \<notin> set d"
    and "length s \<le> length rest" and "length d < 2147483648"
  shows "\<exists>h'. my_strcat (Some a, length pre) (Some b, j) h = Inr ((Some a, length pre), h') \<and>
    str_at h' (Some a, length pre) (d @ s) \<and> str_at h' (Some b, j) s"
proof -
  obtain sp sq where src: "j = length sp" "blocks h b = Some (sp @ s @ NUL # sq)" "NUL \<notin> set s"
    using assms(1) by (auto elim: str_atE)
  let ?h = "h\<lparr>blocks := (blocks h)(a \<mapsto> (pre @ d) @ s @ NUL # drop (length s) rest)\<rparr>"
  have "my_strlen (Some a, length pre) h = Inr (length d)"
    by (rule strlen_ok, rule str_atI) (use assms in auto)
  moreover have "my_strcpy (Some a, length (pre @ d)) (Some b, j) h = Inr ((Some a, length (pre @ d)), ?h)"
    using assms by (intro strcpy_ok [where old = "NUL # take (length s) rest"]) auto
  moreover have "nat (int (length pre) + size_to_int (length d)) = length (pre @ d)"
    using assms(6) by (simp add: size_to_int_id nat_add_distrib)
  ultimately have "my_strcat (Some a, length pre) (Some b, j) h = Inr ((Some a, length pre), ?h)"
    using assms(6) by (simp add: my_strcat_def size_to_int_id)
  moreover have "str_at ?h (Some a, length pre) (d @ s)"
    by (rule str_atI [where pre = pre]) (use assms(4) src(3) in auto)
  moreover have "str_at ?h (Some b, j) s"
    by (rule str_atI [where pre = sp]) (use assms(2) src in auto)
  ultimately show ?thesis by blast
qed

theorem strcat_correct_witness:
  "\<exists>h'. my_strcat (Some 1, 0) (Some 0, 0) str_example = Inr ((Some 1, 0), h') \<and>
     str_at h' (Some 1, 0) ''xyzab'' \<and> str_at h' (Some 0, 0) ''ab''"
proof -
  have "str_at str_example (Some 0, 0) ''ab''"
    by (rule str_atI [where pre = "[]" and post = "[]"]) (simp_all add: str_example_def)
  then show ?thesis
    using strcat_correct [of str_example 0 0 "''ab''" 1 "[]" "''xyz''" "''tail''"]
    by (simp add: str_example_def)
qed

lemma str_join_correct_parts:
  assumes "heap_ok h" and "str_at h p s" and "str_at h q t" and "length s + length t < 2147483647"
  shows "str_join (Some f) p q h =
      Inr ((Some (brk h), 0), h\<lparr>blocks := (blocks h)(brk h \<mapsto> s @ t @ [NUL]), brk := Suc (brk h)\<rparr>)"
    and "str_join None p q h = Inl NullDeref"
proof -
  obtain a ap aq where a: "p = (Some a, length ap)" "blocks h a = Some (ap @ s @ NUL # aq)" "NUL \<notin> set s"
    using assms(2) by (rule str_atE)
  obtain b bp bq where b: "q = (Some b, length bp)" "blocks h b = Some (bp @ t @ NUL # bq)" "NUL \<notin> set t"
    using assms(3) by (rule str_atE)
  let ?n = "Suc (length s + length t)"
  let ?upd = "\<lambda>xs. h\<lparr>blocks := (blocks h)(brk h \<mapsto> xs), brk := Suc (brk h)\<rparr>"
  define ys where "ys = map f [0..<?n]"
  have ys: "length ys = ?n" "take m ys @ drop m ys = ys" for m
    unfolding ys_def by (simp, rule append_take_drop_id)
  let ?h2 = "?upd (s @ NUL # drop (Suc (length s)) ys)"
  have fresh: "a \<noteq> brk h" "b \<noteq> brk h"
    using assms(1) a(2) b(2) by (auto dest: heap_ok_neq_brk)
  have size: "size_to_int (length s + length t + 1) = int ?n"
    using assms(4) by (simp add: size_to_int_id)
  have lens: "my_strlen p h = Inr (length s)" "my_strlen q h = Inr (length t)"
    using assms(2,3) by (simp_all add: strlen_ok)
  have at: "str_at (?upd xs) p s" "str_at (?upd xs) q t" for xs
    unfolding a(1) b(1) by (rule str_atI; use a b fresh in auto)+
  have "my_strcpy (Some (brk h), length ([] :: string)) (Some a, length ap) (?upd ys) =
      Inr ((Some (brk h), length ([] :: string)),
        (?upd ys)\<lparr>blocks := (blocks (?upd ys))(brk h \<mapsto> [] @ s @ NUL # drop (Suc (length s)) ys)\<rparr>)"
    by (rule strcpy_ok [where old = "take (Suc (length s)) ys"]) (use at(1) a(1) fresh ys in auto)
  then have copy1: "my_strcpy (Some (brk h), 0) p (?upd ys) = Inr ((Some (brk h), 0), ?h2)"
    by (simp add: a(1))
  have "my_strcpy (Some (brk h), length s) (Some b, length bp) ?h2 =
      Inr ((Some (brk h), length s), ?h2\<lparr>blocks := (blocks ?h2)(brk h \<mapsto> s @ t @ NUL # [])\<rparr>)"
    by (rule strcpy_ok [where old = "NUL # drop (Suc (length s)) ys"]) (use at(2) b(1) fresh ys in auto)
  then have copy2: "my_strcpy (Some (brk h), length s) q ?h2 = Inr ((Some (brk h), length s), ?upd (s @ t @ [NUL]))"
    by (simp add: b(1))
  have alloc: "malloc_int (Some f) (size_to_int (length s + length t + 1)) h = (Some (brk h), ?upd ys)"
    unfolding size ys_def malloc_int_def c_malloc_def halloc_def by (simp del: upt_Suc of_nat_Suc)
  have "my_strlen p ?h2 = Inr (length s)" by (rule strlen_ok [OF at(1)])
  with lens alloc copy1 copy2 show "str_join (Some f) p q h = Inr ((Some (brk h), 0), ?upd (s @ t @ [NUL]))"
    by (simp add: str_join_def)
  have "my_strcpy (None, 0) p h = Inl NullDeref"
    using a by (cases s) (simp_all add: my_strcpy_def strcpy_loop.simps hread_at)
  with lens show "str_join None p q h = Inl NullDeref"
    by (simp add: str_join_def malloc_int_def c_malloc_def Let_def)
qed

text \<open>
  Longer strings: the \<open>size_t\<close> length does not fit the \<open>int\<close> of \<open>str_join\<close>. A negative \<open>int\<close> asks for
  more memory than there is, and a nonnegative one is too small, so that one of the two copies leaves the block.
\<close>

lemma str_join_null:
  assumes "str_at h p s" and "str_at h q t"
  shows "str_join None p q h = Inl NullDeref"
    and "size_to_int (length s + length t + 1) < 0 \<Longrightarrow> str_join m p q h = Inl NullDeref"
proof -
  obtain a ap aq where a: "p = (Some a, length ap)" "blocks h a = Some (ap @ s @ NUL # aq)" "NUL \<notin> set s"
    using assms(1) by (rule str_atE)
  have null: "my_strcpy (None, 0) p h = Inl NullDeref"
    using a by (cases s) (simp_all add: my_strcpy_def strcpy_loop.simps hread_at)
  then show "str_join None p q h = Inl NullDeref"
    using assms by (simp add: str_join_def strlen_ok malloc_int_def c_malloc_def Let_def)
  from null show "str_join m p q h = Inl NullDeref" if "size_to_int (length s + length t + 1) < 0"
    using assms that by (simp add: str_join_def strlen_ok malloc_int_def c_malloc_def)
qed

lemma str_join_short:
  assumes "heap_ok h" and "str_at h p s" and "str_at h q t"
    and "size_to_int (length s + length t + 1) = int m" and "m \<le> length s + length t"
  shows "str_join (Some f) p q h = Inl OutOfBounds"
proof -
  obtain a ap aq where a: "p = (Some a, length ap)" "blocks h a = Some (ap @ s @ NUL # aq)" "NUL \<notin> set s"
    using assms(2) by (rule str_atE)
  obtain b bp bq where b: "q = (Some b, length bp)" "blocks h b = Some (bp @ t @ NUL # bq)" "NUL \<notin> set t"
    using assms(3) by (rule str_atE)
  let ?upd = "\<lambda>xs. h\<lparr>blocks := (blocks h)(brk h \<mapsto> xs), brk := Suc (brk h)\<rparr>"
  define ys where "ys = map f [0..<m]"
  have ys: "length ys = m" by (simp add: ys_def)
  have fresh: "brk h \<noteq> a" "brk h \<noteq> b" using assms(1) a(2) b(2) by (auto dest: heap_ok_neq_brk)
  have at: "str_at (?upd xs) (Some a, length ap) s" "str_at (?upd xs) (Some b, length bp) t" for xs
    by (rule str_atI; use a b fresh in auto)+
  have alloc: "malloc_int (Some f) (size_to_int (length s + length t + 1)) h = (Some (brk h), ?upd ys)"
    unfolding assms(4) ys_def malloc_int_def c_malloc_def halloc_def by simp
  note run = strlen_ok [OF assms(2)] strlen_ok [OF assms(3)] alloc
  show ?thesis
  proof (cases "m \<le> length s")
    case True
    have "my_strcpy (Some (brk h), 0) p (?upd ys) = Inl OutOfBounds"
      unfolding a(1) by (rule strcpy_overflow [OF at(1) fresh(1), of ys]) (use ys True in auto)
    then show ?thesis using run by (simp add: str_join_def Let_def)
  next
    case False
    let ?xs = "s @ NUL # drop (Suc (length s)) ys"
    have take: "take (Suc (length s)) ys @ drop (Suc (length s)) ys = ys" by (rule append_take_drop_id)
    have "my_strcpy (Some (brk h), length ([] :: string)) (Some a, length ap) (?upd ys) =
        Inr ((Some (brk h), length ([] :: string)), (?upd ys)\<lparr>blocks := (blocks (?upd ys))(brk h \<mapsto> [] @ ?xs)\<rparr>)"
      by (rule strcpy_ok [OF at(1) fresh(1), where old = "take (Suc (length s)) ys"]) (use False ys take in auto)
    then have copy: "my_strcpy (Some (brk h), 0) p (?upd ys) = Inr ((Some (brk h), 0), ?upd ?xs)"
      by (simp add: a(1))
    have "my_strcpy (Some (brk h), length s) q (?upd ?xs) = Inl OutOfBounds"
      unfolding b(1) by (rule strcpy_overflow [OF at(2) fresh(2), of ?xs]) (use False ys assms(5) in auto)
    moreover have "my_strlen p (?upd ?xs) = Inr (length s)" unfolding a(1) by (rule strlen_ok [OF at(1)])
    ultimately show ?thesis using run copy by (simp add: str_join_def Let_def)
  qed
qed

lemma size_to_int_short: "2147483647 < n \<Longrightarrow> 0 \<le> size_to_int n \<Longrightarrow> nat (size_to_int n) < n"
proof -
  assume n: "2147483647 < n" and pos: "0 \<le> size_to_int n"
  have "size_to_int n < 2147483648" by (simp add: size_to_int_def)
  then show ?thesis using n pos by linarith
qed

text \<open>C26: \<open>str_join\<close> on any two strings in memory; let \<open>n\<close> be the sum of their lengths and one, the number of
  bytes the result needs. If the allocation succeeds and \<open>n\<close> fits an \<open>int\<close>, the result is a fresh block of
  exactly \<open>n\<close> bytes that holds the concatenation, whatever the new memory contained, and no other
  block changes. If \<open>n\<close> exceeds 2^31 - 1, the conversion of the \<open>size_t\<close> sum to the variable \<open>int len\<close>
  loses it: \<open>malloc\<close> gets a negative number, which as a \<open>size_t\<close> no allocation satisfies, and the null
  pointer is dereferenced, or a number that is too small, and a copy runs out of bounds. If the allocation fails, the unchecked
  null pointer is dereferenced. (\<open>heap_ok\<close>: the addresses in use are below the next fresh one.)\<close>

theorem str_join_correct:
  assumes "heap_ok h" and "str_at h p s" and "str_at h q t"
  shows "let n = length s + length t + 1 in
    (str_join None p q h = Inl NullDeref) \<and>
    (str_join (Some f) p q h =
       (if n \<le> 2147483647
        then Inr ((Some (brk h), 0), h\<lparr>blocks := (blocks h)(brk h \<mapsto> s @ t @ [NUL]), brk := Suc (brk h)\<rparr>)
        else if size_to_int n < 0 then Inl NullDeref else Inl OutOfBounds))"
proof -
  let ?n = "length s + length t + 1"
  consider "?n \<le> 2147483647" | "2147483647 < ?n" "size_to_int ?n < 0" | "2147483647 < ?n" "0 \<le> size_to_int ?n"
    by linarith
  then show ?thesis
  proof cases
    case 1
    then have "length s + length t < 2147483647" by simp
    then show ?thesis using str_join_correct_parts [OF assms] 1 by simp
  next
    case 2
    then show ?thesis using str_join_null [OF assms(2,3)] by simp
  next
    case 3
    have "str_join (Some f) p q h = Inl OutOfBounds"
      using size_to_int_short [OF 3] 3 by (intro str_join_short [OF assms, of "nat (size_to_int ?n)"]) simp_all
    then show ?thesis using str_join_null(1) [OF assms(2,3)] 3 by simp
  qed
qed

theorem str_join_correct_witness:
  "str_join (Some (\<lambda>_. CHR ''?'')) (Some 0, 0) (Some 1, 0) str_example =
     Inr ((Some 2, 0), str_example\<lparr>blocks := (blocks str_example)(2 \<mapsto> ''abxyz'' @ [NUL]), brk := 3\<rparr>)"
proof -
  have "str_at str_example (Some 0, 0) ''ab''"
    by (rule str_atI [where pre = "[]" and post = "[]"]) (simp_all add: str_example_def)
  moreover have "str_at str_example (Some 1, 0) ''xyz''"
    by (rule str_atI [where pre = "[]" and post = "''tail''"]) (simp_all add: str_example_def)
  moreover have "heap_ok str_example" by (simp add: str_example_def heap_ok_def)
  ultimately show ?thesis
    using str_join_correct [of str_example "(Some 0, 0)" "''ab''" "(Some 1, 0)" "''xyz''" "\<lambda>_. CHR ''?''"]
    by (simp add: str_example_def numeral_3_eq_3)
qed

lemma str_reverse_palindrome_parts:
  assumes "blocks h a = Some (pre @ s @ NUL # post)" and "NUL \<notin> set s"
  shows "str_reverse (Some a, length pre) h =
      Inr (h\<lparr>blocks := (blocks h)(a \<mapsto> pre @ rev s @ NUL # post)\<rparr>)"
    and "str_is_palindrome (Some a, length pre) h = Inr (if s = rev s then 1 else 0)"
proof -
  have len: "my_strlen (Some a, length pre) h = Inr (length s)"
    by (rule strlen_ok, rule str_atI) (use assms in auto)
  then show "str_reverse (Some a, length pre) h =
      Inr (h\<lparr>blocks := (blocks h)(a \<mapsto> pre @ rev s @ NUL # post)\<rparr>)"
    using str_rev.loop_reverses [OF assms(1) refl, of "length s"] by (simp add: str_reverse_def)
  have "palindrome_loop (Some a) (length pre) (length s) (if length s = 0 then j else length s - 1) 0 h =
      palindrome_loop (Some a) (length pre) (length s) (length s - 1) 0 h" for j
    by (cases "s = []") (simp_all add: palindrome_loop.simps)
  moreover have "palindrome_loop (Some a) (length pre) (length s) (length s - 1) 0 h =
      Inr (if s = rev s then 1 else 0)"
    using palindrome_loop_ok [OF assms(1), of 0] palindrome_halves [of s] by simp
  ultimately show "str_is_palindrome (Some a, length pre) h = Inr (if s = rev s then 1 else 0)"
    using len by (simp add: str_is_palindrome_def Let_def)
qed

text \<open>\<open>str_reverse\<close> replaces a string by its reverse in place, keeping its terminator and the
  rest of memory, and \<open>str_is_palindrome\<close> returns 1 exactly for the strings that equal their
  reverse, the empty string included.\<close>

theorem str_reverse_palindrome:
  assumes "blocks h a = Some (pre @ s @ NUL # post)" and "NUL \<notin> set s"
  shows "(str_reverse (Some a, length pre) h =
      Inr (h\<lparr>blocks := (blocks h)(a \<mapsto> pre @ rev s @ NUL # post)\<rparr>)) \<and>
    (str_is_palindrome (Some a, length pre) h = Inr (if s = rev s then 1 else 0))"
  using str_reverse_palindrome_parts [OF assms] by blast

theorem str_reverse_palindrome_witness:
  "str_reverse (Some 0, 0) str_example =
     Inr (str_example\<lparr>blocks := (blocks str_example)(0 \<mapsto> ''ba'' @ [NUL])\<rparr>) \<and>
   str_is_palindrome (Some 0, 0) str_example = Inr 0"
  using str_reverse_palindrome [of str_example 0 "[]" "''ab''" "[]"] by (simp add: str_example_def)

end
