(* ===== verification/Sequence_Spec.thy ===== *)
theory Sequence_Spec
  imports Prelude
begin

section \<open>Contract of a growable sequence\<close>

text \<open>
  What the linked list of \<open>structs.c\<close>, the dynamic array of \<open>strings.c\<close> and a vector on the pool allocator
  promise: appending at the back while there is room, reading by index, and a \<open>size_t\<close> count, related to a list
  of values by a representation relation. An operation that may not return or may fault has the result type
  \<open>res option\<close>. The client's lemma, that a filled sequence gives back what was stored, is proved once.
\<close>

locale growable_seq =
  fixes rep :: "'s \<Rightarrow> 'v list \<Rightarrow> bool"
    and push :: "'v \<Rightarrow> 's \<Rightarrow> 's res option"
    and get :: "nat \<Rightarrow> 's \<Rightarrow> 'v res"
    and count :: "'s \<Rightarrow> 64 word"
    and room :: nat
  assumes push_back: "rep s xs \<Longrightarrow> length xs < room \<Longrightarrow> \<exists>s'. push v s = Some (Inr s') \<and> rep s' (xs @ [v])"
    and get_index: "rep s xs \<Longrightarrow> i < length xs \<Longrightarrow> get i s = Inr (xs ! i)"
    and count_length: "rep s xs \<Longrightarrow> count s = of_nat (length xs)"
begin

fun push_all :: "'v list \<Rightarrow> 's \<Rightarrow> 's res option" where
  "push_all [] s = Some (Inr s)"
| "push_all (v # vs) s =
     (case push v s of None \<Rightarrow> None | Some (Inl e) \<Rightarrow> Some (Inl e) | Some (Inr s') \<Rightarrow> push_all vs s')"

lemma push_all_appends:
  "rep s xs \<Longrightarrow> length xs + length vs \<le> room \<Longrightarrow> \<exists>s'. push_all vs s = Some (Inr s') \<and> rep s' (xs @ vs)"
proof (induction vs arbitrary: s xs)
  case Nil
  then show ?case by simp
next
  case (Cons v vs)
  then obtain s' where s': "push v s = Some (Inr s')" "rep s' (xs @ [v])"
    using push_back [of s xs v] by auto
  with Cons.IH [of s' "xs @ [v]"] Cons.prems show ?case by auto
qed

lemma filled_reads_back:
  assumes "rep s []" and "length vs \<le> room"
  shows "\<exists>s'. push_all vs s = Some (Inr s') \<and> count s' = of_nat (length vs) \<and>
    (\<forall>i < length vs. get i s' = Inr (vs ! i))"
  using push_all_appends [OF assms(1), of vs] assms(2) get_index count_length by fastforce

end

end
