(* ===== verification/Linked_List.thy ===== *)
theory Linked_List
  imports C_Heap Sequence_Spec
begin

section \<open>Singly linked list\<close>

text \<open>
  Model of part 1 of \<open>00-c-for-programmers/exercises/ex3-structs-and-pointers/structs.c\<close>. A node is
  a block of size one in a heap of nodes. A loop that follows \<open>next\<close> pointers may never end when
  the nodes form a cycle, so the loops are \<open>partial_function (option)\<close>: \<open>None\<close> is an execution that
  does not return. \<open>length\<close> is a \<open>size_t\<close>, a 64-bit word.
\<close>

record ll_node =
  "value" :: int
  "next" :: ptr

record linked_list =
  head :: ptr
  len :: "64 word"

type_synonym ll_state = "linked_list \<times> ll_node heap"

text \<open>Sequencing of code that may fault or not return.\<close>

definition pbind :: "'a res option \<Rightarrow> ('a \<Rightarrow> 'b res option) \<Rightarrow> 'b res option" where
  "pbind m f = (case m of None \<Rightarrow> None | Some r \<Rightarrow> (case r of Inl e \<Rightarrow> Some (Inl e) | Inr x \<Rightarrow> f x))"

lemma pbind_simps [simp]:
  "pbind None f = None" "pbind (Some (Inl e)) f = Some (Inl e)" "pbind (Some (Inr x)) f = f x"
  by (simp_all add: pbind_def)

subsection \<open>The operations\<close>

definition get_value :: "ptr \<Rightarrow> ll_node heap \<Rightarrow> int res" where
  "get_value p h = rbind (hread p 0 h) (\<lambda>n. Inr (value n))"

definition get_next :: "ptr \<Rightarrow> ll_node heap \<Rightarrow> ptr res" where
  "get_next p h = rbind (hread p 0 h) (\<lambda>n. Inr (next n))"

definition set_value :: "ptr \<Rightarrow> int \<Rightarrow> ll_node heap \<Rightarrow> ll_node heap res" where
  "set_value p v h = rbind (hread p 0 h) (\<lambda>n. hwrite p 0 (n\<lparr>value := v\<rparr>) h)"

definition set_next :: "ptr \<Rightarrow> ptr \<Rightarrow> ll_node heap \<Rightarrow> ll_node heap res" where
  "set_next p q h = rbind (hread p 0 h) (\<lambda>n. hwrite p 0 (n\<lparr>next := q\<rparr>) h)"

definition ll_init :: linked_list where
  "ll_init = \<lparr>head = None, len = 0\<rparr>"

definition ll_push_front :: "ll_node alloc \<Rightarrow> int \<Rightarrow> ll_state \<Rightarrow> ll_state res" where
  "ll_push_front m v s =
     (let (l, h) = s; (n, h0) = c_malloc m 1 h in
      rbind (set_value n v h0) (\<lambda>h1.
      rbind (set_next n (head l) h1) (\<lambda>h2.
      Inr (l\<lparr>head := n, len := len l + 1\<rparr>, h2))))"

partial_function (option) ll_last :: "ptr \<Rightarrow> ll_node heap \<Rightarrow> ptr res option" where
  "ll_last cur h =
     (case get_next cur h of
        Inl e \<Rightarrow> Some (Inl e)
      | Inr nx \<Rightarrow> if nx \<noteq> None then ll_last nx h else Some (Inr cur))"

definition ll_push_back :: "ll_node alloc \<Rightarrow> int \<Rightarrow> ll_state \<Rightarrow> ll_state res option" where
  "ll_push_back m v s =
     (let (l, h) = s; (n, h0) = c_malloc m 1 h in
      pbind (Some (set_next n None h0)) (\<lambda>h1.
      pbind (Some (set_value n v h1)) (\<lambda>h2.
      if len l = 0 then Some (Inr (l\<lparr>head := n, len := len l + 1\<rparr>, h2))
      else
        pbind (ll_last (head l) h2) (\<lambda>cur.
        pbind (Some (set_next cur n h2)) (\<lambda>h3.
        Some (Inr (l\<lparr>len := len l + 1\<rparr>, h3)))))))"

definition ll_pop_front :: "ll_state \<Rightarrow> (ll_state \<times> int) res" where
  "ll_pop_front s =
     (let (l, h) = s in
      rbind (get_value (head l) h) (\<lambda>val.
        let cur = head l in
      rbind (get_next cur h) (\<lambda>nx.
      rbind (hfree cur h) (\<lambda>h1.
      Inr ((l\<lparr>head := nx, len := len l - 1\<rparr>, h1), val)))))"

partial_function (option) ll_find :: "ptr \<Rightarrow> int \<Rightarrow> ll_node heap \<Rightarrow> int res option" where
  "ll_find cur v h =
     (if cur = None then Some (Inr 0)
      else case get_value cur h of
        Inl e \<Rightarrow> Some (Inl e)
      | Inr x \<Rightarrow>
          if x = v then Some (Inr 1)
          else case get_next cur h of Inl e \<Rightarrow> Some (Inl e) | Inr nx \<Rightarrow> ll_find nx v h)"

definition ll_contains :: "int \<Rightarrow> ll_state \<Rightarrow> int res option" where
  "ll_contains v s = (let (l, h) = s in ll_find (head l) v h)"

definition ll_get :: "nat \<Rightarrow> ll_state \<Rightarrow> int res" where
  "ll_get i s =
     (let (l, h) = s in
      rbind (for_range 0 i (\<lambda>_ cur. get_next cur h) (head l)) (\<lambda>cur.
      get_value cur h))"

partial_function (option) ll_unlink ::
  "linked_list \<Rightarrow> ptr \<Rightarrow> ptr \<Rightarrow> int \<Rightarrow> ll_node heap \<Rightarrow> (ll_state \<times> int) res option" where
  "ll_unlink l prev cur v h =
     (if cur = None then Some (Inr ((l, h), 0))
      else case get_value cur h of
        Inl e \<Rightarrow> Some (Inl e)
      | Inr x \<Rightarrow>
          (case get_next cur h of
             Inl e \<Rightarrow> Some (Inl e)
           | Inr nx \<Rightarrow>
               if x = v then
                 Some (rbind (set_next prev nx h) (\<lambda>h1.
                       rbind (hfree cur h1) (\<lambda>h2.
                       Inr ((l\<lparr>len := len l - 1\<rparr>, h2), 1))))
               else ll_unlink l cur nx v h))"

definition ll_remove :: "int \<Rightarrow> ll_state \<Rightarrow> (ll_state \<times> int) res option" where
  "ll_remove v s =
     (let (l, h) = s in
      if len l = 0 then Some (Inr (s, 0))
      else
        pbind (Some (get_value (head l) h)) (\<lambda>x.
        if x = v then
          (let old = head l in
           pbind (Some (get_next old h)) (\<lambda>nx.
           pbind (Some (hfree old h)) (\<lambda>h1.
           Some (Inr ((l\<lparr>head := nx, len := len l - 1\<rparr>, h1), 1)))))
        else
          pbind (Some (get_next (head l) h)) (\<lambda>cur.
          ll_unlink l (head l) cur v h)))"

partial_function (option) ll_free_loop :: "ptr \<Rightarrow> ll_node heap \<Rightarrow> ll_node heap res option" where
  "ll_free_loop cur h =
     (if cur = None then Some (Inr h)
      else case get_next cur h of
        Inl e \<Rightarrow> Some (Inl e)
      | Inr nx \<Rightarrow>
          (case hfree cur h of Inl e \<Rightarrow> Some (Inl e) | Inr h1 \<Rightarrow> ll_free_loop nx h1))"

definition ll_free :: "ll_state \<Rightarrow> ll_state res option" where
  "ll_free s =
     (let (l, h) = s in
      pbind (ll_free_loop (head l) h) (\<lambda>h1. Some (Inr (l\<lparr>head := None, len := 0\<rparr>, h1))))"

subsection \<open>Lists in the heap\<close>

text \<open>
  \<open>lseg h p ns q\<close>: following \<open>next\<close> from \<open>p\<close> visits exactly the nodes \<open>ns\<close>, pairs of address and
  value, and arrives at \<open>q\<close>.
\<close>

fun lseg :: "ll_node heap \<Rightarrow> ptr \<Rightarrow> (addr \<times> int) list \<Rightarrow> ptr \<Rightarrow> bool" where
  "lseg h p [] q \<longleftrightarrow> p = q"
| "lseg h p ((a, x) # ns) q \<longleftrightarrow>
     p = Some a \<and> (\<exists>r. blocks h a = Some [\<lparr>value = x, next = r\<rparr>] \<and> lseg h r ns q)"

lemma lseg_append: "lseg h p (ns @ ms) q \<longleftrightarrow> (\<exists>r. lseg h p ns r \<and> lseg h r ms q)"
  by (induction ns arbitrary: p) fastforce+

lemma lseg_frame:
  "lseg h p ns q \<Longrightarrow> (\<And>a. a \<in> fst ` set ns \<Longrightarrow> blocks h' a = blocks h a) \<Longrightarrow> lseg h' p ns q"
proof (induction ns arbitrary: p)
  case (Cons n ns)
  obtain a x where n: "n = (a, x)" by (cases n)
  with Cons.prems obtain r where r: "p = Some a" "blocks h a = Some [\<lparr>value = x, next = r\<rparr>]" "lseg h r ns q"
    by auto
  have "lseg h' r ns q" using r(3) by (rule Cons.IH) (simp add: Cons.prems(2))
  moreover have "blocks h' a = blocks h a" by (rule Cons.prems(2)) (simp add: n)
  ultimately show ?case using r by (simp add: n)
qed simp

lemma node_access:
  assumes "blocks h a = Some [\<lparr>value = x, next = r\<rparr>]"
  shows "get_value (Some a) h = Inr x" and "get_next (Some a) h = Inr r"
    and "set_value (Some a) v h = Inr (h\<lparr>blocks := (blocks h)(a \<mapsto> [\<lparr>value = v, next = r\<rparr>])\<rparr>)"
    and "set_next (Some a) q h = Inr (h\<lparr>blocks := (blocks h)(a \<mapsto> [\<lparr>value = x, next = q\<rparr>])\<rparr>)"
  using assms
  by (simp_all add: get_value_def get_next_def set_value_def set_next_def heap_access)

lemma null_access:
  "get_value None h = Inl NullDeref" "get_next None h = Inl NullDeref"
  "set_value None v h = Inl NullDeref" "set_next None q h = Inl NullDeref"
  by (simp_all add: get_value_def get_next_def set_value_def set_next_def)

text \<open>
  The heap consists of the nodes \<open>N\<close> of the list and of a frame \<open>g\<close> of blocks that do not belong
  to it.
\<close>

definition framed :: "(addr \<rightharpoonup> 'b list) \<Rightarrow> 'b heap \<Rightarrow> addr set \<Rightarrow> bool" where
  "framed g h N \<longleftrightarrow> heap_ok h \<and> (\<forall>a. a \<notin> N \<longrightarrow> blocks h a = g a) \<and> (\<forall>a \<in> N. g a = None)"

lemma framed_alloc:
  "framed g h N \<Longrightarrow> brk h \<notin> N \<Longrightarrow>
    framed g (h\<lparr>blocks := (blocks h)(brk h \<mapsto> xs), brk := Suc (brk h)\<rparr>) (insert (brk h) N)"
  using heap_ok_halloc [of h xs] heap_ok_fresh [of h] by (auto simp: framed_def halloc_def)

lemma framed_write:
  "framed g h N \<Longrightarrow> a \<in> N \<Longrightarrow> blocks h a = Some ys \<Longrightarrow> framed g (h\<lparr>blocks := (blocks h)(a \<mapsto> xs)\<rparr>) N"
  by (auto simp: framed_def heap_ok_def)

lemma framed_free:
  "framed g h N \<Longrightarrow> a \<in> N \<Longrightarrow> framed g (h\<lparr>blocks := (blocks h)(a := None)\<rparr>) (N - {a})"
  by (auto simp: framed_def heap_ok_def)

lemma framed_shrink:
  assumes "framed g h N" and "a \<in> N" and "blocks h' a = None" and "brk h' = brk h"
    and "dom (blocks h') \<subseteq> dom (blocks h)" and "\<And>d. d \<notin> N \<Longrightarrow> blocks h' d = blocks h d"
  shows "framed g h' (N - {a})"
  using assms unfolding framed_def heap_ok_def by (metis DiffE DiffI empty_iff insert_iff subsetD)

text \<open>The representation relation.\<close>

definition ll_rep :: "(addr \<rightharpoonup> ll_node list) \<Rightarrow> ll_state \<Rightarrow> (addr \<times> int) list \<Rightarrow> bool" where
  "ll_rep g s ns \<longleftrightarrow>
     lseg (snd s) (head (fst s)) ns None \<and> distinct (map fst ns) \<and>
     len (fst s) = of_nat (length ns) \<and> length ns < 2 ^ 64 \<and> framed g (snd s) (fst ` set ns)"

lemma lseg_allocated: "lseg h p ns q \<Longrightarrow> a \<in> fst ` set ns \<Longrightarrow> \<exists>b. blocks h a = Some b"
proof (induction ns arbitrary: p)
  case (Cons n ns)
  then show ?case by (cases n) force
qed simp

text \<open>A freshly allocated node is outside the list.\<close>

lemma ll_rep_fresh: "ll_rep g (l, h) ns \<Longrightarrow> brk h \<notin> fst ` set ns"
  using lseg_allocated [of h "head l" ns None "brk h"] heap_ok_fresh [of h]
  by (auto simp: ll_rep_def framed_def)

text \<open>What \<open>malloc\<close> and the two field assignments give.\<close>

abbreviation (input) add_node :: "ll_node heap \<Rightarrow> int \<Rightarrow> ptr \<Rightarrow> ll_node heap" where
  "add_node h v q \<equiv>
     h\<lparr>blocks := (blocks h)(brk h \<mapsto> [\<lparr>value = v, next = q\<rparr>]), brk := Suc (brk h)\<rparr>"

lemma new_node:
  "rbind (set_value (fst (c_malloc (Some f) 1 h)) v (snd (c_malloc (Some f) 1 h)))
     (\<lambda>h1. set_next (fst (c_malloc (Some f) 1 h)) q h1) = Inr (add_node h v q)"
  "rbind (set_next (fst (c_malloc (Some f) 1 h)) q (snd (c_malloc (Some f) 1 h)))
     (\<lambda>h1. set_value (fst (c_malloc (Some f) 1 h)) v h1) = Inr (add_node h v q)"
  "fst (c_malloc (Some f) 1 h) = Some (brk h)"
  by (cases "f 0"; simp add: c_malloc_def halloc_def set_value_def set_next_def heap_access)+

subsection \<open>The operations on a represented list\<close>

lemma of_nat_eq_0: "n < 2 ^ 64 \<Longrightarrow> (of_nat n :: 64 word) = 0 \<longleftrightarrow> n = 0"
  by (simp add: word_unat_eq_iff unsigned_of_nat take_bit_nat_eq_self)

lemma ll_rep_len_0: "ll_rep g (l, h) ns \<Longrightarrow> len l = 0 \<longleftrightarrow> ns = []"
  by (auto simp: ll_rep_def of_nat_eq_0)

lemma push_front_ok:
  assumes rep: "ll_rep g (l, h) ns" and "Suc (length ns) < 2 ^ 64"
  shows "\<exists>l' h'. ll_push_front (Some f) v (l, h) = Inr (l', h') \<and> ll_rep g (l', h') ((brk h, v) # ns)"
proof -
  let ?l = "l\<lparr>head := Some (brk h), len := len l + 1\<rparr>" and ?h = "add_node h v (head l)"
  note fresh = ll_rep_fresh [OF rep]
  have "ll_push_front (Some f) v (l, h) = Inr (?l, ?h)"
    using new_node(1) [of f h v "head l"] new_node(3) [of f h]
    by (auto simp: ll_push_front_def split_def rbind_eq_Inr)
  moreover have "lseg h (head l) ns None" using rep by (simp add: ll_rep_def)
  then have "lseg ?h (head l) ns None" by (rule lseg_frame) (use fresh in force)
  then have "ll_rep g (?l, ?h) ((brk h, v) # ns)"
    using rep assms(2) fresh framed_alloc [of g h "fst ` set ns"]
    by (auto simp: ll_rep_def)
  ultimately show ?thesis by blast
qed

lemma last_ok: "lseg h p (ns @ [(a, x)]) None \<Longrightarrow> ll_last p h = Some (Inr (Some a))"
proof (induction ns arbitrary: p)
  case Nil
  then show ?case by (subst ll_last.simps) (auto simp: node_access)
next
  case (Cons n ns)
  obtain b y where n: "n = (b, y)" by (cases n)
  with Cons.prems obtain r where r: "p = Some b" "blocks h b = Some [\<lparr>value = y, next = r\<rparr>]"
    "lseg h r (ns @ [(a, x)]) None"
    by auto
  then have "r \<noteq> None" by (cases ns) auto
  with r Cons.IH show ?case by (subst ll_last.simps) (simp add: node_access)
qed

lemma push_back_ok:
  assumes rep: "ll_rep g (l, h) ns" and "Suc (length ns) < 2 ^ 64"
  shows "\<exists>l' h'. ll_push_back (Some f) v (l, h) = Some (Inr (l', h')) \<and>
    ll_rep g (l', h') (ns @ [(brk h, v)])"
proof -
  let ?n = "Some (brk h)" and ?h = "add_node h v None"
  note fresh = ll_rep_fresh [OF rep]
  have "lseg h (head l) ns None" using rep by (simp add: ll_rep_def)
  then have seg: "lseg ?h (head l) ns None" by (rule lseg_frame) (use fresh in force)
  have frame: "framed g ?h (insert (brk h) (fst ` set ns))"
    using rep fresh by (intro framed_alloc) (simp_all add: ll_rep_def)
  have alloc: "ll_push_back (Some f) v (l, h) =
      (if ns = [] then Some (Inr (l\<lparr>head := ?n, len := len l + 1\<rparr>, ?h))
       else pbind (ll_last (head l) ?h) (\<lambda>cur.
            pbind (Some (set_next cur ?n ?h)) (\<lambda>h3. Some (Inr (l\<lparr>len := len l + 1\<rparr>, h3)))))"
    using new_node(2) [of f h None v] new_node(3) [of f h]
    by (auto simp: ll_push_back_def split_def rbind_eq_Inr ll_rep_len_0 [OF rep])
  show ?thesis
  proof (cases ns rule: rev_cases)
    case Nil
    then have "ll_rep g (l\<lparr>head := ?n, len := len l + 1\<rparr>, ?h) (ns @ [(brk h, v)])"
      using rep frame by (simp add: ll_rep_def)
    then show ?thesis using alloc Nil by auto
  next
    case (snoc ms n)
    obtain a x where n: "n = (a, x)" by (cases n)
    let ?h3 = "?h\<lparr>blocks := (blocks ?h)(a \<mapsto> [\<lparr>value = x, next = ?n\<rparr>])\<rparr>"
    have a: "a \<noteq> brk h" "a \<notin> fst ` set ms" "lseg ?h (head l) ms (Some a)"
      "blocks ?h a = Some [\<lparr>value = x, next = None\<rparr>]"
      using seg rep fresh snoc n by (auto simp: lseg_append ll_rep_def)
    have "ll_last (head l) ?h = Some (Inr (Some a))"
      using seg snoc n by (auto intro: last_ok)
    then have "ll_push_back (Some f) v (l, h) = Some (Inr (l\<lparr>len := len l + 1\<rparr>, ?h3))"
      using alloc snoc node_access(4) [OF a(4)] by simp
    moreover have "lseg ?h3 (head l) ms (Some a)"
      using a(3) by (rule lseg_frame) (use a(2) in force)
    then have "lseg ?h3 (head l) (ns @ [(brk h, v)]) None"
      using a(1) snoc n by (auto simp: lseg_append)
    moreover have "framed g ?h3 (insert (brk h) (fst ` set ns))"
      using frame a(4) snoc n by (intro framed_write) auto
    ultimately have "ll_push_back (Some f) v (l, h) = Some (Inr (l\<lparr>len := len l + 1\<rparr>, ?h3))"
      and "ll_rep g (l\<lparr>len := len l + 1\<rparr>, ?h3) (ns @ [(brk h, v)])"
      using rep assms(2) fresh by (auto simp: ll_rep_def)
    then show ?thesis by blast
  qed
qed

lemma pop_front_ok:
  assumes "ll_rep g (l, h) ((a, x) # ns)"
  shows "\<exists>l' h'. ll_pop_front (l, h) = Inr ((l', h'), x) \<and> ll_rep g (l', h') ns"
proof -
  obtain r where r: "head l = Some a" "blocks h a = Some [\<lparr>value = x, next = r\<rparr>]" "lseg h r ns None"
    using assms by (auto simp: ll_rep_def)
  let ?h = "h\<lparr>blocks := (blocks h)(a := None)\<rparr>"
  have "lseg ?h r ns None"
    using r(3) by (rule lseg_frame) (use assms in \<open>force simp: ll_rep_def\<close>)
  moreover have "framed g ?h (insert a (fst ` set ns) - {a})"
    using assms by (intro framed_free) (simp_all add: ll_rep_def)
  moreover have "insert a (fst ` set ns) - {a} = fst ` set ns"
    using assms by (auto simp: ll_rep_def)
  ultimately have "ll_rep g (l\<lparr>head := r, len := len l - 1\<rparr>, ?h) ns"
    using assms by (simp add: ll_rep_def)
  moreover have "ll_pop_front (l, h) = Inr ((l\<lparr>head := r, len := len l - 1\<rparr>, ?h), x)"
    using r by (simp add: ll_pop_front_def node_access heap_access)
  ultimately show ?thesis by blast
qed

lemma find_ok: "lseg h p ns None \<Longrightarrow> ll_find p v h = Some (Inr (if v \<in> snd ` set ns then 1 else 0))"
proof (induction ns arbitrary: p)
  case Nil
  then show ?case by (subst ll_find.simps) simp
next
  case (Cons n ns)
  obtain a x where n: "n = (a, x)" by (cases n)
  with Cons.prems obtain r where r: "p = Some a" "blocks h a = Some [\<lparr>value = x, next = r\<rparr>]" "lseg h r ns None"
    by auto
  with Cons.IH [OF r(3)] show ?case by (subst ll_find.simps) (simp add: n node_access)
qed

lemma contains_ok:
  "ll_rep g (l, h) ns \<Longrightarrow> ll_contains v (l, h) = Some (Inr (if v \<in> set (map snd ns) then 1 else 0))"
  by (simp add: ll_contains_def ll_rep_def find_ok)

lemma walk_ok:
  "lseg h p ns None \<Longrightarrow> i \<le> n \<Longrightarrow> n - i \<le> length ns \<Longrightarrow>
    \<exists>q. for_range i n (\<lambda>_ cur. get_next cur h) p = Inr q \<and> lseg h q (drop (n - i) ns) None"
proof (induction ns arbitrary: p i)
  case Nil
  then show ?case by simp
next
  case (Cons m ns)
  obtain a x where m: "m = (a, x)" by (cases m)
  with Cons.prems obtain r where r: "p = Some a" "blocks h a = Some [\<lparr>value = x, next = r\<rparr>]" "lseg h r ns None"
    by auto
  show ?case
  proof (cases "i < n")
    case True
    then obtain d where d: "n - i = Suc d" "n - Suc i = d" by (metis Suc_diff_Suc)
    with Cons.IH [of r "Suc i"] Cons.prems True r m show ?thesis
      by (simp add: for_range_step node_access)
  qed (use Cons.prems in auto)
qed

lemma get_ok:
  assumes "ll_rep g (l, h) ns" and "i < length ns"
  shows "ll_get i (l, h) = Inr (map snd ns ! i)"
proof -
  obtain q where q: "for_range 0 i (\<lambda>_ cur. get_next cur h) (head l) = Inr q" "lseg h q (drop i ns) None"
    using walk_ok [of h "head l" ns 0 i] assms by (auto simp: ll_rep_def)
  obtain a x where ax: "ns ! i = (a, x)" by (cases "ns ! i")
  with q(2) assms(2) have "q = Some a" "\<exists>r. blocks h a = Some [\<lparr>value = x, next = r\<rparr>]"
    by (auto simp: Cons_nth_drop_Suc [symmetric])
  with q(1) ax assms(2) show ?thesis by (auto simp: ll_get_def node_access)
qed

text \<open>Removal of the first node with a given value, on the abstract side.\<close>

fun drop_value :: "int \<Rightarrow> (addr \<times> int) list \<Rightarrow> (addr \<times> int) list" where
  "drop_value v [] = []"
| "drop_value v ((a, x) # ns) = (if x = v then ns else (a, x) # drop_value v ns)"

lemma map_drop_value: "map snd (drop_value v ns) = remove1 v (map snd ns)"
  by (induction v ns rule: drop_value.induct) auto

lemma drop_value_absent: "v \<notin> snd ` set ns \<Longrightarrow> drop_value v ns = ns"
  by (induction v ns rule: drop_value.induct) auto

lemma drop_value_split: "v \<notin> snd ` set us \<Longrightarrow> drop_value v (us @ (a, v) # ws) = us @ ws"
  by (induction v us rule: drop_value.induct) auto

lemma first_node:
  assumes "v \<in> snd ` set ns"
  obtains us a ws where "ns = us @ (a, v) # ws" and "v \<notin> snd ` set us"
  using assms
proof (induction ns arbitrary: thesis)
  case (Cons n ns)
  obtain b x where n: "n = (b, x)" by (cases n)
  show ?case
  proof (cases "x = v")
    case True
    then show ?thesis using Cons.prems(1) [of "[]"] n by simp
  next
    case False
    then have "v \<in> snd ` set ns" using Cons.prems(2) n by auto
    then obtain us a ws where "ns = us @ (a, v) # ws" "v \<notin> snd ` set us" using Cons.IH by blast
    then show ?thesis using Cons.prems(1) [of "n # us"] n False by simp
  qed
qed simp

lemma unlink_absent:
  "lseg h cur ns None \<Longrightarrow> v \<notin> snd ` set ns \<Longrightarrow> ll_unlink l prev cur v h = Some (Inr ((l, h), 0))"
proof (induction ns arbitrary: prev cur)
  case Nil
  then show ?case by (subst ll_unlink.simps) simp
next
  case (Cons n ns)
  obtain a x where n: "n = (a, x)" by (cases n)
  with Cons show ?case by (subst ll_unlink.simps) (auto simp: node_access)
qed

lemma unlink_present:
  assumes "blocks h b = Some [\<lparr>value = y, next = cur\<rparr>]" and "lseg h cur (us @ (a, v) # ws) None"
    and "v \<notin> snd ` set us" and "distinct (b # map fst (us @ (a, v) # ws))"
  shows "\<exists>h'. ll_unlink l (Some b) cur v h = Some (Inr ((l\<lparr>len := len l - 1\<rparr>, h'), 1)) \<and>
    lseg h' (Some b) ((b, y) # us @ ws) None \<and> brk h' = brk h \<and> blocks h' a = None \<and>
    (\<forall>d. d \<notin> insert a (insert b (fst ` set us)) \<longrightarrow> blocks h' d = blocks h d)"
  using assms
proof (induction us arbitrary: b y cur)
  case Nil
  then obtain r where r: "cur = Some a" "blocks h a = Some [\<lparr>value = v, next = r\<rparr>]" "lseg h r ws None"
    by auto
  let ?h = "h\<lparr>blocks := (blocks h)(b \<mapsto> [\<lparr>value = y, next = r\<rparr>], a := None)\<rparr>"
  have "lseg ?h r ws None"
    using r(3) by (rule lseg_frame) (use Nil.prems(4) in force)
  then have "lseg ?h (Some b) ((b, y) # ws) None" using Nil.prems(4) by auto
  moreover have "ll_unlink l (Some b) cur v h = Some (Inr ((l\<lparr>len := len l - 1\<rparr>, ?h), 1))"
    using r Nil.prems by (subst ll_unlink.simps) (auto simp: node_access heap_access)
  ultimately show ?case by (intro exI [of _ ?h]) auto
next
  case (Cons n us)
  obtain c z where n: "n = (c, z)" by (cases n)
  with Cons.prems obtain r where r: "cur = Some c" "blocks h c = Some [\<lparr>value = z, next = r\<rparr>]"
    "lseg h r (us @ (a, v) # ws) None"
    by auto
  then obtain h' where h': "ll_unlink l (Some c) r v h = Some (Inr ((l\<lparr>len := len l - 1\<rparr>, h'), 1))"
    "lseg h' (Some c) ((c, z) # us @ ws) None" "brk h' = brk h" "blocks h' a = None"
    "\<forall>d. d \<notin> insert a (insert c (fst ` set us)) \<longrightarrow> blocks h' d = blocks h d"
    using Cons.IH [of c z r] Cons.prems n by auto
  have "blocks h' b = blocks h b" using h'(5) Cons.prems(4) n by auto
  then have "lseg h' (Some b) ((b, y) # n # us @ ws) None"
    using h'(2) Cons.prems(1) r(1) n by auto
  moreover have "ll_unlink l (Some b) cur v h = ll_unlink l (Some c) r v h"
    using r Cons.prems n by (subst ll_unlink.simps) (auto simp: node_access)
  ultimately show ?case using h' n by (intro exI [of _ h']) auto
qed

lemma unlink_behind_head:
  assumes rep: "ll_rep g (l, h) ((b, y) # us @ (a, v) # ws)" and fresh: "v \<notin> snd ` set us"
    and r: "head l = Some b" "blocks h b = Some [\<lparr>value = y, next = r\<rparr>]" "lseg h r (us @ (a, v) # ws) None"
  shows "\<exists>h'. ll_unlink l (Some b) r v h = Some (Inr ((l\<lparr>len := len l - 1\<rparr>, h'), 1)) \<and>
    ll_rep g (l\<lparr>len := len l - 1\<rparr>, h') ((b, y) # us @ ws)"
proof -
  let ?ns = "(b, y) # us @ (a, v) # ws"
  have dist: "distinct (b # map fst (us @ (a, v) # ws))" using rep by (auto simp: ll_rep_def)
  obtain h' where h': "ll_unlink l (Some b) r v h = Some (Inr ((l\<lparr>len := len l - 1\<rparr>, h'), 1))"
    "lseg h' (Some b) ((b, y) # us @ ws) None" "brk h' = brk h" "blocks h' a = None"
    "\<forall>d. d \<notin> insert a (insert b (fst ` set us)) \<longrightarrow> blocks h' d = blocks h d"
    using unlink_present [OF r(2) _ fresh dist, of l] r(3) by blast
  have "dom (blocks h') \<subseteq> dom (blocks h)"
  proof
    fix d assume "d \<in> dom (blocks h')"
    moreover from this have "d \<noteq> a" using h'(4) by auto
    ultimately show "d \<in> dom (blocks h)"
      using h'(5) lseg_allocated [OF r(3), of d] r(2) by (cases "d = b"; cases "d \<in> fst ` set us") auto
  qed
  then have "framed g h' (fst ` set ?ns - {a})"
    using rep h'(3,4,5) by (intro framed_shrink [of g h]) (auto simp: ll_rep_def)
  moreover have "fst ` set ?ns - {a} = fst ` set ((b, y) # us @ ws)" using dist by auto
  ultimately have "framed g h' (fst ` set ((b, y) # us @ ws))" by simp
  then have "ll_rep g (l\<lparr>len := len l - 1\<rparr>, h') ((b, y) # us @ ws)"
    using rep h'(2) r(1) dist by (auto simp: ll_rep_def)
  with h'(1) show ?thesis by blast
qed

lemma remove_ok:
  assumes rep: "ll_rep g (l, h) ns"
  shows "\<exists>l' h'. ll_remove v (l, h) = Some (Inr ((l', h'), if v \<in> snd ` set ns then 1 else 0)) \<and>
    ll_rep g (l', h') (drop_value v ns)"
proof (cases ns)
  case Nil
  with rep show ?thesis
    using ll_rep_len_0 [OF rep] by (auto simp: ll_remove_def)
next
  case (Cons n ms)
  obtain b y where n: "n = (b, y)" by (cases n)
  have len: "len l \<noteq> 0" using ll_rep_len_0 [OF rep] Cons by simp
  obtain r where r: "head l = Some b" "blocks h b = Some [\<lparr>value = y, next = r\<rparr>]" "lseg h r ms None"
    using rep Cons n by (auto simp: ll_rep_def)
  consider "y = v" | "y \<noteq> v" "v \<notin> snd ` set ms" | "y \<noteq> v" "v \<in> snd ` set ms" by blast
  then show ?thesis
  proof cases
    case 1
    then have "ll_remove v (l, h) = pbind (Some (ll_pop_front (l, h))) (\<lambda>(s, _). Some (Inr (s, 1)))"
      using r len by (auto simp: ll_remove_def ll_pop_front_def node_access heap_access)
    moreover obtain l' h' where "ll_pop_front (l, h) = Inr ((l', h'), y)" "ll_rep g (l', h') ms"
      using pop_front_ok [of g l h b y ms] rep Cons n by auto
    ultimately show ?thesis using Cons n 1 by auto
  next
    case 2
    then have "ll_remove v (l, h) = ll_unlink l (Some b) r v h"
      using r len by (simp add: ll_remove_def node_access)
    then show ?thesis using unlink_absent [OF r(3) 2(2)] rep Cons n 2 by (auto simp: drop_value_absent)
  next
    case 3
    then have rem: "ll_remove v (l, h) = ll_unlink l (Some b) r v h"
      using r len by (simp add: ll_remove_def node_access)
    obtain us a ws where ms: "ms = us @ (a, v) # ws" "v \<notin> snd ` set us" using 3(2) by (rule first_node)
    then show ?thesis
      using unlink_behind_head [of g l h b y us a v ws r] rep r rem Cons n 3(1) by (auto simp: drop_value_split)
  qed
qed

lemma free_loop_ok:
  assumes "lseg h p ns None" and "distinct (map fst ns)" and "framed g h (fst ` set ns)"
  shows "\<exists>h'. ll_free_loop p h = Some (Inr h') \<and> framed g h' {}"
  using assms
proof (induction ns arbitrary: p h)
  case Nil
  then show ?case by (subst ll_free_loop.simps) simp
next
  case (Cons n ns)
  obtain a x where n: "n = (a, x)" by (cases n)
  with Cons.prems obtain r where r: "p = Some a" "blocks h a = Some [\<lparr>value = x, next = r\<rparr>]" "lseg h r ns None"
    by auto
  let ?h = "h\<lparr>blocks := (blocks h)(a := None)\<rparr>"
  have "lseg ?h r ns None"
    using r(3) by (rule lseg_frame) (use Cons.prems(2) n in force)
  moreover have "framed g ?h (fst ` set ns)"
    using framed_free [OF Cons.prems(3), of a] Cons.prems(2) n
    by (metis Diff_insert_absorb distinct.simps(2) fst_conv image_insert insertI1 list.simps(15,9) set_map)
  ultimately obtain h' where "ll_free_loop r ?h = Some (Inr h')" "framed g h' {}"
    using Cons.IH [of ?h r] Cons.prems(2) by auto
  with r n show ?case by (subst ll_free_loop.simps) (simp add: node_access heap_access)
qed

lemma free_ok:
  assumes "ll_rep g (l, h) ns"
  shows "\<exists>h'. ll_free (l, h) = Some (Inr (l\<lparr>head := None, len := 0\<rparr>, h')) \<and> blocks h' = g"
proof -
  obtain h' where "ll_free_loop (head l) h = Some (Inr h')" "framed g h' {}"
    using free_loop_ok [of h "head l" ns g] assms by (auto simp: ll_rep_def)
  then show ?thesis by (auto simp: ll_free_def framed_def)
qed

lemma init_ok: "heap_ok h \<Longrightarrow> ll_rep (blocks h) (ll_init, h) []"
  by (simp add: ll_rep_def ll_init_def framed_def)

lemma push_failure:
  "ll_push_front None v s = Inl NullDeref" "ll_push_back None v s = Some (Inl NullDeref)"
  by (cases s; simp add: ll_push_front_def ll_push_back_def c_malloc_def null_access)+

interpretation ll_seq: growable_seq
  "\<lambda>s xs. \<exists>ns. ll_rep g s ns \<and> map snd ns = xs" "ll_push_back (Some f)" ll_get "\<lambda>s. len (fst s)" "2 ^ 60"
  for g f
proof
  fix s xs v
  assume "\<exists>ns. ll_rep g s ns \<and> map snd ns = xs" and len: "length xs < 2 ^ 60"
  then obtain ns where ns: "ll_rep g s ns" "map snd ns = xs" by blast
  obtain l h where s: "s = (l, h)" by (cases s)
  have "Suc (length ns) < 2 ^ 64" using len ns(2) by auto
  then show "\<exists>s'. ll_push_back (Some f) v s = Some (Inr s') \<and> (\<exists>ns. ll_rep g s' ns \<and> map snd ns = xs @ [v])"
    using push_back_ok [of g l h ns f v] ns s by fastforce
next
  fix s xs i
  assume "\<exists>ns. ll_rep g s ns \<and> map snd ns = xs" and "i < length xs"
  then show "ll_get i s = Inr (xs ! i)" using get_ok by (cases s) fastforce
next
  fix s xs
  assume "\<exists>ns. ll_rep g s ns \<and> map snd ns = xs"
  then show "len (fst s) = of_nat (length xs)" by (auto simp: ll_rep_def)
qed

subsection \<open>Programs\<close>

text \<open>
  A client's sequence of calls on one list, with the results they return. With every call comes
  what \<open>malloc\<close> answers if the call allocates: \<open>None\<close> for a null pointer, \<open>Some f\<close> for a block
  with the contents \<open>f\<close>. Neither push operation handles the null pointer (the branches at lines 31
  and 43 of \<open>structs.c\<close> are empty), so a failing allocation is part of a program's behaviour and not a
  condition on it. The abstract list has no step for the calls that the header leaves undefined:
  popping an empty list and reading beyond the end.
\<close>

datatype ll_op = PushFront int | PushBack int | PopFront | Contains int | Get nat | Remove int

definition ll_step :: "ll_node alloc \<Rightarrow> ll_op \<Rightarrow> ll_state \<Rightarrow> (ll_state \<times> int) res option" where
  "ll_step m oper s =
     (case oper of
        PushFront v \<Rightarrow> Some (rbind (ll_push_front m v s) (\<lambda>s'. Inr (s', 0)))
      | PushBack v \<Rightarrow> pbind (ll_push_back m v s) (\<lambda>s'. Some (Inr (s', 0)))
      | PopFront \<Rightarrow> Some (ll_pop_front s)
      | Contains v \<Rightarrow> pbind (ll_contains v s) (\<lambda>r. Some (Inr (s, r)))
      | Get i \<Rightarrow> Some (rbind (ll_get i s) (\<lambda>r. Inr (s, r)))
      | Remove v \<Rightarrow> ll_remove v s)"

text \<open>The calls that allocate a node.\<close>

fun allocates :: "ll_op \<Rightarrow> bool" where
  "allocates (PushFront v) = True"
| "allocates (PushBack v) = True"
| "allocates _ = False"

fun list_step :: "ll_op \<Rightarrow> int list \<Rightarrow> (int list \<times> int) option" where
  "list_step (PushFront v) xs = Some (v # xs, 0)"
| "list_step (PushBack v) xs = Some (xs @ [v], 0)"
| "list_step PopFront xs = (case xs of [] \<Rightarrow> None | x # ys \<Rightarrow> Some (ys, x))"
| "list_step (Contains v) xs = Some (xs, if v \<in> set xs then 1 else 0)"
| "list_step (Get i) xs = (if i < length xs then Some (xs, xs ! i) else None)"
| "list_step (Remove v) xs = Some (remove1 v xs, if v \<in> set xs then 1 else 0)"

fun ll_run :: "(ll_node alloc \<times> ll_op) list \<Rightarrow> ll_state \<Rightarrow> (ll_state \<times> int list) res option" where
  "ll_run [] s = Some (Inr (s, []))"
| "ll_run ((m, oper) # cs) s =
     pbind (ll_step m oper s) (\<lambda>(s1, r).
     pbind (ll_run cs s1) (\<lambda>(s2, rs). Some (Inr (s2, r # rs))))"

text \<open>
  The same program on an abstract list: \<open>None\<close> when the header leaves it undefined, the
  null-pointer access when a push is reached whose allocation fails, and otherwise the final list
  and the results.
\<close>

fun list_run :: "(ll_node alloc \<times> ll_op) list \<Rightarrow> int list \<Rightarrow> (int list \<times> int list) res option" where
  "list_run [] xs = Some (Inr (xs, []))"
| "list_run ((m, oper) # cs) xs =
     (if allocates oper \<and> m = None then Some (Inl NullDeref)
      else case list_step oper xs of
        None \<Rightarrow> None
      | Some (ys, r) \<Rightarrow>
          pbind (list_run cs ys) (\<lambda>(zs, rs). Some (Inr (zs, r # rs))))"

lemma ll_step_refines:
  assumes "ll_rep g s ns" and "list_step oper (map snd ns) = Some (ys, r)" and "Suc (length ns) < 2 ^ 64"
    and "allocates oper \<longrightarrow> m \<noteq> None"
  shows "\<exists>s' ns'. ll_step m oper s = Some (Inr (s', r)) \<and> ll_rep g s' ns' \<and> map snd ns' = ys \<and>
    length ns' \<le> Suc (length ns)"
proof -
  obtain l h where s: "s = (l, h)" by (cases s)
  note rep = assms(1) [unfolded s]
  have set_snd: "snd ` set ns = set (map snd ns)" by simp
  show ?thesis
  proof (cases oper)
    case (PushFront v)
    then obtain f where "m = Some f" using assms(4) by auto
    with PushFront show ?thesis
      using push_front_ok [OF rep assms(3), of f v] assms(2) s by (fastforce simp: ll_step_def)
  next
    case (PushBack v)
    then obtain f where "m = Some f" using assms(4) by auto
    with PushBack show ?thesis
      using push_back_ok [OF rep assms(3), of f v] assms(2) s by (fastforce simp: ll_step_def)
  next
    case PopFront
    then obtain n ms where "ns = n # ms" using assms(2) by (cases ns) auto
    then show ?thesis
      using pop_front_ok [of g l h "fst n" "snd n" ms] PopFront rep assms(2) s
      by (fastforce simp: ll_step_def)
  next
    case (Contains v)
    then show ?thesis
      using contains_ok [OF rep, of v] rep assms(2) s by (auto simp: ll_step_def)
  next
    case (Get i)
    then show ?thesis
      using get_ok [OF rep, of i] rep assms(2) s by (auto simp: ll_step_def split: if_splits)
  next
    case (Remove v)
    have "length (drop_value v ns) = length (map snd (drop_value v ns))" by simp
    also have "\<dots> \<le> length ns" unfolding map_drop_value by (simp add: length_remove1)
    finally show ?thesis
      using Remove remove_ok [OF rep, of v] assms(2) s
      by (fastforce simp: ll_step_def map_drop_value)
  qed
qed

lemma ll_step_alloc_fails: "allocates oper \<Longrightarrow> ll_step None oper s = Some (Inl NullDeref)"
  by (cases oper) (simp_all add: ll_step_def push_failure)

lemma list_run_fault: "list_run cs xs = Some (Inl e) \<Longrightarrow> e = NullDeref"
proof (induction cs arbitrary: xs)
  case (Cons c cs)
  then show ?case
    by (cases c; auto split: if_splits option.splits)
      (auto simp: pbind_def split: option.splits sum.splits)
qed simp

lemma ll_run_refines:
  assumes "ll_rep g s ns" and "list_run cs (map snd ns) = Some r" and "length ns + length cs < 2 ^ 64"
  shows "case r of
      Inl e \<Rightarrow> ll_run cs s = Some (Inl e)
    | Inr (ys, rs) \<Rightarrow> \<exists>s' ns'. ll_run cs s = Some (Inr (s', rs)) \<and> ll_rep g s' ns' \<and> map snd ns' = ys"
  using assms
proof (induction cs arbitrary: s ns r)
  case Nil
  then show ?case by auto
next
  case (Cons c cs)
  obtain m oper where c: "c = (m, oper)" by (cases c)
  show ?case
  proof (cases "allocates oper \<and> m = None")
    case True
    then show ?thesis using Cons.prems(2) c ll_step_alloc_fails [of oper s] by auto
  next
    case False
    then obtain zs v where zs: "list_step oper (map snd ns) = Some (zs, v)"
      "pbind (list_run cs zs) (\<lambda>(zs, rs). Some (Inr (zs, v # rs))) = Some r"
      using Cons.prems(2) c by (auto split: option.splits)
    obtain s' ns' where s': "ll_step m oper s = Some (Inr (s', v))" "ll_rep g s' ns'" "map snd ns' = zs"
      "length ns' \<le> Suc (length ns)"
      using ll_step_refines [OF Cons.prems(1) zs(1), of m] Cons.prems(3) False by auto
    obtain q where q: "list_run cs zs = Some q" using zs(2) by (cases "list_run cs zs") auto
    have len: "length ns' + length cs < 2 ^ 64" using s'(4) Cons.prems(3) by simp
    have "case q of
        Inl e \<Rightarrow> ll_run cs s' = Some (Inl e)
      | Inr (ys, rs) \<Rightarrow> \<exists>t ms. ll_run cs s' = Some (Inr (t, rs)) \<and> ll_rep g t ms \<and> map snd ms = ys"
      by (rule Cons.IH [OF s'(2) _ len]) (use s'(3) q in simp)
    with zs(2) q s'(1) c show ?thesis by (cases q) auto
  qed
qed

subsection \<open>Main results\<close>

text \<open>C4: a program is any sequence of fewer than 2^64 calls that the header defines on a fresh list (no
  pop of an empty list, no index beyond the end), each call with the answer \<open>malloc\<close> gives if
  it allocates. If the answer is a null pointer for some push that is reached, the program stops there with
  the access through the null pointer that \<open>structs.c\<close> does not prevent. Otherwise every call returns,
  without a fault, the same result as on an abstract list; the final state represents the abstract result;
  and \<open>ll_free\<close> then releases exactly the nodes of the list, so that the heap is as before the list was
  created. (\<open>heap_ok\<close>: the addresses in use are below the next fresh one.)\<close>

theorem linked_list_refines:
  assumes "heap_ok h" and "list_run cs [] = Some r" and "length cs < 2 ^ 64"
  shows "case r of
      Inl e \<Rightarrow> e = NullDeref \<and> ll_run cs (ll_init, h) = Some (Inl e)
    | Inr (ys, rs) \<Rightarrow> \<exists>l' h' ns l'' h''. ll_run cs (ll_init, h) = Some (Inr ((l', h'), rs)) \<and>
        ll_rep (blocks h) (l', h') ns \<and> map snd ns = ys \<and> len l' = of_nat (length ys) \<and>
        ll_free (l', h') = Some (Inr (l'', h'')) \<and> blocks h'' = blocks h \<and> head l'' = None"
proof -
  have run: "case r of
      Inl e \<Rightarrow> ll_run cs (ll_init, h) = Some (Inl e)
    | Inr (ys, rs) \<Rightarrow> \<exists>s' ns. ll_run cs (ll_init, h) = Some (Inr (s', rs)) \<and>
        ll_rep (blocks h) s' ns \<and> map snd ns = ys"
    using ll_run_refines [OF init_ok [OF assms(1)], of cs r] assms(2,3) by simp
  show ?thesis
  proof (cases r)
    case (Inl e)
    then show ?thesis using run list_run_fault assms(2) by auto
  next
    case (Inr p)
    obtain ys rs where p: "p = (ys, rs)" by (cases p)
    then obtain l' h' ns where r: "ll_run cs (ll_init, h) = Some (Inr ((l', h'), rs))"
      "ll_rep (blocks h) (l', h') ns" "map snd ns = ys"
      using run Inr by auto
    moreover obtain h'' where "ll_free (l', h') = Some (Inr (l'\<lparr>head := None, len := 0\<rparr>, h''))" "blocks h'' = blocks h"
      using free_ok [OF r(2)] by blast
    moreover have "len l' = of_nat (length ys)" using r(2,3) by (auto simp: ll_rep_def)
    ultimately show ?thesis using Inr p by fastforce
  qed
qed

theorem linked_list_refines_witness:
  "(\<exists>s. ll_run [(Some (\<lambda>_. \<lparr>value = 0, next = Some 9\<rparr>), PushBack 1), (Some (\<lambda>_. \<lparr>value = 0, next = None\<rparr>), PushFront 2),
      (Some (\<lambda>_. \<lparr>value = 0, next = None\<rparr>), PushBack 1), (None, Remove 1), (None, Contains 1), (None, Get 1), (None, PopFront)]
      (ll_init, empty_heap) = Some (Inr (s, [0, 0, 0, 1, 1, 1, 2]))) \<and>
   ll_run [(Some (\<lambda>_. \<lparr>value = 0, next = Some 9\<rparr>), PushBack 1), (None, PushFront 2), (None, Get 0)]
      (ll_init, empty_heap) = Some (Inl NullDeref)"
proof -
  let ?n = "Some (\<lambda>_. \<lparr>value = 0, next = None\<rparr>)" and ?m = "Some (\<lambda>_. \<lparr>value = 0, next = Some 9\<rparr>)"
  let ?p = "[(?m, PushBack 1), (?n, PushFront 2), (?n, PushBack 1), (None, Remove 1), (None, Contains 1), (None, Get 1), (None, PopFront)]"
  let ?q = "[(?m, PushBack 1), (None, PushFront 2), (None, Get 0)]"
  have "list_run ?p [] = Some (Inr ([1], [0, 0, 0, 1, 1, 1, 2]))" by simp
  from linked_list_refines [OF heap_ok_empty this] have "\<exists>s. ll_run ?p (ll_init, empty_heap) = Some (Inr (s, [0, 0, 0, 1, 1, 1, 2]))"
    by auto
  moreover have "list_run ?q [] = Some (Inl NullDeref)" by simp
  from linked_list_refines [OF heap_ok_empty this] have "ll_run ?q (ll_init, empty_heap) = Some (Inl NullDeref)" by simp
  ultimately show ?thesis by simp
qed

end
