(* ===== verification/Int_Vec.thy ===== *)
theory Int_Vec
  imports C_Heap Sequence_Spec
begin

section \<open>Dynamic integer array\<close>

text \<open>
  Model of \<open>int_vec_t\<close> of \<open>00-c-for-programmers/exercises/ex2-strings-and-arrays/strings.c\<close>. Lengths
  and capacities are \<open>size_t\<close>, 64-bit words whose arithmetic wraps; the size passed to the
  allocator is in bytes, and an allocation of \<open>n\<close> bytes holds \<open>n div 4\<close> integers. The outcome of
  each allocation is an argument, see the C heap.
\<close>

record int_vec =
  data :: ptr
  vlen :: "64 word"
  capacity :: "64 word"

type_synonym vec_state = "int_vec \<times> int heap"

definition ints_in :: "64 word \<Rightarrow> nat" where
  "ints_in bytes = unat bytes div 4"

subsection \<open>The operations\<close>

definition vec_free :: "vec_state \<Rightarrow> vec_state res" where
  "vec_free s =
     (let (v, h) = s in
      rbind (hfree (data v) h) (\<lambda>h'. Inr (v\<lparr>vlen := 0, capacity := 0\<rparr>, h')))"

definition vec_init :: "int alloc \<Rightarrow> 64 word \<Rightarrow> vec_state \<Rightarrow> vec_state res" where
  "vec_init m initial_capacity s =
     (let (v, h) = s; (p, h1) = c_malloc m (ints_in (initial_capacity * 4)) h;
          v1 = v\<lparr>data := p\<rparr> in
      rbind (if data v1 = None then vec_free (v1, h1) else Inr (v1, h1)) (\<lambda>(v2, h2).
      Inr (v2\<lparr>vlen := 0, capacity := initial_capacity\<rparr>, h2)))"

definition vec_push :: "int alloc \<Rightarrow> int \<Rightarrow> vec_state \<Rightarrow> vec_state res" where
  "vec_push m val s =
     (let (v, h) = s in
      rbind (if vlen v = capacity v then
               rbind (c_realloc m (data v) (ints_in ((capacity v * 2) * 4)) h) (\<lambda>(p, h1).
                 let v1 = v\<lparr>data := p\<rparr> in
               rbind (if data v1 = None then vec_free (v1, h1) else Inr (v1, h1)) (\<lambda>(v2, h2).
               Inr (v2\<lparr>capacity := capacity v2 * 2\<rparr>, h2)))
             else Inr (v, h)) (\<lambda>(v3, h3).
      rbind (hwrite (data v3) (unat (vlen v3)) val h3) (\<lambda>h4.
      Inr (v3\<lparr>vlen := vlen v3 + 1\<rparr>, h4))))"

definition vec_pop :: "vec_state \<Rightarrow> (vec_state \<times> int) res" where
  "vec_pop s =
     (let (v, h) = s; v1 = v\<lparr>vlen := vlen v - 1\<rparr> in
      rbind (hread (data v1) (unat (vlen v1)) h) (\<lambda>x. Inr ((v1, h), x)))"

definition vec_get :: "64 word \<Rightarrow> vec_state \<Rightarrow> int res" where
  "vec_get i s = (let (v, h) = s in hread (data v) (unat i) h)"

subsection \<open>The representation\<close>

text \<open>
  The vector owns the block \<open>data\<close>, which has room for \<open>capacity\<close> integers; the first \<open>length\<close> of
  them are the contents, and the capacity is positive.
\<close>

definition vec_rep :: "vec_state \<Rightarrow> int list \<Rightarrow> bool" where
  "vec_rep s xs \<longleftrightarrow>
     (\<exists>a junk. data (fst s) = Some a \<and> blocks (snd s) a = Some (xs @ junk) \<and>
        length (xs @ junk) = unat (capacity (fst s))) \<and>
     heap_ok (snd s) \<and> unat (vlen (fst s)) = length xs \<and> capacity (fst s) \<noteq> 0"

lemma vec_repE:
  assumes "vec_rep (v, h) xs"
  obtains a junk where "data v = Some a" and "blocks h a = Some (xs @ junk)"
    and "length xs + length junk = unat (capacity v)" and "heap_ok h"
    and "unat (vlen v) = length xs" and "capacity v \<noteq> 0"
  using assms unfolding vec_rep_def by auto

lemma vec_repI:
  assumes "data v = Some a" and "blocks h a = Some (xs @ junk)"
    and "length xs + length junk = unat (capacity v)" and "heap_ok h"
    and "unat (vlen v) = length xs" and "capacity v \<noteq> 0"
  shows "vec_rep (v, h) xs"
  using assms unfolding vec_rep_def by auto

text \<open>The capacity as a number, and the blocks that do not belong to the vector.\<close>

abbreviation room :: "vec_state \<Rightarrow> nat" where
  "room s \<equiv> unat (capacity (fst s))"

definition others :: "vec_state \<Rightarrow> (addr \<rightharpoonup> int list)" where
  "others s = (blocks (snd s))(the (data (fst s)) := None)"

lemma ints_in_exact: "unat c < 2 ^ 62 \<Longrightarrow> ints_in (c * 4) = unat c"
  by (simp add: ints_in_def unat_word_ariths)

lemma unat_double: "unat (c :: 64 word) < 2 ^ 63 \<Longrightarrow> unat (c * 2) = unat c * 2"
  by (simp add: unat_word_ariths)

lemma unat_succ: "unat (n :: 64 word) < 2 ^ 64 - 1 \<Longrightarrow> unat (n + 1) = unat n + 1"
  by (simp add: unat_word_ariths)

lemma vec_init_ok:
  assumes "heap_ok h" and "0 < unat c" and "unat c < 2 ^ 62"
  shows "\<exists>s. vec_init (Some f) c (v, h) = Inr s \<and> vec_rep s [] \<and> room s = unat c \<and> others s = blocks h"
proof -
  let ?h = "h\<lparr>blocks := (blocks h)(brk h \<mapsto> map f [0..<unat c]), brk := Suc (brk h)\<rparr>"
  let ?v = "v\<lparr>data := Some (brk h), vlen := 0, capacity := c\<rparr>"
  have "vec_init (Some f) c (v, h) = Inr (?v, ?h)"
    using assms(3) by (simp add: vec_init_def c_malloc_def halloc_def ints_in_exact)
  moreover have "vec_rep (?v, ?h) []"
    using assms heap_ok_halloc [OF assms(1), of "map f [0..<unat c]"]
    by (intro vec_repI) (auto simp: halloc_def)
  moreover have "others (?v, ?h) = blocks h"
    using heap_ok_fresh [OF assms(1)] by (auto simp: others_def)
  ultimately show ?thesis by (intro exI [of _ "(?v, ?h)"]) simp
qed

text \<open>Storing at the end of a block with a free slot.\<close>

lemma vec_store_ok:
  assumes "data v = Some a" and "blocks h a = Some (xs @ y # junk)" and "heap_ok h"
    and "Suc (length xs + length junk) = unat (capacity v)" and "unat (vlen v) = length xs"
  shows "\<exists>h'. hwrite (data v) (unat (vlen v)) val h = Inr h' \<and>
    vec_rep (v\<lparr>vlen := vlen v + 1\<rparr>, h') (xs @ [val]) \<and> others (v, h') = others (v, h)"
proof -
  let ?h = "h\<lparr>blocks := (blocks h)(a \<mapsto> xs @ val # junk)\<rparr>"
  have "hwrite (data v) (unat (vlen v)) val h = Inr ?h"
    using assms by (simp add: hwrite_Some list_update_append)
  moreover have "unat (vlen v) < 2 ^ 64 - 1"
    using assms(4,5) unsigned_less [of "capacity v", where ?'a = nat] by simp
  then have "unat (vlen v + 1) = length (xs @ [val])"
    using assms(5) by (simp add: unat_succ)
  then have "vec_rep (v\<lparr>vlen := vlen v + 1\<rparr>, ?h) (xs @ [val])"
    using assms by (intro vec_repI [where junk = junk]) (auto simp: heap_ok_def)
  moreover have "others (v, ?h) = others (v, h)" using assms(1) by (auto simp: others_def)
  ultimately show ?thesis by blast
qed

lemma others_vlen [simp]: "others (v\<lparr>vlen := n\<rparr>, h) = others (v, h)" "others (v\<lparr>capacity := n\<rparr>, h) = others (v, h)"
  by (simp_all add: others_def)

text \<open>A push grows a full vector to twice its capacity and needs the reallocation to succeed.\<close>

lemma vec_push_ok:
  assumes "vec_rep (v, h) xs" and "length xs < 2 ^ 60" and "length xs = room (v, h) \<longrightarrow> m \<noteq> None"
  shows "\<exists>s. vec_push m val (v, h) = Inr s \<and> vec_rep s (xs @ [val]) \<and>
    room s = (if length xs = room (v, h) then 2 * length xs else room (v, h)) \<and> others s = others (v, h)"
proof -
  obtain a junk where rep: "data v = Some a" "blocks h a = Some (xs @ junk)"
    "length xs + length junk = unat (capacity v)" "heap_ok h" "unat (vlen v) = length xs" "capacity v \<noteq> 0"
    using assms(1) by (rule vec_repE)
  show ?thesis
  proof (cases "vlen v = capacity v")
    case False
    then have "junk \<noteq> []" using rep(3,5) by (auto simp: word_unat_eq_iff)
    then obtain y ys where junk: "junk = y # ys" by (cases junk) auto
    obtain h' where "hwrite (data v) (unat (vlen v)) val h = Inr h'"
      "vec_rep (v\<lparr>vlen := vlen v + 1\<rparr>, h') (xs @ [val])" "others (v, h') = others (v, h)"
      using vec_store_ok [of v a h xs y ys val] rep junk by auto
    moreover have "length xs \<noteq> room (v, h)" using False rep(5) by (auto simp: word_unat_eq_iff)
    ultimately show ?thesis using False by (simp add: vec_push_def)
  next
    case True
    then have junk: "junk = []" using rep(3,5) by auto
    have full: "length xs = room (v, h)" using True rep(5) by simp
    then obtain f where m: "m = Some f" using assms(3) by auto
    let ?c = "unat (capacity v)"
    have c: "?c = length xs" "0 < ?c" using True rep(5,6) by (auto simp: word_unat_eq_iff)
    have double: "unat (capacity v * 2) = 2 * length xs" "ints_in (capacity v * 2 * 4) = 2 * length xs"
      using assms(2) c ints_in_exact [of "capacity v * 2"] by (simp_all add: unat_double)
    define ext where "ext = map f [length xs..<2 * length xs]"
    have ext: "length ext = length xs" by (simp add: ext_def)
    then obtain y ys where ys: "ext = y # ys" using c by (cases ext) auto
    let ?h = "h\<lparr>blocks := ((blocks h)(a := None))(brk h \<mapsto> xs @ ext), brk := Suc (brk h)\<rparr>"
    let ?v = "v\<lparr>data := Some (brk h), capacity := capacity v * 2\<rparr>"
    have "c_realloc (Some f) (data v) (ints_in (capacity v * 2 * 4)) h = Inr (Some (brk h), ?h)"
      unfolding double(2) using rep junk by (simp add: c_realloc_def hblock_def hfree_def halloc_def ext_def)
    moreover have "heap_ok ?h" using rep(4) by (auto simp: heap_ok_def less_Suc_eq)
    then obtain h' where "hwrite (data ?v) (unat (vlen ?v)) val ?h = Inr h'"
      "vec_rep (?v\<lparr>vlen := vlen ?v + 1\<rparr>, h') (xs @ [val])" "others (?v, h') = others (?v, ?h)"
      using vec_store_ok [of ?v "brk h" ?h xs y ys val] rep ext ys double by auto
    moreover have "others (?v, ?h) = others (v, h)"
      using rep(1) heap_ok_fresh [OF rep(4)] by (auto simp: others_def)
    ultimately show ?thesis using True m full double(1) by (simp add: vec_push_def)
  qed
qed

lemma vec_get_ok:
  assumes "vec_rep (v, h) xs" and "unat i < length xs"
  shows "vec_get i (v, h) = Inr (xs ! unat i)"
  using assms by (auto elim!: vec_repE simp: vec_get_def hread_Some nth_append)

lemma vec_pop_ok:
  assumes "vec_rep (v, h) (xs @ [x])"
  shows "\<exists>s. vec_pop (v, h) = Inr (s, x) \<and> vec_rep s xs \<and> room s = room (v, h) \<and> others s = others (v, h)"
proof -
  obtain a junk where rep: "data v = Some a" "blocks h a = Some ((xs @ [x]) @ junk)"
    "length (xs @ [x]) + length junk = unat (capacity v)" "heap_ok h" "unat (vlen v) = length (xs @ [x])"
    "capacity v \<noteq> 0"
    using assms by (rule vec_repE)
  have "1 \<le> vlen v" using rep(5) by (simp add: word_le_nat_alt)
  then have len: "unat (vlen v - 1) = length xs" using rep(5) by (simp add: unat_sub)
  have "vec_rep (v\<lparr>vlen := vlen v - 1\<rparr>, h) xs"
    using rep len by (intro vec_repI [where junk = "x # junk"]) auto
  moreover have "vec_pop (v, h) = Inr ((v\<lparr>vlen := vlen v - 1\<rparr>, h), x)"
    using rep len by (simp add: vec_pop_def hread_Some)
  ultimately show ?thesis by simp
qed

interpretation vec_seq: growable_seq
  vec_rep "\<lambda>x s. Some (vec_push (Some f) x s)" "\<lambda>i. vec_get (of_nat i)" "\<lambda>s. vlen (fst s)" "2 ^ 60"
  for f
proof
  fix s xs val
  assume "vec_rep s xs" "length xs < 2 ^ 60"
  then show "\<exists>s'. Some (vec_push (Some f) val s) = Some (Inr s') \<and> vec_rep s' (xs @ [val])"
    using vec_push_ok [of "fst s" "snd s" xs "Some f" val] by fastforce
next
  fix s xs i
  assume rep: "vec_rep s xs" and i: "i < length xs"
  then have "length xs < 2 ^ 64"
    using unsigned_less [of "vlen (fst s)", where ?'a = nat] by (simp add: vec_rep_def)
  with i have "unat (of_nat i :: 64 word) = i" by (simp add: unsigned_of_nat take_bit_nat_eq_self)
  with rep i show "vec_get (of_nat i) s = Inr (xs ! i)"
    using vec_get_ok [of "fst s" "snd s" xs "of_nat i"] by simp
next
  fix s xs
  assume "vec_rep s xs"
  then show "vlen (fst s) = of_nat (length xs)"
    using unsigned_less [of "vlen (fst s)", where ?'a = nat]
    by (simp add: vec_rep_def word_unat_eq_iff unsigned_of_nat take_bit_nat_eq_self)
qed

subsection \<open>Programs\<close>

text \<open>
  A client's sequence of calls on one vector. With every call comes what \<open>realloc\<close> answers if the call
  reallocates; the branch of \<open>int_vec_push\<close> for a null pointer releases the vector and goes on to
  store through the null pointer.
\<close>

datatype vec_op = VPush int | VPop | VGet "64 word"

definition vec_step :: "int alloc \<Rightarrow> vec_op \<Rightarrow> vec_state \<Rightarrow> (vec_state \<times> int) res" where
  "vec_step m oper s =
     (case oper of
        VPush x \<Rightarrow> rbind (vec_push m x s) (\<lambda>s'. Inr (s', 0))
      | VPop \<Rightarrow> vec_pop s
      | VGet i \<Rightarrow> rbind (vec_get i s) (\<lambda>x. Inr (s, x)))"

fun stack_step :: "vec_op \<Rightarrow> int list \<Rightarrow> (int list \<times> int) option" where
  "stack_step (VPush x) xs = Some (xs @ [x], 0)"
| "stack_step VPop xs = (if xs = [] then None else Some (butlast xs, last xs))"
| "stack_step (VGet i) xs = (if unat i < length xs then Some (xs, xs ! unat i) else None)"

text \<open>A push reallocates when the values fill the capacity \<open>c\<close>, which it then doubles.\<close>

fun reallocates :: "vec_op \<Rightarrow> nat \<Rightarrow> int list \<Rightarrow> bool" where
  "reallocates (VPush x) c xs \<longleftrightarrow> length xs = c"
| "reallocates _ c xs \<longleftrightarrow> False"

fun vec_run :: "(int alloc \<times> vec_op) list \<Rightarrow> vec_state \<Rightarrow> (vec_state \<times> int list) res" where
  "vec_run [] s = Inr (s, [])"
| "vec_run ((m, oper) # cs) s =
     rbind (vec_step m oper s) (\<lambda>(s1, r). rbind (vec_run cs s1) (\<lambda>(s2, rs). Inr (s2, r # rs)))"

text \<open>
  The same program on a stack of values with a capacity: \<open>None\<close> for a pop of an empty stack or a read
  beyond its length, the null-pointer access when a reallocation fails, and otherwise the final
  values and the results.
\<close>

fun stack_run :: "(int alloc \<times> vec_op) list \<Rightarrow> nat \<Rightarrow> int list \<Rightarrow> (int list \<times> int list) res option" where
  "stack_run [] c xs = Some (Inr (xs, []))"
| "stack_run ((m, oper) # cs) c xs =
     (if reallocates oper c xs \<and> m = None then Some (Inl NullDeref)
      else case stack_step oper xs of
        None \<Rightarrow> None
      | Some (ys, r) \<Rightarrow>
          map_option (\<lambda>q. rbind q (\<lambda>(zs, rs). Inr (zs, r # rs)))
            (stack_run cs (if reallocates oper c xs then 2 * c else c) ys))"

lemma vec_step_refines:
  assumes "vec_rep s xs" and "stack_step oper xs = Some (ys, r)" and "length xs < 2 ^ 60"
    and "reallocates oper (room s) xs \<longrightarrow> m \<noteq> None"
  shows "\<exists>s'. vec_step m oper s = Inr (s', r) \<and> vec_rep s' ys \<and>
    room s' = (if reallocates oper (room s) xs then 2 * room s else room s) \<and> others s' = others s"
proof -
  obtain v h where s: "s = (v, h)" by (cases s)
  note rep = assms(1) [unfolded s]
  show ?thesis
  proof (cases oper)
    case (VPush x)
    then show ?thesis
      using vec_push_ok [OF rep assms(3), of m x] assms(2,4) s by (auto simp: vec_step_def)
  next
    case VPop
    then obtain zs x where "xs = zs @ [x]" using assms(2) by (cases xs rule: rev_cases) auto
    then show ?thesis
      using vec_pop_ok [of v h zs x] VPop rep assms(2) s by (auto simp: vec_step_def)
  next
    case (VGet i)
    then show ?thesis
      using vec_get_ok [OF rep, of i] rep assms(2) s by (auto simp: vec_step_def split: if_splits)
  qed
qed

lemma stack_step_length: "stack_step oper xs = Some (ys, r) \<Longrightarrow> length ys \<le> Suc (length xs)"
  by (cases oper) (auto split: if_splits)

text \<open>A reallocation that fails.\<close>

lemma vec_step_realloc_fails:
  assumes "vec_rep s xs" and "reallocates oper (room s) xs"
  shows "vec_step None oper s = Inl NullDeref"
proof -
  obtain v h where s: "s = (v, h)" by (cases s)
  obtain x where oper: "oper = VPush x" and full: "length xs = room (v, h)"
    using assms(2) s by (cases oper) auto
  obtain a junk where rep: "data v = Some a" "blocks h a = Some (xs @ junk)" "unat (vlen v) = length xs"
    using assms(1) s by (auto elim: vec_repE)
  then have "vlen v = capacity v" using full by (simp add: word_unat_eq_iff)
  then show ?thesis
    using rep oper s by (auto simp: vec_step_def vec_push_def c_realloc_def hblock_def hfree_Some vec_free_def)
qed

lemma vec_run_refines:
  assumes "vec_rep s xs" and "stack_run cs (room s) xs = Some r" and "length xs + length cs \<le> 2 ^ 60"
  shows "case r of
      Inl e \<Rightarrow> e = NullDeref \<and> vec_run cs s = Inl e
    | Inr (ys, rs) \<Rightarrow> \<exists>s'. vec_run cs s = Inr (s', rs) \<and> vec_rep s' ys \<and> others s' = others s"
  using assms
proof (induction cs arbitrary: s xs r)
  case Nil
  then show ?case by auto
next
  case (Cons c cs)
  obtain m oper where c: "c = (m, oper)" by (cases c)
  show ?case
  proof (cases "reallocates oper (room s) xs \<and> m = None")
    case True
    then show ?thesis using Cons.prems(2) c vec_step_realloc_fails [OF Cons.prems(1)] by auto
  next
    case False
    let ?c = "if reallocates oper (room s) xs then 2 * room s else room s"
    obtain zs v q where zs: "stack_step oper xs = Some (zs, v)" "stack_run cs ?c zs = Some q"
      "r = rbind q (\<lambda>(ys, rs). Inr (ys, v # rs))"
      using Cons.prems(2) c False by (auto split: option.splits)
    obtain s' where s': "vec_step m oper s = Inr (s', v)" "vec_rep s' zs" "room s' = ?c" "others s' = others s"
      using vec_step_refines [OF Cons.prems(1) zs(1), of m] Cons.prems(3) False by auto
    have len: "length zs + length cs \<le> 2 ^ 60" using stack_step_length [OF zs(1)] Cons.prems(3) by simp
    have "case q of
        Inl e \<Rightarrow> e = NullDeref \<and> vec_run cs s' = Inl e
      | Inr (ys, rs) \<Rightarrow> \<exists>t. vec_run cs s' = Inr (t, rs) \<and> vec_rep t ys \<and> others t = others s'"
      by (rule Cons.IH [OF s'(2) _ len]) (use zs(2) s'(3) in simp)
    with zs(3) s'(1,4) c show ?thesis by (cases q) auto
  qed
qed

subsection \<open>Main results\<close>

text \<open>C8: a vector is initialised with a capacity between 1 and 2^62 - 1, and a program is any
  sequence of at most 2^60 pushes, pops of a nonempty vector and reads within the length, each with the answer
  \<open>realloc\<close> gives if the call reallocates. If the initial allocation succeeds, then: when a
  reallocation that is reached fails, the program stops there with the store through the null pointer that
  \<open>int_vec_push\<close> does not prevent; otherwise every call runs without a fault and returns what a
  stack of values returns, across all reallocations (which happen exactly when the values fill the capacity, and
  double it), and the final \<open>int_vec_free\<close> releases the vector's block, so that the heap is as before the
  vector was created. If the initial allocation fails, \<open>int_vec_init\<close> still returns a vector with that
  capacity, and the first push faults. (\<open>heap_ok\<close>: the addresses in use are below the next fresh one.)\<close>

theorem int_vec_refines:
  assumes "heap_ok h" and "0 < unat c" and "unat c < 2 ^ 62"
    and "stack_run cs (unat c) [] = Some r" and "length cs \<le> 2 ^ 60"
  shows "(\<exists>s. vec_init (Some f) c (v, h) = Inr s \<and>
      (case r of
         Inl e \<Rightarrow> e = NullDeref \<and> vec_run cs s = Inl e
       | Inr (ys, rs) \<Rightarrow> \<exists>s' s''. vec_run cs s = Inr (s', rs) \<and> vec_rep s' ys \<and>
           vec_free s' = Inr s'' \<and> blocks (snd s'') = blocks h)) \<and>
    (\<exists>s. vec_init None c (v, h) = Inr s \<and> capacity (fst s) = c \<and> vec_push m x s = Inl NullDeref)"
proof
  obtain s where s: "vec_init (Some f) c (v, h) = Inr s" "vec_rep s []" "room s = unat c" "others s = blocks h"
    using vec_init_ok [OF assms(1,2,3)] by blast
  have run: "case r of
      Inl e \<Rightarrow> e = NullDeref \<and> vec_run cs s = Inl e
    | Inr (ys, rs) \<Rightarrow> \<exists>s'. vec_run cs s = Inr (s', rs) \<and> vec_rep s' ys \<and> others s' = others s"
    using vec_run_refines [OF s(2), of cs r] assms(4,5) s(3) by simp
  have free: "\<exists>s''. vec_free s' = Inr s'' \<and> blocks (snd s'') = others s'" if "vec_rep s' ys" for s' ys
    using that by (cases s') (auto elim!: vec_repE simp: vec_free_def hfree_Some others_def)
  show "\<exists>s. vec_init (Some f) c (v, h) = Inr s \<and>
      (case r of
         Inl e \<Rightarrow> e = NullDeref \<and> vec_run cs s = Inl e
       | Inr (ys, rs) \<Rightarrow> \<exists>s' s''. vec_run cs s = Inr (s', rs) \<and> vec_rep s' ys \<and>
           vec_free s' = Inr s'' \<and> blocks (snd s'') = blocks h)"
    using s(1,4) run free by (cases r) (fastforce split: prod.splits)+
next
  have "c \<noteq> 0" using assms(2) by auto
  then show "\<exists>s. vec_init None c (v, h) = Inr s \<and> capacity (fst s) = c \<and> vec_push m x s = Inl NullDeref"
    by (simp add: vec_init_def c_malloc_def vec_free_def vec_push_def)
qed

theorem int_vec_refines_witness:
  "(\<exists>s s'. vec_init (Some (\<lambda>_. 7)) 1 (\<lparr>data = None, vlen = 0, capacity = 0\<rparr>, empty_heap) = Inr s \<and>
     vec_run [(None, VPush 4), (Some (\<lambda>_. 7), VPush 5), (Some (\<lambda>_. 8), VPush 6), (None, VGet 1), (None, VPop), (None, VPop)] s =
       Inr (s', [0, 0, 0, 5, 6, 5])) \<and>
   (\<exists>s. vec_init (Some (\<lambda>_. 7)) 1 (\<lparr>data = None, vlen = 0, capacity = 0\<rparr>, empty_heap) = Inr s \<and>
     vec_run [(None, VPush 4), (None, VPush 5)] s = Inl NullDeref)"
proof -
  let ?p = "[(None, VPush 4), (Some (\<lambda>_. 7), VPush 5), (Some (\<lambda>_. 8), VPush 6), (None, VGet 1), (None, VPop), (None, VPop)]"
  let ?q = "[(None, VPush 4), (None, VPush 5)]"
  note ok = int_vec_refines [of empty_heap 1 ?p "Inr ([4], [0, 0, 0, 5, 6, 5])" "\<lambda>_. 7" "\<lparr>data = None, vlen = 0, capacity = 0\<rparr>" None 0]
    and fails = int_vec_refines [of empty_heap 1 ?q "Inl NullDeref" "\<lambda>_. 7" "\<lparr>data = None, vlen = 0, capacity = 0\<rparr>" None 0]
  have "stack_run ?p (unat (1 :: 64 word)) [] = Some (Inr ([4], [0, 0, 0, 5, 6, 5]))" by simp
  moreover have "stack_run ?q (unat (1 :: 64 word)) [] = Some (Inl NullDeref)" by simp
  ultimately show ?thesis using ok fails by (fastforce simp del: vec_run.simps stack_run.simps)
qed

lemma int_vec_unhandled_parts:
  assumes "heap_ok h" and "blocks h a = Some buf"
  shows "buf = [] \<Longrightarrow>
      vec_push m x (\<lparr>data = Some a, vlen = 0, capacity = 0\<rparr>, h) \<in> {Inl NullDeref, Inl OutOfBounds}"
    and "vec_push None x (\<lparr>data = Some a, vlen = n, capacity = n\<rparr>, h) = Inl NullDeref"
    and "length buf < 2 ^ 64 - 1 \<Longrightarrow>
      vec_pop (\<lparr>data = Some a, vlen = 0, capacity = c\<rparr>, h) = Inl OutOfBounds"
    and "rbind (vec_free (\<lparr>data = Some a, vlen = n, capacity = c\<rparr>, h)) vec_free = Inl DoubleFree"
proof -
  show "vec_push m x (\<lparr>data = Some a, vlen = 0, capacity = 0\<rparr>, h) \<in> {Inl NullDeref, Inl OutOfBounds}"
    if "buf = []"
    using assms that
    by (cases m) (auto simp: vec_push_def c_realloc_def hblock_def hfree_Some ints_in_def vec_free_def
        halloc_def hwrite_def)
  show "vec_push None x (\<lparr>data = Some a, vlen = n, capacity = n\<rparr>, h) = Inl NullDeref"
    using assms by (auto simp: vec_push_def c_realloc_def hblock_def hfree_Some vec_free_def)
  show "vec_pop (\<lparr>data = Some a, vlen = 0, capacity = c\<rparr>, h) = Inl OutOfBounds"
    if "length buf < 2 ^ 64 - 1"
  proof -
    have "unat (0 - 1 :: 64 word) = 2 ^ 64 - 1" by (simp add: unsigned_minus_1_eq_mask mask_eq_exp_minus_1)
    then show ?thesis
      using assms that by (simp add: vec_pop_def hread_out_of_bounds)
  qed
  show "rbind (vec_free (\<lparr>data = Some a, vlen = n, capacity = c\<rparr>, h)) vec_free = Inl DoubleFree"
    using assms by (simp add: vec_free_def hfree_Some) (simp add: hfree_def)
qed

text \<open>The cases the code leaves as "handle error" end in a fault: the first push on a vector of
  capacity zero, whatever the allocator returns, a push whose reallocation fails, a pop of an
  empty vector, and a second release.\<close>

theorem int_vec_unhandled:
  assumes "heap_ok h" and "blocks h a = Some buf"
  shows "(buf = [] \<longrightarrow> vec_push m x (\<lparr>data = Some a, vlen = 0, capacity = 0\<rparr>, h) \<in> {Inl NullDeref, Inl OutOfBounds}) \<and>
    (vec_push None x (\<lparr>data = Some a, vlen = n, capacity = n\<rparr>, h) = Inl NullDeref) \<and>
    (length buf < 2 ^ 64 - 1 \<longrightarrow> vec_pop (\<lparr>data = Some a, vlen = 0, capacity = c\<rparr>, h) = Inl OutOfBounds) \<and>
    (rbind (vec_free (\<lparr>data = Some a, vlen = n, capacity = c\<rparr>, h)) vec_free = Inl DoubleFree)"
  using int_vec_unhandled_parts [OF assms] by blast

theorem int_vec_unhandled_witness:
  "vec_pop (\<lparr>data = Some 0, vlen = 0, capacity = 1\<rparr>, \<lparr>blocks = [0 \<mapsto> [3]], brk = 1\<rparr>) = Inl OutOfBounds"
  using int_vec_unhandled [where h = "\<lparr>blocks = [0 \<mapsto> [3]], brk = 1\<rparr>" and a = 0 and buf = "[3]" and c = 1] by (simp add: heap_ok_def)

end
