(* ===== verification/Entity.thy ===== *)
theory Entity
  imports Hello_C
begin

section \<open>Entities\<close>

text \<open>
  Model of part 2 of \<open>00-c-for-programmers/exercises/ex3-structs-and-pointers/structs.c\<close>. The array
  \<open>name\<close> is a list of 64 characters; the argument of \<open>entity_init\<close> is the string its pointer
  refers to, without the terminator.
\<close>

record entity =
  name :: string
  ex :: int
  ey :: int
  hp :: int
  max_hp :: int
  alive :: int

definition c_strncpy :: "string \<Rightarrow> string \<Rightarrow> nat \<Rightarrow> string" where
  "c_strncpy dst src n = take n (src @ replicate n (CHR 0x00)) @ drop n dst"

definition entity_init :: "entity \<Rightarrow> string \<Rightarrow> int \<Rightarrow> int \<Rightarrow> int \<Rightarrow> entity" where
  "entity_init e nm x y mhp =
     (let e1 = e\<lparr>name := c_strncpy (name e) nm (64 - 1)\<rparr>;
          e2 = e1\<lparr>name := (name e1)[64 - 1 := CHR 0x00]\<rparr>
      in e2\<lparr>hp := mhp, max_hp := mhp, alive := 1, ex := x, ey := y\<rparr>)"

definition entity_take_damage :: "int \<Rightarrow> entity \<Rightarrow> entity res" where
  "entity_take_damage amount e =
     rbind (chk32 (hp e - amount)) (\<lambda>n.
       let e1 = e\<lparr>hp := n\<rparr> in
       Inr (if hp e1 \<le> 0 then e1\<lparr>hp := 0, alive := 0\<rparr> else e1))"

definition entity_heal :: "int \<Rightarrow> entity \<Rightarrow> entity res" where
  "entity_heal amount e =
     (if alive e \<noteq> 0 then
        rbind (chk32 (hp e + amount)) (\<lambda>n.
          let e1 = e\<lparr>hp := n\<rparr> in
          Inr (if hp e1 > max_hp e1 then e1\<lparr>hp := max_hp e1\<rparr> else e1))
      else Inr e)"

definition entity_move :: "int \<Rightarrow> int \<Rightarrow> entity \<Rightarrow> entity res" where
  "entity_move dx dy e =
     rbind (chk32 (ex e + dx)) (\<lambda>x.
     rbind (chk32 (ey e + dy)) (\<lambda>y.
     Inr (e\<lparr>ex := x, ey := y\<rparr>)))"

definition c_abs :: "int \<Rightarrow> int res" where
  "c_abs x = chk32 \<bar>x\<bar>"

definition entity_distance :: "entity \<Rightarrow> entity \<Rightarrow> int res" where
  "entity_distance a b =
     rbind (chk32 (ex a - ex b)) (\<lambda>dx.
     rbind (c_abs dx) (\<lambda>ax.
     rbind (chk32 (ey a - ey b)) (\<lambda>dy.
     rbind (c_abs dy) (\<lambda>ay.
     chk32 (ax + ay)))))"

definition entity_name :: "entity \<Rightarrow> string" where
  "entity_name e = takeWhile (\<lambda>c. c \<noteq> CHR 0x00) (name e)"

definition status_text :: "entity \<Rightarrow> string" where
  "status_text e =
     entity_name e @ '' ('' @ show_int (ex e) @ '','' @ show_int (ey e) @ '') HP: '' @ show_int (hp e) @
     ''/'' @ show_int (max_hp e) @ (if alive e \<noteq> 0 then '' [ALIVE]'' else '' [DEAD]'')"

definition entity_status :: "entity \<Rightarrow> ptr \<Rightarrow> char heap \<Rightarrow> char heap res" where
  "entity_status e buf h = c_sprintf buf (status_text e) h"

subsection \<open>Invariant\<close>

definition entity_ok :: "entity \<Rightarrow> bool" where
  "entity_ok e \<longleftrightarrow> length (name e) = 64 \<and> name e ! 63 = CHR 0x00 \<and>
     in_int (ex e) \<and> in_int (ey e) \<and> in_int (max_hp e) \<and> 0 \<le> hp e \<and> hp e \<le> max_hp e \<and>
     (alive e = 1 \<and> 0 < hp e \<or> alive e = 0 \<and> hp e = 0)"

datatype entity_op = Damage int | Heal int | Move int int

fun entity_step :: "entity_op \<Rightarrow> entity \<Rightarrow> entity res" where
  "entity_step (Damage n) e = entity_take_damage n e"
| "entity_step (Heal n) e = entity_heal n e"
| "entity_step (Move dx dy) e = entity_move dx dy e"

fun entity_run :: "entity_op list \<Rightarrow> entity \<Rightarrow> entity res" where
  "entity_run [] e = Inr e"
| "entity_run (oper # ops) e = rbind (entity_step oper e) (entity_run ops)"

fun op_ok :: "entity_op \<Rightarrow> bool" where
  "op_ok (Damage n) \<longleftrightarrow> 0 \<le> n \<and> in_int n"
| "op_ok (Heal n) \<longleftrightarrow> 0 \<le> n \<and> in_int n"
| "op_ok (Move dx dy) \<longleftrightarrow> in_int dx \<and> in_int dy"

lemma entity_step_ok:
  assumes "entity_ok e" and "op_ok oper" and "entity_step oper e = Inr e'"
  shows "entity_ok e' \<and> max_hp e' = max_hp e \<and> (alive e = 0 \<longrightarrow> alive e' = 0 \<and> hp e' = 0)"
  using assms
  by (cases oper)
    (auto simp: entity_take_damage_def entity_heal_def entity_move_def entity_ok_def rbind_eq_Inr Let_def
      split: if_splits)

lemma entity_run_ok:
  "entity_ok e \<Longrightarrow> \<forall>oper \<in> set ops. op_ok oper \<Longrightarrow> entity_run ops e = Inr e' \<Longrightarrow>
    entity_ok e' \<and> max_hp e' = max_hp e"
proof (induction ops arbitrary: e)
  case (Cons oper ops)
  then obtain e1 where e1: "entity_step oper e = Inr e1" "entity_run ops e1 = Inr e'"
    by (auto simp: rbind_eq_Inr)
  with Cons.IH [of e1] Cons.prems entity_step_ok [OF Cons.prems(1) _ e1(1)] show ?case by auto
qed simp

lemma init_name:
  "length (name e) = 64 \<Longrightarrow> length (name (entity_init e nm x y m)) = 64 \<and>
    name (entity_init e nm x y m) ! 63 = CHR 0x00"
  by (simp add: entity_init_def c_strncpy_def)

subsection \<open>Main results\<close>

text \<open>C34: from \<open>entity_init\<close> with a positive maximum, any sequence of damage, healing (by nonnegative
  amounts) and moves that runs without overflow keeps the hit points between 0 and the maximum and
  the \<open>alive\<close> flag equal to "hit points are positive"; an entity that has died stays dead.\<close>

theorem entity_invariant:
  assumes "length (name e0) = 64" and "in_int x" and "in_int y" and "in_int m" and "0 < m"
    and "\<forall>oper \<in> set ops. op_ok oper" and "entity_run ops (entity_init e0 nm x y m) = Inr e"
  shows "entity_ok e \<and> max_hp e = m \<and>
    (alive e = 0 \<longrightarrow> (\<forall>oper e'. op_ok oper \<and> entity_step oper e = Inr e' \<longrightarrow> alive e' = 0))"
proof -
  have init: "entity_ok (entity_init e0 nm x y m)" "max_hp (entity_init e0 nm x y m) = m"
    using assms(2-5) init_name [OF assms(1), of nm x y m] by (auto simp: entity_ok_def) (simp_all add: entity_init_def)
  then have "entity_ok e \<and> max_hp e = m"
    using entity_run_ok [OF init(1) assms(6,7)] by simp
  then show ?thesis using entity_step_ok by blast
qed

definition example_entity :: entity where
  "example_entity = \<lparr>name = replicate 64 (CHR ''?''), ex = 0, ey = 0, hp = 0, max_hp = 0, alive = 0\<rparr>"

theorem entity_invariant_witness:
  "\<exists>e. entity_run [Damage 3, Heal 100, Move 1 2, Damage 50, Heal 7]
     (entity_init example_entity ''Goblin'' 3 5 10) = Inr e \<and> entity_ok e \<and> max_hp e = 10"
proof -
  let ?e = "\<lparr>name = name (entity_init example_entity ''Goblin'' 3 5 10), ex = 4, ey = 7, hp = 0, max_hp = 10, alive = 0\<rparr>"
  have "entity_run [Damage 3, Heal 100, Move 1 2, Damage 50, Heal 7]
     (entity_init example_entity ''Goblin'' 3 5 10) = Inr ?e"
    by (simp add: entity_take_damage_def entity_heal_def entity_move_def entity_init_def Let_def in_int_def example_entity_def)
  with entity_invariant [of example_entity 3 5 10 "[Damage 3, Heal 100, Move 1 2, Damage 50, Heal 7]" "''Goblin''" ?e]
  show ?thesis by (simp add: in_int_def example_entity_def)
qed

lemma damage_heal_exact_parts:
  assumes "entity_ok e" and "0 \<le> n" and "in_int n"
  shows "\<exists>e'. entity_take_damage n e = Inr e' \<and> hp e' = max 0 (hp e - n)"
    and "alive e = 1 \<Longrightarrow> in_int (hp e + n) \<Longrightarrow> \<exists>e'. entity_heal n e = Inr e' \<and> hp e' = min (max_hp e) (hp e + n)"
    and "alive e = 1 \<Longrightarrow> \<not> in_int (hp e + n) \<Longrightarrow> entity_heal n e = Inl SignedOverflow"
    and "alive e = 0 \<Longrightarrow> entity_heal n e = Inr e"
proof -
  have "in_int (hp e - n)" using assms unfolding entity_ok_def in_int_def by linarith
  then show "\<exists>e'. entity_take_damage n e = Inr e' \<and> hp e' = max 0 (hp e - n)"
    by (auto simp: entity_take_damage_def Let_def)
qed (auto simp: entity_heal_def Let_def chk32_def)

text \<open>On an entity satisfying the invariant, damage by a nonnegative amount never overflows and
  subtracts with a floor of 0; healing adds with a ceiling of the maximum, except that a heal whose
  unclamped sum exceeds the largest \<open>int\<close> overflows before it is clamped.\<close>

theorem damage_heal_exact:
  assumes "entity_ok e" and "0 \<le> n" and "in_int n"
  shows "(\<exists>e'. entity_take_damage n e = Inr e' \<and> hp e' = max 0 (hp e - n)) \<and>
    (alive e = 1 \<longrightarrow> in_int (hp e + n) \<longrightarrow> (\<exists>e'. entity_heal n e = Inr e' \<and> hp e' = min (max_hp e) (hp e + n))) \<and>
    (alive e = 1 \<longrightarrow> \<not> in_int (hp e + n) \<longrightarrow> entity_heal n e = Inl SignedOverflow) \<and>
    (alive e = 0 \<longrightarrow> entity_heal n e = Inr e)"
  using damage_heal_exact_parts [OF assms] by blast

theorem damage_heal_exact_witness:
  "entity_heal 2147483647 (entity_init example_entity ''Orc'' 0 0 10) = Inl SignedOverflow"
proof -
  have "entity_ok (entity_init example_entity ''Orc'' 0 0 10)"
    using init_name [of example_entity "''Orc''" 0 0 10]
    by (auto simp: entity_ok_def example_entity_def) (simp_all add: entity_init_def in_int_def)
  then show ?thesis
    using damage_heal_exact [of "entity_init example_entity ''Orc'' 0 0 10" 2147483647]
    by (simp add: entity_init_def in_int_def)
qed

text \<open>\<open>entity_init\<close> keeps a name of up to 63 characters and truncates a longer one, and
  \<open>entity_status\<close> of any entity satisfying the invariant fits, with its terminator, into the 128
  characters the header promises.\<close>

theorem entity_status_fits:
  assumes "entity_ok e" and "blocks h a = Some buf" and "length buf = 128"
  shows "entity_status e (Some a) h =
      Inr (h\<lparr>blocks := (blocks h)(a \<mapsto> status_text e @ CHR 0x00 # drop (Suc (length (status_text e))) buf)\<rparr>)"
    and "length (status_text e) < 128"
    and "length (name e0) = 64 \<Longrightarrow> CHR 0x00 \<notin> set nm \<Longrightarrow> entity_name (entity_init e0 nm x y m) = take 63 nm"
proof -
  have "in_int (hp e)" using assms(1) unfolding entity_ok_def in_int_def by linarith
  with assms(1) have nums: "length (show_int (ex e)) \<le> 11" "length (show_int (ey e)) \<le> 11"
    "length (show_int (hp e)) \<le> 11" "length (show_int (max_hp e)) \<le> 11"
    by (auto simp: entity_ok_def length_show_int)
  have "name e = take 63 (name e) @ [CHR 0x00]"
    using assms(1) take_Suc_conv_app_nth [of 63 "name e"] by (simp add: entity_ok_def)
  then have "entity_name e = takeWhile (\<lambda>c. c \<noteq> CHR 0x00) (take 63 (name e) @ [CHR 0x00])"
    by (simp add: entity_name_def)
  also have "\<dots> = takeWhile (\<lambda>c. c \<noteq> CHR 0x00) (take 63 (name e))"
    by (simp add: takeWhile_tail)
  finally have "length (entity_name e) \<le> 63"
    using length_takeWhile_le [of "\<lambda>c. c \<noteq> CHR 0x00" "take 63 (name e)"] by simp
  with nums show fits: "length (status_text e) < 128" by (simp add: status_text_def)
  then show "entity_status e (Some a) h =
      Inr (h\<lparr>blocks := (blocks h)(a \<mapsto> status_text e @ CHR 0x00 # drop (Suc (length (status_text e))) buf)\<rparr>)"
    using hwrite_list_0 [OF assms(2), of "status_text e @ [CHR 0x00]"] assms(3)
    by (simp add: entity_status_def c_sprintf_def)
next
  assume e0: "length (name e0) = 64" and nm: "CHR 0x00 \<notin> set nm"
  have "name (entity_init e0 nm x y m) = take 63 (nm @ replicate 63 (CHR 0x00)) @ [CHR 0x00]"
  proof -
    have "drop 63 (name e0) = [name e0 ! 63]"
      using e0 Cons_nth_drop_Suc [of 63 "name e0"] by simp
    with e0 show ?thesis by (simp add: entity_init_def c_strncpy_def list_update_append min_def)
  qed
  moreover have "takeWhile (\<lambda>c. c \<noteq> CHR 0x00) (take 63 (nm @ replicate 63 (CHR 0x00)) @ [CHR 0x00]) = take 63 nm"
    using nm by (cases "length nm < 63") (auto simp: takeWhile_append dest: in_set_takeD)
  ultimately show "entity_name (entity_init e0 nm x y m) = take 63 nm" by (simp add: entity_name_def)
qed

theorem entity_status_fits_witness:
  "length (status_text (entity_init example_entity ''Goblin'' 3 5 10)) < 128"
proof -
  have "entity_ok (entity_init example_entity ''Goblin'' 3 5 10)"
    using init_name [of example_entity "''Goblin''" 3 5 10]
    by (auto simp: entity_ok_def example_entity_def) (simp_all add: entity_init_def in_int_def)
  then show ?thesis
    using entity_status_fits(2) [of _ "\<lparr>blocks = [0 \<mapsto> replicate 128 (CHR 0x00)], brk = 1\<rparr>" 0 "replicate 128 (CHR 0x00)"]
    by simp
qed

end
