(* ===== verification/Pool_Allocator.thy ===== *)
theory Pool_Allocator
  imports Prelude
begin

section \<open>Bump allocator\<close>

text \<open>
  Model of \<open>03-stl-internals/exercises/ex3-pool-allocator/pool_allocator.hpp\<close>. The global offset is a
  \<open>size_t\<close>, a 64-bit word; a pointer into \<open>g_pool\<close> is its offset; \<open>T\<close> enters as \<open>sizeof(T)\<close>. The
  interface a client of such an allocator relies on is the locale \<open>bump_allocator\<close>: an allocation
  returns the old mark, moves it past the request, and fails only when the capacity is exceeded.
\<close>

definition POOL_SIZE :: "64 word" where
  "POOL_SIZE = 4 * 1024 * 1024"

definition pool_reset :: "64 word" where
  "pool_reset = 0"

definition allocate :: "64 word \<Rightarrow> 64 word \<Rightarrow> 64 word \<Rightarrow> (64 word \<times> 64 word) res" where
  "allocate sizeof_T n g_offset =
     (let bytes = n * sizeof_T;
          offset = g_offset
      in if offset + bytes > POOL_SIZE then Inl BadAlloc
         else Inr (offset, offset + bytes))"

definition deallocate :: "64 word \<Rightarrow> 64 word \<Rightarrow> 64 word \<Rightarrow> 64 word" where
  "deallocate p n g_offset = g_offset"

definition pool_eq :: bool where
  "pool_eq = True"

definition pool_neq :: bool where
  "pool_neq = False"

subsection \<open>The contract of a bump allocator\<close>

fun alloc_all :: "('r \<Rightarrow> 's \<Rightarrow> (nat \<times> 's) res) \<Rightarrow> ('r \<Rightarrow> nat) \<Rightarrow> 'r list \<Rightarrow> 's \<Rightarrow> ((nat \<times> nat) list \<times> 's) res" where
  "alloc_all alloc sz [] s = Inr ([], s)"
| "alloc_all alloc sz (r # rs) s =
     rbind (alloc r s) (\<lambda>(p, s1).
     rbind (alloc_all alloc sz rs s1) (\<lambda>(regions, s2).
     Inr ((p, sz r) # regions, s2)))"

definition disjoint_regions :: "(nat \<times> nat) \<Rightarrow> (nat \<times> nat) \<Rightarrow> bool" where
  "disjoint_regions a b \<longleftrightarrow> fst a + snd a \<le> fst b \<or> fst b + snd b \<le> fst a"

locale bump_allocator =
  fixes alloc :: "'r \<Rightarrow> 's \<Rightarrow> (nat \<times> 's) res"
    and sz :: "'r \<Rightarrow> nat"
    and ok :: "'r \<Rightarrow> bool"
    and used :: "'s \<Rightarrow> nat"
    and cap :: nat
  assumes alloc_exact: "ok r \<Longrightarrow> used s \<le> cap \<Longrightarrow>
    (if used s + sz r \<le> cap
     then \<exists>s'. alloc r s = Inr (used s, s') \<and> used s' = used s + sz r
     else alloc r s = Inl BadAlloc)"
begin

lemma alloc_step:
  assumes "ok r" and "used s \<le> cap" and "alloc r s = Inr (p, s')"
  shows "p = used s \<and> used s' = used s + sz r \<and> used s' \<le> cap"
proof (cases "used s + sz r \<le> cap")
  case True
  then show ?thesis using alloc_exact [OF assms(1,2)] assms(3) by auto
next
  case False
  then show ?thesis using alloc_exact [OF assms(1,2)] assms(3) by simp
qed

lemma regions_above:
  assumes "\<forall>r \<in> set rs. ok r" and "used s \<le> cap" and "alloc_all alloc sz rs s = Inr (regions, s')"
  shows "map snd regions = map sz rs \<and> used s' = used s + sum_list (map sz rs) \<and> used s' \<le> cap \<and>
    (\<forall>(p, n) \<in> set regions. used s \<le> p \<and> p + n \<le> used s') \<and>
    sorted_wrt (\<lambda>a b. fst a + snd a \<le> fst b) regions"
  using assms
proof (induction rs arbitrary: s regions)
  case Nil
  then show ?case by simp
next
  case (Cons r rs)
  then obtain p s1 rest where step: "alloc r s = Inr (p, s1)"
    "alloc_all alloc sz rs s1 = Inr (rest, s')" "regions = (p, sz r) # rest"
    by (auto simp: rbind_eq_Inr)
  have first: "p = used s" "used s1 = used s + sz r" "used s1 \<le> cap"
    using alloc_step [OF _ _ step(1)] Cons.prems by auto
  have IH: "map snd rest = map sz rs" "used s' = used s1 + sum_list (map sz rs)" "used s' \<le> cap"
    "\<forall>(p, n) \<in> set rest. used s1 \<le> p \<and> p + n \<le> used s'"
    "sorted_wrt (\<lambda>a b. fst a + snd a \<le> fst b) rest"
    using Cons.IH [OF _ first(3) step(2)] Cons.prems(1) by auto
  then show ?case using step(3) first by (fastforce simp: case_prod_unfold)
qed

lemma all_succeed:
  assumes "\<forall>r \<in> set rs. ok r" and "used s + sum_list (map sz rs) \<le> cap"
  shows "\<exists>regions s'. alloc_all alloc sz rs s = Inr (regions, s')"
  using assms
proof (induction rs arbitrary: s)
  case Nil
  then show ?case by simp
next
  case (Cons r rs)
  then obtain s1 where s1: "alloc r s = Inr (used s, s1)" "used s1 = used s + sz r"
    using alloc_exact [of r s] by auto
  with Cons.IH [of s1] Cons.prems show ?case by auto
qed

lemma all_fail:
  assumes "\<forall>r \<in> set rs. ok r" and "used s \<le> cap" and "cap < used s + sum_list (map sz rs)"
  shows "alloc_all alloc sz rs s = Inl BadAlloc"
  using assms
proof (induction rs arbitrary: s)
  case Nil
  then show ?case by simp
next
  case (Cons r rs)
  show ?case
  proof (cases "used s + sz r \<le> cap")
    case True
    then obtain s1 where s1: "alloc r s = Inr (used s, s1)" "used s1 = used s + sz r"
      using alloc_exact [of r s] Cons.prems(1,2) by auto
    with Cons.IH [of s1] Cons.prems True show ?thesis by simp
  next
    case False
    then show ?thesis using alloc_exact [of r s] Cons.prems(1,2) by simp
  qed
qed

end

subsection \<open>The pool satisfies it\<close>

text \<open>
  A request is the pair of \<open>sizeof(T)\<close> and \<open>n\<close>; it is admissible when its byte count added to any
  offset in the pool, that is to at most 4194304, stays below 2^64.
\<close>

definition request_bytes :: "64 word \<times> 64 word \<Rightarrow> nat" where
  "request_bytes r = unat (fst r) * unat (snd r)"

definition request_ok :: "64 word \<times> 64 word \<Rightarrow> bool" where
  "request_ok r \<longleftrightarrow> request_bytes r + 4194304 < 2 ^ 64"

definition pool_alloc :: "64 word \<times> 64 word \<Rightarrow> 64 word \<Rightarrow> (nat \<times> 64 word) res" where
  "pool_alloc r g = rbind (allocate (fst r) (snd r) g) (\<lambda>(p, g'). Inr (unat p, g'))"

lemma unat_pool_size: "unat POOL_SIZE = 4194304"
  by (simp add: POOL_SIZE_def)

lemma allocate_exact:
  assumes "unat sizeof_T * unat n + 4194304 < 2 ^ 64" and "unat g \<le> 4194304"
  shows "allocate sizeof_T n g =
    (if unat g + unat sizeof_T * unat n \<le> 4194304 then Inr (g, g + n * sizeof_T) else Inl BadAlloc)"
    and "unat (g + n * sizeof_T) = unat g + unat sizeof_T * unat n"
proof -
  have "unat (n * sizeof_T) = unat sizeof_T * unat n"
    using assms(1) by (simp add: unat_word_ariths mult.commute)
  with assms show sum: "unat (g + n * sizeof_T) = unat g + unat sizeof_T * unat n"
    by (simp add: unat_word_ariths)
  then show "allocate sizeof_T n g =
    (if unat g + unat sizeof_T * unat n \<le> 4194304 then Inr (g, g + n * sizeof_T) else Inl BadAlloc)"
    by (simp add: allocate_def word_less_nat_alt unat_pool_size not_less)
qed

interpretation pool: bump_allocator pool_alloc request_bytes request_ok unat 4194304
proof
  fix r :: "64 word \<times> 64 word" and g :: "64 word"
  assume "request_ok r" and "unat g \<le> 4194304"
  then show "if unat g + request_bytes r \<le> 4194304
      then \<exists>s'. pool_alloc r g = Inr (unat g, s') \<and> unat s' = unat g + request_bytes r
      else pool_alloc r g = Inl BadAlloc"
    using allocate_exact [of "fst r" "snd r" g]
    by (simp add: request_ok_def request_bytes_def pool_alloc_def)
qed

subsection \<open>Main results\<close>

lemma pool_regions_disjoint_parts:
  assumes "\<forall>r \<in> set rs. request_ok r"
  shows "sum_list (map request_bytes rs) \<le> unat POOL_SIZE \<Longrightarrow>
      \<exists>regions g. alloc_all pool_alloc request_bytes rs pool_reset = Inr (regions, g) \<and>
        map snd regions = map request_bytes rs \<and> (\<forall>(p, n) \<in> set regions. p + n \<le> unat POOL_SIZE) \<and>
        sorted_wrt (\<lambda>a b. fst a + snd a \<le> fst b) regions \<and> sorted_wrt disjoint_regions regions \<and>
        unat g = sum_list (map request_bytes rs)"
    and "unat POOL_SIZE < sum_list (map request_bytes rs) \<Longrightarrow>
      alloc_all pool_alloc request_bytes rs pool_reset = Inl BadAlloc"
proof -
  assume "sum_list (map request_bytes rs) \<le> unat POOL_SIZE"
  then obtain regions g where run: "alloc_all pool_alloc request_bytes rs pool_reset = Inr (regions, g)"
    using pool.all_succeed [OF assms, of pool_reset] by (auto simp: unat_pool_size pool_reset_def)
  have *: "map snd regions = map request_bytes rs" "unat g = sum_list (map request_bytes rs)"
    "unat g \<le> 4194304" "\<forall>(p, n) \<in> set regions. p + n \<le> unat g"
    "sorted_wrt (\<lambda>a b. fst a + snd a \<le> fst b) regions"
    using pool.regions_above [OF assms _ run] by (auto simp: pool_reset_def)
  have "sorted_wrt disjoint_regions regions"
    using *(5) by (rule sorted_wrt_mono_rel [rotated]) (simp add: disjoint_regions_def)
  moreover have "\<forall>(p, n) \<in> set regions. p + n \<le> unat POOL_SIZE" using *(3,4) by (fastforce simp: unat_pool_size)
  ultimately show "\<exists>regions g. alloc_all pool_alloc request_bytes rs pool_reset = Inr (regions, g) \<and>
        map snd regions = map request_bytes rs \<and> (\<forall>(p, n) \<in> set regions. p + n \<le> unat POOL_SIZE) \<and>
        sorted_wrt (\<lambda>a b. fst a + snd a \<le> fst b) regions \<and> sorted_wrt disjoint_regions regions \<and>
        unat g = sum_list (map request_bytes rs)"
    using run * by blast
next
  assume "unat POOL_SIZE < sum_list (map request_bytes rs)"
  then show "alloc_all pool_alloc request_bytes rs pool_reset = Inl BadAlloc"
    using pool.all_fail [OF assms, of pool_reset] by (simp add: unat_pool_size pool_reset_def)
qed

text \<open>C21: after a reset, take any sequence of requests whose byte counts, as products in the integers, stay
  below 2^64 - 4194304, so that adding one to an offset in the pool does not wrap. If the
  total fits into the 4 MB, all requests succeed and hand out regions of the requested sizes inside the
  pool, pairwise disjoint and in increasing order, and the mark ends at the total; if it does not, some request
  throws \<open>bad_alloc\<close>. The bound is sharp: a request of exactly 2^64 - 4194304 bytes on a full pool
  passes the check and moves the mark back to the start.\<close>

theorem pool_regions_disjoint:
  assumes "\<forall>r \<in> set rs. request_ok r"
  shows "(sum_list (map request_bytes rs) \<le> unat POOL_SIZE \<longrightarrow>
      (\<exists>regions g. alloc_all pool_alloc request_bytes rs pool_reset = Inr (regions, g) \<and>
        map snd regions = map request_bytes rs \<and> (\<forall>(p, n) \<in> set regions. p + n \<le> unat POOL_SIZE) \<and>
        sorted_wrt (\<lambda>a b. fst a + snd a \<le> fst b) regions \<and> sorted_wrt disjoint_regions regions \<and>
        unat g = sum_list (map request_bytes rs))) \<and>
    (unat POOL_SIZE < sum_list (map request_bytes rs) \<longrightarrow>
      alloc_all pool_alloc request_bytes rs pool_reset = Inl BadAlloc) \<and>
    request_bytes (1, - POOL_SIZE) = 2 ^ 64 - 4194304 \<and> pool_alloc (1, - POOL_SIZE) POOL_SIZE = Inr (unat POOL_SIZE, 0)"
proof -
  have "request_bytes (1, - POOL_SIZE) = 2 ^ 64 - 4194304" by (simp add: request_bytes_def POOL_SIZE_def)
  moreover have "pool_alloc (1, - POOL_SIZE) POOL_SIZE = Inr (unat POOL_SIZE, 0)"
    by (simp add: pool_alloc_def allocate_def)
  ultimately show ?thesis using pool_regions_disjoint_parts [OF assms] by blast
qed

theorem pool_regions_disjoint_witness:
  "(\<exists>regions g. alloc_all pool_alloc request_bytes [(8, 100), (4, 3)] pool_reset = Inr (regions, g) \<and> map snd regions = [800, 12]) \<and>
   alloc_all pool_alloc request_bytes [(8, 100), (4, 2 ^ 20)] pool_reset = Inl BadAlloc"
  using pool_regions_disjoint [of "[(8, 100), (4, 3)]"] pool_regions_disjoint [of "[(8, 100), (4, 2 ^ 20)]"]
  by (auto simp: request_ok_def request_bytes_def unat_pool_size)

lemma pool_wraparound_parts:
  assumes "unat g \<le> unat POOL_SIZE"
  shows "allocate 1 (- g) g = Inr (g, 0)"
    and "0 < unat b \<Longrightarrow> unat b \<le> unat POOL_SIZE \<Longrightarrow>
      rbind (allocate 1 (- g) g) (\<lambda>(_, g'). allocate 1 b g') = Inr (0, b)"
proof -
  show wrap: "allocate 1 (- g) g = Inr (g, 0)"
    by (simp add: allocate_def)
  show "rbind (allocate 1 (- g) g) (\<lambda>(_, g'). allocate 1 b g') = Inr (0, b)"
    if "0 < unat b" "unat b \<le> unat POOL_SIZE"
    using that unfolding wrap by (simp add: allocate_def word_less_nat_alt not_less)
qed

text \<open>Without that bound the overflow check is defeated by wrap-around: a request whose byte
  count is the two's complement of the current offset succeeds and moves the mark back to zero,
  so the next allocation overlaps everything handed out before.\<close>

theorem pool_wraparound:
  assumes "unat g \<le> unat POOL_SIZE"
  shows "(allocate 1 (- g) g = Inr (g, 0)) \<and>
    (0 < unat b \<longrightarrow> unat b \<le> unat POOL_SIZE \<longrightarrow> rbind (allocate 1 (- g) g) (\<lambda>(_, g'). allocate 1 b g') = Inr (0, b))"
  using pool_wraparound_parts [OF assms] by blast

theorem pool_wraparound_witness: "allocate 1 (- 64) 64 = Inr (64, 0)"
  using pool_wraparound [of 64] by (simp add: unat_pool_size)

text \<open>The offset is not rounded up: after one byte an eight-byte object lands at offset 1.\<close>

lemma pool_unaligned: "rbind (allocate 1 1 pool_reset) (\<lambda>(_, g). allocate 8 1 g) = Inr (1, 9)"
  by (simp add: allocate_def pool_reset_def POOL_SIZE_def)

end
