(* ===== verification/Test_Harness.thy ===== *)
theory Test_Harness
  imports Complex_Main Prelude
begin

section \<open>Test and benchmark utilities\<close>

text \<open>
  Model of \<open>tools/common.hpp\<close> and of the macros it shares with \<open>tools/common.h\<close>. The static counters
  are a record. A test function is the sequence of the conditions its assertions check: a failing
  assertion counts a failure and returns from the function. The clock is a parameter \<open>clk\<close> that
  gives the reading, in nanoseconds, of each successive call of \<open>steady_clock::now\<close>.
\<close>

record harness =
  tests_run :: int
  tests_passed :: int
  tests_failed :: int
  current_test :: string

definition TEST_BEGIN :: "harness \<Rightarrow> harness" where
  "TEST_BEGIN h = h\<lparr>tests_run := 0, tests_passed := 0, tests_failed := 0\<rparr>"

text \<open>\<open>ASSERT_TRUE\<close>: the rest of the test is the continuation, skipped after a failure.\<close>

definition ASSERT_TRUE :: "bool \<Rightarrow> (harness \<Rightarrow> harness) \<Rightarrow> harness \<Rightarrow> harness" where
  "ASSERT_TRUE cond rest h =
     (if \<not> cond then h\<lparr>tests_failed := tests_failed h + 1\<rparr> else rest h)"

definition ASSERT_FALSE :: "bool \<Rightarrow> (harness \<Rightarrow> harness) \<Rightarrow> harness \<Rightarrow> harness" where
  "ASSERT_FALSE cond = ASSERT_TRUE (\<not> cond)"

definition ASSERT_EQ :: "'a \<Rightarrow> 'a \<Rightarrow> (harness \<Rightarrow> harness) \<Rightarrow> harness \<Rightarrow> harness" where
  "ASSERT_EQ expected actual rest h =
     (if expected \<noteq> actual then h\<lparr>tests_failed := tests_failed h + 1\<rparr> else rest h)"

text \<open>
  The other assertions of the two headers. The unsigned comparison of \<open>common.h\<close> casts both sides to
  64 bits; its string comparison fails on a null pointer, which \<open>common.hpp\<close> does not accept. \<open>sub\<close>
  is the subtraction of \<open>double\<close>, and \<open>ASSERT_THROWS\<close> gets the exception that its expression raises
  (\<open>None\<close> as its result: an exception of another type leaves the test).
\<close>

definition ASSERT_EQ_F :: "(real \<Rightarrow> real \<Rightarrow> real) \<Rightarrow> real \<Rightarrow> real \<Rightarrow> real \<Rightarrow> (harness \<Rightarrow> harness) \<Rightarrow> harness \<Rightarrow> harness" where
  "ASSERT_EQ_F sub expected actual tol rest h =
     (if \<bar>sub expected actual\<bar> > tol then h\<lparr>tests_failed := tests_failed h + 1\<rparr> else rest h)"

definition ASSERT_EQ_UINT :: "int \<Rightarrow> int \<Rightarrow> (harness \<Rightarrow> harness) \<Rightarrow> harness \<Rightarrow> harness" where
  "ASSERT_EQ_UINT expected actual rest h =
     (if (word_of_int expected :: 64 word) \<noteq> word_of_int actual then h\<lparr>tests_failed := tests_failed h + 1\<rparr> else rest h)"

definition ASSERT_NULL :: "'p option \<Rightarrow> (harness \<Rightarrow> harness) \<Rightarrow> harness \<Rightarrow> harness" where
  "ASSERT_NULL p = ASSERT_TRUE (p = None)"

definition ASSERT_NOT_NULL :: "'p option \<Rightarrow> (harness \<Rightarrow> harness) \<Rightarrow> harness \<Rightarrow> harness" where
  "ASSERT_NOT_NULL p = ASSERT_TRUE (p \<noteq> None)"

definition ASSERT_STR_EQ :: "string \<Rightarrow> string \<Rightarrow> (harness \<Rightarrow> harness) \<Rightarrow> harness \<Rightarrow> harness" where
  "ASSERT_STR_EQ expected actual rest h =
     (if expected \<noteq> actual then h\<lparr>tests_failed := tests_failed h + 1\<rparr> else rest h)"

definition ASSERT_STR_EQ_C :: "string option \<Rightarrow> string option \<Rightarrow> (harness \<Rightarrow> harness) \<Rightarrow> harness \<Rightarrow> harness" where
  "ASSERT_STR_EQ_C expected actual rest h =
     (if expected = None \<or> actual = None \<or> the expected \<noteq> the actual
      then h\<lparr>tests_failed := tests_failed h + 1\<rparr> else rest h)"

definition ASSERT_MEM_EQ :: "8 word list \<Rightarrow> 8 word list \<Rightarrow> nat \<Rightarrow> (harness \<Rightarrow> harness) \<Rightarrow> harness \<Rightarrow> harness res" where
  "ASSERT_MEM_EQ expected actual n rest h =
     (if length expected < n \<or> length actual < n then Inl OutOfBounds
      else if take n expected \<noteq> take n actual then Inr (h\<lparr>tests_failed := tests_failed h + 1\<rparr>) else Inr (rest h))"

definition ASSERT_THROWS :: "'e option \<Rightarrow> ('e \<Rightarrow> bool) \<Rightarrow> (harness \<Rightarrow> harness) \<Rightarrow> harness \<Rightarrow> harness option" where
  "ASSERT_THROWS raised is_ExcType rest h =
     (case raised of
        Some e \<Rightarrow> if is_ExcType e then Some (rest h) else None
      | None \<Rightarrow> Some (h\<lparr>tests_failed := tests_failed h + 1\<rparr>))"

definition RUN_TEST :: "string \<Rightarrow> (harness \<Rightarrow> harness) \<Rightarrow> harness \<Rightarrow> harness" where
  "RUN_TEST nm fn h =
     (let h1 = h\<lparr>current_test := nm\<rparr>;
          h2 = h1\<lparr>tests_run := tests_run h1 + 1\<rparr>;
          prev = tests_failed h2;
          h3 = fn h2
      in if tests_failed h3 = prev then h3\<lparr>tests_passed := tests_passed h3 + 1\<rparr> else h3)"

definition TEST_END :: "harness \<Rightarrow> int" where
  "TEST_END h = (if tests_failed h = 0 then 0 else 1)"

text \<open>A test function as the list of its assertions, and a test program.\<close>

fun test_body :: "bool list \<Rightarrow> harness \<Rightarrow> harness" where
  "test_body [] h = h"
| "test_body (c # cs) h = ASSERT_TRUE c (test_body cs) h"

fun run_tests :: "(string \<times> bool list) list \<Rightarrow> harness \<Rightarrow> harness" where
  "run_tests [] h = h"
| "run_tests ((nm, cs) # ts) h = run_tests ts (RUN_TEST nm (test_body cs) h)"

definition test_main :: "(string \<times> bool list) list \<Rightarrow> harness \<Rightarrow> harness \<times> int" where
  "test_main ts h = (let h1 = run_tests ts (TEST_BEGIN h) in (h1, TEST_END h1))"

subsection \<open>Timing\<close>

definition elapsed_ns :: "int \<Rightarrow> int \<Rightarrow> int res" where
  "elapsed_ns start now = chk64 (now - start)"

definition elapsed_us :: "int \<Rightarrow> int \<Rightarrow> int res" where
  "elapsed_us start now = rbind (chk64 (now - start)) (\<lambda>d. Inr (c_quot d 1000))"

definition elapsed_ms :: "int \<Rightarrow> int \<Rightarrow> int res" where
  "elapsed_ms start now = rbind (chk64 (now - start)) (\<lambda>d. Inr (c_quot d 1000000))"

text \<open>
  \<open>median_ns\<close>: each iteration reads the clock before and after \<open>fn\<close>. \<open>reserve\<close> of a negative count
  asks for more than \<open>max_size\<close> and throws \<open>length_error\<close>; zero iterations index an empty vector.
\<close>

definition median_ns :: "(nat \<Rightarrow> int) \<Rightarrow> int \<Rightarrow> int res" where
  "median_ns clk iterations =
     (if iterations < 0 then Inl LengthError
      else
        rbind (for_range 0 (nat iterations)
                 (\<lambda>i samples. rbind (elapsed_ns (clk (2 * i)) (clk (2 * i + 1))) (\<lambda>d. Inr (samples @ [d]))) [])
              (\<lambda>samples.
                 let xs = sort samples; i = length xs div 2 in
                 if i < length xs then Inr (xs ! i) else Inl OutOfBounds))"

text \<open>
  \<open>percentile\<close> computes its index in \<open>double\<close>; \<open>rnd\<close> is the rounding of that arithmetic. The result
  of an empty vector is an access at the largest \<open>size_t\<close>.
\<close>

definition percentile :: "(real \<Rightarrow> real) \<Rightarrow> int list \<Rightarrow> real \<Rightarrow> int res" where
  "percentile rnd xs p =
     (let idx0 = nat \<lfloor>rnd (rnd (p / 100) * real (length xs))\<rfloor>;
          idx = (if idx0 \<ge> length xs
                 then (if length xs = 0 then 18446744073709551615 else length xs - 1) else idx0)
      in if idx < length xs then Inr (xs ! idx) else Inl OutOfBounds)"

fun accumulate :: "int list \<Rightarrow> int \<Rightarrow> int res" where
  "accumulate [] s = Inr s"
| "accumulate (x # xs) s = rbind (chk64 (s + x)) (accumulate xs)"

text \<open>The values \<open>print_latency_dist\<close> prints: average, p50, p99 and p99.9.\<close>

definition print_latency_dist ::
  "(real \<Rightarrow> real) \<Rightarrow> int list \<Rightarrow> (real \<times> int \<times> int \<times> int) option res" where
  "print_latency_dist rnd samples =
     (if samples = [] then Inr None
      else
        let xs = sort samples in
        rbind (percentile rnd xs 50) (\<lambda>p50.
        rbind (percentile rnd xs 99) (\<lambda>p99.
        rbind (percentile rnd xs (999 / 10)) (\<lambda>p999.
        rbind (accumulate xs 0) (\<lambda>total.
        Inr (Some (rnd (rnd (real_of_int total) / real (length xs)), p50, p99, p999)))))))"

subsection \<open>Counters\<close>

text \<open>Every assertion is \<open>ASSERT_TRUE\<close> of its condition, so \<open>test_body\<close> covers all of them.\<close>

lemma asserts_are_conditions:
  "ASSERT_EQ a b = ASSERT_TRUE (a = b)"
  "ASSERT_EQ_F sub x y tol = ASSERT_TRUE (\<bar>sub x y\<bar> \<le> tol)"
  "ASSERT_EQ_UINT m n = ASSERT_TRUE (word_of_int m = (word_of_int n :: 64 word))"
  "ASSERT_STR_EQ s t = ASSERT_TRUE (s = t)"
  "ASSERT_STR_EQ_C (Some s) (Some t) = ASSERT_TRUE (s = t)"
  "ASSERT_STR_EQ_C None c = ASSERT_TRUE False"
  "ASSERT_STR_EQ_C c None = ASSERT_TRUE False"
  "ASSERT_THROWS None P rest h = Some (ASSERT_TRUE False rest h)"
  "P e \<Longrightarrow> ASSERT_THROWS (Some e) P rest h = Some (ASSERT_TRUE True rest h)"
  by (auto simp: fun_eq_iff ASSERT_TRUE_def ASSERT_EQ_def ASSERT_EQ_F_def ASSERT_EQ_UINT_def ASSERT_STR_EQ_def
      ASSERT_STR_EQ_C_def ASSERT_THROWS_def split: option.splits)

lemma assert_mem_eq_condition:
  "n \<le> length xs \<Longrightarrow> n \<le> length ys \<Longrightarrow> ASSERT_MEM_EQ xs ys n rest h = Inr (ASSERT_TRUE (take n xs = take n ys) rest h)"
  by (auto simp: ASSERT_MEM_EQ_def ASSERT_TRUE_def)

lemma test_body_spec:
  "test_body cs h = (if \<forall>c \<in> set cs. c then h else h\<lparr>tests_failed := tests_failed h + 1\<rparr>)"
  by (induction cs arbitrary: h) (auto simp: ASSERT_TRUE_def)

lemma run_tests_counts:
  "tests_run (run_tests ts h) = tests_run h + int (length ts)"
  "tests_passed (run_tests ts h) = tests_passed h + int (length (filter (\<lambda>t. \<forall>c \<in> set (snd t). c) ts))"
  "tests_failed (run_tests ts h) = tests_failed h + int (length (filter (\<lambda>t. \<not> (\<forall>c \<in> set (snd t). c)) ts))"
  by (induction ts h rule: run_tests.induct) (auto simp: RUN_TEST_def test_body_spec Let_def)

subsection \<open>Statistics\<close>

lemma percentile_index:
  assumes "xs \<noteq> []"
  shows "percentile rnd xs p =
    Inr (xs ! min (nat \<lfloor>rnd (rnd (p / 100) * real (length xs))\<rfloor>) (length xs - 1))"
proof -
  let ?i = "nat \<lfloor>rnd (rnd (p / 100) * real (length xs))\<rfloor>"
  have pos: "0 < length xs" using assms by simp
  show ?thesis
  proof (cases "length xs \<le> ?i")
    case True
    then have "min ?i (length xs - 1) = length xs - 1" by simp
    with True pos show ?thesis by (simp add: percentile_def Let_def)
  next
    case False
    then have "min ?i (length xs - 1) = ?i" by simp
    with False show ?thesis by (simp add: percentile_def Let_def)
  qed
qed

lemma percentile_mono:
  assumes "mono rnd" and "sorted xs" and "xs \<noteq> []" and "p \<le> q"
  shows "\<exists>a b. percentile rnd xs p = Inr a \<and> percentile rnd xs q = Inr b \<and> a \<le> b \<and> a \<in> set xs \<and> b \<in> set xs"
proof -
  let ?i = "\<lambda>p. min (nat \<lfloor>rnd (rnd (p / 100) * real (length xs))\<rfloor>) (length xs - 1)"
  have "rnd (rnd (p / 100) * real (length xs)) \<le> rnd (rnd (q / 100) * real (length xs))"
    using assms(1,4) by (intro monoD [OF assms(1)] mult_right_mono) (auto intro!: monoD [OF assms(1)])
  then have "?i p \<le> ?i q" by (intro min.mono nat_mono floor_mono) auto
  moreover have "?i q < length xs" using assms(3) by (cases xs) auto
  ultimately have "xs ! ?i p \<le> xs ! ?i q" using assms(2) by (intro sorted_nth_mono) auto
  moreover have "?i p < length xs" using assms(3) by (cases xs) auto
  ultimately show ?thesis
    using \<open>?i q < length xs\<close> percentile_index [OF assms(3), of rnd] nth_mem by metis
qed

lemma accumulate_sum: "accumulate xs s = Inr t \<Longrightarrow> t = s + sum_list xs"
  by (induction xs arbitrary: s) (fastforce simp: rbind_eq_Inr)+

lemma median_samples:
  assumes "\<And>i. i < n \<Longrightarrow> in_int64 (clk (2 * i + 1) - clk (2 * i))"
  shows "for_range 0 n
      (\<lambda>i samples. rbind (elapsed_ns (clk (2 * i)) (clk (2 * i + 1))) (\<lambda>d. Inr (samples @ [d]))) [] =
    Inr (map (\<lambda>i. clk (2 * i + 1) - clk (2 * i)) [0..<n])"
proof -
  let ?I = "\<lambda>i samples. samples = map (\<lambda>i. clk (2 * i + 1) - clk (2 * i)) [0..<i]"
  let ?body = "\<lambda>i samples. rbind (elapsed_ns (clk (2 * i)) (clk (2 * i + 1))) (\<lambda>d. Inr (samples @ [d]))"
  have "\<exists>s. for_range 0 n ?body [] = Inr s \<and> ?I n s"
    using assms by (intro for_range_invariant) (auto simp: elapsed_ns_def)
  then show ?thesis by auto
qed

text \<open>The middle element of a sorted list is a median.\<close>

lemma middle_is_median:
  assumes "xs \<noteq> []"
  defines "m \<equiv> sort xs ! (length xs div 2)"
  shows "length xs \<le> 2 * length (filter (\<lambda>x. x \<le> m) xs)" and "length xs \<le> 2 * length (filter (\<lambda>x. m \<le> x) xs)"
proof -
  let ?s = "sort xs" and ?k = "length xs div 2"
  have k: "?k < length ?s" using assms(1) by (cases xs) auto
  have count: "length (filter P xs) = length (filter P ?s)" for P
    by (metis mset_filter mset_sort size_mset)
  have "\<forall>x \<in> set (take (Suc ?k) ?s). x \<le> m"
    using k by (auto simp: in_set_conv_nth m_def intro!: sorted_nth_mono)
  then have "filter (\<lambda>x. x \<le> m) (take (Suc ?k) ?s) = take (Suc ?k) ?s" by (simp add: filter_id_conv)
  then have "Suc ?k \<le> length (filter (\<lambda>x. x \<le> m) ?s)"
    using k length_append filter_append [of "\<lambda>x. x \<le> m" "take (Suc ?k) ?s" "drop (Suc ?k) ?s"]
    by (simp add: Suc_leI)
  then show "length xs \<le> 2 * length (filter (\<lambda>x. x \<le> m) xs)" unfolding count by linarith
  have "\<forall>x \<in> set (drop ?k ?s). m \<le> x"
    using k by (auto simp: in_set_conv_nth m_def intro!: sorted_nth_mono)
  then have "filter (\<lambda>x. m \<le> x) (drop ?k ?s) = drop ?k ?s" by (simp add: filter_id_conv)
  then have "length xs - ?k \<le> length (filter (\<lambda>x. m \<le> x) ?s)"
    using filter_append [of "\<lambda>x. m \<le> x" "take ?k ?s" "drop ?k ?s"] by simp
  then show "length xs \<le> 2 * length (filter (\<lambda>x. m \<le> x) xs)" unfolding count by linarith
qed

subsection \<open>Main results\<close>

lemma harness_exit_code_parts:
  assumes "test_main ts h = (h', code)"
  shows "tests_run h' = int (length ts)"
    and "tests_passed h' = int (length (filter (\<lambda>t. \<forall>c \<in> set (snd t). c) ts))"
    and "tests_run h' = tests_passed h' + tests_failed h'"
    and "code = 0 \<longleftrightarrow> (\<forall>t \<in> set ts. \<forall>c \<in> set (snd t). c)"
proof -
  have h': "h' = run_tests ts (TEST_BEGIN h)" and code: "code = TEST_END h'"
    using assms by (auto simp: test_main_def Let_def)
  have "length (filter (\<lambda>t. \<forall>c \<in> set (snd t). c) ts) +
      length (filter (\<lambda>t. \<not> (\<forall>c \<in> set (snd t). c)) ts) = length ts"
    by (rule sum_length_filter_compl)
  then show "tests_run h' = tests_passed h' + tests_failed h'"
    unfolding h' run_tests_counts by (simp add: TEST_BEGIN_def flip: of_nat_add)
  show "code = 0 \<longleftrightarrow> (\<forall>t \<in> set ts. \<forall>c \<in> set (snd t). c)"
    unfolding code TEST_END_def h' run_tests_counts
    by (auto simp: TEST_BEGIN_def filter_empty_conv)
qed (use assms in \<open>auto simp: test_main_def Let_def run_tests_counts TEST_BEGIN_def\<close>)

text \<open>After a test program, the counters are exact: every test was counted as run, as passed when
  all its assertions hold, and as failed otherwise; the exit code is 0 exactly when every test
  passed.\<close>

theorem harness_exit_code:
  assumes "test_main ts h = (h', code)"
  shows "(tests_run h' = int (length ts)) \<and>
    (tests_passed h' = int (length (filter (\<lambda>t. \<forall>c \<in> set (snd t). c) ts))) \<and>
    (tests_run h' = tests_passed h' + tests_failed h') \<and>
    (code = 0 \<longleftrightarrow> (\<forall>t \<in> set ts. \<forall>c \<in> set (snd t). c))"
  using harness_exit_code_parts [OF assms] by blast

theorem harness_exit_code_witness:
  "snd (test_main [(''a'', [True, False, True])]
     \<lparr>tests_run = 7, tests_passed = 7, tests_failed = 0, current_test = []\<rparr>) \<noteq> 0"
proof -
  let ?h = "\<lparr>tests_run = 7, tests_passed = 7, tests_failed = 0, current_test = []\<rparr>"
  obtain h' code where run: "test_main [(''a'', [True, False, True])] ?h = (h', code)"
    by (cases "test_main [(''a'', [True, False, True])] ?h")
  from harness_exit_code [OF run] run show ?thesis by simp
qed

text \<open>For a positive number of iterations, \<open>median_ns\<close> returns a median of the measured durations:
  at least half of them are at most the result and at least half are at least the result.\<close>

theorem median_ns_is_median:
  assumes "0 < n" and "\<And>i. i < n \<Longrightarrow> in_int64 (clk (2 * i + 1) - clk (2 * i))"
  defines "samples \<equiv> map (\<lambda>i. clk (2 * i + 1) - clk (2 * i)) [0..<n]"
  shows "\<exists>m. median_ns clk (int n) = Inr m \<and> m \<in> set samples \<and>
    n \<le> 2 * length (filter (\<lambda>x. x \<le> m) samples) \<and> n \<le> 2 * length (filter (\<lambda>x. m \<le> x) samples)"
proof -
  have len: "length samples = n" "samples \<noteq> []" using assms(1) by (auto simp: samples_def)
  let ?m = "sort samples ! (length samples div 2)"
  have "median_ns clk (int n) = Inr ?m"
    unfolding median_ns_def Let_def
    using median_samples [of n clk, OF assms(2), folded samples_def] len assms(1) by simp
  moreover have "?m \<in> set (sort samples)" using len assms(1) by (intro nth_mem) simp
  ultimately show ?thesis using middle_is_median [OF len(2)] len(1) by simp
qed

theorem median_ns_is_median_witness:
  "\<exists>m. median_ns (\<lambda>i. int i * int i) (int 3) = Inr m"
proof -
  have "in_int64 (int (2 * i + 1) * int (2 * i + 1) - int (2 * i) * int (2 * i))" if "i < 3" for i
    using that by (auto simp: in_int64_def less_Suc_eq numeral_3_eq_3)
  then show ?thesis using median_ns_is_median [of 3 "\<lambda>i. int i * int i"] by auto
qed

text \<open>For nonempty samples, and any monotone rounding of the \<open>double\<close> arithmetic, the reported
  percentiles are samples and are ordered: p50 is at most p99, which is at most p99.9.\<close>

theorem latency_percentiles_ordered:
  assumes "mono rnd" and "samples \<noteq> []" and "print_latency_dist rnd samples = Inr (Some (avg, p50, p99, p999))"
  shows "p50 \<le> p99 \<and> p99 \<le> p999 \<and> {p50, p99, p999} \<subseteq> set samples \<and>
    avg = rnd (rnd (real_of_int (sum_list samples)) / real (length samples))"
proof -
  let ?s = "sort samples"
  have s: "?s \<noteq> []" "set ?s = set samples" "length ?s = length samples"
    using assms(2) by (metis length_0_conv length_sort, simp_all)
  from assms(2,3) obtain total where
    p: "percentile rnd ?s 50 = Inr p50" "percentile rnd ?s 99 = Inr p99" "percentile rnd ?s (999 / 10) = Inr p999"
    and total: "accumulate ?s 0 = Inr total" "avg = rnd (rnd (real_of_int total) / real (length ?s))"
    by (auto simp: print_latency_dist_def Let_def rbind_eq_Inr)
  have "sum_list ?s = sum_list samples"
    by (metis mset_sort sum_mset_sum_list)
  then have "avg = rnd (rnd (real_of_int (sum_list samples)) / real (length samples))"
    using total accumulate_sum [OF total(1)] s(3) by simp
  moreover have "p50 \<le> p99" "p50 \<in> set ?s" "p99 \<in> set ?s"
    using percentile_mono [OF assms(1) sorted_sort s(1), of 50 99] p(1,2) by simp_all
  moreover have "p99 \<le> p999" "p999 \<in> set ?s"
    using percentile_mono [OF assms(1) sorted_sort s(1), of 99 "999 / 10"] p(2,3) by simp_all
  ultimately show ?thesis using s(2) by blast
qed

theorem latency_percentiles_ordered_witness:
  "print_latency_dist (\<lambda>x. x) [3, 1, 2] = Inr (Some (2, 2, 3, 3)) \<and> {2, 3, 3} \<subseteq> set [3, 1, 2 :: int]"
proof -
  have "print_latency_dist (\<lambda>x. x) [3, 1, 2] = Inr (Some (2, 2, 3, 3))"
    by (simp add: print_latency_dist_def percentile_def in_int64_def Let_def floor_eq_iff)
  with latency_percentiles_ordered [of "\<lambda>x. x" "[3, 1, 2]" 2 2 3 3] show ?thesis
    by (simp add: mono_def)
qed

end
