(* ===== verification/Keyed_Map.thy ===== *)
theory Keyed_Map
  imports Prelude
begin

section \<open>Contract of a map with integer keys\<close>

text \<open>
  The benchmarks fill, query and iterate seven kinds of maps. What they rely on is the locale
  \<open>keyed_map\<close>: finding a key after storing an entry, and iteration over exactly the stored entries
  in some order. Storing over an existing key may keep the old value (\<open>emplace\<close>) or replace it
  (\<open>operator[]\<close> with an assignment); the law allows both. The maps of the standard library satisfy
  it by the models below; the maps of Boost are parameters of the model, assumed to satisfy it.
\<close>

record ('m, 'v) map_ops =
  mempty :: 'm
  mput :: "int \<Rightarrow> 'v \<Rightarrow> 'm \<Rightarrow> 'm"
  mfind :: "int \<Rightarrow> 'm \<Rightarrow> 'v option"
  mitems :: "'m \<Rightarrow> (int \<times> 'v) list"

locale keyed_map =
  fixes ops :: "('m, 'v) map_ops" and good :: "'m \<Rightarrow> bool"
  assumes good_empty: "good (mempty ops)"
    and good_put: "good m \<Longrightarrow> good (mput ops k v m)"
    and find_empty: "mfind ops k (mempty ops) = None"
    and find_put_other: "good m \<Longrightarrow> k \<noteq> k' \<Longrightarrow> mfind ops k (mput ops k' v m) = mfind ops k m"
    and find_put_new: "good m \<Longrightarrow> mfind ops k m = None \<Longrightarrow> mfind ops k (mput ops k v m) = Some v"
    and find_put_old: "good m \<Longrightarrow> mfind ops k m = Some w \<Longrightarrow>
      mfind ops k (mput ops k v m) = Some w \<or> mfind ops k (mput ops k v m) = Some v"
    and items_distinct: "good m \<Longrightarrow> distinct (map fst (mitems ops m))"
    and items_find: "good m \<Longrightarrow> map_of (mitems ops m) k = mfind ops k m"
begin

text \<open>Filling a map with entries whose value is a function of the key.\<close>

lemma fill_find:
  assumes "good m" and "\<And>k w. mfind ops k m = Some w \<Longrightarrow> w = f k"
  shows "good (fold (\<lambda>k. mput ops k (f k)) ks m) \<and>
    (\<forall>k. mfind ops k (fold (\<lambda>k. mput ops k (f k)) ks m) =
      (if k \<in> set ks then Some (f k) else mfind ops k m))"
  using assms
proof (induction ks arbitrary: m)
  case Nil
  then show ?case by simp
next
  case (Cons x ks)
  let ?m = "mput ops x (f x) m"
  have step: "mfind ops k ?m = (if k = x then Some (f k) else mfind ops k m)" for k
  proof (cases "k = x")
    case True
    then show ?thesis
      using find_put_new [OF Cons.prems(1), of x "f x"] find_put_old [OF Cons.prems(1), of x _ "f x"]
        Cons.prems(2) [of x]
      by (cases "mfind ops x m") auto
  qed (simp add: find_put_other Cons.prems(1))
  have "w = f k" if "mfind ops k ?m = Some w" for k w
    using that Cons.prems(2) by (auto simp: step split: if_splits)
  then show ?case
    using Cons.IH [OF good_put [OF Cons.prems(1)], of x "f x"] by (auto simp: step)
qed

lemma filled:
  "good (fold (\<lambda>k. mput ops k (f k)) ks (mempty ops))"
  "mfind ops k (fold (\<lambda>k. mput ops k (f k)) ks (mempty ops)) = (if k \<in> set ks then Some (f k) else None)"
  using fill_find [OF good_empty, of f ks] by (simp_all add: find_empty)

text \<open>Iteration over a filled map visits every key once.\<close>

lemma filled_items:
  assumes "distinct ks"
  shows "mset (mitems ops (fold (\<lambda>k. mput ops k (f k)) ks (mempty ops))) = mset (map (\<lambda>k. (k, f k)) ks)"
proof -
  let ?m = "fold (\<lambda>k. mput ops k (f k)) ks (mempty ops)"
  have dist: "distinct (map fst (mitems ops ?m))" by (rule items_distinct [OF filled(1)])
  have "map_of (mitems ops ?m) k = Some v \<longleftrightarrow> k \<in> set ks \<and> v = f k" for k v
    by (auto simp: items_find [OF filled(1)] filled(2))
  then have "set (mitems ops ?m) = set (map (\<lambda>k. (k, f k)) ks)"
    using map_of_eq_Some_iff [OF dist] by auto
  moreover have "distinct (mitems ops ?m)" "distinct (map (\<lambda>k. (k, f k)) ks)"
    using dist assms by (auto simp: distinct_map inj_on_def)
  ultimately show ?thesis using set_eq_iff_mset_eq_distinct by blast
qed

end

subsection \<open>The maps of the standard library\<close>

text \<open>
  \<open>std::map\<close>: entries in increasing order of the keys; \<open>operator[]\<close> with an assignment replaces the
  value of an existing key.
\<close>

fun smap_put :: "int \<Rightarrow> 'v \<Rightarrow> (int \<times> 'v) list \<Rightarrow> (int \<times> 'v) list" where
  "smap_put k v [] = [(k, v)]"
| "smap_put k v ((k', v') # es) =
     (if k < k' then (k, v) # (k', v') # es
      else if k = k' then (k, v) # es
      else (k', v') # smap_put k v es)"

definition smap_ops :: "((int \<times> 'v) list, 'v) map_ops" where
  "smap_ops = \<lparr>mempty = [], mput = smap_put, mfind = (\<lambda>k m. map_of m k), mitems = (\<lambda>m. m)\<rparr>"

text \<open>
  \<open>std::unordered_map\<close>: a new entry takes some place of the iteration order, which the standard
  leaves open; \<open>place\<close> chooses it.
\<close>

definition umap_put :: "(int \<Rightarrow> (int \<times> 'v) list \<Rightarrow> nat) \<Rightarrow> int \<Rightarrow> 'v \<Rightarrow> (int \<times> 'v) list \<Rightarrow> (int \<times> 'v) list" where
  "umap_put place k v es =
     (if k \<in> fst ` set es then map (\<lambda>(k', v'). (k', if k' = k then v else v')) es
      else let i = place k es in take i es @ (k, v) # drop i es)"

definition umap_ops :: "(int \<Rightarrow> (int \<times> 'v) list \<Rightarrow> nat) \<Rightarrow> ((int \<times> 'v) list, 'v) map_ops" where
  "umap_ops place =
     \<lparr>mempty = [], mput = umap_put place, mfind = (\<lambda>k m. map_of m k), mitems = (\<lambda>m. m)\<rparr>"

lemma smap_put_keys: "fst ` set (smap_put k v es) = insert k (fst ` set es)"
  by (induction k v es rule: smap_put.induct) auto

lemma smap_put_sorted: "sorted_wrt (<) (map fst es) \<Longrightarrow> sorted_wrt (<) (map fst (smap_put k v es))"
proof (induction k v es rule: smap_put.induct)
  case (2 k v k' v' es)
  have "\<forall>x \<in> fst ` set (smap_put k v es). k' < x" if "k' < k"
    using 2 that by (auto simp: smap_put_keys)
  with 2 show ?case by auto
qed simp

lemma smap_put_find: "sorted_wrt (<) (map fst es) \<Longrightarrow>
    map_of (smap_put k v es) j = (if j = k then Some v else map_of es j)"
  by (induction k v es rule: smap_put.induct) auto

lemma strict_keys_distinct: "sorted_wrt (<) (map fst es) \<Longrightarrow> distinct (map fst (es :: (int \<times> 'v) list))"
  by (simp add: strict_sorted_iff)

interpretation smap: keyed_map smap_ops "\<lambda>m. sorted_wrt (<) (map fst m)"
  by unfold_locales
    (auto simp: smap_ops_def smap_put_sorted smap_put_find strict_keys_distinct)

lemma umap_put_update:
  "map_of (map (\<lambda>(k', v'). (k', if k' = k then v else v')) es) j =
    (if j = k \<and> k \<in> fst ` set es then Some v else map_of es j)"
proof (induction es)
  case (Cons e es)
  obtain a b where e: "e = (a, b)" by (cases e)
  show ?case by (cases "a = j"; cases "a = k") (simp_all add: e Cons.IH)
qed simp

lemma umap_put_find:
  assumes "distinct (map fst es)"
  shows "map_of (umap_put place k v es) j = (if j = k then Some v else map_of es j)"
proof (cases "k \<in> fst ` set es")
  case True
  then show ?thesis by (simp add: umap_put_def umap_put_update)
next
  case False
  let ?i = "place k es"
  have "map_of (take ?i es) k = None"
    using False by (auto simp: map_of_eq_None_iff dest: in_set_takeD)
  moreover have "map_of es j = (map_of (drop ?i es) ++ map_of (take ?i es)) j"
    by (metis append_take_drop_id map_of_append)
  ultimately show ?thesis
    using False by (auto simp: umap_put_def Let_def map_add_def split: option.splits)
qed

lemma umap_put_distinct:
  assumes "distinct (map fst es)"
  shows "distinct (map fst (umap_put place k v es))"
proof (cases "k \<in> fst ` set es")
  case True
  have "fst \<circ> (\<lambda>(k', v'). (k', if k' = k then v else v')) = fst" by auto
  with True assms show ?thesis by (simp add: umap_put_def)
next
  case False
  let ?i = "place k es"
  have "distinct (map fst (take ?i es) @ map fst (drop ?i es))"
    using assms by (metis append_take_drop_id map_append)
  moreover have "k \<notin> fst ` set (take ?i es)" "k \<notin> fst ` set (drop ?i es)"
    using False by (auto dest: in_set_takeD in_set_dropD)
  ultimately show ?thesis using False by (auto simp: umap_put_def Let_def)
qed

interpretation umap: keyed_map "umap_ops place" "\<lambda>m. distinct (map fst m)" for place
  by unfold_locales (auto simp: umap_ops_def umap_put_find umap_put_distinct)

end
