(* ===== verification/Containers_Bench.thy ===== *)
theory Containers_Bench
  imports Keyed_Map Test_Harness C_Heap
begin

section \<open>Container benchmarks\<close>

text \<open>
  Model of \<open>03-stl-internals/exercises/ex1-container-benchmark/bench_containers.cpp\<close>. A benchmark
  function returns the nanoseconds it measured and the value it keeps alive with
  \<open>do_not_optimize\<close>; \<open>clk i\<close> and \<open>clk (i + 1)\<close> are its two clock readings. Sums accumulate in \<open>int\<close>
  or \<open>long long\<close> with overflow a fault. The random permutation of \<open>std::shuffle\<close> is given by the
  draws of the generator. The Boost maps are parameters (\<open>map_ops\<close>); \<open>reserve\<close> does not change the
  contents of a map and has no counterpart.
\<close>

subsection \<open>Test data\<close>

definition swap_at :: "nat \<Rightarrow> nat \<Rightarrow> 'a list \<Rightarrow> 'a list" where
  "swap_at i j xs = xs[i := xs ! j, j := xs ! i]"

text \<open>\<open>std::shuffle\<close>: element \<open>i\<close> is exchanged with the drawn element \<open>draw i\<close> at or before it.\<close>

definition shuffle_list :: "(nat \<Rightarrow> nat) \<Rightarrow> 'a list \<Rightarrow> 'a list" where
  "shuffle_list draw xs = fold (\<lambda>i. swap_at i (draw i)) [1..<length xs] xs"

definition generate_keys :: "(nat \<Rightarrow> nat) \<Rightarrow> int \<Rightarrow> int list res" where
  "generate_keys draw N =
     (if N < 0 then Inl LengthError
      else let nums = map int [0..<nat N] in Inr (shuffle_list draw nums))"

definition generate_shuffled :: "(nat \<Rightarrow> nat) \<Rightarrow> int list \<Rightarrow> int list" where
  "generate_shuffled draw ks = shuffle_list draw ks"

subsection \<open>Loops shared by the benchmarks\<close>

definition timed :: "(nat \<Rightarrow> int) \<Rightarrow> nat \<Rightarrow> 'k \<Rightarrow> (int \<times> 'k) res" where
  "timed clk i kept = rbind (elapsed_ns (clk i) (clk (i + 1))) (\<lambda>ns. Inr (ns, kept))"

fun sum_into :: "(int \<Rightarrow> int res) \<Rightarrow> int list \<Rightarrow> int \<Rightarrow> int res" where
  "sum_into ov [] s = Inr s"
| "sum_into ov (x # xs) s = rbind (ov (s + x)) (sum_into ov xs)"

fun lookup_into :: "(int \<Rightarrow> int res) \<Rightarrow> (int \<Rightarrow> int option) \<Rightarrow> int list \<Rightarrow> int \<Rightarrow> int res" where
  "lookup_into ov fnd [] s = Inr s"
| "lookup_into ov fnd (v # q) s =
     (case fnd v of
        None \<Rightarrow> lookup_into ov fnd q s
      | Some x \<Rightarrow> rbind (ov (s + x)) (lookup_into ov fnd q))"

definition lower_bound :: "int list \<Rightarrow> int \<Rightarrow> int option" where
  "lower_bound xs v = List.find (\<lambda>x. \<not> x < v) xs"

definition std_find :: "int list \<Rightarrow> int \<Rightarrow> int option" where
  "std_find xs v = List.find (\<lambda>x. x = v) xs"

definition push_all_back :: "int list \<Rightarrow> int list" where
  "push_all_back ks = fold (\<lambda>k v. v @ [k]) ks []"

definition put_all :: "('m, int) map_ops \<Rightarrow> int list \<Rightarrow> 'm" where
  "put_all ops ks = fold (\<lambda>k. mput ops k k) ks (mempty ops)"

subsection \<open>Insert benchmarks\<close>

definition bench_insert_vector :: "(nat \<Rightarrow> int) \<Rightarrow> nat \<Rightarrow> int list \<Rightarrow> (int \<times> int list) res" where
  "bench_insert_vector clk i ks = timed clk i (sort (push_all_back ks))"

definition bench_insert_map :: "(nat \<Rightarrow> int) \<Rightarrow> nat \<Rightarrow> int list \<Rightarrow> (int \<times> (int \<times> int) list) res" where
  "bench_insert_map clk i ks = timed clk i (put_all smap_ops ks)"

definition bench_insert_umap ::
  "(int \<Rightarrow> (int \<times> int) list \<Rightarrow> nat) \<Rightarrow> (nat \<Rightarrow> int) \<Rightarrow> nat \<Rightarrow> int list \<Rightarrow> (int \<times> (int \<times> int) list) res" where
  "bench_insert_umap place clk i ks = timed clk i (put_all (umap_ops place) ks)"

definition bench_insert_list :: "(nat \<Rightarrow> int) \<Rightarrow> nat \<Rightarrow> int list \<Rightarrow> (int \<times> int list) res" where
  "bench_insert_list clk i ks = timed clk i (push_all_back ks)"

definition bench_insert_deque :: "(nat \<Rightarrow> int) \<Rightarrow> nat \<Rightarrow> int list \<Rightarrow> (int \<times> int list) res" where
  "bench_insert_deque clk i ks = timed clk i (push_all_back ks)"

subsection \<open>Lookup benchmarks\<close>

definition bench_lookup_vector :: "(nat \<Rightarrow> int) \<Rightarrow> nat \<Rightarrow> int list \<Rightarrow> int list \<Rightarrow> (int \<times> int) res" where
  "bench_lookup_vector clk i sorted_v q =
     rbind (lookup_into chk32 (lower_bound sorted_v) q 0) (timed clk i)"

definition bench_lookup_map :: "(nat \<Rightarrow> int) \<Rightarrow> nat \<Rightarrow> (int \<times> int) list \<Rightarrow> int list \<Rightarrow> (int \<times> int) res" where
  "bench_lookup_map clk i m q =
     rbind (lookup_into chk32 (\<lambda>v. mfind smap_ops v m) q 0) (timed clk i)"

definition bench_lookup_umap ::
  "(int \<Rightarrow> (int \<times> int) list \<Rightarrow> nat) \<Rightarrow> (nat \<Rightarrow> int) \<Rightarrow> nat \<Rightarrow> (int \<times> int) list \<Rightarrow> int list \<Rightarrow> (int \<times> int) res" where
  "bench_lookup_umap place clk i h q =
     rbind (lookup_into chk32 (\<lambda>v. mfind (umap_ops place) v h) q 0) (timed clk i)"

definition LINEAR_SCAN_CAP :: int where
  "LINEAR_SCAN_CAP = 1000"

text \<open>
  The linear scans query at most \<open>LINEAR_SCAN_CAP\<close> elements and scale the time up by an integer
  quotient; the quotient divides by zero for an empty query set.
\<close>

definition linear_lookup :: "(nat \<Rightarrow> int) \<Rightarrow> nat \<Rightarrow> int list \<Rightarrow> int list \<Rightarrow> (int \<times> int) res" where
  "linear_lookup clk i l q =
     (let limit = min (size_to_int (length q)) LINEAR_SCAN_CAP in
      rbind (lookup_into chk32 (std_find l) (take (nat limit) q) 0) (\<lambda>sum.
      rbind (elapsed_ns (clk i) (clk (i + 1))) (\<lambda>ns.
      if limit = 0 then Inl DivByZero
      else rbind (chk64 (ns * c_quot (size_to_int (length q)) limit)) (\<lambda>r. Inr (r, sum)))))"

definition bench_lookup_list :: "(nat \<Rightarrow> int) \<Rightarrow> nat \<Rightarrow> int list \<Rightarrow> int list \<Rightarrow> (int \<times> int) res" where
  "bench_lookup_list clk i l q = linear_lookup clk i l q"

definition bench_lookup_deque :: "(nat \<Rightarrow> int) \<Rightarrow> nat \<Rightarrow> int list \<Rightarrow> int list \<Rightarrow> (int \<times> int) res" where
  "bench_lookup_deque clk i d q = linear_lookup clk i d q"

subsection \<open>Iteration benchmarks\<close>

definition bench_iter_vector :: "(nat \<Rightarrow> int) \<Rightarrow> nat \<Rightarrow> int list \<Rightarrow> (int \<times> int) res" where
  "bench_iter_vector clk i v = rbind (sum_into chk32 v 0) (timed clk i)"

definition bench_iter_map :: "(nat \<Rightarrow> int) \<Rightarrow> nat \<Rightarrow> (int \<times> int) list \<Rightarrow> (int \<times> int) res" where
  "bench_iter_map clk i m = rbind (sum_into chk32 (map snd (mitems smap_ops m)) 0) (timed clk i)"

definition bench_iter_umap ::
  "(int \<Rightarrow> (int \<times> int) list \<Rightarrow> nat) \<Rightarrow> (nat \<Rightarrow> int) \<Rightarrow> nat \<Rightarrow> (int \<times> int) list \<Rightarrow> (int \<times> int) res" where
  "bench_iter_umap place clk i h =
     rbind (sum_into chk32 (map snd (mitems (umap_ops place) h)) 0) (timed clk i)"

definition bench_iter_list :: "(nat \<Rightarrow> int) \<Rightarrow> nat \<Rightarrow> int list \<Rightarrow> (int \<times> int) res" where
  "bench_iter_list clk i l = rbind (sum_into chk32 l 0) (timed clk i)"

definition bench_iter_deque :: "(nat \<Rightarrow> int) \<Rightarrow> nat \<Rightarrow> int list \<Rightarrow> (int \<times> int) res" where
  "bench_iter_deque clk i d = rbind (sum_into chk32 d 0) (timed clk i)"

subsection \<open>Boost maps\<close>

definition bench_insert_uflat :: "('m, int) map_ops \<Rightarrow> (nat \<Rightarrow> int) \<Rightarrow> nat \<Rightarrow> int list \<Rightarrow> (int \<times> 'm) res" where
  "bench_insert_uflat ops clk i ks = timed clk i (put_all ops ks)"

definition bench_lookup_uflat :: "('m, int) map_ops \<Rightarrow> (nat \<Rightarrow> int) \<Rightarrow> nat \<Rightarrow> 'm \<Rightarrow> int list \<Rightarrow> (int \<times> int) res" where
  "bench_lookup_uflat ops clk i h q = rbind (lookup_into chk64 (\<lambda>k. mfind ops k h) q 0) (timed clk i)"

definition bench_iter_uflat :: "('m, int) map_ops \<Rightarrow> (nat \<Rightarrow> int) \<Rightarrow> nat \<Rightarrow> 'm \<Rightarrow> (int \<times> int) res" where
  "bench_iter_uflat ops clk i h = rbind (sum_into chk64 (map snd (mitems ops h)) 0) (timed clk i)"

definition bench_insert_flatmap :: "('m, int) map_ops \<Rightarrow> (nat \<Rightarrow> int) \<Rightarrow> nat \<Rightarrow> int list \<Rightarrow> (int \<times> 'm) res" where
  "bench_insert_flatmap ops clk i ks = timed clk i (put_all ops ks)"

definition bench_lookup_flatmap :: "('m, int) map_ops \<Rightarrow> (nat \<Rightarrow> int) \<Rightarrow> nat \<Rightarrow> 'm \<Rightarrow> int list \<Rightarrow> (int \<times> int) res" where
  "bench_lookup_flatmap ops clk i m q = rbind (lookup_into chk64 (\<lambda>k. mfind ops k m) q 0) (timed clk i)"

definition bench_iter_flatmap :: "('m, int) map_ops \<Rightarrow> (nat \<Rightarrow> int) \<Rightarrow> nat \<Rightarrow> 'm \<Rightarrow> (int \<times> int) res" where
  "bench_iter_flatmap ops clk i m = rbind (sum_into chk64 (map snd (mitems ops m)) 0) (timed clk i)"

definition bench_insert_node_map :: "('m, int) map_ops \<Rightarrow> (nat \<Rightarrow> int) \<Rightarrow> nat \<Rightarrow> int list \<Rightarrow> (int \<times> 'm) res" where
  "bench_insert_node_map ops clk i ks = timed clk i (put_all ops ks)"

definition bench_lookup_node_map :: "('m, int) map_ops \<Rightarrow> (nat \<Rightarrow> int) \<Rightarrow> nat \<Rightarrow> 'm \<Rightarrow> int list \<Rightarrow> (int \<times> int) res" where
  "bench_lookup_node_map ops clk i h q = rbind (lookup_into chk64 (\<lambda>k. mfind ops k h) q 0) (timed clk i)"

definition bench_iter_node_map :: "('m, int) map_ops \<Rightarrow> (nat \<Rightarrow> int) \<Rightarrow> nat \<Rightarrow> 'm \<Rightarrow> (int \<times> int) res" where
  "bench_iter_node_map ops clk i h = rbind (sum_into chk64 (map snd (mitems ops h)) 0) (timed clk i)"

text \<open>
  \<open>FlatPtrMap\<close>: the values are \<open>unique_ptr\<close>s, addresses of one-element blocks. An \<open>emplace\<close> that
  finds its key present leaves the temporary pointer to release its block.
\<close>

fun ptr_fill :: "('m, addr) map_ops \<Rightarrow> int list \<Rightarrow> 'm \<times> int heap \<Rightarrow> ('m \<times> int heap) res" where
  "ptr_fill ops [] s = Inr s"
| "ptr_fill ops (k # ks) (m, h) =
     (let (a, h1) = halloc [k] h in
      case mfind ops k m of
        None \<Rightarrow> ptr_fill ops ks (mput ops k a m, h1)
      | Some _ \<Rightarrow> rbind (hfree (Some a) h1) (\<lambda>h2. ptr_fill ops ks (m, h2)))"

fun ptr_lookup :: "('m, addr) map_ops \<Rightarrow> 'm \<times> int heap \<Rightarrow> int list \<Rightarrow> int \<Rightarrow> int res" where
  "ptr_lookup ops mh [] s = Inr s"
| "ptr_lookup ops mh (k # q) s =
     (case mfind ops k (fst mh) of
        None \<Rightarrow> ptr_lookup ops mh q s
      | Some a \<Rightarrow> rbind (hread (Some a) 0 (snd mh)) (\<lambda>x. rbind (chk64 (s + x)) (ptr_lookup ops mh q)))"

fun ptr_sum :: "int heap \<Rightarrow> addr list \<Rightarrow> int \<Rightarrow> int res" where
  "ptr_sum h [] s = Inr s"
| "ptr_sum h (a # as) s = rbind (hread (Some a) 0 h) (\<lambda>x. rbind (chk64 (s + x)) (ptr_sum h as))"

fun ptr_release :: "addr list \<Rightarrow> int heap \<Rightarrow> int heap res" where
  "ptr_release [] h = Inr h"
| "ptr_release (a # as) h = rbind (hfree (Some a) h) (ptr_release as)"

text \<open>The local map of \<open>bench_insert_uflat_ptr\<close> is destroyed on return; the heap remains.\<close>

definition bench_insert_uflat_ptr ::
  "('m, addr) map_ops \<Rightarrow> (nat \<Rightarrow> int) \<Rightarrow> nat \<Rightarrow> int list \<Rightarrow> int heap \<Rightarrow> (int \<times> int heap) res" where
  "bench_insert_uflat_ptr ops clk i ks h =
     rbind (ptr_fill ops ks (mempty ops, h)) (\<lambda>(m, h1).
     rbind (elapsed_ns (clk i) (clk (i + 1))) (\<lambda>ns.
     rbind (ptr_release (map snd (mitems ops m)) h1) (\<lambda>h2.
     Inr (ns, h2))))"

definition bench_lookup_uflat_ptr ::
  "('m, addr) map_ops \<Rightarrow> (nat \<Rightarrow> int) \<Rightarrow> nat \<Rightarrow> 'm \<times> int heap \<Rightarrow> int list \<Rightarrow> (int \<times> int) res" where
  "bench_lookup_uflat_ptr ops clk i mh q = rbind (ptr_lookup ops mh q 0) (timed clk i)"

definition bench_iter_uflat_ptr ::
  "('m, addr) map_ops \<Rightarrow> (nat \<Rightarrow> int) \<Rightarrow> nat \<Rightarrow> 'm \<times> int heap \<Rightarrow> (int \<times> int) res" where
  "bench_iter_uflat_ptr ops clk i mh =
     rbind (ptr_sum (snd mh) (map snd (mitems ops (fst mh))) 0) (timed clk i)"

subsection \<open>main\<close>

text \<open>
  \<open>bench_rows N\<close> is the body of \<open>main\<close> for \<open>const int N\<close>: the times it measures, in the order of the
  table (the row of the \<open>unique_ptr\<close> map is measured but not printed). The printing is in
  \<open>Bench_Table\<close>.
\<close>

type_synonym bench_row = "string \<times> int \<times> int \<times> int"

definition bench_rows ::
  "int \<Rightarrow> (nat \<Rightarrow> nat) \<Rightarrow> (nat \<Rightarrow> nat) \<Rightarrow> (nat \<Rightarrow> int) \<Rightarrow> (int \<Rightarrow> (int \<times> int) list \<Rightarrow> nat) \<Rightarrow>
   ('a, int) map_ops \<Rightarrow> ('b, int) map_ops \<Rightarrow> ('c, addr) map_ops \<Rightarrow> ('d, int) map_ops \<Rightarrow> bench_row list res" where
  "bench_rows N draw1 draw2 clk place uflat_ops flat_ops ptr_ops node_ops =
     rbind (generate_keys draw1 N) (\<lambda>ks.
       let queries = generate_shuffled draw2 ks in
     rbind (bench_insert_vector clk 0 ks) (\<lambda>(v_ins, _).
       let sorted_v = sort ks in
     rbind (bench_lookup_vector clk 2 sorted_v queries) (\<lambda>(v_look, _).
     rbind (bench_iter_vector clk 4 sorted_v) (\<lambda>(v_iter, _).
     rbind (bench_insert_map clk 6 ks) (\<lambda>(m_ins, _).
       let map_m = put_all smap_ops ks in
     rbind (bench_lookup_map clk 8 map_m queries) (\<lambda>(m_look, _).
     rbind (bench_iter_map clk 10 map_m) (\<lambda>(m_iter, _).
     rbind (bench_insert_umap place clk 12 ks) (\<lambda>(h_ins, _).
       let umap_h = put_all (umap_ops place) ks in
     rbind (bench_lookup_umap place clk 14 umap_h queries) (\<lambda>(h_look, _).
     rbind (bench_iter_umap place clk 16 umap_h) (\<lambda>(h_iter, _).
     rbind (bench_insert_list clk 18 ks) (\<lambda>(l_ins, _).
       let list_l = push_all_back ks in
     rbind (bench_lookup_list clk 20 list_l queries) (\<lambda>(l_look, _).
     rbind (bench_iter_list clk 22 list_l) (\<lambda>(l_iter, _).
     rbind (bench_insert_deque clk 24 ks) (\<lambda>(d_ins, _).
       let deque_d = push_all_back ks in
     rbind (bench_lookup_deque clk 26 deque_d queries) (\<lambda>(d_look, _).
     rbind (bench_iter_deque clk 28 deque_d) (\<lambda>(d_iter, _).
     rbind (bench_insert_uflat uflat_ops clk 30 ks) (\<lambda>(uf_ins, _).
       let uflat_h = put_all uflat_ops ks in
     rbind (bench_lookup_uflat uflat_ops clk 32 uflat_h queries) (\<lambda>(uf_look, _).
     rbind (bench_iter_uflat uflat_ops clk 34 uflat_h) (\<lambda>(uf_iter, _).
     rbind (bench_insert_flatmap flat_ops clk 36 ks) (\<lambda>(fm_ins, _).
       let flat_m = put_all flat_ops ks in
     rbind (bench_lookup_flatmap flat_ops clk 38 flat_m queries) (\<lambda>(fm_look, _).
     rbind (bench_iter_flatmap flat_ops clk 40 flat_m) (\<lambda>(fm_iter, _).
     rbind (bench_insert_uflat_ptr ptr_ops clk 42 ks empty_heap) (\<lambda>(ufp_ins, heap1).
     rbind (ptr_fill ptr_ops ks (mempty ptr_ops, heap1)) (\<lambda>uflat_ptr_h.
     rbind (bench_lookup_uflat_ptr ptr_ops clk 44 uflat_ptr_h queries) (\<lambda>(ufp_look, _).
     rbind (bench_iter_uflat_ptr ptr_ops clk 46 uflat_ptr_h) (\<lambda>(ufp_iter, _).
     rbind (bench_insert_node_map node_ops clk 48 ks) (\<lambda>(nm_ins, _).
       let node_h = put_all node_ops ks in
     rbind (bench_lookup_node_map node_ops clk 50 node_h queries) (\<lambda>(nm_look, _).
     rbind (bench_iter_node_map node_ops clk 52 node_h) (\<lambda>(nm_iter, _).
     rbind (ptr_release (map snd (mitems ptr_ops (fst uflat_ptr_h))) (snd uflat_ptr_h)) (\<lambda>_.
     Inr [(''std::list'', l_ins, l_look, l_iter),
          (''std::deque'', d_ins, d_look, d_iter),
          (''vector+lower_bound'', v_ins, v_look, v_iter),
          (''std::map'', m_ins, m_look, m_iter),
          (''unordered_map'', h_ins, h_look, h_iter),
          (''boost::unord_flat_map'', uf_ins, uf_look, uf_iter),
          (''boost::flat_map'', fm_ins, fm_look, fm_iter),
          (''boost::node_map (heap allocation)'', nm_ins, nm_look, nm_iter)]))))))))))))))))))))))))))))))"

definition bench_main where
  "bench_main = bench_rows 1000000"

subsection \<open>Shuffling\<close>

lemma mset_swap_at: "i < length xs \<Longrightarrow> j < length xs \<Longrightarrow> mset (swap_at i j xs) = mset xs"
  by (simp add: swap_at_def mset_swap)

lemma mset_fold_swap:
  "\<forall>i \<in> set is. i < length xs \<and> draw i \<le> i \<Longrightarrow> mset (fold (\<lambda>i. swap_at i (draw i)) is xs) = mset xs"
proof (induction "is" arbitrary: xs)
  case (Cons i "is")
  have "length (swap_at i (draw i) xs) = length xs" by (simp add: swap_at_def)
  then have "mset (fold (\<lambda>i. swap_at i (draw i)) is (swap_at i (draw i) xs)) = mset (swap_at i (draw i) xs)"
    using Cons.prems by (intro Cons.IH) auto
  also have "\<dots> = mset xs" using Cons.prems by (intro mset_swap_at) auto
  finally show ?case by simp
qed simp

lemma mset_shuffle: "(\<And>i. draw i \<le> i) \<Longrightarrow> mset (shuffle_list draw xs) = mset xs"
  by (simp add: shuffle_list_def mset_fold_swap)

lemma push_all_back_id: "push_all_back ks = ks"
proof -
  have "fold (\<lambda>k v. v @ [k]) ks v = v @ ks" for v by (induction ks arbitrary: v) auto
  then show ?thesis by (simp add: push_all_back_def)
qed

subsection \<open>Sums\<close>

lemma sum_into_exact:
  assumes "\<forall>x \<in> set xs. 0 \<le> x" and "0 \<le> s"
  shows "s + sum_list xs \<le> 2147483647 \<Longrightarrow> sum_into chk32 xs s = Inr (s + sum_list xs)"
    and "s + sum_list xs \<le> 9223372036854775807 \<Longrightarrow> sum_into chk64 xs s = Inr (s + sum_list xs)"
    and "2147483647 < s + sum_list xs \<Longrightarrow> s \<le> 2147483647 \<Longrightarrow> sum_into chk32 xs s = Inl SignedOverflow"
proof -
  have nonneg: "0 \<le> sum_list ys" if "\<forall>y \<in> set ys. 0 \<le> y" for ys :: "int list"
    using that by (intro sum_list_nonneg) simp
  show "sum_into chk32 xs s = Inr (s + sum_list xs)" if "s + sum_list xs \<le> 2147483647"
    using assms that
  proof (induction xs arbitrary: s)
    case (Cons x xs)
    then have "in_int (s + x)" using nonneg [of xs] by (auto simp: in_int_def)
    with Cons show ?case by (simp add: add.assoc)
  qed simp
  show "sum_into chk64 xs s = Inr (s + sum_list xs)" if "s + sum_list xs \<le> 9223372036854775807"
    using assms that
  proof (induction xs arbitrary: s)
    case (Cons x xs)
    then have "in_int64 (s + x)" using nonneg [of xs] by (auto simp: in_int64_def)
    with Cons show ?case by (simp add: add.assoc)
  qed simp
  show "sum_into chk32 xs s = Inl SignedOverflow" if "2147483647 < s + sum_list xs" "s \<le> 2147483647"
    using assms that
  proof (induction xs arbitrary: s)
    case (Cons x xs)
    then show ?case by (cases "s + x \<le> 2147483647") (auto simp: chk32_def in_int_def add.assoc)
  qed simp
qed

text \<open>Lookups accumulate the queries that are found.\<close>

lemma lookup_into_hits:
  "\<forall>v \<in> set q. fnd v = (if P v then Some v else None) \<Longrightarrow>
    lookup_into ov fnd q s = sum_into ov (filter P q) s"
proof (induction q arbitrary: s)
  case (Cons v q)
  then show ?case by (simp cong: rbind_cong)
qed simp

lemma lookup_into_found:
  "\<forall>v \<in> set q. fnd v = Some v \<Longrightarrow> lookup_into ov fnd q s = sum_into ov q s"
  using lookup_into_hits [of q fnd "\<lambda>_. True"] by simp

lemma lower_bound_member: "sorted xs \<Longrightarrow> v \<in> set xs \<Longrightarrow> lower_bound xs v = Some v"
  by (induction xs) (auto simp: lower_bound_def)

lemma std_find_member: "v \<in> set xs \<Longrightarrow> std_find xs v = Some v"
  by (induction xs) (auto simp: std_find_def)

subsection \<open>The map of owning pointers\<close>

text \<open>Every entry of the map owns a live block that holds its key; \<open>g\<close> are the other blocks.\<close>

definition ptr_inv ::
  "('m, addr) map_ops \<Rightarrow> ('m \<Rightarrow> bool) \<Rightarrow> (addr \<rightharpoonup> int list) \<Rightarrow> 'm \<times> int heap \<Rightarrow> bool" where
  "ptr_inv ops good g mh \<longleftrightarrow>
     good (fst mh) \<and> heap_ok (snd mh) \<and>
     (\<forall>k a. mfind ops k (fst mh) = Some a \<longrightarrow> blocks (snd mh) a = Some [k] \<and> g a = None) \<and>
     (\<forall>a. (\<forall>k. mfind ops k (fst mh) \<noteq> Some a) \<longrightarrow> blocks (snd mh) a = g a)"

context keyed_map
begin

lemma find_put_first:
  "good m \<Longrightarrow> mfind ops k m = None \<Longrightarrow> mfind ops j (mput ops k v m) = (if j = k then Some v else mfind ops j m)"
  using find_put_new find_put_other by auto

end

lemma ptr_inv_insert:
  assumes km: "keyed_map ops good" and inv: "ptr_inv ops good g (m, h)" and new: "mfind ops k m = None"
  shows "ptr_inv ops good g (mput ops k (brk h) m, snd (halloc [k] h))"
proof -
  have good: "good m" "heap_ok h" using inv by (simp_all add: ptr_inv_def)
  have find: "mfind ops j (mput ops k (brk h) m) = (if j = k then Some (brk h) else mfind ops j m)" for j
    by (rule keyed_map.find_put_first [OF km good(1) new])
  have fresh: "blocks h (brk h) = None" using good(2) by (rule heap_ok_fresh)
  then have unused: "mfind ops j m \<noteq> Some (brk h)" for j
    using inv by (auto simp: ptr_inv_def)
  then have "g (brk h) = None"
    using inv fresh by (auto simp: ptr_inv_def)
  then show ?thesis
    using inv heap_ok_halloc [OF good(2), of "[k]"] keyed_map.good_put [OF km good(1)] unused new
    by (auto simp: ptr_inv_def find halloc_def split: if_splits) (metis option.distinct(1))
qed

lemma ptr_fill_inv:
  assumes km: "keyed_map ops good" and inv: "ptr_inv ops good g (m, h)"
  shows "\<exists>m' h'. ptr_fill ops ks (m, h) = Inr (m', h') \<and> ptr_inv ops good g (m', h') \<and>
    (\<forall>k. mfind ops k m' = None \<longleftrightarrow> mfind ops k m = None \<and> k \<notin> set ks)"
  using inv
proof (induction ks arbitrary: m h)
  case Nil
  then show ?case by simp
next
  case (Cons k ks)
  show ?case
  proof (cases "mfind ops k m")
    case None
    let ?m = "mput ops k (brk h) m" and ?h = "snd (halloc [k] h)"
    have find: "mfind ops j ?m = (if j = k then Some (brk h) else mfind ops j m)" for j
      using keyed_map.find_put_first [OF km _ None] Cons.prems by (simp add: ptr_inv_def)
    obtain m' h' where "ptr_fill ops ks (?m, ?h) = Inr (m', h')" "ptr_inv ops good g (m', h')"
      "\<forall>j. mfind ops j m' = None \<longleftrightarrow> mfind ops j ?m = None \<and> j \<notin> set ks"
      using Cons.IH [OF ptr_inv_insert [OF km Cons.prems None]] by blast
    then show ?thesis using None by (auto simp: halloc_def find)
  next
    case (Some a)
    have ok: "heap_ok h" using Cons.prems by (simp add: ptr_inv_def)
    let ?h = "h\<lparr>brk := Suc (brk h)\<rparr>"
    have "(blocks h)(brk h := None) = blocks h" using heap_ok_fresh [OF ok] by (rule fun_upd_idem)
    then have "hfree (Some (brk h)) (snd (halloc [k] h)) = Inr ?h"
      by (simp add: halloc_def hfree_Some)
    moreover have "ptr_inv ops good g (m, ?h)"
      using Cons.prems by (auto simp: ptr_inv_def heap_ok_def less_Suc_eq)
    then obtain m' h' where "ptr_fill ops ks (m, ?h) = Inr (m', h')" "ptr_inv ops good g (m', h')"
      "\<forall>j. mfind ops j m' = None \<longleftrightarrow> mfind ops j m = None \<and> j \<notin> set ks"
      using Cons.IH by blast
    ultimately show ?thesis using Some by (auto simp: halloc_def)
  qed
qed

lemma ptr_lookup_ok:
  assumes "ptr_inv ops good g mh"
  shows "ptr_lookup ops mh q s = sum_into chk64 (filter (\<lambda>k. mfind ops k (fst mh) \<noteq> None) q) s"
proof (induction q arbitrary: s)
  case (Cons k q)
  show ?case
  proof (cases "mfind ops k (fst mh)")
    case (Some a)
    with assms have "hread (Some a) 0 (snd mh) = Inr k" by (simp add: ptr_inv_def hread_Some)
    with Some Cons show ?thesis by (simp cong: rbind_cong)
  qed (simp add: Cons)
qed simp

lemma ptr_release_ok:
  assumes "distinct as" and "\<forall>a \<in> set as. blocks h a \<noteq> None"
  shows "\<exists>h'. ptr_release as h = Inr h' \<and> (\<forall>a. blocks h' a = (if a \<in> set as then None else blocks h a))"
  using assms
proof (induction "as" arbitrary: h)
  case (Cons a "as")
  let ?h = "h\<lparr>blocks := (blocks h)(a := None)\<rparr>"
  have "hfree (Some a) h = Inr ?h" using Cons.prems(2) by (auto simp: hfree_def)
  moreover have "\<forall>b \<in> set as. blocks ?h b \<noteq> None" using Cons.prems by auto
  then obtain h' where "ptr_release as ?h = Inr h'"
    "\<forall>b. blocks h' b = (if b \<in> set as then None else blocks ?h b)"
    using Cons.IH [of ?h] Cons.prems(1) by auto
  ultimately show ?case by auto
qed simp

lemma ptr_release_brk: "ptr_release as h = Inr h' \<Longrightarrow> brk h' = brk h"
  by (induction "as" arbitrary: h) (fastforce simp: rbind_eq_Inr hfree_def split: option.splits)+

lemma ptr_entries:
  assumes km: "keyed_map ops good" and inv: "ptr_inv ops good g (m, h)"
  shows "distinct (map snd (mitems ops m))"
    and "a \<in> set (map snd (mitems ops m)) \<longleftrightarrow> (\<exists>k. mfind ops k m = Some a)"
proof -
  have good: "good m" using inv by (simp add: ptr_inv_def)
  have dist: "distinct (map fst (mitems ops m))" by (rule keyed_map.items_distinct [OF km good])
  have mem: "(k, a) \<in> set (mitems ops m) \<longleftrightarrow> mfind ops k m = Some a" for k a
    using map_of_eq_Some_iff [OF dist, of k a] keyed_map.items_find [OF km good, of k] by metis
  then show "a \<in> set (map snd (mitems ops m)) \<longleftrightarrow> (\<exists>k. mfind ops k m = Some a)" by force
  have "k = j" if "(k, a) \<in> set (mitems ops m)" "(j, a) \<in> set (mitems ops m)" for k j a
  proof -
    have "mfind ops k m = Some a" "mfind ops j m = Some a" using that by (simp_all only: mem)
    then have "blocks h a = Some [k]" "blocks h a = Some [j]"
      using inv unfolding ptr_inv_def fst_conv snd_conv by blast+
    then show ?thesis by simp
  qed
  then have "inj_on snd (set (mitems ops m))" by (intro inj_onI) (metis prod.collapse)
  moreover have "distinct (mitems ops m)" using dist by (simp add: distinct_map)
  ultimately show "distinct (map snd (mitems ops m))" by (simp add: distinct_map)
qed

text \<open>Iterating reads every block once; the keys come in the order of the iteration.\<close>

lemma ptr_sum_ok:
  assumes km: "keyed_map ops good" and inv: "ptr_inv ops good g (m, h)"
  shows "ptr_sum h (map snd (mitems ops m)) s = sum_into chk64 (map fst (mitems ops m)) s"
    and "distinct (map fst (mitems ops m))" and "set (map fst (mitems ops m)) = {k. mfind ops k m \<noteq> None}"
proof -
  have good: "good m" using inv by (simp add: ptr_inv_def)
  show dist: "distinct (map fst (mitems ops m))" by (rule keyed_map.items_distinct [OF km good])
  have mem: "(k, a) \<in> set (mitems ops m) \<longleftrightarrow> mfind ops k m = Some a" for k a
    using map_of_eq_Some_iff [OF dist, of k a] keyed_map.items_find [OF km good, of k] by metis
  then show "set (map fst (mitems ops m)) = {k. mfind ops k m \<noteq> None}" by force
  have "ptr_sum h (map snd es) s = sum_into chk64 (map fst es) s" if "set es \<subseteq> set (mitems ops m)" for es
    using that
  proof (induction es arbitrary: s)
    case (Cons e es)
    then have "mfind ops (fst e) m = Some (snd e)" using mem [of "fst e" "snd e"] by simp
    with inv have "hread (Some (snd e)) 0 h = Inr (fst e)" by (simp add: ptr_inv_def hread_Some)
    with Cons show ?case by (simp cong: rbind_cong)
  qed simp
  then show "ptr_sum h (map snd (mitems ops m)) s = sum_into chk64 (map fst (mitems ops m)) s" by blast
qed

lemma ptr_inv_empty:
  "keyed_map ops good \<Longrightarrow> heap_ok h \<Longrightarrow> ptr_inv ops good (blocks h) (mempty ops, h)"
  by (simp add: ptr_inv_def keyed_map.good_empty keyed_map.find_empty)

lemma put_all_find:
  "keyed_map ops good \<Longrightarrow> mfind ops k (put_all ops ks) = (if k \<in> set ks then Some k else None)"
  using keyed_map.filled(2) [of ops good k "\<lambda>k. k"] by (simp add: put_all_def)

lemma put_all_values:
  assumes "keyed_map ops good" and "distinct ks"
  shows "mset (map snd (mitems ops (put_all ops ks))) = mset ks"
proof -
  have "mset (mitems ops (put_all ops ks)) = mset (map (\<lambda>k. (k, k)) ks)"
    using keyed_map.filled_items [OF assms, of "\<lambda>k. k"] by (simp add: put_all_def)
  then have "image_mset snd (mset (mitems ops (put_all ops ks))) = image_mset snd (mset (map (\<lambda>k. (k, k)) ks))"
    by simp
  then show ?thesis by (simp add: image_mset.compositionality comp_def)
qed

lemma sum_list_mset_cong: "mset xs = mset ys \<Longrightarrow> sum_list xs = (sum_list ys :: int)"
  by (metis sum_mset_sum_list)

lemma timed_ok: "in_int64 (clk (i + 1) - clk i) \<Longrightarrow> timed clk i kept = Inr (clk (i + 1) - clk i, kept)"
  by (simp add: timed_def elapsed_ns_def)

subsection \<open>Main results\<close>

text \<open>For every outcome of the random draws, \<open>generate_keys\<close> returns the numbers from 0 to \<open>N - 1\<close>,
  each exactly once, and \<open>generate_shuffled\<close> returns a permutation of its argument.\<close>

theorem generate_keys_permutation:
  assumes "\<And>i. draw i \<le> i" and "\<And>i. draw' i \<le> i" and "0 \<le> N"
  shows "\<exists>ks. generate_keys draw N = Inr ks \<and> mset ks = mset (map int [0..<nat N]) \<and> distinct ks \<and>
    set ks = {0..<N} \<and> mset (generate_shuffled draw' ks) = mset ks"
proof -
  let ?ks = "shuffle_list draw (map int [0..<nat N])"
  have ms: "mset ?ks = mset (map int [0..<nat N])" using assms(1) by (rule mset_shuffle)
  have "distinct (map int [0..<nat N])" by (simp add: distinct_map)
  then have "distinct ?ks" using ms by (metis mset_eq_imp_distinct_iff)
  moreover have "set ?ks = {0..<N}"
  proof -
    have "set ?ks = int ` {0..<nat N}" using mset_eq_setD [OF ms] by simp
    also have "\<dots> = {0..<N}" using assms(3) by (simp add: image_int_atLeastLessThan)
    finally show ?thesis .
  qed
  ultimately show ?thesis
    using ms mset_shuffle [of draw' ?ks, OF assms(2)] assms(3) by (auto simp: generate_keys_def generate_shuffled_def)
qed

theorem generate_keys_permutation_witness:
  "\<exists>ks. generate_keys (\<lambda>i. i div 2) 5 = Inr ks \<and> set ks = {0..<5}"
  using generate_keys_permutation [of "\<lambda>i. i div 2" "\<lambda>i. 0" 5] by auto

lemma bench_lookups_agree_parts:
  assumes "keyed_map ops good" and "\<forall>k \<in> set ks. 0 \<le> k" and "in_int64 (clk (i + 1) - clk i)"
    and "sum_list (filter (\<lambda>k. k \<in> set ks) q) \<le> 2147483647"
  defines "r \<equiv> Inr (clk (i + 1) - clk i, sum_list (filter (\<lambda>k. k \<in> set ks) q))"
  shows "set q \<subseteq> set ks \<Longrightarrow> bench_lookup_vector clk i (sort ks) q = r"
    and "bench_lookup_map clk i (put_all smap_ops ks) q = r"
    and "bench_lookup_umap place clk i (put_all (umap_ops place) ks) q = r"
    and "bench_lookup_uflat ops clk i (put_all ops ks) q = r"
    and "bench_lookup_flatmap ops clk i (put_all ops ks) q = r"
    and "bench_lookup_node_map ops clk i (put_all ops ks) q = r"
proof -
  let ?hits = "filter (\<lambda>k. k \<in> set ks) q"
  have "\<forall>x \<in> set ?hits. 0 \<le> x" using assms(2) by simp
  note exact = sum_into_exact(1,2) [OF this, of 0]
  have sums: "sum_into chk32 ?hits 0 = Inr (sum_list ?hits)" "sum_into chk64 ?hits 0 = Inr (sum_list ?hits)"
    using exact assms(4) by simp_all
  note time = timed_ok [OF assms(3)]
  have hits: "lookup_into ov (\<lambda>v. mfind ops' v (put_all ops' ks)) q 0 = sum_into ov ?hits 0"
    if "keyed_map ops' good'" for ops' :: "('x, int) map_ops" and good' ov
    by (rule lookup_into_hits) (simp add: put_all_find [OF that])
  show "bench_lookup_map clk i (put_all smap_ops ks) q = r"
    using hits [OF smap.keyed_map_axioms] by (simp add: bench_lookup_map_def sums time r_def)
  show "bench_lookup_umap place clk i (put_all (umap_ops place) ks) q = r"
    using hits [OF umap.keyed_map_axioms] by (simp add: bench_lookup_umap_def sums time r_def)
  show "bench_lookup_uflat ops clk i (put_all ops ks) q = r"
    and "bench_lookup_flatmap ops clk i (put_all ops ks) q = r"
    and "bench_lookup_node_map ops clk i (put_all ops ks) q = r"
    using hits [OF assms(1)]
    by (simp_all add: bench_lookup_uflat_def bench_lookup_flatmap_def bench_lookup_node_map_def sums time r_def)
  show "bench_lookup_vector clk i (sort ks) q = r" if "set q \<subseteq> set ks"
  proof -
    have all: "?hits = q" using that by (intro filter_True) auto
    have "\<forall>v \<in> set q. lower_bound (sort ks) v = Some v"
      using that by (auto intro!: lower_bound_member)
    then have "lookup_into chk32 (lower_bound (sort ks)) q 0 = sum_into chk32 q 0" by (rule lookup_into_found)
    then show ?thesis using sums(1) unfolding all r_def by (simp add: bench_lookup_vector_def time)
  qed
qed



text \<open>Every iteration benchmark sums the stored values, each once, in whatever order the container
  iterates; in an \<open>int\<close> the sum of distinct nonnegative keys overflows as soon as it exceeds the
  largest \<open>int\<close>, whatever the order.\<close>

theorem bench_iterations_sum:
  assumes "keyed_map ops good" and "distinct ks" and "\<forall>k \<in> set ks. 0 \<le> k"
    and "sum_list ks \<le> 9223372036854775807" and "in_int64 (clk (i + 1) - clk i)"
  defines "r \<equiv> if sum_list ks \<le> 2147483647 then Inr (clk (i + 1) - clk i, sum_list ks) else Inl SignedOverflow"
  shows "bench_iter_vector clk i (sort ks) = r"
    and "bench_iter_map clk i (put_all smap_ops ks) = r"
    and "bench_iter_umap place clk i (put_all (umap_ops place) ks) = r"
    and "bench_iter_list clk i (push_all_back ks) = r"
    and "bench_iter_deque clk i (push_all_back ks) = r"
    and "bench_iter_uflat ops clk i (put_all ops ks) = Inr (clk (i + 1) - clk i, sum_list ks)"
    and "bench_iter_flatmap ops clk i (put_all ops ks) = Inr (clk (i + 1) - clk i, sum_list ks)"
    and "bench_iter_node_map ops clk i (put_all ops ks) = Inr (clk (i + 1) - clk i, sum_list ks)"
proof -
  note time = timed_ok [OF assms(5)]
  have any: "rbind (sum_into chk32 xs 0) (timed clk i) = r"
    "rbind (sum_into chk64 xs 0) (timed clk i) = Inr (clk (i + 1) - clk i, sum_list ks)"
    if "mset xs = mset ks" for xs
  proof -
    have "\<forall>x \<in> set xs. 0 \<le> x" using mset_eq_setD [OF that] assms(3) by simp
    note exact = sum_into_exact [OF this, of 0] and eq = sum_list_mset_cong [OF that]
    show "rbind (sum_into chk32 xs 0) (timed clk i) = r"
      using exact(1,3) eq by (cases "sum_list ks \<le> 2147483647") (simp_all add: r_def time)
    show "rbind (sum_into chk64 xs 0) (timed clk i) = Inr (clk (i + 1) - clk i, sum_list ks)"
      using exact(2) eq assms(4) by (simp add: time)
  qed
  show "bench_iter_vector clk i (sort ks) = r" "bench_iter_list clk i (push_all_back ks) = r"
    "bench_iter_deque clk i (push_all_back ks) = r"
    by (simp_all add: bench_iter_vector_def bench_iter_list_def bench_iter_deque_def push_all_back_id any)
  show "bench_iter_map clk i (put_all smap_ops ks) = r"
    unfolding bench_iter_map_def by (rule any(1) [OF put_all_values [OF smap.keyed_map_axioms assms(2)]])
  show "bench_iter_umap place clk i (put_all (umap_ops place) ks) = r"
    unfolding bench_iter_umap_def by (rule any(1) [OF put_all_values [OF umap.keyed_map_axioms assms(2)]])
  show "bench_iter_uflat ops clk i (put_all ops ks) = Inr (clk (i + 1) - clk i, sum_list ks)"
    "bench_iter_flatmap ops clk i (put_all ops ks) = Inr (clk (i + 1) - clk i, sum_list ks)"
    "bench_iter_node_map ops clk i (put_all ops ks) = Inr (clk (i + 1) - clk i, sum_list ks)"
    unfolding bench_iter_uflat_def bench_iter_flatmap_def bench_iter_node_map_def
    by (rule any(2) [OF put_all_values [OF assms(1,2)]])+
qed

theorem bench_iterations_sum_witness:
  "bench_iter_vector (\<lambda>i. 10 * int i) 4 (sort [2147483647, 1]) = Inl SignedOverflow \<and>
   bench_iter_uflat smap_ops (\<lambda>i. 10 * int i) 4 (put_all smap_ops [2147483647, 1]) = Inr (10, 2147483648)"
  using bench_iterations_sum(1,6) [OF smap.keyed_map_axioms, of "[2147483647, 1]" "\<lambda>i. 10 * int i" 4]
  by (simp add: in_int64_def)

lemma sum_of_keys: "sum_list (map int [0..<n]) * 2 = int n * (int n - 1)"
  by (induction n) (simp_all add: algebra_simps)

lemma sum_of_keys_large: "65536 < n \<Longrightarrow> 2147483647 < sum_list (map int [0..<n])"
proof -
  assume "65536 < n"
  then have "65537 * 65536 \<le> int n * (int n - 1)" by (intro mult_mono) auto
  then show ?thesis using sum_of_keys [of n] by linarith
qed

lemma bench_main_overflows_parts:
  assumes "\<And>i. draw1 i \<le> i" and "\<And>i. draw2 i \<le> i" and "in_int64 (clk 1 - clk 0)" and "65536 < N"
  shows "bench_rows N draw1 draw2 clk place uflat_ops flat_ops ptr_ops node_ops = Inl SignedOverflow"
    and "bench_main draw1 draw2 clk place uflat_ops flat_ops ptr_ops node_ops = Inl SignedOverflow"
proof -
  have rows: "bench_rows N draw1 draw2 clk place uflat_ops flat_ops ptr_ops node_ops = Inl SignedOverflow"
    if N: "65536 < N" for N
  proof -
    define nums where "nums = map int [0..<nat N]"
    define ks where "ks = shuffle_list draw1 nums"
    define q where "q = generate_shuffled draw2 ks"
    have keys: "generate_keys draw1 N = Inr ks" using N by (simp add: generate_keys_def ks_def nums_def)
    have ms: "mset ks = mset nums" "mset q = mset nums"
      using mset_shuffle [of draw1 nums, OF assms(1)] mset_shuffle [of draw2 ks, OF assms(2)]
      by (simp_all add: ks_def q_def generate_shuffled_def)
    have "\<forall>v \<in> set q. lower_bound (sort ks) v = Some v"
      using mset_eq_setD [OF ms(1)] mset_eq_setD [OF ms(2)] by (auto intro!: lower_bound_member)
    then have look: "lookup_into chk32 (lower_bound (sort ks)) q 0 = sum_into chk32 q 0"
      by (rule lookup_into_found)
    have "2147483647 < sum_list q"
      using sum_list_mset_cong [OF ms(2)] sum_of_keys_large [of "nat N"] N by (simp add: nums_def)
    moreover have "\<forall>x \<in> set q. 0 \<le> x" using mset_eq_setD [OF ms(2)] by (auto simp: nums_def)
    ultimately have "sum_into chk32 q 0 = Inl SignedOverflow"
      by (intro sum_into_exact(3)) simp_all
    moreover have "timed clk 0 xs = Inr (clk 1 - clk 0, xs)" for xs :: "int list"
      using assms(3) by (simp add: timed_def elapsed_ns_def)
    ultimately show ?thesis
      unfolding bench_rows_def keys
      by (simp add: Let_def bench_insert_vector_def bench_lookup_vector_def look q_def [symmetric])
  qed
  from rows [OF assms(4)]
  show "bench_rows N draw1 draw2 clk place uflat_ops flat_ops ptr_ops node_ops = Inl SignedOverflow" .
  show "bench_main draw1 draw2 clk place uflat_ops flat_ops ptr_ops node_ops = Inl SignedOverflow"
    unfolding bench_main_def by (rule rows) simp
qed



text \<open>The linear scans divide by zero on an empty query set; on at most two billion queries they
  multiply the time by the quotient of the query count and the capped count, which restores the
  full count only when the cap does not apply or divides it.\<close>

theorem linear_scan_scaling:
  assumes "length q < 2147483648" and "set q \<subseteq> set l" and "\<forall>k \<in> set q. 0 \<le> k"
    and "sum_list q \<le> 2147483647" and "in_int64 (clk (i + 1) - clk i)"
  defines "limit \<equiv> min (length q) 1000"
  defines "scaled \<equiv> (clk (i + 1) - clk i) * int (length q div limit)"
  shows "q = [] \<Longrightarrow> bench_lookup_list clk i l q = Inl DivByZero"
    and "q \<noteq> [] \<Longrightarrow> in_int64 scaled \<Longrightarrow> bench_lookup_list clk i l q = Inr (scaled, sum_list (take limit q))"
    and "q \<noteq> [] \<Longrightarrow> limit * (length q div limit) = length q \<longleftrightarrow> length q \<le> 1000 \<or> 1000 dvd length q"
proof -
  have lim: "min (size_to_int (length q)) LINEAR_SCAN_CAP = int limit" "size_to_int (length q) = int (length q)"
    using assms(1) by (simp_all add: size_to_int_id LINEAR_SCAN_CAP_def limit_def)
  have "\<forall>v \<in> set (take limit q). std_find l v = Some v"
    using assms(2) by (auto intro!: std_find_member dest: in_set_takeD)
  moreover have "sum_list (take limit q) \<le> sum_list q"
  proof -
    have "sum_list q = sum_list (take limit q) + sum_list (drop limit q)"
      by (metis append_take_drop_id sum_list_append)
    moreover have "0 \<le> sum_list (drop limit q)"
      using assms(3) by (intro sum_list_nonneg) (auto dest: in_set_dropD)
    ultimately show ?thesis by simp
  qed
  then have "sum_into chk32 (take limit q) 0 = Inr (sum_list (take limit q))"
    using sum_into_exact(1) [of "take limit q" 0] assms(3,4) by (auto dest: in_set_takeD)
  ultimately have look: "lookup_into chk32 (std_find l) (take limit q) 0 = Inr (sum_list (take limit q))"
    by (simp add: lookup_into_found)
  have time: "elapsed_ns (clk i) (clk (i + 1)) = Inr (clk (i + 1) - clk i)"
    using assms(5) by (simp add: elapsed_ns_def)
  show "bench_lookup_list clk i l q = Inl DivByZero" if "q = []"
    unfolding bench_lookup_list_def linear_lookup_def Let_def lim(1) nat_int look
    using that time by (simp add: limit_def)
  show "bench_lookup_list clk i l q = Inr (scaled, sum_list (take limit q))" if "q \<noteq> []" "in_int64 scaled"
  proof -
    have "0 < limit" using that(1) by (simp add: limit_def)
    then have "c_quot (int (length q)) (int limit) = int (length q div limit)"
      by (simp add: c_quot_nonneg zdiv_int)
    then show ?thesis
      unfolding bench_lookup_list_def linear_lookup_def Let_def lim(1) nat_int look
      using that(2) time \<open>0 < limit\<close> by (simp add: scaled_def lim(2))
  qed
  show "limit * (length q div limit) = length q \<longleftrightarrow> length q \<le> 1000 \<or> 1000 dvd length q" if "q \<noteq> []"
  proof (cases "length q \<le> 1000")
    case True
    with that show ?thesis by (simp add: limit_def)
  next
    case False
    then have "limit = 1000" by (simp add: limit_def)
    with False show ?thesis by (metis dvd_mult_div_cancel dvd_triv_left)
  qed
qed

theorem linear_scan_scaling_witness:
  "bench_lookup_list (\<lambda>i. 10 * int i) 0 [7, 8] [8] = Inr (10, 8) \<and>
   bench_lookup_list (\<lambda>i. 10 * int i) 0 [7, 8] [] = Inl DivByZero"
  using linear_scan_scaling(2) [of "[8]" "[7, 8]" "\<lambda>i. 10 * int i" 0]
    linear_scan_scaling(1) [of "[]" "[7, 8]" "\<lambda>i. 10 * int i" 0]
  by (simp add: in_int64_def)

lemma owning_map_run:
  assumes km: "keyed_map ops good" and "heap_ok h" and "in_int64 (clk (i + 1) - clk i)"
  shows "\<exists>m h1 h2 its. ptr_fill ops ks (mempty ops, h) = Inr (m, h1) \<and>
    (\<forall>clk i q. bench_lookup_uflat_ptr ops clk i (m, h1) q =
      rbind (sum_into chk64 (filter (\<lambda>k. k \<in> set ks) q) 0) (timed clk i)) \<and>
    distinct its \<and> set its = set ks \<and>
    (\<forall>clk i. bench_iter_uflat_ptr ops clk i (m, h1) = rbind (sum_into chk64 its 0) (timed clk i)) \<and>
    ptr_release (map snd (mitems ops m)) h1 = Inr h2 \<and> blocks h2 = blocks h \<and> heap_ok h2 \<and>
    bench_insert_uflat_ptr ops clk i ks h = Inr (clk (i + 1) - clk i, h2)"
proof -
  obtain m h1 where fill: "ptr_fill ops ks (mempty ops, h) = Inr (m, h1)"
    and inv: "ptr_inv ops good (blocks h) (m, h1)"
    and keys: "\<forall>k. mfind ops k m = None \<longleftrightarrow> mfind ops k (mempty ops) = None \<and> k \<notin> set ks"
    using ptr_fill_inv [OF km ptr_inv_empty [OF km assms(2)]] by blast
  have found: "mfind ops k m \<noteq> None \<longleftrightarrow> k \<in> set ks" for k
    using keys keyed_map.find_empty [OF km] by auto
  have look: "bench_lookup_uflat_ptr ops clk i (m, h1) q =
      rbind (sum_into chk64 (filter (\<lambda>k. k \<in> set ks) q) 0) (timed clk i)" for clk i q
    using ptr_lookup_ok [OF inv, of q 0] found by (simp add: bench_lookup_uflat_ptr_def)
  have iter: "bench_iter_uflat_ptr ops clk i (m, h1) = rbind (sum_into chk64 (map fst (mitems ops m)) 0) (timed clk i)" for clk i
    using ptr_sum_ok(1) [OF km inv] by (simp add: bench_iter_uflat_ptr_def)
  have its: "set (map fst (mitems ops m)) = set ks"
    using ptr_sum_ok(3) [OF km inv] keys keyed_map.find_empty [OF km] by auto
  have "\<forall>a \<in> set (map snd (mitems ops m)). blocks h1 a \<noteq> None"
    using ptr_entries(2) [OF km inv] inv unfolding ptr_inv_def fst_conv snd_conv by (metis option.distinct(1))
  from ptr_release_ok [OF ptr_entries(1) [OF km inv] this] obtain h2
    where rel: "ptr_release (map snd (mitems ops m)) h1 = Inr h2"
      "\<forall>a. blocks h2 a = (if a \<in> set (map snd (mitems ops m)) then None else blocks h1 a)" "brk h2 = brk h1"
    using ptr_release_brk by blast
  have "blocks h2 a = blocks h a" for a
    using rel(2) inv unfolding ptr_entries(2) [OF km inv] ptr_inv_def by (cases "\<exists>k. mfind ops k m = Some a") auto
  then have same: "blocks h2 = blocks h" by auto
  have "dom (blocks h2) \<subseteq> dom (blocks h1)" using rel(2) by (metis domIff subsetI)
  then have "heap_ok h2" using inv rel(3) by (auto simp: heap_ok_def ptr_inv_def)
  moreover have "bench_insert_uflat_ptr ops clk i ks h = Inr (clk (i + 1) - clk i, h2)"
    using fill rel(1) assms(3) by (simp add: bench_insert_uflat_ptr_def elapsed_ns_def)
  ultimately show ?thesis using fill look iter its ptr_sum_ok(2) [OF km inv] rel(1) same by blast
qed

text \<open>C9: the map of owning pointers, for every map \<open>ops\<close> satisfying the contract, every list of keys
  (repetitions allowed) and arbitrary queries, when the allocations succeed and the two clock readings
  differ by a 64-bit number. Filling it never fails; a lookup benchmark never touches a dead block, skips the
  queries that are not keys, and accumulates in \<open>long long\<close> the others, exactly as the plain map does (an
  overflow of the sum is the only way either can fail); an iteration visits each key once;
  the map's destruction releases each of its blocks once, including the blocks of the rejected
  duplicates, and leaves the heap as it was, so \<open>bench_insert_uflat_ptr\<close> returns the measured time
  and leaks nothing. (\<open>heap_ok\<close>: the addresses in use are below the next fresh one.)\<close>

theorem owning_map_safe:
  assumes "keyed_map ops good" and "keyed_map plain_ops plain_good" and "heap_ok h"
    and "in_int64 (clk (i + 1) - clk i)"
  shows "\<exists>m h1 h2 its. ptr_fill ops ks (mempty ops, h) = Inr (m, h1) \<and>
    bench_lookup_uflat_ptr ops clk i (m, h1) q =
      rbind (sum_into chk64 (filter (\<lambda>k. k \<in> set ks) q) 0) (timed clk i) \<and>
    bench_lookup_uflat_ptr ops clk i (m, h1) q = bench_lookup_uflat plain_ops clk i (put_all plain_ops ks) q \<and>
    distinct its \<and> set its = set ks \<and>
    bench_iter_uflat_ptr ops clk i (m, h1) = rbind (sum_into chk64 its 0) (timed clk i) \<and>
    ptr_release (map snd (mitems ops m)) h1 = Inr h2 \<and> blocks h2 = blocks h \<and>
    bench_insert_uflat_ptr ops clk i ks h = Inr (clk (i + 1) - clk i, h2)"
proof -
  have "bench_lookup_uflat plain_ops clk i (put_all plain_ops ks) q =
      rbind (sum_into chk64 (filter (\<lambda>k. k \<in> set ks) q) 0) (timed clk i)"
    unfolding bench_lookup_uflat_def
    by (subst lookup_into_hits [where P = "\<lambda>k. k \<in> set ks"]) (simp_all add: put_all_find [OF assms(2)])
  then show ?thesis using owning_map_run [OF assms(1,3,4), of ks] by metis
qed

theorem owning_map_safe_witness:
  "\<exists>m h1 h3. ptr_fill smap_ops [4, 4, 9] (mempty smap_ops, empty_heap) = Inr (m, h1) \<and>
     bench_lookup_uflat_ptr smap_ops (\<lambda>i. 10 * int i) 0 (m, h1) [9, 5, 4] = Inr (10, 13) \<and>
     bench_insert_uflat_ptr smap_ops (\<lambda>i. 10 * int i) 0 [4, 4, 9] empty_heap = Inr (10, h3) \<and> blocks h3 = blocks empty_heap"
  using owning_map_safe [OF smap.keyed_map_axioms smap.keyed_map_axioms, of empty_heap "\<lambda>i. 10 * int i" 0 "[4, 4, 9]" "[9, 5, 4]"]
  by (auto simp: in_int64_def timed_def elapsed_ns_def)

text \<open>
  The vector lookup does not compare the element it finds with the query: for an absent query it
  accumulates the next larger key, where the maps accumulate nothing.
\<close>

lemma vector_lookup_absent:
  "lookup_into chk32 (lower_bound [10, 20]) [15] 0 = Inr 20"
  "lookup_into chk32 (\<lambda>v. mfind smap_ops v (put_all smap_ops [10, 20])) [15] 0 = Inr 0"
  by (simp_all add: lower_bound_def in_int_def smap_ops_def put_all_def)

end
