(* ===== verification/Circular_Buffer.thy ===== *)
theory Circular_Buffer
  imports Prelude
begin

section \<open>Ring buffer and its iterator\<close>

text \<open>
  Model of \<open>03-stl-internals/exercises/ex2-circular-buffer/circular_buffer.hpp\<close>, as the file stands:
  the iterator arithmetic is implemented; \<open>push_back\<close>, the two \<open>operator[]\<close> and the dereference of
  the iterator are placeholders. A buffer is identified by \<open>buf\<close> where the iterator points to it;
  positions are \<open>ptrdiff_t\<close>, whose overflow is a fault.
\<close>

record 'a circular_buffer =
  cdata :: "'a list"
  chead :: nat
  ccount :: nat

record iterator =
  buf :: nat
  pos :: int

subsection \<open>The buffer\<close>

definition cb_new :: "nat \<Rightarrow> 'a \<Rightarrow> 'a circular_buffer" where
  "cb_new N dflt = \<lparr>cdata = replicate N dflt, chead = 0, ccount = 0\<rparr>"

definition cb_push_back :: "'a \<Rightarrow> 'a circular_buffer \<Rightarrow> 'a circular_buffer" where
  "cb_push_back val b = b"

definition cb_index :: "nat \<Rightarrow> 'a circular_buffer \<Rightarrow> 'a res" where
  "cb_index i b = (if cdata b = [] then Inl OutOfBounds else Inr (cdata b ! 0))"

definition cb_size :: "'a circular_buffer \<Rightarrow> nat" where
  "cb_size b = ccount b"

definition cb_full :: "nat \<Rightarrow> 'a circular_buffer \<Rightarrow> bool" where
  "cb_full N b \<longleftrightarrow> ccount b = N"

definition cb_capacity :: "nat \<Rightarrow> nat" where
  "cb_capacity N = N"

definition cb_clear :: "'a circular_buffer \<Rightarrow> 'a circular_buffer" where
  "cb_clear b = b\<lparr>chead := 0, ccount := 0\<rparr>"

definition cb_begin :: "nat \<Rightarrow> 'a circular_buffer \<Rightarrow> iterator" where
  "cb_begin a b = \<lparr>buf = a, pos = 0\<rparr>"

definition cb_end :: "nat \<Rightarrow> 'a circular_buffer \<Rightarrow> iterator" where
  "cb_end a b = \<lparr>buf = a, pos = int (ccount b)\<rparr>"

subsection \<open>The iterator\<close>

definition it_deref :: "'a circular_buffer \<Rightarrow> iterator \<Rightarrow> 'a res" where
  "it_deref b it = (if cdata b = [] then Inl OutOfBounds else Inr (cdata b ! 0))"

definition it_plus_assign :: "int \<Rightarrow> iterator \<Rightarrow> iterator res" where
  "it_plus_assign n it = rbind (chk64 (pos it + n)) (\<lambda>p. Inr (it\<lparr>pos := p\<rparr>))"

definition it_minus_assign :: "int \<Rightarrow> iterator \<Rightarrow> iterator res" where
  "it_minus_assign n it = rbind (chk64 (pos it - n)) (\<lambda>p. Inr (it\<lparr>pos := p\<rparr>))"

definition it_preinc :: "iterator \<Rightarrow> iterator res" where
  "it_preinc it = rbind (chk64 (pos it + 1)) (\<lambda>p. Inr (it\<lparr>pos := p\<rparr>))"

definition it_predec :: "iterator \<Rightarrow> iterator res" where
  "it_predec it = rbind (chk64 (pos it - 1)) (\<lambda>p. Inr (it\<lparr>pos := p\<rparr>))"

text \<open>The postfix forms return the old iterator and the updated one.\<close>

definition it_postinc :: "iterator \<Rightarrow> (iterator \<times> iterator) res" where
  "it_postinc it = rbind (chk64 (pos it + 1)) (\<lambda>p. Inr (it, it\<lparr>pos := p\<rparr>))"

definition it_postdec :: "iterator \<Rightarrow> (iterator \<times> iterator) res" where
  "it_postdec it = rbind (chk64 (pos it - 1)) (\<lambda>p. Inr (it, it\<lparr>pos := p\<rparr>))"

definition it_plus :: "iterator \<Rightarrow> int \<Rightarrow> iterator res" where
  "it_plus it n = rbind (chk64 (pos it + n)) (\<lambda>p. Inr \<lparr>buf = buf it, pos = p\<rparr>)"

definition plus_it :: "int \<Rightarrow> iterator \<Rightarrow> iterator res" where
  "plus_it n it = it_plus it n"

definition it_minus :: "iterator \<Rightarrow> int \<Rightarrow> iterator res" where
  "it_minus it n = rbind (chk64 (pos it - n)) (\<lambda>p. Inr \<lparr>buf = buf it, pos = p\<rparr>)"

definition it_diff :: "iterator \<Rightarrow> iterator \<Rightarrow> int res" where
  "it_diff it other = chk64 (pos it - pos other)"

definition it_index :: "'a circular_buffer \<Rightarrow> iterator \<Rightarrow> int \<Rightarrow> 'a res" where
  "it_index b it n = (if cdata b = [] then Inl OutOfBounds else Inr (cdata b ! 0))"

definition it_eq :: "iterator \<Rightarrow> iterator \<Rightarrow> bool" where
  "it_eq it other \<longleftrightarrow> pos it = pos other"

definition it_ne :: "iterator \<Rightarrow> iterator \<Rightarrow> bool" where
  "it_ne it other \<longleftrightarrow> pos it \<noteq> pos other"

definition it_lt :: "iterator \<Rightarrow> iterator \<Rightarrow> bool" where
  "it_lt it other \<longleftrightarrow> pos it < pos other"

definition it_le :: "iterator \<Rightarrow> iterator \<Rightarrow> bool" where
  "it_le it other \<longleftrightarrow> pos it \<le> pos other"

definition it_gt :: "iterator \<Rightarrow> iterator \<Rightarrow> bool" where
  "it_gt it other \<longleftrightarrow> pos it > pos other"

definition it_ge :: "iterator \<Rightarrow> iterator \<Rightarrow> bool" where
  "it_ge it other \<longleftrightarrow> pos it \<ge> pos other"

subsection \<open>The contract of a random access iterator\<close>

text \<open>
  What the standard algorithms rely on, for iterators into one range, written for arithmetic that
  can fault: advancing adds up, the difference undoes it, and the order is that of the differences.
\<close>

locale random_access =
  fixes plus :: "'i \<Rightarrow> int \<Rightarrow> 'i res" and diff :: "'i \<Rightarrow> 'i \<Rightarrow> int res"
    and eq :: "'i \<Rightarrow> 'i \<Rightarrow> bool" and lt :: "'i \<Rightarrow> 'i \<Rightarrow> bool" and step :: "'i \<Rightarrow> 'i res"
    and same :: "'i \<Rightarrow> 'i \<Rightarrow> bool"
  assumes plus_plus: "plus i n = Inr j \<Longrightarrow> plus j m = Inr k \<Longrightarrow> in_int64 (n + m) \<Longrightarrow> plus i (n + m) = Inr k"
    and plus_diff: "plus i n = Inr j \<Longrightarrow> in_int64 n \<Longrightarrow> diff j i = Inr n \<and> same i j"
    and diff_plus: "same i j \<Longrightarrow> diff j i = Inr n \<Longrightarrow> plus i n = Inr j"
    and lt_diff: "diff j i = Inr n \<Longrightarrow> lt i j \<longleftrightarrow> 0 < n"
    and eq_diff: "diff j i = Inr n \<Longrightarrow> eq i j \<longleftrightarrow> n = 0"
    and step_plus: "step i = plus i 1"
begin

fun steps :: "nat \<Rightarrow> 'i \<Rightarrow> 'i res" where
  "steps 0 i = Inr i"
| "steps (Suc n) i = rbind (step i) (steps n)"

text \<open>Stepping \<open>n\<close> times is advancing by \<open>n\<close>, as \<open>std::advance\<close> assumes.\<close>

lemma steps_advance:
  "steps n i = Inr j \<Longrightarrow> 0 < n \<Longrightarrow> in_int64 (int n) \<Longrightarrow> plus i (int n) = Inr j"
proof (induction n arbitrary: i)
  case (Suc n)
  from Suc.prems(1) obtain k where "step i = Inr k" "steps n k = Inr j" by (auto simp: rbind_eq_Inr)
  then have k: "plus i 1 = Inr k" "steps n k = Inr j" by (simp_all only: step_plus)
  show ?case
  proof (cases "n = 0")
    case True
    with k show ?thesis by simp
  next
    case False
    moreover have "in_int64 (int n)" "in_int64 (1 + int n)" using Suc.prems(3) by (auto simp: in_int64_def)
    ultimately have "plus k (int n) = Inr j" using Suc.IH k by blast
    with k(1) \<open>in_int64 (1 + int n)\<close> show ?thesis using plus_plus by fastforce
  qed
qed simp

end

interpretation ring_it: random_access it_plus it_diff it_eq it_lt it_preinc "\<lambda>i j. buf i = buf j \<and> in_int64 (pos j)"
proof
  fix i j k n m
  show "it_plus i n = Inr j \<Longrightarrow> it_plus j m = Inr k \<Longrightarrow> in_int64 (n + m) \<Longrightarrow> it_plus i (n + m) = Inr k"
    by (auto simp: it_plus_def rbind_eq_Inr add.assoc)
  show "it_plus i n = Inr j \<Longrightarrow> in_int64 n \<Longrightarrow> it_diff j i = Inr n \<and> buf i = buf j \<and> in_int64 (pos j)"
    by (auto simp: it_plus_def it_diff_def rbind_eq_Inr)
  show "buf i = buf j \<and> in_int64 (pos j) \<Longrightarrow> it_diff j i = Inr n \<Longrightarrow> it_plus i n = Inr j"
    by (auto simp: it_plus_def it_diff_def rbind_eq_Inr)
  show "it_diff j i = Inr n \<Longrightarrow> it_lt i j \<longleftrightarrow> 0 < n" by (auto simp: it_diff_def it_lt_def)
  show "it_diff j i = Inr n \<Longrightarrow> it_eq i j \<longleftrightarrow> n = 0" by (auto simp: it_diff_def it_eq_def)
  show "it_preinc i = it_plus i 1" by (cases i) (simp add: it_preinc_def it_plus_def)
qed

subsection \<open>Traversal\<close>

text \<open>
  \<open>for (it = first; it != stop; ++it)\<close>, with the positions it visits. Nothing bounds the loop but
  its own exit test, so it is a partial function.
\<close>

partial_function (option) visit_from :: "int list \<Rightarrow> iterator \<Rightarrow> iterator \<Rightarrow> int list res option" where
  "visit_from seen it stop =
     (if it_ne it stop then
        (case it_preinc it of
           Inl e \<Rightarrow> Some (Inl e)
         | Inr it' \<Rightarrow> visit_from (seen @ [pos it]) it' stop)
      else Some (Inr seen))"

definition visit :: "iterator \<Rightarrow> iterator \<Rightarrow> int list res option" where
  "visit = visit_from []"

lemma visit_range:
  assumes "pos stop = pos it + int n" and "in_int64 (pos stop)" and "in_int64 (pos it)"
  shows "visit_from seen it stop = Some (Inr (seen @ [pos it..pos stop - 1]))"
  using assms
proof (induction n arbitrary: it seen)
  case 0
  then show ?case by (subst visit_from.simps) (simp add: it_ne_def)
next
  case (Suc n)
  have ok: "in_int64 (pos it + 1)" using Suc.prems by (auto simp: in_int64_def)
  have "visit_from (seen @ [pos it]) (it\<lparr>pos := pos it + 1\<rparr>) stop =
      Some (Inr ((seen @ [pos it]) @ [pos it + 1..pos stop - 1]))"
    using Suc.IH [of "it\<lparr>pos := pos it + 1\<rparr>" "seen @ [pos it]"] Suc.prems ok by simp
  with ok show ?case
    using Suc.prems by (subst visit_from.simps) (simp add: it_ne_def it_preinc_def upto.simps [of "pos it"])
qed

subsection \<open>Main results\<close>

text \<open>C38: the loop from \<open>begin()\<close> to \<open>end()\<close> terminates without overflow for every buffer state and
  visits the logical positions 0 to \<open>size() - 1\<close>, each once and in order.\<close>

theorem ring_traversal:
  assumes "ccount b < 2 ^ 63"
  shows "visit (cb_begin a b) (cb_end a b) = Some (Inr (map int [0..<cb_size b]))"
proof -
  have "visit (cb_begin a b) (cb_end a b) = Some (Inr [0..int (ccount b) - 1])"
    using visit_range [of "cb_end a b" "cb_begin a b" "ccount b"] assms
    by (simp add: visit_def cb_begin_def cb_end_def in_int64_def)
  moreover have "[0..int n - 1] = map int [0..<n]" for n
    by (induction n) (simp_all add: upto_rec2)
  ultimately show ?thesis by (simp add: cb_size_def)
qed

theorem ring_traversal_witness:
  "visit (cb_begin 0 \<lparr>cdata = [5, 6, 7 :: int], chead = 0, ccount = 3\<rparr>)
     (cb_end 0 \<lparr>cdata = [5, 6, 7 :: int], chead = 0, ccount = 3\<rparr>) = Some (Inr [0, 1, 2])"
  using ring_traversal [of "\<lparr>cdata = [5, 6, 7 :: int], chead = 0, ccount = 3\<rparr>" 0]
  by (simp add: cb_size_def numeral_3_eq_3)

text \<open>
  The placeholders: after any pushes the buffer is still empty, so an element that was pushed is
  never visited.
\<close>

lemma push_back_placeholder: "fold cb_push_back xs b = b"
  by (induction xs) (simp_all add: cb_push_back_def)

lemma pushed_not_visited:
  "visit (cb_begin a (fold cb_push_back xs (cb_new N d))) (cb_end a (fold cb_push_back xs (cb_new N d))) = Some (Inr [])"
  unfolding push_back_placeholder visit_def by (subst visit_from.simps) (simp add: cb_new_def cb_begin_def cb_end_def it_ne_def)

end
