(* ===== verification/Lockfree_Queues.thy ===== *)
theory Lockfree_Queues
  imports Prelude
begin

unbundle bit_operations_syntax

section \<open>Concurrent queues and the sequence lock\<close>

text \<open>
  Model of \<open>05-concurrency/exercises\<close> as the files stand: \<open>spsc_queue.hpp\<close> (the observers and the
  constructor are implemented, the transfer operations are placeholders), \<open>mpmc_queue.hpp\<close> (the
  constructor is implemented) and \<open>seqlock.hpp\<close> (placeholders). Indices are \<open>size_t\<close>, 64-bit words.
\<close>

subsection \<open>Single producer, single consumer\<close>

record 'a spsc =
  head_idx :: "64 word"
  tail_idx :: "64 word"
  slots :: "'a list"

definition spsc_new :: "'a list \<Rightarrow> 'a spsc" where
  "spsc_new init = \<lparr>head_idx = 0, tail_idx = 0, slots = init\<rparr>"

definition spsc_push :: "'a \<Rightarrow> 'a spsc \<Rightarrow> 'a spsc \<times> bool" where
  "spsc_push val q = (q, False)"

definition spsc_pop :: "'a spsc \<Rightarrow> 'a spsc \<times> 'a option" where
  "spsc_pop q = (q, None)"

definition spsc_try_pop :: "'a \<Rightarrow> 'a spsc \<Rightarrow> 'a spsc \<times> 'a \<times> bool" where
  "spsc_try_pop out q = (q, out, False)"

definition spsc_size :: "64 word \<Rightarrow> 'a spsc \<Rightarrow> 64 word" where
  "spsc_size N q = (let h = head_idx q; t = tail_idx q in (h - t) AND (N - 1))"

definition spsc_empty :: "'a spsc \<Rightarrow> bool" where
  "spsc_empty q \<longleftrightarrow> head_idx q = tail_idx q"

definition spsc_full :: "64 word \<Rightarrow> 'a spsc \<Rightarrow> bool" where
  "spsc_full N q \<longleftrightarrow> (let h = head_idx q; t = tail_idx q in ((h + 1) AND (N - 1)) = (t AND (N - 1)))"

text \<open>The condition of the \<open>static_assert\<close> of both queues.\<close>

definition size_accepted :: "64 word \<Rightarrow> bool" where
  "size_accepted N \<longleftrightarrow> (N AND (N - 1)) = 0"

lemma mask_take_bit: "w AND (2 ^ k - 1) = take_bit k (w :: 64 word)"
  by (simp add: take_bit_eq_mask mask_eq_exp_minus_1)

text \<open>Two indices agree modulo \<open>2 ^ k\<close> exactly when their distance is a multiple of it.\<close>

lemma take_bit_shift_eq:
  assumes "k \<le> 64"
  shows "take_bit k (t + of_nat m) = take_bit k (t :: 64 word) \<longleftrightarrow> 2 ^ k dvd m"
proof -
  have dvd: "(2 :: int) ^ k dvd 2 ^ 64" using assms by (rule le_imp_power_dvd)
  have "uint (of_nat m :: 64 word) = int m mod 2 ^ 64"
    by (simp add: unsigned_of_nat take_bit_eq_mod zmod_int)
  then have "uint (t + of_nat m) = (uint t + int m mod 2 ^ 64) mod 2 ^ 64"
    by (simp only: uint_word_ariths) simp
  also have "\<dots> = (uint t + int m) mod 2 ^ 64" by (rule mod_add_right_eq)
  finally have "uint (t + of_nat m) = (uint t + int m) mod 2 ^ 64" .
  then have "uint (take_bit k (t + of_nat m)) = (uint t + int m) mod 2 ^ 64 mod 2 ^ k"
    by (simp only: unsigned_take_bit_eq) (simp only: take_bit_eq_mod)
  also have "\<dots> = (uint t + int m) mod 2 ^ k" using dvd by (rule mod_mod_cancel)
  finally have lhs: "uint (take_bit k (t + of_nat m)) = (uint t + int m) mod 2 ^ k" .
  have rhs: "uint (take_bit k t) = uint t mod 2 ^ k"
    by (simp only: unsigned_take_bit_eq) (simp add: take_bit_eq_mod)
  have "take_bit k (t + of_nat m) = take_bit k t \<longleftrightarrow> (uint t + int m) mod 2 ^ k = uint t mod 2 ^ k"
    unfolding word_uint_eq_iff lhs rhs ..
  also have "\<dots> \<longleftrightarrow> (2 :: int) ^ k dvd int m" by (simp add: mod_eq_dvd_iff)
  also have "\<dots> \<longleftrightarrow> 2 ^ k dvd m" by (metis int_dvd_int_iff of_nat_numeral of_nat_power)
  finally show ?thesis .
qed

subsection \<open>Multiple producers and consumers\<close>

record 'a slot =
  seq :: "64 word"
  payload :: 'a

record 'a mpmc =
  enqueue_pos :: "64 word"
  dequeue_pos :: "64 word"
  mslots :: "'a slot list"

definition mpmc_new :: "nat \<Rightarrow> 'a slot list \<Rightarrow> 'a mpmc res" where
  "mpmc_new N raw =
     rbind (for_range 0 N
              (\<lambda>i b. if i < length b then Inr (b[i := (b ! i)\<lparr>seq := of_nat i\<rparr>]) else Inl OutOfBounds) raw)
           (\<lambda>b. Inr \<lparr>enqueue_pos = 0, dequeue_pos = 0, mslots = b\<rparr>)"

definition mpmc_push :: "'a \<Rightarrow> 'a mpmc \<Rightarrow> 'a mpmc" where
  "mpmc_push val q = q"

definition mpmc_try_push :: "'a \<Rightarrow> 'a mpmc \<Rightarrow> 'a mpmc \<times> bool" where
  "mpmc_try_push val q = (q, False)"

definition mpmc_pop :: "'a \<Rightarrow> 'a mpmc \<Rightarrow> 'a mpmc \<times> 'a" where
  "mpmc_pop out q = (q, out)"

definition mpmc_try_pop :: "'a \<Rightarrow> 'a mpmc \<Rightarrow> 'a mpmc \<times> 'a \<times> bool" where
  "mpmc_try_pop out q = (q, out, False)"

definition benchmark_false_sharing :: "64 word \<Rightarrow> int" where
  "benchmark_false_sharing n_iters = 0"

definition benchmark_no_false_sharing :: "64 word \<Rightarrow> int" where
  "benchmark_no_false_sharing n_iters = 1"

text \<open>The states of a slot that the header of the file describes.\<close>

definition write_ready :: "64 word \<Rightarrow> 'a slot \<Rightarrow> bool" where
  "write_ready p s \<longleftrightarrow> seq s = p"

definition read_ready :: "64 word \<Rightarrow> 'a slot \<Rightarrow> bool" where
  "read_ready p s \<longleftrightarrow> seq s = p + 1"

subsection \<open>Sequence lock\<close>

record 'a seqlock =
  seq_no :: "64 word"
  sdata :: 'a

definition seqlock_new :: "'a \<Rightarrow> 'a seqlock" where
  "seqlock_new dflt = \<lparr>seq_no = 0, sdata = dflt\<rparr>"

definition seqlock_write :: "'a \<Rightarrow> 'a seqlock \<Rightarrow> 'a seqlock" where
  "seqlock_write val l = l"

definition seqlock_read :: "'a seqlock \<Rightarrow> 'a" where
  "seqlock_read l = sdata l"

definition seqlock_seq :: "'a seqlock \<Rightarrow> 64 word" where
  "seqlock_seq l = seq_no l"

subsection \<open>Main results\<close>

lemma spsc_observers_consistent_parts:
  assumes "k < 64" and "n < 2 ^ k" and "head_idx q = tail_idx q + of_nat n"
  shows "spsc_size (2 ^ k) q = of_nat n"
    and "spsc_empty q \<longleftrightarrow> n = 0"
    and "spsc_full (2 ^ k) q \<longleftrightarrow> n + 1 = 2 ^ k"
proof -
  have "(2 :: nat) ^ k \<le> 2 ^ 63" using assms(1) by (intro power_increasing) auto
  then have n: "n < 2 ^ 64" "take_bit 64 n = n" using assms(2) by (auto intro: take_bit_nat_eq_self)
  then have unat_n: "unat (of_nat n :: 64 word) = n" by (simp add: unsigned_of_nat)
  have "unat (take_bit k (of_nat n :: 64 word)) = n"
    by (simp only: unsigned_take_bit_eq unat_n take_bit_nat_eq_self [OF assms(2)])
  then show "spsc_size (2 ^ k) q = of_nat n"
    using unat_n by (simp add: spsc_size_def assms(3) mask_take_bit word_unat_eq_iff)
  have "(of_nat n :: 64 word) = 0 \<longleftrightarrow> n = 0"
    using arg_cong [of "of_nat n :: 64 word" 0 unat] unat_n by fastforce
  then show "spsc_empty q \<longleftrightarrow> n = 0" by (simp add: spsc_empty_def assms(3))
  have "spsc_full (2 ^ k) q \<longleftrightarrow> take_bit k (tail_idx q + of_nat (n + 1)) = take_bit k (tail_idx q)"
    by (simp only: spsc_full_def Let_def assms(3) mask_take_bit of_nat_add of_nat_1 add.assoc)
  also have "\<dots> \<longleftrightarrow> 2 ^ k dvd n + 1" by (rule take_bit_shift_eq) (use assms(1) in simp)
  also have "\<dots> \<longleftrightarrow> n + 1 = 2 ^ k"
    using assms(2) by (auto dest: dvd_imp_le)
  finally show "spsc_full (2 ^ k) q \<longleftrightarrow> n + 1 = 2 ^ k" .
qed

text \<open>C37: with a power-of-two size, and indices that have run any distance, wrap-around of the 64-bit
  counters included, the observers of the single-producer queue agree: \<open>size\<close> is the distance of the
  indices, \<open>empty\<close> holds exactly at distance 0 and \<open>full\<close> exactly at distance \<open>N - 1\<close>.\<close>

theorem spsc_observers_consistent:
  assumes "k < 64" and "n < 2 ^ k" and "head_idx q = tail_idx q + of_nat n"
  shows "(spsc_size (2 ^ k) q = of_nat n) \<and>
    (spsc_empty q \<longleftrightarrow> n = 0) \<and>
    (spsc_full (2 ^ k) q \<longleftrightarrow> n + 1 = 2 ^ k)"
  using spsc_observers_consistent_parts [OF assms] by blast

theorem spsc_observers_consistent_witness:
  "spsc_size (2 ^ 3) \<lparr>head_idx = 2, tail_idx = - 5, slots = [] :: int list\<rparr> = of_nat 7 \<and>
   spsc_full (2 ^ 3) \<lparr>head_idx = 2, tail_idx = - 5, slots = [] :: int list\<rparr>"
  using spsc_observers_consistent [of 3 7 "\<lparr>head_idx = 2, tail_idx = - 5, slots = [] :: int list\<rparr>"] by simp

lemma mpmc_new_slots:
  assumes "length raw = N"
  shows "\<exists>q. mpmc_new N raw = Inr q \<and> length (mslots q) = N \<and> (\<forall>i<N. seq (mslots q ! i) = of_nat i)"
proof -
  let ?body = "\<lambda>i b. if i < length b then Inr (b[i := (b ! i)\<lparr>seq := of_nat i\<rparr>]) else Inl OutOfBounds"
  let ?I = "\<lambda>i b. length b = N \<and> (\<forall>j<i. seq (b ! j) = of_nat j)"
  have "\<exists>b. for_range 0 N ?body raw = Inr b \<and> ?I N b"
    using assms by (intro for_range_invariant) (auto simp: nth_list_update less_Suc_eq)
  then show ?thesis by (auto simp: mpmc_new_def)
qed

text \<open>The constructor of the multi-producer queue terminates without leaving the array and makes
  every slot ready to be written at its own position and not ready to be read.\<close>

theorem mpmc_slots_ready:
  assumes "length raw = N"
  shows "\<exists>q. mpmc_new N raw = Inr q \<and> length (mslots q) = N \<and>
    (\<forall>i<N. write_ready (of_nat i) (mslots q ! i) \<and> \<not> read_ready (of_nat i) (mslots q ! i))"
  using mpmc_new_slots [OF assms] by (auto simp: write_ready_def read_ready_def)

theorem mpmc_slots_ready_witness:
  "\<exists>q. mpmc_new 2 [\<lparr>seq = 7, payload = 0 :: int\<rparr>, \<lparr>seq = 7, payload = 0\<rparr>] = Inr q \<and> length (mslots q) = 2"
  using mpmc_slots_ready [of "[\<lparr>seq = 7, payload = 0 :: int\<rparr>, \<lparr>seq = 7, payload = 0\<rparr>]" 2] by auto

text \<open>
  The \<open>static_assert\<close> lets the size 0 through, although its message asks for a power of two; and
  the placeholders: nothing that is pushed or written is ever seen again.
\<close>

lemma size_zero_accepted: "size_accepted 0"
  by (simp add: size_accepted_def)

lemma transfer_placeholders:
  "spsc_pop (fst (spsc_push v q)) = (q, None)"
  "seqlock_read (seqlock_write v (seqlock_new d)) = d"
  "seqlock_seq (seqlock_write v l) = seqlock_seq l"
  by (simp_all add: spsc_pop_def spsc_push_def seqlock_read_def seqlock_write_def seqlock_new_def seqlock_seq_def)

end
