(* ===== verification/Order_Book.thy ===== *)
theory Order_Book
  imports Prelude
begin

section \<open>Order book and matching engine\<close>

text \<open>
  Model of \<open>06-order-book/exercises\<close> as the files stand: \<open>price_levels.hpp\<close> (the display \<open>print_top\<close>
  is implemented, the update and query operations are placeholders), \<open>order_book.hpp\<close> (delegation to
  the price levels) and \<open>matching_engine.hpp\<close> (the counters). The two maps of the price level book are
  lists of levels in iteration order: bids from the highest price, asks from the lowest. Order ids
  are \<open>uint64_t\<close>, modelled as natural numbers below \<open>2 ^ 64\<close>; prices and quantities are \<open>int64_t\<close>.
\<close>

subsection \<open>Price levels\<close>

datatype side = Buy | Sell

record price_level_book =
  bids :: "(int \<times> int) list"
  asks :: "(int \<times> int) list"

definition plb_new :: price_level_book where
  "plb_new = \<lparr>bids = [], asks = []\<rparr>"

definition plb_update :: "side \<Rightarrow> int \<Rightarrow> int \<Rightarrow> price_level_book \<Rightarrow> price_level_book" where
  "plb_update s price qty b = b"

definition plb_best_bid :: "price_level_book \<Rightarrow> int" where
  "plb_best_bid b = -1"

definition plb_best_ask :: "price_level_book \<Rightarrow> int" where
  "plb_best_ask b = -1"

definition plb_qty_at :: "side \<Rightarrow> int \<Rightarrow> price_level_book \<Rightarrow> int" where
  "plb_qty_at s price b = 0"

definition plb_bid_levels :: "price_level_book \<Rightarrow> nat" where
  "plb_bid_levels b = 0"

definition plb_ask_levels :: "price_level_book \<Rightarrow> nat" where
  "plb_ask_levels b = 0"

definition plb_spread :: "price_level_book \<Rightarrow> int" where
  "plb_spread b = -1"

subsection \<open>The display\<close>

text \<open>A conversion with a minimum field width pads on the left with blanks.\<close>

definition pad_left :: "nat \<Rightarrow> string \<Rightarrow> string" where
  "pad_left w s = replicate (w - length s) (CHR '' '') @ s"

definition level_line :: "string \<Rightarrow> int \<times> int \<Rightarrow> string" where
  "level_line tag l =
     ''  '' @ tag @ ''  '' @ pad_left 6 (show_int (fst l)) @ ''   qty '' @ pad_left 8 (show_int (snd l)) @ [CHR 0x0A]"

definition spread_line :: "int \<Rightarrow> string" where
  "spread_line s = ''  ---  spread: '' @ show_int s @ ''  ---'' @ [CHR 0x0A]"

text \<open>The loop over \<open>asks_\<close>: a level is appended first, the bound is tested after it.\<close>

fun collect_asks :: "int \<Rightarrow> (int \<times> int) list \<Rightarrow> (int \<times> int) list \<Rightarrow> (int \<times> int) list" where
  "collect_asks n [] tops = tops"
| "collect_asks n (l # ls) tops =
     (let tops' = tops @ [l] in if size_to_int (length tops') \<ge> n then tops' else collect_asks n ls tops')"

text \<open>The loop over the collected asks, from the index \<open>i\<close> down to 0.\<close>

function print_asks_down :: "(int \<times> int) list \<Rightarrow> int \<Rightarrow> string list \<Rightarrow> string list res" where
  "print_asks_down tops i out =
     (if i \<ge> 0 then
        (if nat i < length tops
         then print_asks_down tops (i - 1) (out @ [level_line ''ask'' (tops ! nat i)])
         else Inl OutOfBounds)
      else Inr out)"
  by pat_completeness auto
termination by (relation "measure (\<lambda>(_, i, _). nat (i + 1))") auto

declare print_asks_down.simps [simp del]

text \<open>The loop over \<open>bids_\<close>: the bound is tested before a level is printed.\<close>

fun print_bids :: "int \<Rightarrow> (int \<times> int) list \<Rightarrow> int \<Rightarrow> string list \<Rightarrow> string list res" where
  "print_bids n [] cnt out = Inr out"
| "print_bids n (l # ls) cnt out =
     (if cnt \<ge> n then Inr out
      else rbind (chk32 (cnt + 1)) (\<lambda>cnt'. print_bids n ls cnt' (out @ [level_line ''bid'' l])))"

definition plb_print_top :: "int \<Rightarrow> price_level_book \<Rightarrow> string list res" where
  "plb_print_top n b =
     (let tops = collect_asks n (asks b) [] in
      rbind (print_asks_down tops (size_to_int (length tops) - 1) [])
            (\<lambda>out. print_bids n (bids b) 0 (out @ [spread_line (plb_spread b)])))"

subsection \<open>Limit order book\<close>

record order =
  order_id :: nat
  order_side :: side
  order_price :: int
  order_qty :: int

record limit_order_book =
  levels :: price_level_book

definition lob_new :: limit_order_book where
  "lob_new = \<lparr>levels = plb_new\<rparr>"

definition lob_add_order :: "order \<Rightarrow> limit_order_book \<Rightarrow> limit_order_book \<times> bool" where
  "lob_add_order ord b = (b, False)"

definition lob_cancel_order :: "nat \<Rightarrow> limit_order_book \<Rightarrow> limit_order_book \<times> bool" where
  "lob_cancel_order oid b = (b, False)"

definition lob_modify_order :: "nat \<Rightarrow> int \<Rightarrow> limit_order_book \<Rightarrow> limit_order_book \<times> bool" where
  "lob_modify_order oid new_qty b = (b, False)"

definition lob_best_bid :: "limit_order_book \<Rightarrow> int" where
  "lob_best_bid b = plb_best_bid (levels b)"

definition lob_best_ask :: "limit_order_book \<Rightarrow> int" where
  "lob_best_ask b = plb_best_ask (levels b)"

definition lob_spread :: "limit_order_book \<Rightarrow> int" where
  "lob_spread b = plb_spread (levels b)"

definition lob_qty_at :: "side \<Rightarrow> int \<Rightarrow> limit_order_book \<Rightarrow> int" where
  "lob_qty_at s p b = plb_qty_at s p (levels b)"

definition lob_print_top :: "int \<Rightarrow> limit_order_book \<Rightarrow> string list res" where
  "lob_print_top n b = plb_print_top n (levels b)"

definition lob_order_count :: "limit_order_book \<Rightarrow> nat" where
  "lob_order_count b = 0"

definition lob_find_order :: "nat \<Rightarrow> limit_order_book \<Rightarrow> order option" where
  "lob_find_order oid b = None"

subsection \<open>Matching engine\<close>

datatype event_type = AddOrder | CancelOrder | ModifyOrder

record order_event =
  ev_type :: event_type
  ev_id :: nat
  ev_side :: side
  ev_price :: int
  ev_qty :: int

record fill =
  aggressor_id :: nat
  passive_id :: nat
  fill_price :: int
  fill_qty :: int

record matching_engine =
  eng_book :: limit_order_book
  orders_processed :: nat
  fills_generated :: nat

definition engine_new :: matching_engine where
  "engine_new = \<lparr>eng_book = lob_new, orders_processed = 0, fills_generated = 0\<rparr>"

definition process_event :: "order_event \<Rightarrow> fill list \<Rightarrow> matching_engine \<Rightarrow> matching_engine \<times> fill list" where
  "process_event ev fills e = (e, fills)"

definition process_events :: "order_event list \<Rightarrow> fill list \<Rightarrow> matching_engine \<Rightarrow> matching_engine \<times> fill list" where
  "process_events evs fills e = (e, fills)"

subsection \<open>The loops of the display\<close>

lemma collect_asks_take:
  assumes "length tops + length ls < 2147483648" and "tops \<noteq> [] \<longrightarrow> int (length tops) < n"
  shows "collect_asks n ls tops = tops @ take (nat (max 1 n) - length tops) ls"
  using assms
proof (induction n ls tops rule: collect_asks.induct)
  case (1 n tops)
  then show ?case by simp
next
  case (2 n l ls tops)
  have sz: "size_to_int (length (tops @ [l])) = int (length tops) + 1"
    using "2.prems"(1) by (subst size_to_int_id) auto
  show ?case
  proof (cases "int (length tops) + 1 \<ge> n")
    case True
    with "2.prems"(2) have "nat (max 1 n) - length tops = 1" by (cases tops) auto
    with True sz show ?thesis by simp
  next
    case False
    with "2" sz have "collect_asks n ls (tops @ [l]) = (tops @ [l]) @ take (nat (max 1 n) - length (tops @ [l])) ls"
      by (intro "2.IH") auto
    moreover have "nat (max 1 n) - length tops = Suc (nat (max 1 n) - length (tops @ [l]))" using False by auto
    ultimately show ?thesis using False sz by simp
  qed
qed

lemma print_asks_down_rev:
  "m \<le> length tops \<Longrightarrow>
   print_asks_down tops (int m - 1) out = Inr (out @ map (level_line ''ask'') (rev (take m tops)))"
proof (induction m arbitrary: out)
  case 0
  then show ?case by (subst print_asks_down.simps) simp
next
  case (Suc m)
  then show ?case by (subst print_asks_down.simps) (simp add: take_Suc_conv_app_nth)
qed

lemma print_bids_take:
  assumes "in_int n" and "0 \<le> cnt" and "cnt \<le> max 0 n"
  shows "print_bids n ls cnt out = Inr (out @ map (level_line ''bid'') (take (nat (n - cnt)) ls))"
  using assms
proof (induction n ls cnt out rule: print_bids.induct)
  case (1 n cnt out)
  then show ?case by simp
next
  case (2 n l ls cnt out)
  show ?case
  proof (cases "cnt \<ge> n")
    case True
    then show ?thesis by simp
  next
    case False
    with "2.prems" have "in_int (cnt + 1)" by (auto simp: in_int_def)
    moreover have "nat (n - cnt) = Suc (nat (n - (cnt + 1)))" using False by simp
    ultimately show ?thesis using False "2.IH" [of "cnt + 1"] "2.prems" by simp
  qed
qed

subsection \<open>Main results\<close>

text \<open>C36: for every \<open>int\<close> argument and every book of fewer than \<open>2 ^ 31\<close> ask levels the display
  terminates, stays inside the collected array and prints the tightest asks from the highest price
  down, the spread, and the best bids. The number of bids is \<open>n\<close> (none when \<open>n\<close> is not positive); the
  number of asks is \<open>n\<close> too, but at least one: with \<open>n \<le> 0\<close> the best ask is still shown.\<close>

theorem print_top_shows:
  assumes "in_int n" and "length (asks b) < 2147483648"
  shows "plb_print_top n b =
    Inr (map (level_line ''ask'') (rev (take (nat (max 1 n)) (asks b))) @ [spread_line (plb_spread b)] @
         map (level_line ''bid'') (take (nat n) (bids b)))"
proof -
  let ?tops = "take (nat (max 1 n)) (asks b)"
  have tops: "collect_asks n (asks b) [] = ?tops" using assms(2) collect_asks_take [of "[]" "asks b" n] by simp
  have "size_to_int (length ?tops) = int (length ?tops)" using assms(2) by (intro size_to_int_id) auto
  then have "print_asks_down ?tops (size_to_int (length ?tops) - 1) [] = Inr (map (level_line ''ask'') (rev ?tops))"
    by (simp only: print_asks_down_rev order.refl take_all append_Nil)
  then show ?thesis
    using assms(1) by (simp add: plb_print_top_def Let_def tops print_bids_take)
qed

theorem print_top_shows_witness:
  "plb_print_top 0 \<lparr>bids = [(99, 10)], asks = [(101, 5), (102, 7)]\<rparr> =
     Inr [level_line ''ask'' (101, 5), spread_line (-1)]"
  using print_top_shows [of 0 "\<lparr>bids = [(99, 10)], asks = [(101, 5), (102, 7)]\<rparr>"]
  by (simp add: in_int_def plb_spread_def)

text \<open>
  The placeholders of the book and of the engine: no update is seen by any query, an order is never
  accepted, and no event is counted or produces a fill.
\<close>

lemma book_placeholders:
  "plb_qty_at s p (plb_update s p q b) = 0"
  "lob_find_order (order_id ord) (fst (lob_add_order ord lb)) = None"
  "process_events evs fs e = (e, fs)"
  by (simp_all add: plb_qty_at_def lob_find_order_def process_events_def)

text \<open>An engine that has processed any events displays an empty book.\<close>

lemma engine_display:
  assumes "in_int n"
  shows "lob_print_top n (eng_book (fst (process_events evs fs engine_new))) = Inr [spread_line (-1)]"
  using assms
  by (simp add: lob_print_top_def process_events_def engine_new_def lob_new_def plb_new_def
      plb_print_top_def print_asks_down.simps size_to_int_def plb_spread_def)

end
