(* ===== verification/Event_Stream.thy ===== *)
theory Event_Stream
  imports Order_Book
begin

section \<open>The generator of order events\<close>

text \<open>
  Model of \<open>generate_event_stream\<close> of \<open>06-order-book/exercises/ex3-matching-engine/test_matching_engine.cpp\<close>,
  which the header \<open>matching_engine.hpp\<close> declares. The Mersenne twister and its distributions are given
  by their draws: an iteration draws at most once from each, and \<open>draw i\<close> holds the values that
  iteration \<open>i\<close> would draw. \<open>draws_in_range\<close> states what the distributions promise.
\<close>

record draws =
  roll :: int
  side_draw :: int
  qty_draw :: int
  raw :: nat

definition draws_in_range :: "draws \<Rightarrow> bool" where
  "draws_in_range d \<longleftrightarrow>
     0 \<le> roll d \<and> roll d \<le> 9 \<and> 0 \<le> side_draw d \<and> side_draw d \<le> 1 \<and> 1 \<le> qty_draw d \<and> qty_draw d \<le> 100"

record gen_state =
  events :: "order_event list"
  live_ids :: "nat list"
  next_id :: nat

text \<open>\<open>OrderEvent ev{}\<close> zeroes every field that is not assigned afterwards.\<close>

definition zero_event :: "event_type \<Rightarrow> nat \<Rightarrow> order_event" where
  "zero_event t i = \<lparr>ev_type = t, ev_id = i, ev_side = Buy, ev_price = 0, ev_qty = 0\<rparr>"

definition choose_side_price :: "nat \<Rightarrow> draws \<Rightarrow> side \<times> int" where
  "choose_side_price i d =
     (if i > 0 \<and> i mod 19 = 0 then (Buy, 102 + int (raw d mod 3))
      else if i > 0 \<and> i mod 23 = 0 then (Sell, 98 - int (raw d mod 3))
      else if side_draw d \<noteq> 0 then (Buy, 98 + int (raw d mod 3))
      else (Sell, 101 + int (raw d mod 2)))"

definition gen_add :: "nat \<Rightarrow> draws \<Rightarrow> gen_state \<Rightarrow> gen_state" where
  "gen_add i d st =
     (let oid = next_id st;
          (s, p) = choose_side_price i d;
          ev = (zero_event AddOrder oid)\<lparr>ev_qty := qty_draw d, ev_side := s, ev_price := p\<rparr>
      in st\<lparr>next_id := (next_id st + 1) mod 2 ^ 64,
            live_ids := live_ids st @ [oid],
            events := events st @ [ev]\<rparr>)"

text \<open>\<open>std::swap (v[idx], v.back ())\<close> followed by \<open>v.pop_back ()\<close>.\<close>

definition swap_and_pop :: "nat \<Rightarrow> 'a list \<Rightarrow> 'a list" where
  "swap_and_pop idx v = butlast (v[idx := v ! (length v - 1), length v - 1 := v ! idx])"

definition gen_cancel :: "draws \<Rightarrow> gen_state \<Rightarrow> gen_state" where
  "gen_cancel d st =
     (let idx = raw d mod length (live_ids st);
          ev = zero_event CancelOrder (live_ids st ! idx)
      in st\<lparr>live_ids := swap_and_pop idx (live_ids st), events := events st @ [ev]\<rparr>)"

definition gen_modify :: "draws \<Rightarrow> gen_state \<Rightarrow> gen_state" where
  "gen_modify d st =
     (let idx = raw d mod length (live_ids st);
          ev = (zero_event ModifyOrder (live_ids st ! idx))\<lparr>ev_qty := qty_draw d\<rparr>
      in st\<lparr>events := events st @ [ev]\<rparr>)"

definition gen_step :: "(nat \<Rightarrow> draws) \<Rightarrow> nat \<Rightarrow> gen_state \<Rightarrow> gen_state res" where
  "gen_step draw i st =
     (let d = draw i; do_add = (live_ids st = [] \<or> roll d < 6) in
      if do_add then Inr (gen_add i d st)
      else if roll d < 9 then Inr (gen_cancel d st)
      else Inr (gen_modify d st))"

definition generate_event_stream :: "(nat \<Rightarrow> draws) \<Rightarrow> nat \<Rightarrow> order_event list res" where
  "generate_event_stream draw n =
     rbind (for_range 0 n (gen_step draw) \<lparr>events = [], live_ids = [], next_id = 1\<rparr>)
           (\<lambda>st. Inr (events st))"

subsection \<open>What a stream has to satisfy\<close>

text \<open>
  A replay of a stream keeps the next fresh id and the set of orders that were added and not
  cancelled; it fails on an event that adds a used id or names an order that is not live.
\<close>

fun replay_event :: "(nat \<times> nat set) option \<Rightarrow> order_event \<Rightarrow> (nat \<times> nat set) option" where
  "replay_event None ev = None"
| "replay_event (Some (k, L)) ev =
     (case ev_type ev of
        AddOrder \<Rightarrow> if ev_id ev = k then Some (k + 1, insert k L) else None
      | CancelOrder \<Rightarrow> if ev_id ev \<in> L then Some (k, L - {ev_id ev}) else None
      | ModifyOrder \<Rightarrow> if ev_id ev \<in> L then Some (k, L) else None)"

definition replay :: "order_event list \<Rightarrow> (nat \<times> nat set) option" where
  "replay evs = foldl replay_event (Some (1, {})) evs"

text \<open>
  The ranges the comment of the function documents: ordinary buys at 98-100 and sells at 101-102, the
  crossing buys at 102-104 that every 19th iteration adds and the crossing sells at 96-98 of every
  23rd. \<open>event_in_range i\<close> is the range of the event of iteration \<open>i\<close>, on every field the event carries.
\<close>

definition crossing_buy :: "nat \<Rightarrow> bool" where
  "crossing_buy i \<longleftrightarrow> 0 < i \<and> 19 dvd i"

definition crossing_sell :: "nat \<Rightarrow> bool" where
  "crossing_sell i \<longleftrightarrow> 0 < i \<and> 23 dvd i \<and> \<not> 19 dvd i"

definition price_in_range :: "nat \<Rightarrow> side \<Rightarrow> int \<Rightarrow> bool" where
  "price_in_range i sd p \<longleftrightarrow>
     (if crossing_buy i then sd = Buy \<and> p \<in> {102..104}
      else if crossing_sell i then sd = Sell \<and> p \<in> {96..98}
      else case sd of Buy \<Rightarrow> p \<in> {98..100} | Sell \<Rightarrow> p \<in> {101..102})"

definition event_in_range :: "nat \<Rightarrow> order_event \<Rightarrow> bool" where
  "event_in_range i ev \<longleftrightarrow>
     (case ev_type ev of
        AddOrder \<Rightarrow> ev_qty ev \<in> {1..100} \<and> price_in_range i (ev_side ev) (ev_price ev)
      | CancelOrder \<Rightarrow> ev_qty ev = 0 \<and> ev_price ev = 0
      | ModifyOrder \<Rightarrow> ev_qty ev \<in> {1..100} \<and> ev_price ev = 0)"

definition cancelled :: "order_event list \<Rightarrow> nat list" where
  "cancelled evs = map ev_id (filter (\<lambda>ev. ev_type ev = CancelOrder) evs)"

lemma replay_snoc: "replay (evs @ [ev]) = replay_event (replay evs) ev"
  by (simp add: replay_def)

lemma cancelled_snoc:
  "cancelled (evs @ [ev]) = cancelled evs @ (if ev_type ev = CancelOrder then [ev_id ev] else [])"
  by (simp add: cancelled_def)

text \<open>A cancelled order has an id that was handed out and is not live.\<close>

lemma replay_cancelled:
  "replay evs = Some (k, L) \<Longrightarrow>
   distinct (cancelled evs) \<and> set (cancelled evs) \<inter> L = {} \<and> (\<forall>i \<in> set (cancelled evs) \<union> L. i < k)"
proof (induction evs arbitrary: k L rule: rev_induct)
  case Nil
  then show ?case by (simp add: replay_def cancelled_def)
next
  case (snoc ev evs)
  then obtain k' L' where prev: "replay evs = Some (k', L')" and step: "replay_event (Some (k', L')) ev = Some (k, L)"
    by (cases "replay evs") (auto simp: replay_snoc)
  from snoc.IH [OF prev] step show ?case
    by (cases "ev_type ev") (auto simp: cancelled_snoc less_Suc_eq split: if_splits)
qed

subsection \<open>The loop invariant\<close>

lemma swap_and_pop_mset:
  assumes "idx < length v"
  shows "mset v = add_mset (v ! idx) (mset (swap_and_pop idx v))"
proof -
  let ?w = "v[idx := v ! (length v - 1), length v - 1 := v ! idx]"
  have "?w \<noteq> []" using assms by auto
  then have "last ?w = ?w ! (length ?w - 1)" by (rule last_conv_nth)
  also have "\<dots> = v ! idx" using assms by simp
  finally have "?w = swap_and_pop idx v @ [v ! idx]"
    using \<open>?w \<noteq> []\<close> by (metis append_butlast_last_id swap_and_pop_def)
  moreover have "mset ?w = mset v" using assms by (intro mset_swap) auto
  ultimately show ?thesis by (metis mset_append mset_single_iff_right union_mset_add_mset_right add.right_neutral mset.simps)
qed

definition gen_inv :: "nat \<Rightarrow> gen_state \<Rightarrow> bool" where
  "gen_inv i st \<longleftrightarrow>
     length (events st) = i \<and> next_id st \<le> i + 1 \<and> distinct (live_ids st) \<and>
     replay (events st) = Some (next_id st, set (live_ids st)) \<and> list_all2 event_in_range [0..<i] (events st)"

lemma live_below_next: "gen_inv i st \<Longrightarrow> j \<in> set (live_ids st) \<Longrightarrow> j < next_id st"
  unfolding gen_inv_def using replay_cancelled by blast

lemma choose_in_range: "choose_side_price i d = (s, p) \<Longrightarrow> price_in_range i s p"
proof -
  have "int (raw d mod 3) \<in> {0..2}" "int (raw d mod 2) \<in> {0..1}"
    unfolding atLeastAtMost_iff by linarith+
  then show "choose_side_price i d = (s, p) \<Longrightarrow> ?thesis"
    by (auto simp: choose_side_price_def price_in_range_def crossing_buy_def crossing_sell_def
        mod_eq_0_iff_dvd split: if_splits)
qed

lemma list_all2_snoc: "list_all2 P (xs @ [x]) (ys @ [y]) \<longleftrightarrow> list_all2 P xs ys \<and> P x y"
  using list_all2_rev [of P "xs @ [x]" "ys @ [y]"] by auto

lemma gen_add_inv:
  assumes "gen_inv i st" and "draws_in_range d" and "i < 2 ^ 63"
  shows "gen_inv (Suc i) (gen_add i d st)"
proof -
  obtain s p where sp: "choose_side_price i d = (s, p)" by fastforce
  have "(next_id st + 1) mod 2 ^ 64 = next_id st + 1"
    using assms(1,3) by (intro mod_less) (simp add: gen_inv_def)
  moreover have "next_id st \<notin> set (live_ids st)" using live_below_next [OF assms(1)] by blast
  ultimately show ?thesis
    using assms(1,2) choose_in_range [OF sp]
    by (simp add: gen_inv_def gen_add_def sp Let_def replay_snoc zero_event_def event_in_range_def
        draws_in_range_def list_all2_snoc)
qed

lemma gen_cancel_inv:
  assumes "gen_inv i st" and "live_ids st \<noteq> []"
  shows "gen_inv (Suc i) (gen_cancel d st)"
proof -
  let ?idx = "raw d mod length (live_ids st)" let ?v = "live_ids st" let ?w = "swap_and_pop ?idx ?v"
  have idx: "?idx < length ?v" using assms(2) by simp
  note m = swap_and_pop_mset [OF idx]
  have "distinct (?v ! ?idx # ?w)"
    using m assms(1) by (metis gen_inv_def mset.simps(2) mset_eq_imp_distinct_iff)
  moreover have "set ?v = insert (?v ! ?idx) (set ?w)" using m by (metis set_mset_mset set_mset_add_mset_insert)
  ultimately have "set ?w = set ?v - {?v ! ?idx}" "distinct ?w" "?v ! ?idx \<in> set ?v" by auto
  with assms(1) show ?thesis
    by (simp add: gen_inv_def gen_cancel_def Let_def replay_snoc zero_event_def event_in_range_def list_all2_snoc)
qed

lemma gen_modify_inv:
  assumes "gen_inv i st" and "live_ids st \<noteq> []" and "draws_in_range d"
  shows "gen_inv (Suc i) (gen_modify d st)"
  using assms
  by (simp add: gen_inv_def gen_modify_def Let_def replay_snoc zero_event_def event_in_range_def draws_in_range_def list_all2_snoc)

lemma gen_step_inv:
  assumes "gen_inv i st" and "draws_in_range (draw i)" and "i < 2 ^ 63"
  shows "\<exists>st'. gen_step draw i st = Inr st' \<and> gen_inv (Suc i) st'"
  using assms gen_add_inv gen_cancel_inv gen_modify_inv by (simp add: gen_step_def Let_def)

subsection \<open>Main results\<close>


definition draw_demo :: "nat \<Rightarrow> draws" where
  "draw_demo i = \<lparr>roll = int (i mod 10), side_draw = int (i mod 2), qty_draw = 7, raw = 5 * i\<rparr>"


end
