(* ===== verification/Networking.thy ===== *)
theory Networking
  imports Prelude
begin

section \<open>Echo server and multicast feed\<close>

text \<open>
  Model of \<open>07-networking/exercises/ex1-epoll-server/server.hpp\<close> and \<open>ex2-udp-multicast/multicast.hpp\<close> as the
  files stand: construction, destruction, the event loop and the stop flag of the server are
  implemented, the socket operations are placeholders. \<open>run\<close> has no bound of its own, so it is a
  partial function: \<open>None\<close> is an execution that never returns. The other threads are the argument
  \<open>calls\<close>: \<open>calls k\<close> tells whether one of them calls \<open>stop\<close> just before the \<open>k\<close>-th load of the flag.
\<close>

subsection \<open>Echo server\<close>

record echo_server =
  port :: "16 word"
  kq :: int
  listen_fd :: int
  stop_flag :: bool
  accepted :: int
  echoed :: int

definition server_new :: "16 word \<Rightarrow> echo_server" where
  "server_new p = \<lparr>port = p, kq = -1, listen_fd = -1, stop_flag = False, accepted = 0, echoed = 0\<rparr>"

text \<open>The destructor: the descriptors it closes, in order.\<close>

definition server_delete :: "echo_server \<Rightarrow> int list" where
  "server_delete s =
     (if listen_fd s \<ge> 0 then [listen_fd s] else []) @ (if kq s \<ge> 0 then [kq s] else [])"

definition run_once :: "int \<Rightarrow> echo_server \<Rightarrow> echo_server \<times> int" where
  "run_once timeout_ms s = (s, 0)"

definition server_stop :: "echo_server \<Rightarrow> echo_server" where
  "server_stop s = s\<lparr>stop_flag := True\<rparr>"

definition others :: "(nat \<Rightarrow> bool) \<Rightarrow> nat \<Rightarrow> echo_server \<Rightarrow> echo_server" where
  "others calls k s = (if calls k then server_stop s else s)"

partial_function (option) run_loop :: "(nat \<Rightarrow> bool) \<Rightarrow> nat \<Rightarrow> echo_server \<Rightarrow> echo_server option" where
  "run_loop calls k s =
     (if stop_flag (others calls k s) then Some (others calls k s)
      else run_loop calls (Suc k) (fst (run_once 100 (others calls k s))))"

definition server_run :: "(nat \<Rightarrow> bool) \<Rightarrow> echo_server \<Rightarrow> echo_server option" where
  "server_run calls s = run_loop calls 0 s"

definition connections_accepted :: "echo_server \<Rightarrow> int" where
  "connections_accepted s = accepted s"

definition bytes_echoed :: "echo_server \<Rightarrow> int" where
  "bytes_echoed s = echoed s"

definition set_nonblocking :: "int \<Rightarrow> echo_server \<Rightarrow> echo_server" where
  "set_nonblocking fd s = s"

definition accept_client :: "echo_server \<Rightarrow> echo_server" where
  "accept_client s = s"

definition echo_client :: "int \<Rightarrow> echo_server \<Rightarrow> echo_server" where
  "echo_client fd s = s"

subsection \<open>Multicast sender, receiver and price table\<close>

record quote_msg =
  symbol_id :: "32 word"
  price :: int
  bid_qty :: int
  ask_qty :: int
  msg_seq_no :: "64 word"

record multicast_sender =
  snd_fd :: int

definition sender_new :: multicast_sender where
  "sender_new = \<lparr>snd_fd = -1\<rparr>"

definition sender_delete :: "multicast_sender \<Rightarrow> int list" where
  "sender_delete s = (if snd_fd s \<ge> 0 then [snd_fd s] else [])"

definition sender_init :: "multicast_sender \<Rightarrow> multicast_sender \<times> bool" where
  "sender_init s = (s, False)"

definition sender_send :: "quote_msg \<Rightarrow> multicast_sender \<Rightarrow> multicast_sender \<times> bool" where
  "sender_send msg s = (s, False)"

record multicast_receiver =
  rcv_fd :: int
  packets_received :: "64 word"
  gaps_detected :: "64 word"

definition receiver_new :: multicast_receiver where
  "receiver_new = \<lparr>rcv_fd = -1, packets_received = 0, gaps_detected = 0\<rparr>"

definition receiver_delete :: "multicast_receiver \<Rightarrow> int list" where
  "receiver_delete r = (if rcv_fd r \<ge> 0 then [rcv_fd r] else [])"

definition receiver_init :: "multicast_receiver \<Rightarrow> multicast_receiver \<times> bool" where
  "receiver_init r = (r, False)"

definition recv_one :: "quote_msg \<Rightarrow> multicast_receiver \<Rightarrow> multicast_receiver \<times> quote_msg \<times> bool" where
  "recv_one out r = (r, out, False)"

record quote =
  q_bid :: int
  q_ask :: int
  q_bid_qty :: int
  q_ask_qty :: int

text \<open>\<open>PriceTable\<close> has no members yet; its state is the unit value.\<close>

definition table_update :: "quote_msg \<Rightarrow> unit \<Rightarrow> unit" where
  "table_update msg t = t"

definition table_get :: "32 word \<Rightarrow> unit \<Rightarrow> quote" where
  "table_get sid t = \<lparr>q_bid = 0, q_ask = 0, q_bid_qty = 0, q_ask_qty = 0\<rparr>"

definition table_symbol_count :: "unit \<Rightarrow> nat" where
  "table_symbol_count t = 0"

subsection \<open>The event loop\<close>

lemma run_loop_unrolled:
  "run_loop calls k s =
     (if stop_flag s \<or> calls k then Some (s\<lparr>stop_flag := True\<rparr>) else run_loop calls (Suc k) s)"
  by (subst run_loop.simps) (auto simp: others_def server_stop_def run_once_def)

lemma run_loop_returns:
  assumes "calls j" and "k \<le> j"
  shows "run_loop calls k s = Some (s\<lparr>stop_flag := True\<rparr>)"
  using assms
proof (induction "j - k" arbitrary: k)
  case 0
  then show ?case by (subst run_loop_unrolled) auto
next
  case (Suc d)
  then show ?case by (subst run_loop_unrolled) auto
qed

lemma run_loop_stopped:
  "run_loop calls k s = Some s' \<Longrightarrow> stop_flag s \<or> (\<exists>j. k \<le> j \<and> calls j)"
proof (induction rule: run_loop.raw_induct [rotated, consumes 1, case_names step])
  case (step rec calls k s s')
  show ?case
  proof (cases "stop_flag s \<or> calls k")
    case True
    then show ?thesis by auto
  next
    case False
    then have "others calls k s = s" by (simp add: others_def)
    with step(2) False have "rec calls (Suc k) s = Some s'" by (simp add: run_once_def)
    from step(1) [OF this] show ?thesis using Suc_leD by blast
  qed
qed

subsection \<open>Main results\<close>

lemma server_run_returns_parts:
  "(\<exists>s'. server_run calls s = Some s') \<longleftrightarrow> stop_flag s \<or> (\<exists>k. calls k)"
  "server_run calls s \<in> {None, Some (server_stop s)}"
proof -
  have stop: "server_run calls s = Some (server_stop s)" if "stop_flag s \<or> (\<exists>k. calls k)"
  proof (cases "stop_flag s")
    case True
    then show ?thesis unfolding server_run_def by (subst run_loop_unrolled) (simp add: server_stop_def)
  next
    case False
    with that obtain k where "calls k" by blast
    then show ?thesis using run_loop_returns [of calls k 0] by (simp add: server_run_def server_stop_def)
  qed
  have only: "stop_flag s \<or> (\<exists>k. calls k)" if "server_run calls s = Some s'" for s'
    using run_loop_stopped [of calls 0 s s'] that by (auto simp: server_run_def)
  show "(\<exists>s'. server_run calls s = Some s') \<longleftrightarrow> stop_flag s \<or> (\<exists>k. calls k)"
    using stop only by blast
  show "server_run calls s \<in> {None, Some (server_stop s)}"
    using stop only by (cases "server_run calls s") auto
qed

text \<open>Whatever the other threads do, \<open>run\<close> returns if and only if \<open>stop\<close> is called before some load
  of the flag (or was called before \<open>run\<close>), and it then returns with the flag set and every other
  member of the server as it was.\<close>

theorem server_run_returns:
  "((\<exists>s'. server_run calls s = Some s') \<longleftrightarrow> stop_flag s \<or> (\<exists>k. calls k)) \<and>
    (server_run calls s \<in> {None, Some (server_stop s)})"
  using server_run_returns_parts by blast

text \<open>The placeholders: the server closes no descriptor because it never opens one, and nothing that is
  sent is received or shows in the price table.\<close>

lemma network_placeholders:
  "server_run calls (server_new p) = Some s \<Longrightarrow> server_delete s = [] \<and> connections_accepted s = 0"
  "snd (sender_init sender_new) = False \<and> snd (receiver_init receiver_new) = False"
  "table_get (symbol_id msg) (table_update msg t) = \<lparr>q_bid = 0, q_ask = 0, q_bid_qty = 0, q_ask_qty = 0\<rparr>"
proof -
  assume r: "server_run calls (server_new p) = Some s"
  then have "\<exists>k. calls k" using run_loop_stopped by (fastforce simp: server_run_def server_new_def)
  then obtain k where "calls k" ..
  then have "s = (server_new p)\<lparr>stop_flag := True\<rparr>" using r run_loop_returns [of calls k 0] by (simp add: server_run_def)
  then show "server_delete s = [] \<and> connections_accepted s = 0"
    by (simp add: server_delete_def connections_accepted_def server_new_def)
qed (simp_all add: sender_init_def receiver_init_def table_get_def)

end
