(* ===== verification/Fix_Message.thy ===== *)
theory Fix_Message
  imports Prelude
begin

section \<open>FIX messages\<close>

text \<open>
  Model of \<open>07-networking/exercises/ex3-fix-framer\<close>: \<open>fix_parser.hpp\<close> (the parser's counters; feeding,
  checksum and field parsing are placeholders) and the message builder \<open>build_fix_message\<close>, which the
  header declares and \<open>test_fix_parser.cpp\<close> defines. The framing rule that the header documents for
  the parser is stated separately, as the specification the builder is compared with.
\<close>

definition SOH :: char where
  "SOH = CHR 0x01"

record fix_field =
  tag :: int
  fvalue :: string

record fix_parser =
  buffer :: string
  msgs :: "64 word"
  bytes :: "64 word"

definition parser_new :: fix_parser where
  "parser_new = \<lparr>buffer = [], msgs = 0, bytes = 0\<rparr>"

definition parser_feed :: "string \<Rightarrow> fix_parser \<Rightarrow> fix_parser" where
  "parser_feed data p = p"

definition parser_reset :: "fix_parser \<Rightarrow> fix_parser" where
  "parser_reset p = p"

definition messages_parsed :: "fix_parser \<Rightarrow> 64 word" where
  "messages_parsed p = msgs p"

definition bytes_consumed :: "fix_parser \<Rightarrow> 64 word" where
  "bytes_consumed p = bytes p"

definition fix_checksum :: "string \<Rightarrow> 8 word" where
  "fix_checksum msg = 0"

definition parse_fields :: "string \<Rightarrow> fix_field list" where
  "parse_fields raw_msg = []"

subsection \<open>Building a message\<close>

text \<open>The conversion \<open>%03d\<close> of a value that is not negative.\<close>

definition pad_zeros :: "nat \<Rightarrow> string \<Rightarrow> string" where
  "pad_zeros w s = replicate (w - length s) (CHR ''0'') @ s"

fun fix_body :: "(int \<times> string) list \<Rightarrow> string \<Rightarrow> string" where
  "fix_body [] body = body"
| "fix_body ((t, v) # flds) body =
     (if t = 8 \<or> t = 9 \<or> t = 10 then fix_body flds body
      else fix_body flds (body @ show_int t @ ''='' @ v @ [SOH]))"

definition build_fix_message :: "(int \<times> string) list \<Rightarrow> string" where
  "build_fix_message flds =
     (let body = fix_body flds [];
          msg = ''8=FIX.4.2'' @ [SOH] @ ''9='' @ show_nat (length body) @ [SOH] @ body;
          cksum = fix_checksum msg;
          buf = pad_zeros 3 (show_nat (unat cksum))
      in msg @ ''10='' @ buf @ [SOH])"

fun find_field :: "fix_field list \<Rightarrow> int \<Rightarrow> string" where
  "find_field [] t = []"
| "find_field (f # fs) t = (if tag f = t then fvalue f else find_field fs t)"

subsection \<open>The documented wire format\<close>

text \<open>
  The framing rule of \<open>FixParser::feed\<close>: the digits after the first \<open>SOH\<close> that is followed by \<open>9=\<close> give
  the body length; the message ends 7 bytes after the body. \<open>frame\<close> splits a complete message off
  the front of a buffer.
\<close>

fun after_length_tag :: "string \<Rightarrow> nat \<Rightarrow> (nat \<times> string) option" where
  "after_length_tag [] i = None"
| "after_length_tag (c # cs) i =
     (if c = SOH \<and> take 2 cs = ''9='' then Some (i + 3, drop 2 cs) else after_length_tag cs (i + 1))"

definition frame :: "string \<Rightarrow> (string \<times> string) option" where
  "frame buf =
     (case after_length_tag buf 0 of
        None \<Rightarrow> None
      | Some (eq9, cs) \<Rightarrow>
          (let digits = takeWhile (\<lambda>c. c \<noteq> SOH) cs; total = eq9 + length digits + 1 + read_nat digits + 7 in
           if length digits < length cs \<and> total \<le> length buf then Some (take total buf, drop total buf) else None))"

text \<open>All complete messages at the front of a buffer and the bytes that are left.\<close>

function frames :: "string \<Rightarrow> string list \<times> string" where
  "frames buf = (case frame buf of None \<Rightarrow> ([], buf)
                 | Some (m, rest) \<Rightarrow> (let (ms, r) = frames rest in (m # ms, r)))"
  by pat_completeness auto
termination
  by (relation "measure length") (auto simp: frame_def Let_def split: option.splits prod.splits if_splits)

declare frames.simps [simp del]

text \<open>The tokens of a message, each closed by the delimiter.\<close>

fun tokens :: "string \<Rightarrow> string \<Rightarrow> string list" where
  "tokens tok [] = []"
| "tokens tok (c # cs) = (if c = SOH then tok # tokens [] cs else tokens (tok @ [c]) cs)"

definition field_text :: "int \<times> string \<Rightarrow> string" where
  "field_text f = show_int (fst f) @ ''='' @ snd f"

definition ordinary :: "int \<times> string \<Rightarrow> bool" where
  "ordinary f \<longleftrightarrow> fst f \<noteq> 8 \<and> fst f \<noteq> 9 \<and> fst f \<noteq> 10"

subsection \<open>Lemmas on the format\<close>

lemma digit_not_SOH: "d < 10 \<Longrightarrow> digit d \<noteq> SOH"
proof
  assume "d < 10" and "digit d = SOH"
  then have "(of_char (digit d) :: nat) = 1" by (simp add: SOH_def)
  with \<open>d < 10\<close> show False by (simp add: digit_def)
qed

lemma show_nat_no_SOH: "SOH \<notin> set (show_nat n)"
proof (induction n rule: less_induct)
  case (less n)
  show ?case
  proof (cases "n < 10")
    case True
    then show ?thesis by (subst show_nat.simps) (simp add: digit_not_SOH [symmetric])
  next
    case False
    moreover have "SOH \<notin> set (show_nat (n div 10))" using False by (intro less) simp
    ultimately show ?thesis by (subst show_nat.simps) (simp add: digit_not_SOH [symmetric])
  qed
qed

lemma show_int_no_SOH: "SOH \<notin> set (show_int x)"
  by (simp add: show_int_def show_nat_no_SOH) (simp add: SOH_def)

lemma fix_body_concat:
  "fix_body flds body = body @ concat (map (\<lambda>f. field_text f @ [SOH]) (filter ordinary flds))"
  by (induction flds body rule: fix_body.induct) (auto simp: field_text_def ordinary_def)

lemma zero_checksum_text: "pad_zeros 3 (show_nat 0) = ''000''"
  by code_simp

lemma build_shape:
  "build_fix_message flds =
     ''8=FIX.4.2'' @ [SOH] @ ''9='' @ show_nat (length (fix_body flds [])) @ [SOH] @ fix_body flds [] @
     ''10=000'' @ [SOH]"
  by (simp add: build_fix_message_def Let_def fix_checksum_def zero_checksum_text)

lemma takeWhile_SOH: "SOH \<notin> set xs \<Longrightarrow> takeWhile (\<lambda>c. c \<noteq> SOH) (xs @ SOH # ys) = xs"
  by (induction xs) auto

lemma frame_built: "frame (build_fix_message flds @ rest) = Some (build_fix_message flds, rest)"
proof -
  let ?b = "fix_body flds []" let ?m = "build_fix_message flds"
  let ?tail = "show_nat (length ?b) @ SOH # ?b @ ''10=000'' @ [SOH] @ rest"
  have "after_length_tag (?m @ rest) 0 = Some (12, ?tail)"
    by (simp add: build_shape SOH_def)
  moreover have "takeWhile (\<lambda>c. c \<noteq> SOH) ?tail = show_nat (length ?b)"
    by (rule takeWhile_SOH) (rule show_nat_no_SOH)
  moreover have "12 + length (show_nat (length ?b)) + 1 + read_nat (show_nat (length ?b)) + 7 = length ?m"
    by (simp add: build_shape read_show_nat)
  ultimately show ?thesis by (simp add: frame_def Let_def)
qed

lemma tokens_field: "SOH \<notin> set xs \<Longrightarrow> tokens tok (xs @ SOH # ys) = (tok @ xs) # tokens [] ys"
  by (induction xs arbitrary: tok) auto

lemma tokens_body:
  "(\<And>f. f \<in> set fs \<Longrightarrow> SOH \<notin> set (snd f)) \<Longrightarrow>
   tokens [] (concat (map (\<lambda>f. field_text f @ [SOH]) fs) @ ys) = map field_text fs @ tokens [] ys"
proof (induction fs)
  case Nil
  then show ?case by simp
next
  case (Cons f fs)
  then have "SOH \<notin> set (field_text f)" by (simp add: field_text_def show_int_no_SOH) (simp add: SOH_def)
  with Cons show ?case by (simp add: tokens_field)
qed

subsection \<open>Main results\<close>

text \<open>C18: every stream of built messages is framed exactly by the documented rule: whatever the fields
  hold (delimiters inside values included), the body length written by the builder splits the
  concatenation of any number of messages back into these messages, and an unframed rest of the
  stream stays unframed.\<close>

theorem built_messages_framed:
  assumes "frame rest = None"
  shows "frames (concat (map build_fix_message qs) @ rest) = (map build_fix_message qs, rest)"
proof (induction qs)
  case Nil
  with assms show ?case by (simp add: frames.simps)
next
  case (Cons m qs)
  then show ?case by (subst frames.simps) (simp add: frame_built)
qed

theorem built_messages_framed_witness:
  "frames (concat (map build_fix_message [[(35, ''D'')], []]) @ ''8=FIX'') =
     (map build_fix_message [[(35, ''D'')], []], ''8=FIX'')"
  by (rule built_messages_framed) (simp add: frame_def SOH_def)

text \<open>When no value contains the delimiter, the tokens of a built message are the version, the length
  of the body in decimal, the given fields in order without the generated tags 8, 9 and 10, and the
  checksum token, which is \<open>10=000\<close> for every message while the checksum is a placeholder.\<close>

theorem built_message_tokens:
  assumes "\<And>f. f \<in> set flds \<Longrightarrow> SOH \<notin> set (snd f)"
  shows "tokens [] (build_fix_message flds) =
    [''8=FIX.4.2'', ''9='' @ show_nat (\<Sum>f\<leftarrow>filter ordinary flds. length (field_text f) + 1)] @
    map field_text (filter ordinary flds) @ [''10=000'']"
proof -
  let ?fs = "filter ordinary flds" let ?b = "concat (map (\<lambda>f. field_text f @ [SOH]) ?fs)"
  have len: "length ?b = (\<Sum>f\<leftarrow>?fs. length (field_text f) + 1)" by (simp add: length_concat comp_def)
  have "SOH \<notin> set ''8=FIX.4.2''" "SOH \<notin> set (''9='' @ show_nat (length ?b))" "SOH \<notin> set ''10=000''"
    using show_nat_no_SOH [of "length ?b"] by (simp_all add: SOH_def)
  note parts = this [THEN tokens_field]
  have "tokens [] (build_fix_message flds) =
    ''8=FIX.4.2'' # (''9='' @ show_nat (length ?b)) # tokens [] (?b @ ''10=000'' @ [SOH])"
    using parts(1) parts(2) by (simp add: build_shape fix_body_concat)
  also have "tokens [] (?b @ ''10=000'' @ [SOH]) = map field_text ?fs @ [''10=000'']"
    using parts(3) [of "[]" "[]"] assms by (subst tokens_body) auto
  finally show ?thesis by (simp add: len)
qed

theorem built_message_tokens_witness:
  "tokens [] (build_fix_message [(35, ''D''), (9, ''7'')]) = [''8=FIX.4.2'', ''9=5'', ''35=D'', ''10=000'']"
proof -
  have "SOH \<notin> set (snd f)" if "f \<in> set [(35, ''D''), (9, ''7'')]" for f :: "int \<times> string"
    using that by (auto simp: SOH_def)
  then have built: "tokens [] (build_fix_message [(35, ''D''), (9, ''7'')]) =
    [''8=FIX.4.2'', ''9='' @ show_nat (\<Sum>f\<leftarrow>filter ordinary [(35, ''D''), (9, ''7'')]. length (field_text f) + 1)] @
    map field_text (filter ordinary [(35, ''D''), (9, ''7'')]) @ [''10=000'']"
    by (rule built_message_tokens)
  have "show_nat (\<Sum>f\<leftarrow>filter ordinary [(35, ''D''), (9, ''7'')]. length (field_text f) + 1) = ''5''"
    "map field_text (filter ordinary [(35, ''D''), (9, ''7'')]) = [''35=D'']"
    by code_simp+
  then show ?thesis unfolding built by simp
qed

text \<open>The placeholders of the parser: nothing is parsed or counted.\<close>

lemma parser_placeholders:
  "messages_parsed (parser_feed data p) = messages_parsed p"
  "find_field (parse_fields raw) t = []"
  by (simp_all add: parser_feed_def parse_fields_def)

end
