(* ===== verification/Hot_Alloc.thy ===== *)
theory Hot_Alloc
  imports Prelude
begin

section \<open>Arena, object pool and cache exercises\<close>

text \<open>
  Model of \<open>04-cache-and-memory/exercises\<close> as the files stand: \<open>hot_alloc.hpp\<close> (constructors, observers
  and \<open>emplace\<close> are implemented; allocation and release are placeholders) and the function
  placeholders of \<open>cache_profiler.cpp\<close>. Sizes are natural numbers; a pointer is an
  optional address.
\<close>

subsection \<open>Arena\<close>

record arena =
  abuf :: "nat option"
  offset :: nat
  acapacity :: nat

definition arena_new :: "nat \<Rightarrow> arena" where
  "arena_new cap = \<lparr>abuf = None, offset = 0, acapacity = cap\<rparr>"

text \<open>The destructors of both classes: the blocks they release, in order.\<close>

definition arena_delete :: "arena \<Rightarrow> nat list" where
  "arena_delete a = []"

definition arena_allocate :: "nat \<Rightarrow> nat \<Rightarrow> arena \<Rightarrow> arena \<times> nat option" where
  "arena_allocate sz align a = (a, None)"

text \<open>\<open>emplace\<close>: \<open>construct\<close> is the placement new at an address, on the memory \<open>mem\<close>.\<close>

definition arena_emplace ::
  "nat \<Rightarrow> nat \<Rightarrow> (nat \<Rightarrow> 'mem \<Rightarrow> 'mem res) \<Rightarrow> arena \<Rightarrow> 'mem \<Rightarrow> (arena \<times> 'mem \<times> nat option) res" where
  "arena_emplace sz align construct a mem =
     (case arena_allocate sz align a of
        (a', None) \<Rightarrow> Inr (a', mem, None)
      | (a', Some p) \<Rightarrow> rbind (construct p mem) (\<lambda>mem'. Inr (a', mem', Some p)))"

definition arena_reset :: "arena \<Rightarrow> arena" where
  "arena_reset a = a"

definition arena_used :: "arena \<Rightarrow> nat" where
  "arena_used a = offset a"

definition arena_capacity :: "arena \<Rightarrow> nat" where
  "arena_capacity a = acapacity a"

subsection \<open>Object pool\<close>

record object_pool =
  pstorage :: "nat option"
  phead :: "nat option"
  pcapacity :: nat
  pavailable :: nat

definition opool_new :: "nat \<Rightarrow> object_pool" where
  "opool_new n = \<lparr>pstorage = None, phead = None, pcapacity = n, pavailable = n\<rparr>"

definition opool_delete :: "object_pool \<Rightarrow> nat list" where
  "opool_delete p = []"

definition opool_allocate :: "object_pool \<Rightarrow> object_pool \<times> nat option" where
  "opool_allocate p = (p, None)"

definition opool_deallocate :: "nat option \<Rightarrow> object_pool \<Rightarrow> object_pool" where
  "opool_deallocate x p = p"

definition opool_available :: "object_pool \<Rightarrow> nat" where
  "opool_available p = pavailable p"

definition opool_capacity :: "object_pool \<Rightarrow> nat" where
  "opool_capacity p = pcapacity p"

subsection \<open>Cache profiler\<close>

definition build_random_chain :: "nat \<Rightarrow> nat option" where
  "build_random_chain n = None"

definition chase_pointers :: "nat option \<Rightarrow> nat \<Rightarrow> nat option" where
  "chase_pointers head steps = head"

definition profiler_false_sharing :: "nat \<Rightarrow> int" where
  "profiler_false_sharing n_iters = 0"

definition profiler_no_false_sharing :: "nat \<Rightarrow> int" where
  "profiler_no_false_sharing n_iters = 0"

subsection \<open>What the placeholders do\<close>

text \<open>
  A fresh pool reports every slot as available and still never hands one out; an arena of any
  capacity constructs nothing, and its memory is never touched.
\<close>

lemma opool_never_allocates:
  "opool_available (opool_new n) = n \<and> opool_allocate (opool_new n) = (opool_new n, None)"
  by (simp add: opool_available_def opool_allocate_def opool_new_def)

lemma arena_never_constructs: "arena_emplace sz align construct a mem = Inr (a, mem, None)"
  by (simp add: arena_emplace_def arena_allocate_def)

end
