(* ===== verification/Dns.thy ===== *)
theory Dns
  imports Prelude
begin

section \<open>DNS headers\<close>

text \<open>
  Model of \<open>01-bits-and-bytes/exercises/ex3-bitfield-packing\<close>, \<open>dns.h\<close> and \<open>dns.c\<close>, as the files stand: the
  packing operations are placeholders, the printing of a header is implemented. The text that
  \<open>dns_print\<close> writes is a list of lines.
\<close>

record dns_header =
  id_field :: "16 word"
  qr :: int
  opcode :: int
  aa :: int
  tc :: int
  rd :: int
  ra :: int
  z :: int
  rcode :: int
  qdcount :: "16 word"
  ancount :: "16 word"
  nscount :: "16 word"
  arcount :: "16 word"

definition dns_pack :: "dns_header \<Rightarrow> 8 word list \<Rightarrow> 8 word list" where
  "dns_pack hdr out = out"

definition dns_unpack :: "8 word list \<Rightarrow> dns_header \<Rightarrow> dns_header" where
  "dns_unpack buf hdr = hdr"

text \<open>The conversion \<open>%04X\<close> of a 16-bit value.\<close>

definition hex_digit :: "nat \<Rightarrow> char" where
  "hex_digit d = (if d < 10 then digit d else char_of (55 + d))"

definition hex4 :: "nat \<Rightarrow> string" where
  "hex4 n = [hex_digit (n div 4096 mod 16), hex_digit (n div 256 mod 16), hex_digit (n div 16 mod 16), hex_digit (n mod 16)]"

text \<open>What follows the value of QR on its line.\<close>

definition qr_text :: "dns_header \<Rightarrow> string" where
  "qr_text hdr = '' ('' @ (if qr hdr \<noteq> 0 then ''response'' else ''query'') @ '')''"

definition dns_print :: "dns_header \<Rightarrow> string list" where
  "dns_print hdr =
     [''DNS Header:'',
      ''  ID:      0x'' @ hex4 (unat (id_field hdr)),
      ''  QR:      '' @ show_int (qr hdr) @ qr_text hdr,
      ''  Opcode:  '' @ show_int (opcode hdr),
      ''  AA:      '' @ show_int (aa hdr),
      ''  TC:      '' @ show_int (tc hdr),
      ''  RD:      '' @ show_int (rd hdr),
      ''  RA:      '' @ show_int (ra hdr),
      ''  Z:       '' @ show_int (z hdr),
      ''  RCODE:   '' @ show_int (rcode hdr),
      ''  QDCOUNT: '' @ show_nat (unat (qdcount hdr)),
      ''  ANCOUNT: '' @ show_nat (unat (ancount hdr)),
      ''  NSCOUNT: '' @ show_nat (unat (nscount hdr)),
      ''  ARCOUNT: '' @ show_nat (unat (arcount hdr))]"

subsection \<open>Printing loses nothing\<close>

definition hex_value :: "char \<Rightarrow> nat" where
  "hex_value c = (if of_char c < (65 :: nat) then of_char c - 48 else of_char c - 55)"

definition read_hex :: "string \<Rightarrow> nat" where
  "read_hex = foldl (\<lambda>n c. 16 * n + hex_value c) 0"

lemma hex_value_digit: "d < 16 \<Longrightarrow> hex_value (hex_digit d) = d"
  by (auto simp: hex_value_def hex_digit_def digit_def)

lemma read_hex4: "n < 65536 \<Longrightarrow> read_hex (hex4 n) = n"
proof -
  assume n: "n < 65536"
  define a where "a = n div 16"
  define b where "b = a div 16"
  define c where "c = b div 16"
  have parts: "n div 16 = a" "n div 256 = b" "n div 4096 = c"
    by (simp_all add: a_def b_def c_def div_mult2_eq [symmetric])
  have "n = 16 * a + n mod 16" "a = 16 * b + a mod 16" "b = 16 * c + b mod 16"
    by (simp_all add: a_def b_def c_def)
  then have "4096 * c + 256 * (b mod 16) + 16 * (a mod 16) + n mod 16 = n" by linarith
  then have "4096 * (n div 4096) + 256 * (n div 256 mod 16) + 16 * (n div 16 mod 16) + n mod 16 = n"
    unfolding parts .
  then show ?thesis using n by (simp add: read_hex_def hex4_def hex_value_digit)
qed

lemma hex4_inject: "hex4 (unat v) = hex4 (unat w) \<longleftrightarrow> v = (w :: 16 word)"
proof -
  have "unat u < 65536" for u :: "16 word" by (rule order.strict_trans2, rule unsigned_less) simp
  then show ?thesis by (metis read_hex4 unsigned_word_eqI)
qed

lemma show_nat_inject: "show_nat m = show_nat n \<longleftrightarrow> m = n"
  by (metis read_show_nat)

text \<open>A decimal numeral consists of digits only, so the sign and the end of a number are visible.\<close>

lemma digit_ge: "d < 10 \<Longrightarrow> 48 \<le> (of_char (digit d) :: nat)"
  by (simp add: digit_def)

lemma show_nat_chars: "c \<in> set (show_nat n) \<Longrightarrow> 48 \<le> (of_char c :: nat)"
proof (induction n rule: less_induct)
  case (less n)
  show ?case
  proof (cases "n < 10")
    case True
    with less.prems show ?thesis by (subst (asm) show_nat.simps) (simp add: digit_ge)
  next
    case False
    with less.prems have "c \<in> set (show_nat (n div 10)) \<or> c = digit (n mod 10)"
      by (subst (asm) show_nat.simps) auto
    then show ?thesis using less.IH [of "n div 10"] False by (auto simp: digit_ge)
  qed
qed

lemma show_nat_no_minus: "CHR ''-'' \<notin> set (show_nat n)" "CHR '' '' \<notin> set (show_nat n)"
  using show_nat_chars [of "CHR ''-''" n] show_nat_chars [of "CHR '' ''" n] by auto

lemma show_nat_not_minus: "show_nat m \<noteq> CHR ''-'' # t" "CHR ''-'' # t \<noteq> show_nat m"
  using show_nat_no_minus(1) [of m] by (metis list.set_intros(1))+

lemma show_int_inject: "show_int x = show_int y \<longleftrightarrow> x = y"
  by (auto simp: show_int_def show_nat_inject show_nat_not_minus)

lemma show_int_no_blank: "CHR '' '' \<notin> set (show_int x)"
  by (simp add: show_int_def show_nat_no_minus)

lemma until_blank: "CHR '' '' \<notin> set s \<Longrightarrow> takeWhile (\<lambda>c. c \<noteq> CHR '' '') (s @ CHR '' '' # t) = s"
  by (induction s) auto

text \<open>The printout of a header determines every field of it: two headers that print alike are equal.\<close>

theorem dns_print_unambiguous:
  assumes "dns_print h = dns_print h'"
  shows "h = h'"
proof -
  have "show_int (qr h) @ CHR '' '' # tl (qr_text h) = show_int (qr h') @ CHR '' '' # tl (qr_text h')"
    using assms by (simp add: dns_print_def qr_text_def)
  from arg_cong [OF this, of "takeWhile (\<lambda>c. c \<noteq> CHR '' '')"]
  have "show_int (qr h) = show_int (qr h')" by (simp only: until_blank show_int_no_blank not_False_eq_True)
  then have "qr h = qr h'" by (simp add: show_int_inject)
  with assms show ?thesis
    by (intro dns_header.equality) (simp_all only: dns_print_def list.inject append_same_eq same_append_eq
      show_nat_inject hex4_inject show_int_inject word_unat_eq_iff, simp)
qed

definition header_demo :: "int \<Rightarrow> dns_header" where
  "header_demo op = \<lparr>id_field = 0xBEEF, qr = 1, opcode = op, aa = 0, tc = 0, rd = 1, ra = 1, z = 0, rcode = 3,
     qdcount = 1, ancount = 2, nscount = 0, arcount = 0\<rparr>"

theorem dns_print_unambiguous_witness: "header_demo 2 = header_demo (1 + 1) \<and> dns_print (header_demo 1) \<noteq> dns_print (header_demo 2)"
  using dns_print_unambiguous [of "header_demo 2" "header_demo (1 + 1)"]
    dns_print_unambiguous [of "header_demo 1" "header_demo 2"]
  by (auto simp: header_demo_def)

text \<open>The packing placeholders write nothing.\<close>

lemma dns_pack_placeholder: "dns_pack h out = out" "dns_unpack buf h = h"
  by (simp_all add: dns_pack_def dns_unpack_def)

end
