(* ===== verification/Object_Layout.thy ===== *)
theory Object_Layout
  imports Float_Bits
begin

section \<open>Object layout and cache lines\<close>

text \<open>
  The records whose layout the workbook reasons about: the cache line exercises
  (\<open>04-cache-and-memory/exercises/ex1-cache-profiler/cache_profiler.cpp\<close> and
  \<open>ex2-data-layout/data_layout.cpp\<close>), the counters of \<open>mpmc_queue.hpp\<close>, the wire format of \<open>multicast.hpp\<close>
  and the C structures. A member has a size and an alignment; the sizes are those of the LP64 data
  model (4 bytes for \<open>int\<close> and \<open>float\<close>, 8 for pointers, \<open>size_t\<close> and 64-bit integers). Members are placed in
  declaration order, each at the next multiple of its alignment, or directly after each other in a
  packed structure; the size is a multiple of the largest alignment. Cache lines have 64 bytes.
\<close>

record member =
  mname :: string
  msize :: nat
  malign :: nat

definition align_up :: "nat \<Rightarrow> nat \<Rightarrow> nat" where
  "align_up n a = (n + (a - 1)) div a * a"

definition natural_place :: "nat \<Rightarrow> member \<Rightarrow> nat" where
  "natural_place n m = align_up n (malign m)"

definition packed_place :: "nat \<Rightarrow> member \<Rightarrow> nat" where
  "packed_place n m = n"

text \<open>The offset and the size of each member, from the end \<open>n\<close> of what precedes it.\<close>

fun offsets :: "(nat \<Rightarrow> member \<Rightarrow> nat) \<Rightarrow> nat \<Rightarrow> member list \<Rightarrow> (string \<times> nat \<times> nat) list" where
  "offsets place n [] = []"
| "offsets place n (m # ms) =
     (let off = place n m in (mname m, off, msize m) # offsets place (off + msize m) ms)"

fun layout_end :: "(nat \<Rightarrow> member \<Rightarrow> nat) \<Rightarrow> nat \<Rightarrow> member list \<Rightarrow> nat" where
  "layout_end place n [] = n"
| "layout_end place n (m # ms) = layout_end place (place n m + msize m) ms"

fun struct_align :: "member list \<Rightarrow> nat" where
  "struct_align [] = 1"
| "struct_align (m # ms) = max (malign m) (struct_align ms)"

definition struct_size :: "member list \<Rightarrow> nat" where
  "struct_size ms = align_up (layout_end natural_place 0 ms) (struct_align ms)"

definition packed_size :: "member list \<Rightarrow> nat" where
  "packed_size ms = layout_end packed_place 0 ms"

definition offset_of :: "(nat \<Rightarrow> member \<Rightarrow> nat) \<Rightarrow> string \<Rightarrow> member list \<Rightarrow> nat option" where
  "offset_of place nm ms = map_option fst (map_of (offsets place 0 ms) nm)"

subsection \<open>The structures of the workbook\<close>

definition mem :: "string \<Rightarrow> nat \<Rightarrow> member" where
  "mem nm sz = \<lparr>mname = nm, msize = sz, malign = sz\<rparr>"

definition chars :: "string \<Rightarrow> nat \<Rightarrow> member" where
  "chars nm n = \<lparr>mname = nm, msize = n, malign = 1\<rparr>"

definition mem_alignas :: "nat \<Rightarrow> string \<Rightarrow> nat \<Rightarrow> member" where
  "mem_alignas a nm sz = \<lparr>mname = nm, msize = sz, malign = max a sz\<rparr>"

text \<open>An \<open>alignas\<close> on the structure raises the alignment of its first member.\<close>

definition Node :: "member list" where
  "Node = [mem ''next'' 8, chars ''padding'' (64 - 8)]"

definition SharedCounters :: "member list" where
  "SharedCounters = [mem ''a'' 8, mem ''b'' 8]"

definition PaddedCounters :: "member list" where
  "PaddedCounters = [mem_alignas 64 ''a'' 8, chars ''pad'' (64 - 8), mem ''b'' 8]"

definition BadCounters :: "member list" where
  "BadCounters = [mem ''producer_count'' 8, mem ''consumer_count'' 8]"

definition GoodCounters :: "member list" where
  "GoodCounters =
     [mem_alignas 64 ''producer_count'' 8, chars ''_pad'' (64 - 8), mem_alignas 64 ''consumer_count'' 8]"

definition SPSC_indices :: "member list" where
  "SPSC_indices = [mem_alignas 64 ''head_'' 8, mem_alignas 64 ''tail_'' 8]"

definition MPMC_indices :: "member list" where
  "MPMC_indices = [mem_alignas 64 ''enqueue_pos_'' 8, mem_alignas 64 ''dequeue_pos_'' 8]"

definition ParticleAoS :: "member list" where
  "ParticleAoS = [mem ''x'' 4, mem ''y'' 4, mem ''z'' 4, mem ''vx'' 4, mem ''vy'' 4, mem ''vz'' 4, mem ''mass'' 4]"

definition QuoteMsg :: "member list" where
  "QuoteMsg = [mem ''symbol_id'' 4, mem ''price'' 4, mem ''bid_qty'' 4, mem ''ask_qty'' 4, mem ''seq_no'' 8]"

definition dns_header_t :: "member list" where
  "dns_header_t =
     [mem ''id'' 2, mem ''qr'' 4, mem ''opcode'' 4, mem ''aa'' 4, mem ''tc'' 4, mem ''rd'' 4, mem ''ra'' 4, mem ''z'' 4,
      mem ''rcode'' 4, mem ''qdcount'' 2, mem ''ancount'' 2, mem ''nscount'' 2, mem ''arcount'' 2]"

definition entity_t :: "member list" where
  "entity_t = [chars ''name'' 64, mem ''x'' 4, mem ''y'' 4, mem ''hp'' 4, mem ''max_hp'' 4, mem ''alive'' 4]"

subsection \<open>The particle and cache functions\<close>

text \<open>
  The computations of \<open>data_layout.cpp\<close> are placeholders; its \<open>main\<close> and that of the profiler print
  their headings.
\<close>

record particle_aos =
  aos_x :: float_bits
  aos_y :: float_bits
  aos_z :: float_bits
  aos_vx :: float_bits
  aos_vy :: float_bits
  aos_vz :: float_bits
  aos_mass :: float_bits

record particles_soa =
  soa_x :: "float_bits list"
  soa_y :: "float_bits list"
  soa_z :: "float_bits list"
  soa_vx :: "float_bits list"
  soa_vy :: "float_bits list"
  soa_vz :: "float_bits list"
  soa_mass :: "float_bits list"
  soa_n :: nat

definition sum_distances_aos :: "particle_aos list \<Rightarrow> nat \<Rightarrow> float_bits" where
  "sum_distances_aos particles n = 0"

definition sum_distances_soa :: "particles_soa \<Rightarrow> float_bits" where
  "sum_distances_soa particles = 0"

definition sum_distances_simd :: "particles_soa \<Rightarrow> float_bits" where
  "sum_distances_simd particles = 0"

definition heading :: "string \<Rightarrow> string \<Rightarrow> string \<Rightarrow> string" where
  "heading a b c = field_left 14 a @ '' '' @ field_right 14 b @ '' '' @ field_right 12 c @ [CHR 0x0A]"

definition data_layout_main :: "string list \<times> int" where
  "data_layout_main =
     ([heading ''Version'' ''ns/particle'' ''Speedup'', heading ''-----------'' ''-----------'' ''-------''], 0)"

definition profiler_main :: "string list \<times> int" where
  "profiler_main =
     ([''=== Cache Hierarchy Profiler ==='' @ [CHR 0x0A, CHR 0x0A],
       ''Array size    | Latency per access | Likely location'' @ [CHR 0x0A],
       ''--------------|--------------------|-----------------'' @ [CHR 0x0A],
       [CHR 0x0A] @ ''=== False Sharing ==='' @ [CHR 0x0A]], 0)"

subsection \<open>Cache lines\<close>

text \<open>The lines that an object of \<open>sz\<close> bytes at an address touches.\<close>

definition cache_lines :: "nat \<Rightarrow> nat \<Rightarrow> nat set" where
  "cache_lines a sz = {a div 64 .. (a + sz - 1) div 64}"

definition member_lines :: "(nat \<Rightarrow> member \<Rightarrow> nat) \<Rightarrow> nat \<Rightarrow> member list \<Rightarrow> string \<Rightarrow> nat set" where
  "member_lines place base ms nm =
     (case map_of (offsets place 0 ms) nm of None \<Rightarrow> {} | Some (off, sz) \<Rightarrow> cache_lines (base + off) sz)"

definition false_sharing :: "nat \<Rightarrow> member list \<Rightarrow> string \<Rightarrow> string \<Rightarrow> bool" where
  "false_sharing base ms nm nm' \<longleftrightarrow>
     member_lines natural_place base ms nm \<inter> member_lines natural_place base ms nm' \<noteq> {}"

subsection \<open>Placement rules\<close>

text \<open>
  What the results on structures need of a rule that places members: a member starts at or after
  the end of its predecessor.
\<close>

locale placement =
  fixes place :: "nat \<Rightarrow> member \<Rightarrow> nat" and ok :: "member \<Rightarrow> bool"
  assumes place_after: "ok m \<Longrightarrow> n \<le> place n m"
begin

lemma layout_end_ge: "\<forall>m \<in> set ms. ok m \<Longrightarrow> n \<le> layout_end place n ms"
proof (induction ms arbitrary: n)
  case (Cons m ms)
  then have "n \<le> place n m" "place n m + msize m \<le> layout_end place (place n m + msize m) ms"
    using place_after by auto
  then show ?case by simp
qed simp

lemma offsets_inside:
  "\<forall>m \<in> set ms. ok m \<Longrightarrow> (nm, off, sz) \<in> set (offsets place n ms) \<Longrightarrow> n \<le> off \<and> off + sz \<le> layout_end place n ms"
proof (induction ms arbitrary: n)
  case (Cons m ms)
  have after: "n \<le> place n m" using Cons.prems(1) place_after by simp
  from Cons.prems(2) consider "(nm, off, sz) = (mname m, place n m, msize m)"
    | "(nm, off, sz) \<in> set (offsets place (place n m + msize m) ms)" by (auto simp: Let_def)
  then show ?case
  proof cases
    case 1
    with Cons.prems(1) after layout_end_ge [of ms "place n m + msize m"] show ?thesis by simp
  next
    case 2
    with Cons.IH [of "place n m + msize m"] Cons.prems(1) after show ?thesis by fastforce
  qed
qed simp

lemma members_disjoint:
  "\<forall>m \<in> set ms. ok m \<Longrightarrow> sorted_wrt (\<lambda>(_, off, sz) (_, off', _). off + sz \<le> off') (offsets place n ms)"
proof (induction ms arbitrary: n)
  case (Cons m ms)
  then have "\<forall>(nm, off, sz) \<in> set (offsets place (place n m + msize m) ms). place n m + msize m \<le> off"
    using offsets_inside by fastforce
  with Cons show ?case by (auto simp: Let_def)
qed simp

end

lemma align_up_ge: "0 < a \<Longrightarrow> n \<le> align_up n a"
proof -
  assume "0 < a"
  have "n + (a - 1) = (n + (a - 1)) div a * a + (n + (a - 1)) mod a" by simp
  moreover have "(n + (a - 1)) mod a \<le> a - 1" using \<open>0 < a\<close> mod_less_divisor [of a "n + (a - 1)"] by linarith
  ultimately show ?thesis unfolding align_up_def by linarith
qed

lemma align_up_dvd: "a dvd align_up n a"
  by (simp add: align_up_def)

interpretation natural: placement natural_place "\<lambda>m. 0 < malign m"
  by unfold_locales (simp add: natural_place_def align_up_ge)

interpretation packed: placement packed_place "\<lambda>_. True"
  by unfold_locales (simp add: packed_place_def)

text \<open>Under the natural rule every member is at a multiple of its alignment.\<close>

lemma natural_offsets_aligned:
  "(nm, off, sz) \<in> set (offsets natural_place n ms) \<Longrightarrow> \<exists>m \<in> set ms. mname m = nm \<and> msize m = sz \<and> malign m dvd off"
  by (induction ms arbitrary: n) (auto simp: Let_def natural_place_def align_up_dvd)

lemma packed_offsets_sum: "layout_end packed_place n ms = n + sum_list (map msize ms)"
  by (induction ms arbitrary: n) (auto simp: packed_place_def)

text \<open>With alignments that are powers of two, the alignment of the structure is a multiple of each.\<close>

lemma power_of_two_max: "(2 :: nat) ^ j dvd max (2 ^ j) (2 ^ k)" "(2 :: nat) ^ k dvd max (2 ^ j) (2 ^ k)"
  by (cases "j \<le> k"; simp add: max_def le_imp_power_dvd)+

lemma struct_align_power: "\<forall>m \<in> set ms. \<exists>k. malign m = 2 ^ k \<Longrightarrow> \<exists>k. struct_align ms = 2 ^ k"
proof (induction ms)
  case Nil
  then show ?case by (auto intro: exI [of _ 0])
next
  case (Cons m ms)
  then obtain j k where "malign m = 2 ^ j" "struct_align ms = 2 ^ k" by auto
  then show ?case by (auto simp: max_def)
qed

lemma struct_align_dvd:
  "\<forall>m \<in> set ms. \<exists>k. malign m = 2 ^ k \<Longrightarrow> m \<in> set ms \<Longrightarrow> malign m dvd struct_align ms"
proof (induction ms)
  case (Cons m' ms)
  obtain j k where jk: "malign m' = 2 ^ j" "struct_align ms = 2 ^ k"
    using Cons.prems(1) struct_align_power [of ms] by auto
  show ?case
  proof (cases "m = m'")
    case True
    then show ?thesis using jk power_of_two_max by simp
  next
    case False
    then have "malign m dvd struct_align ms" using Cons by auto
    then show ?thesis using jk power_of_two_max(2) [of k j] by (auto intro: dvd_trans)
  qed
qed simp

subsection \<open>Main results\<close>

text \<open>The layout rule is well typed: in a structure whose members have powers of two as alignments,
  placed at an address that is a multiple of the structure's alignment, every member is at a
  multiple of its own alignment, the members are disjoint and in declaration order, all of them end
  inside the size of the structure, and the size keeps the next element of an array aligned.\<close>

lemma layout_well_typed:
  assumes "\<forall>m \<in> set ms. \<exists>k. malign m = 2 ^ k" and "struct_align ms dvd base"
  shows "sorted_wrt (\<lambda>(_, off, sz) (_, off', _). off + sz \<le> off') (offsets natural_place 0 ms) \<and>
    (\<forall>(nm, off, sz) \<in> set (offsets natural_place 0 ms).
       off + sz \<le> struct_size ms \<and> (\<exists>m \<in> set ms. mname m = nm \<and> msize m = sz \<and> malign m dvd base + off)) \<and>
    struct_align ms dvd base + struct_size ms"
proof (intro conjI ballI)
  have pos: "\<forall>m \<in> set ms. 0 < malign m" using assms(1) by force
  obtain k where k: "struct_align ms = 2 ^ k" using struct_align_power [OF assms(1)] by blast
  show "sorted_wrt (\<lambda>(_, off, sz) (_, off', _). off + sz \<le> off') (offsets natural_place 0 ms)"
    by (rule natural.members_disjoint [OF pos])
  show "struct_align ms dvd base + struct_size ms"
    using assms(2) by (simp add: struct_size_def align_up_dvd)
  fix x assume x: "x \<in> set (offsets natural_place 0 ms)"
  obtain nm off sz where e: "x = (nm, off, sz)" by (cases x) auto
  have "off + sz \<le> layout_end natural_place 0 ms" using natural.offsets_inside [OF pos] x e by blast
  also have "\<dots> \<le> struct_size ms" using k by (simp add: struct_size_def align_up_ge)
  finally have "off + sz \<le> struct_size ms" .
  moreover obtain m where m: "m \<in> set ms" "mname m = nm" "msize m = sz" "malign m dvd off"
    using natural_offsets_aligned x e by blast
  moreover have "malign m dvd base" using struct_align_dvd [OF assms(1) m(1)] assms(2) by (rule dvd_trans)
  ultimately show "case x of (nm, off, sz) \<Rightarrow> off + sz \<le> struct_size ms \<and>
      (\<exists>m \<in> set ms. mname m = nm \<and> msize m = sz \<and> malign m dvd base + off)"
    using e by auto
qed

text \<open>The structures of the workbook with their sizes and alignments.\<close>

definition workbook_structs :: "(member list \<times> nat \<times> nat) list" where
  "workbook_structs =
     [(Node, 64, 8), (SharedCounters, 16, 8), (PaddedCounters, 128, 64), (BadCounters, 16, 8), (GoodCounters, 128, 64),
      (SPSC_indices, 128, 64), (MPMC_indices, 128, 64), (ParticleAoS, 28, 4), (dns_header_t, 44, 4), (entity_t, 84, 4)]"

lemma powers: "\<exists>k. 1 = (2 :: nat) ^ k" "\<exists>k. 2 = (2 :: nat) ^ k" "\<exists>k. 4 = (2 :: nat) ^ k" "\<exists>k. 8 = (2 :: nat) ^ k" "\<exists>k. 64 = (2 :: nat) ^ k"
  by (rule exI [of _ 0], simp, rule exI [of _ 1], simp, rule exI [of _ 2], simp, rule exI [of _ 3], simp, rule exI [of _ 6], simp)

lemma workbook_structs_powers: "(ms, n, alignment) \<in> set workbook_structs \<Longrightarrow> \<forall>m \<in> set ms. \<exists>k. malign m = 2 ^ k"
proof -
  have "\<forall>(ms, n, alignment) \<in> set workbook_structs. \<forall>m \<in> set ms. malign m \<in> {1, 2, 4, 8, 64}" by code_simp
  then show "(ms, n, alignment) \<in> set workbook_structs \<Longrightarrow> \<forall>m \<in> set ms. \<exists>k. malign m = 2 ^ k"
    using powers by fastforce
qed

lemma workbook_structs_sizes:
  "(ms, n, alignment) \<in> set workbook_structs \<Longrightarrow> struct_size ms = n \<and> struct_align ms = alignment"
proof -
  have "\<forall>(ms, n, alignment) \<in> set workbook_structs. struct_size ms = n \<and> struct_align ms = alignment" by code_simp
  then show "(ms, n, alignment) \<in> set workbook_structs \<Longrightarrow> struct_size ms = n \<and> struct_align ms = alignment" by blast
qed

lemma documented_offsets:
  "offset_of natural_place ''b'' PaddedCounters = Some 64" "offset_of natural_place ''consumer_count'' GoodCounters = Some 64"
  "offset_of natural_place ''tail_'' SPSC_indices = Some 64" "offset_of natural_place ''dequeue_pos_'' MPMC_indices = Some 64"
  "offset_of natural_place ''next'' Node = Some 0"
  "offsets natural_place 0 ParticleAoS =
     [(''x'', 0, 4), (''y'', 4, 4), (''z'', 8, 4), (''vx'', 12, 4), (''vy'', 16, 4), (''vz'', 20, 4), (''mass'', 24, 4)]"
  "offsets packed_place 0 QuoteMsg =
     [(''symbol_id'', 0, 4), (''price'', 4, 4), (''bid_qty'', 8, 4), (''ask_qty'', 12, 4), (''seq_no'', 16, 8)]"
  "packed_size QuoteMsg = 24"
  by code_simp+



lemma documented_node_size: "struct_size Node = 64"
  by code_simp

text \<open>The sizes the comments and the \<open>static_assert\<close>s of the workbook state: a node of the pointer
  chain has one cache line, a particle 28 bytes of which 12 are its position, the packed quote
  message 24 bytes with no gap between its fields, and the padded counters two lines.\<close>

theorem documented_sizes:
  "struct_size Node = 64 \<and> struct_size ParticleAoS = 28 \<and> offset_of natural_place ''vx'' ParticleAoS = Some 12 \<and>
   packed_size QuoteMsg = 24 \<and> map (fst \<circ> snd) (offsets packed_place 0 QuoteMsg) = [0, 4, 8, 12, 16] \<and>
   struct_size PaddedCounters = 128 \<and> struct_size GoodCounters = 128 \<and> struct_size SharedCounters = 16 \<and>
   struct_size dns_header_t = 44 \<and> struct_size entity_t = 84"
  by code_simp

lemma line_split: "a = 64 * q + r \<Longrightarrow> (a + c) div 64 = q + (r + c) div 64" for a :: nat
  by (simp add: add.assoc)

lemma counter_address:
  assumes "8 dvd (a :: nat)"
  obtains q j where "a = 64 * q + 8 * j" "j < 8"
proof -
  from assms obtain k where "a = 8 * k" by blast
  then have "a = 64 * (k div 8) + 8 * (k mod 8)" using div_mult_mod_eq [of k 8] by linarith
  moreover have "k mod 8 < 8" by simp
  ultimately show thesis using that by blast
qed

lemma cache_lines_counter: "8 dvd a \<Longrightarrow> cache_lines a 8 = {a div 64}"
proof -
  assume "8 dvd a"
  then obtain q j where a: "a = 64 * q + 8 * j" "j < 8" by (rule counter_address)
  have "(a + 7) div 64 = a div 64" using line_split [OF a(1), of 7] line_split [OF a(1), of 0] a(2) by simp
  then show ?thesis by (simp add: cache_lines_def add.commute)
qed

lemma false_sharing_counters:
  assumes "8 dvd base"
    and "map_of (offsets natural_place 0 ms) nm = Some (off, 8)" and "8 dvd off"
    and "map_of (offsets natural_place 0 ms) nm' = Some (off', 8)" and "8 dvd off'"
  shows "false_sharing base ms nm nm' \<longleftrightarrow> (base + off) div 64 = (base + off') div 64"
  using assms by (auto simp: false_sharing_def member_lines_def cache_lines_counter dvd_add)

lemma counter_offsets:
  "map_of (offsets natural_place 0 PaddedCounters) ''a'' = Some (0, 8)"
  "map_of (offsets natural_place 0 PaddedCounters) ''b'' = Some (64, 8)"
  "map_of (offsets natural_place 0 GoodCounters) ''producer_count'' = Some (0, 8)"
  "map_of (offsets natural_place 0 GoodCounters) ''consumer_count'' = Some (64, 8)"
  "map_of (offsets natural_place 0 SPSC_indices) ''head_'' = Some (0, 8)"
  "map_of (offsets natural_place 0 SPSC_indices) ''tail_'' = Some (64, 8)"
  "map_of (offsets natural_place 0 MPMC_indices) ''enqueue_pos_'' = Some (0, 8)"
  "map_of (offsets natural_place 0 MPMC_indices) ''dequeue_pos_'' = Some (64, 8)"
  "map_of (offsets natural_place 0 SharedCounters) ''a'' = Some (0, 8)"
  "map_of (offsets natural_place 0 SharedCounters) ''b'' = Some (8, 8)"
  "map_of (offsets natural_place 0 BadCounters) ''producer_count'' = Some (0, 8)"
  "map_of (offsets natural_place 0 BadCounters) ''consumer_count'' = Some (8, 8)"
  by code_simp+

lemma adjacent_counter_line: "8 dvd base \<Longrightarrow> base div 64 = (base + 8) div 64 \<longleftrightarrow> base mod 64 \<noteq> 56" for base :: nat
proof -
  assume "8 dvd base"
  then obtain q j where b: "base = 64 * q + 8 * j" "j < 8" by (rule counter_address)
  have "base div 64 = q" "(base + 8) div 64 = q + (8 * j + 8) div 64" "base mod 64 = 8 * j"
    using line_split [OF b(1), of 0] line_split [OF b(1), of 8] b by simp_all
  moreover have "(8 * j + 8) div 64 = 0 \<longleftrightarrow> j \<noteq> 7" using b(2) by auto
  ultimately show ?thesis using b(2) by auto
qed

lemma node_lines: "card (cache_lines base 64) = Suc 0 \<longleftrightarrow> 64 dvd base"
proof -
  define q r where "q = base div 64" and "r = base mod 64"
  have b: "base = 64 * q + r" "r < 64" by (simp_all add: q_def r_def)
  have "(base + 63) div 64 = q + (r + 63) div 64" by (rule line_split [OF b(1)])
  moreover have "(r + 63) div 64 = 0 \<longleftrightarrow> r = 0" by auto
  ultimately have "card (cache_lines base 64) = Suc 0 \<longleftrightarrow> r = 0" by (simp add: cache_lines_def q_def add.commute)
  then show ?thesis by (simp add: r_def dvd_eq_mod_eq_0)
qed

text \<open>C33: false sharing, for every address the alignment rules allow. The padded counters and the
  aligned indices never share a cache line. The counters that are meant to share one do so
  everywhere except at addresses 56 bytes into a line, which their alignment does not exclude; and
  a node of the pointer chain is one cache line exactly when it is placed at the start of one.\<close>

theorem false_sharing_placement:
  assumes "8 dvd base" and "64 dvd base'"
  shows "\<not> false_sharing base' PaddedCounters ''a'' ''b'' \<and>
    \<not> false_sharing base' GoodCounters ''producer_count'' ''consumer_count'' \<and>
    \<not> false_sharing base' SPSC_indices ''head_'' ''tail_'' \<and>
    \<not> false_sharing base' MPMC_indices ''enqueue_pos_'' ''dequeue_pos_'' \<and>
    (false_sharing base SharedCounters ''a'' ''b'' \<longleftrightarrow> base mod 64 \<noteq> 56) \<and>
    (false_sharing base BadCounters ''producer_count'' ''consumer_count'' \<longleftrightarrow> base mod 64 \<noteq> 56) \<and>
    (card (cache_lines base (struct_size Node)) = 1 \<longleftrightarrow> 64 dvd base)"
proof -
  have "8 dvd base'" using assms(2) by presburger
  then show ?thesis
    using assms(1) documented_node_size
    by (simp add: false_sharing_counters [where base = base'] false_sharing_counters [where base = base]
        counter_offsets adjacent_counter_line node_lines)
qed

theorem false_sharing_placement_witness:
  "\<not> false_sharing 128 PaddedCounters ''a'' ''b'' \<and> \<not> false_sharing 56 SharedCounters ''a'' ''b'' \<and>
   false_sharing 64 SharedCounters ''a'' ''b'' \<and> card (cache_lines 8 (struct_size Node)) \<noteq> 1"
  using false_sharing_placement [of 56 128] false_sharing_placement [of 64 128] false_sharing_placement [of 8 128]
  by simp

end
