(* ===== verification/Interleaving.thy ===== *)
theory Interleaving
  imports Prelude
begin

section \<open>Interleavings of threads\<close>

text \<open>
  Multi-threaded programs as step relations: one step is one access of a thread to shared data
  (with the computation on its own variables that follows it), and an execution is any
  interleaving of the steps. \<open>reach\<close> are the states an execution can get to. The locale
  \<open>invariant_system\<close> states what an invariant has to satisfy and proves what it gives; the locale
  \<open>progress_system\<close> adds a measure that no step increases and that some steps can always decrease
  until the program is finished, and proves that the end is reached from every reachable state.
\<close>

inductive reach :: "('s \<Rightarrow> bool) \<Rightarrow> ('s \<Rightarrow> 's \<Rightarrow> bool) \<Rightarrow> 's \<Rightarrow> bool" for start step where
  reach_start: "start s \<Longrightarrow> reach start step s"
| reach_step: "reach start step s \<Longrightarrow> step s s' \<Longrightarrow> reach start step s'"

lemma reach_run: "step\<^sup>*\<^sup>* s s' \<Longrightarrow> reach start step s \<Longrightarrow> reach start step s'"
  by (induction rule: rtranclp_induct) (auto intro: reach_step)

lemma reach_iff_run: "reach start step s \<longleftrightarrow> (\<exists>s0. start s0 \<and> step\<^sup>*\<^sup>* s0 s)"
proof
  assume "reach start step s"
  then show "\<exists>s0. start s0 \<and> step\<^sup>*\<^sup>* s0 s"
    by induction (auto intro: rtranclp.rtrancl_into_rtrancl)
next
  assume "\<exists>s0. start s0 \<and> step\<^sup>*\<^sup>* s0 s"
  then show "reach start step s" by (auto intro: reach_run reach_start)
qed

subsection \<open>Sums over the threads\<close>

text \<open>What a step of one thread changes in a sum over all of them.\<close>

lemma sum_fun_upd:
  assumes "finite A" and "a \<in> A"
  shows "(\<Sum>x\<in>A. f ((g(a := y)) x)) + f (g a) = (\<Sum>x\<in>A. f (g x)) + (f y :: nat)"
proof -
  have "(\<Sum>x\<in>A - {a}. f ((g(a := y)) x)) = (\<Sum>x\<in>A - {a}. f (g x))" by (rule sum.cong) auto
  then show ?thesis using assms by (simp add: sum.remove [of A a])
qed

subsection \<open>Invariants\<close>

locale invariant_system =
  fixes start :: "'s \<Rightarrow> bool" and step :: "'s \<Rightarrow> 's \<Rightarrow> bool" and inv :: "'s \<Rightarrow> bool"
  assumes inv_start: "start s \<Longrightarrow> inv s"
    and inv_step: "reach start step s \<Longrightarrow> inv s \<Longrightarrow> step s s' \<Longrightarrow> inv s'"
begin

lemma reach_inv: "reach start step s \<Longrightarrow> inv s"
  by (induction rule: reach.induct) (auto intro: inv_start inv_step)

lemma run_inv: "reach start step s \<Longrightarrow> step\<^sup>*\<^sup>* s s' \<Longrightarrow> inv s'"
  using reach_inv reach_run by metis

text \<open>A condition that every step from a state with the invariant keeps holds from then on.\<close>

lemma stable:
  assumes keep: "\<And>s s'. inv s \<Longrightarrow> P s \<Longrightarrow> step s s' \<Longrightarrow> P s'"
    and "reach start step s" and "P s" and "step\<^sup>*\<^sup>* s s'"
  shows "P s'"
  using assms(4)
proof (induction rule: rtranclp_induct)
  case base
  then show ?case by (rule assms(3))
next
  case (step y z)
  then show ?case using keep run_inv [OF assms(2)] by blast
qed

end

subsection \<open>Progress\<close>

locale progress_system = invariant_system start step inv
  for start :: "'s \<Rightarrow> bool" and step :: "'s \<Rightarrow> 's \<Rightarrow> bool" and inv :: "'s \<Rightarrow> bool" +
  fixes finished :: "'s \<Rightarrow> bool" and rank :: "'s \<Rightarrow> nat"
  assumes rank_mono: "inv s \<Longrightarrow> step s s' \<Longrightarrow> rank s' \<le> rank s"
    and rank_progress: "inv s \<Longrightarrow> \<not> finished s \<Longrightarrow> \<exists>s'. step\<^sup>*\<^sup>* s s' \<and> rank s' < rank s"
begin

lemma run_rank: "reach start step s \<Longrightarrow> step\<^sup>*\<^sup>* s s' \<Longrightarrow> rank s' \<le> rank s"
  by (rule stable [where P = "\<lambda>t. rank t \<le> rank s"]) (auto dest: rank_mono)

lemma can_finish: "reach start step s \<Longrightarrow> \<exists>s'. step\<^sup>*\<^sup>* s s' \<and> finished s'"
proof (induction "rank s" arbitrary: s rule: less_induct)
  case less
  show ?case
  proof (cases "finished s")
    case False
    then obtain t where t: "step\<^sup>*\<^sup>* s t" "rank t < rank s" using rank_progress reach_inv less.prems by blast
    then obtain s' where "step\<^sup>*\<^sup>* t s'" "finished s'"
      using less.hyps reach_run [OF t(1) less.prems] by blast
    with t(1) show ?thesis by (meson rtranclp_trans)
  qed auto
qed

end

end
