(* ===== verification/Server_Threads.thy ===== *)
theory Server_Threads
  imports Interleaving Networking Test_Harness
begin

section \<open>The server and its main thread\<close>

text \<open>
  The program of \<open>07-networking/exercises/ex1-epoll-server/test_server.cpp\<close> as an interleaving of its
  two threads: \<open>main\<close> constructs the server, starts the thread, runs the client tests, calls \<open>stop\<close>,
  joins the thread and reads the statistics; the server thread is the loop of \<open>EchoServer::run\<close>. One
  step is one load or store of the flag, one \<open>run_once\<close>, one test or the join. The outcomes of the
  assertions of the client tests depend on sockets and are the parameter \<open>client\<close>.
\<close>

datatype server_pc = SNew | SLoad | SRunOnce | SReturned

datatype main_pc = MSpawn | MClient nat | MStop | MJoin | MStats | MTestEnd | MExit int

record server_prog =
  sp_server :: echo_server
  sp_spc :: server_pc
  sp_mpc :: main_pc
  sp_harness :: harness

definition PORT :: "16 word" where
  "PORT = 19876"

definition client_tests :: "string list" where
  "client_tests = [''test_single_client_echo'', ''test_five_clients_echo'', ''test_stress_20_clients'', ''test_echo_rtt'']"

definition test_server_stats :: "echo_server \<Rightarrow> bool list" where
  "test_server_stats s = [connections_accepted s \<ge> 27, bytes_echoed s > 0]"

definition server_prog_start :: "server_prog \<Rightarrow> bool" where
  "server_prog_start s \<longleftrightarrow> (\<exists>h. s =
     \<lparr>sp_server = server_new PORT, sp_spc = SNew, sp_mpc = MSpawn, sp_harness = TEST_BEGIN h\<rparr>)"

inductive server_prog_step :: "(nat \<Rightarrow> bool list) \<Rightarrow> server_prog \<Rightarrow> server_prog \<Rightarrow> bool" for client where
  main_spawn: "sp_mpc s = MSpawn \<Longrightarrow>
    server_prog_step client s (s\<lparr>sp_mpc := MClient 0, sp_spc := SLoad\<rparr>)"
| main_client: "sp_mpc s = MClient k \<Longrightarrow> k < length client_tests \<Longrightarrow>
    server_prog_step client s
      (s\<lparr>sp_mpc := MClient (Suc k), sp_harness := RUN_TEST (client_tests ! k) (test_body (client k)) (sp_harness s)\<rparr>)"
| main_clients_done: "sp_mpc s = MClient k \<Longrightarrow> length client_tests \<le> k \<Longrightarrow>
    server_prog_step client s (s\<lparr>sp_mpc := MStop\<rparr>)"
| main_stop: "sp_mpc s = MStop \<Longrightarrow>
    server_prog_step client s (s\<lparr>sp_mpc := MJoin, sp_server := server_stop (sp_server s)\<rparr>)"
| main_join: "sp_mpc s = MJoin \<Longrightarrow> sp_spc s = SReturned \<Longrightarrow>
    server_prog_step client s (s\<lparr>sp_mpc := MStats\<rparr>)"
| main_stats: "sp_mpc s = MStats \<Longrightarrow>
    server_prog_step client s
      (s\<lparr>sp_mpc := MTestEnd,
         sp_harness := RUN_TEST ''test_server_stats'' (test_body (test_server_stats (sp_server s))) (sp_harness s)\<rparr>)"
| main_end: "sp_mpc s = MTestEnd \<Longrightarrow>
    server_prog_step client s (s\<lparr>sp_mpc := MExit (TEST_END (sp_harness s))\<rparr>)"
| server_load: "sp_spc s = SLoad \<Longrightarrow>
    server_prog_step client s (s\<lparr>sp_spc := (if stop_flag (sp_server s) then SReturned else SRunOnce)\<rparr>)"
| server_once: "sp_spc s = SRunOnce \<Longrightarrow>
    server_prog_step client s (s\<lparr>sp_spc := SLoad, sp_server := fst (run_once 100 (sp_server s))\<rparr>)"

inductive_cases server_prog_stepE: "server_prog_step client s s'"

fun finished_prog :: "server_prog \<Rightarrow> bool" where
  "finished_prog s = (case sp_mpc s of MExit _ \<Rightarrow> True | _ \<Rightarrow> False)"

text \<open>The steps \<open>main\<close> has left, and what the server has left once the flag is set.\<close>

fun main_left :: "main_pc \<Rightarrow> nat" where
  "main_left MSpawn = length client_tests + 7"
| "main_left (MClient k) = (length client_tests - k) + 6"
| "main_left MStop = 5"
| "main_left MJoin = 4"
| "main_left MStats = 3"
| "main_left MTestEnd = 2"
| "main_left (MExit _) = 0"

fun server_left :: "bool \<Rightarrow> server_pc \<Rightarrow> nat" where
  "server_left flag SReturned = 0"
| "server_left True SLoad = 1"
| "server_left flag pc = 2"

definition prog_rank :: "server_prog \<Rightarrow> nat" where
  "prog_rank s = main_left (sp_mpc s) + server_left (stop_flag (sp_server s)) (sp_spc s)"

text \<open>
  The invariant: the server's other members never change; the thread has returned only when the flag
  is set; the flag is set exactly when \<open>main\<close> is past its call of \<open>stop\<close>; past the join the thread has
  returned; and past the statistics test a failure is counted.
\<close>

definition past_stop :: "main_pc \<Rightarrow> bool" where
  "past_stop pc \<longleftrightarrow> (case pc of MSpawn \<Rightarrow> False | MClient _ \<Rightarrow> False | MStop \<Rightarrow> False | _ \<Rightarrow> True)"

definition past_join :: "main_pc \<Rightarrow> bool" where
  "past_join pc \<longleftrightarrow> past_stop pc \<and> pc \<noteq> MJoin"

definition prog_inv :: "server_prog \<Rightarrow> bool" where
  "prog_inv s \<longleftrightarrow>
     sp_server s = (if past_stop (sp_mpc s) then server_stop (server_new PORT) else server_new PORT) \<and>
     (sp_spc s = SReturned \<longrightarrow> past_stop (sp_mpc s)) \<and>
     (past_join (sp_mpc s) \<longrightarrow> sp_spc s = SReturned) \<and>
     (sp_spc s = SNew \<longleftrightarrow> sp_mpc s = MSpawn) \<and>
     0 \<le> tests_failed (sp_harness s) \<and>
     (sp_mpc s = MTestEnd \<longrightarrow> 0 < tests_failed (sp_harness s)) \<and>
     (\<forall>c. sp_mpc s = MExit c \<longrightarrow> c = 1)"

lemmas pc_simps = past_stop_def past_join_def

lemma flag_simps [simp]:
  "stop_flag (server_new p) = False" "stop_flag (server_stop s) = True" "fst (run_once t s) = s"
  by (simp_all add: server_new_def server_stop_def run_once_def)

lemma RUN_TEST_failed:
  "tests_failed (RUN_TEST nm (test_body cs) h) = tests_failed h + (if \<forall>c \<in> set cs. c then 0 else 1)"
  by (simp add: RUN_TEST_def Let_def test_body_spec)

lemma stats_fail:
  "tests_failed (RUN_TEST nm (test_body (test_server_stats (server_stop (server_new PORT)))) h) = tests_failed h + 1"
  by (simp add: RUN_TEST_failed test_server_stats_def connections_accepted_def server_stop_def server_new_def)

lemma prog_inv_step: "server_prog_step client s s' \<Longrightarrow> prog_inv s \<Longrightarrow> prog_inv s'"
proof (cases rule: server_prog_step.cases, assumption)
  assume p: "prog_inv s" and m: "s' = s\<lparr>sp_mpc := MTestEnd,
    sp_harness := RUN_TEST ''test_server_stats'' (test_body (test_server_stats (sp_server s))) (sp_harness s)\<rparr>" "sp_mpc s = MStats"
  then have "sp_server s = server_stop (server_new PORT)" by (simp add: prog_inv_def pc_simps)
  with p m show "prog_inv s'" by (simp add: prog_inv_def pc_simps stats_fail)
qed (simp_all add: prog_inv_def pc_simps RUN_TEST_failed TEST_END_def)

lemma server_left_mono: "server_left True pc \<le> server_left False pc" "server_left flag pc \<le> 2"
  by (cases "(flag, pc)" rule: server_left.cases; cases pc; simp)+

text \<open>No step increases the rank, and once the flag is set every step decreases it.\<close>

lemma prog_rank_step:
  assumes "server_prog_step client s s'" and "prog_inv s"
  shows "prog_rank s' \<le> prog_rank s \<and> (stop_flag (sp_server s) \<longrightarrow> prog_rank s' < prog_rank s)"
  using assms
proof (cases rule: server_prog_step.cases)
  case main_stop
  then show ?thesis using assms(2) server_left_mono(1) [of "sp_spc s"]
    by (simp add: prog_rank_def prog_inv_def pc_simps)
qed (auto simp: prog_rank_def prog_inv_def pc_simps split: if_splits)

lemma prog_progress:
  assumes "prog_inv s" and "\<not> finished_prog s"
  shows "\<exists>s'. server_prog_step client s s' \<and> prog_rank s' < prog_rank s"
proof (cases "sp_mpc s")
  case MJoin
  show ?thesis
  proof (cases "sp_spc s")
    case SNew
    then show ?thesis using MJoin assms by (simp add: prog_inv_def)
  next
    case SLoad
    with server_load [OF SLoad] MJoin assms(1) show ?thesis
      by (intro exI [of _ "s\<lparr>sp_spc := SReturned\<rparr>"]) (simp add: prog_rank_def prog_inv_def pc_simps)
  next
    case SRunOnce
    with server_once [OF SRunOnce] MJoin assms(1) show ?thesis
      by (intro exI [of _ "s\<lparr>sp_spc := SLoad\<rparr>"]) (simp add: prog_rank_def prog_inv_def pc_simps)
  next
    case SReturned
    with main_join [OF MJoin] MJoin show ?thesis
      by (intro exI [of _ "s\<lparr>sp_mpc := MStats\<rparr>"]) (simp add: prog_rank_def)
  qed
next
  case (MClient k)
  then show ?thesis
    using main_client [OF MClient] main_clients_done [OF MClient]
    by (cases "k < length client_tests") (auto simp: prog_rank_def intro!: exI)
next
  case MStop
  then show ?thesis using main_stop [OF MStop] assms(1) server_left_mono(1) [of "sp_spc s"]
    by (intro exI [of _ "s\<lparr>sp_mpc := MJoin, sp_server := server_stop (sp_server s)\<rparr>"])
      (simp add: prog_rank_def prog_inv_def pc_simps)
next
  case MTestEnd
  then show ?thesis using main_end [OF MTestEnd]
    by (intro exI [of _ "s\<lparr>sp_mpc := MExit (TEST_END (sp_harness s))\<rparr>"]) (simp add: prog_rank_def)
qed (use assms main_spawn main_stats in \<open>auto simp: prog_rank_def prog_inv_def pc_simps intro!: exI\<close>)

interpretation sp: progress_system server_prog_start "server_prog_step client" prog_inv finished_prog prog_rank
  for client
proof
  show "prog_inv s" if "server_prog_start s" for s
    using that by (auto simp: server_prog_start_def prog_inv_def pc_simps TEST_BEGIN_def)
qed (use prog_inv_step prog_rank_step prog_progress in blast)+

lemma server_prog_step_flag:
  "server_prog_step client s s' \<Longrightarrow> stop_flag (sp_server s) \<Longrightarrow> stop_flag (sp_server s')"
  by (erule server_prog_stepE) simp_all

text \<open>Once the flag is set, the number of steps of any interleaving is bounded by the rank.\<close>

lemma stopped_run_bound:
  assumes "(server_prog_step client ^^ n) s s'" and "prog_inv s" and "stop_flag (sp_server s)"
  shows "n + prog_rank s' \<le> prog_rank s"
  using assms
proof (induction n arbitrary: s')
  case (Suc n)
  then obtain t where t: "(server_prog_step client ^^ n) s t" "server_prog_step client t s'" by auto
  have "prog_inv t \<and> stop_flag (sp_server t)"
    using relpowp_imp_rtranclp [OF t(1)]
    by (induction rule: rtranclp_induct) (use Suc.prems(2,3) prog_inv_step server_prog_step_flag in blast)+
  then show ?case using Suc.IH [OF t(1)] Suc.prems(2,3) prog_rank_step [OF t(2)] by fastforce
qed simp

subsection \<open>Main results\<close>

text \<open>C16: for every interleaving of the server thread with \<open>main\<close> and whatever the client tests
  find: the thread leaves its loop only after \<open>stop\<close> was called, and with the server that the
  sequential model of \<open>run\<close> returns; past the join it has left; the program is never stuck before its
  end and the end stays reachable; and once the flag is set every interleaving ends within six steps.\<close>

theorem server_shutdown:
  assumes "reach server_prog_start (server_prog_step client) s"
  shows "(sp_spc s = SReturned \<longrightarrow> past_stop (sp_mpc s) \<and>
      (\<forall>calls k. calls k \<longrightarrow> server_run calls (server_new PORT) = Some (sp_server s))) \<and>
    (past_join (sp_mpc s) \<longrightarrow> sp_spc s = SReturned) \<and>
    (\<not> finished_prog s \<longrightarrow> (\<exists>s'. server_prog_step client s s')) \<and>
    (\<exists>s'. (server_prog_step client)\<^sup>*\<^sup>* s s' \<and> finished_prog s') \<and>
    (\<forall>n s'. stop_flag (sp_server s) \<longrightarrow> (server_prog_step client ^^ n) s s' \<longrightarrow> n \<le> 6)"
proof (intro conjI allI impI)
  have inv: "prog_inv s" using assms by (rule sp.reach_inv)
  show "past_stop (sp_mpc s)" if "sp_spc s = SReturned" using inv that by (simp add: prog_inv_def)
  show "server_run calls (server_new PORT) = Some (sp_server s)" if "sp_spc s = SReturned" "calls k" for calls k
    using inv that server_run_returns_parts [of calls "server_new PORT"] by (auto simp: prog_inv_def)
  show "sp_spc s = SReturned" if "past_join (sp_mpc s)" using inv that by (simp add: prog_inv_def)
  show "\<exists>s'. server_prog_step client s s'" if "\<not> finished_prog s" using prog_progress [OF inv that] by blast
  show "\<exists>s'. (server_prog_step client)\<^sup>*\<^sup>* s s' \<and> finished_prog s'" using assms by (rule sp.can_finish)
  show "n \<le> 6" if "stop_flag (sp_server s)" "(server_prog_step client ^^ n) s s'" for n s'
  proof -
    have "past_stop (sp_mpc s)" using inv that(1) by (simp add: prog_inv_def split: if_splits)
    then have "main_left (sp_mpc s) \<le> 4" by (cases "sp_mpc s") (simp_all add: pc_simps)
    then have "prog_rank s \<le> 6"
      using server_left_mono(2) [of "stop_flag (sp_server s)" "sp_spc s"] by (simp add: prog_rank_def)
    with stopped_run_bound [OF that(2) inv that(1)] show ?thesis by simp
  qed
qed

theorem server_shutdown_witness:
  "\<exists>s. reach server_prog_start (server_prog_step (\<lambda>_. [True])) s \<and> sp_spc s = SReturned \<and> past_stop (sp_mpc s)"
proof -
  let ?step = "server_prog_step (\<lambda>_. [True])"
  let ?s = "\<lparr>sp_server = server_new PORT, sp_spc = SNew, sp_mpc = MSpawn,
    sp_harness = TEST_BEGIN \<lparr>tests_run = 0, tests_passed = 0, tests_failed = 0, current_test = []\<rparr>\<rparr>"
  have start: "reach server_prog_start ?step ?s" by (rule reach_start) (auto simp: server_prog_start_def)
  then obtain s where s: "?step\<^sup>*\<^sup>* ?s s" "finished_prog s" using server_shutdown by blast
  have r: "reach server_prog_start ?step s" using s(1) start by (rule reach_run)
  moreover have "past_join (sp_mpc s)" using s(2) by (simp add: pc_simps split: main_pc.splits)
  ultimately show ?thesis using server_shutdown [OF r] by blast
qed

text \<open>The server of the repository accepts no connection, so its statistics test fails and the program
  ends with exit code 1, for every interleaving and every outcome of the client tests.\<close>

lemma server_prog_exit_code:
  "reach server_prog_start (server_prog_step client) s \<Longrightarrow> sp_mpc s = MExit c \<Longrightarrow> c = 1"
  using sp.reach_inv [of client s] by (simp add: prog_inv_def)

end
