(* ===== verification/Queue_Threads.thy ===== *)
theory Queue_Threads
  imports Interleaving Lockfree_Queues
begin

section \<open>The multi-threaded queue test\<close>

text \<open>
  The program of \<open>test_mpmc_4p4c_correctness\<close> in
  \<open>05-concurrency/exercises/ex3-mpmc-false-sharing/test_mpmc_queue.cpp\<close>: four producers push distinct
  values, four consumers pop them, count each value in \<open>seen\<close> and leave when they believe that every
  item was consumed. One step is one operation on the queue or on an atomic variable. The queue is a
  parameter (a push that has to wait is \<open>None\<close>); the contract \<open>item_queue\<close> is that it hands out
  at most what was put in. The queue of the repository satisfies it, as does a FIFO list.
\<close>

datatype consumer_pc = CPop | CSeen int | CLoad | CAddInside | CAddAfter | CDone

record 'q mpmc_test =
  mq :: 'q
  sent :: "nat \<Rightarrow> nat"
  cpc :: "nat \<Rightarrow> consumer_pc"
  popped :: "nat \<Rightarrow> nat"
  consumed :: int
  seen :: "int \<Rightarrow> nat"
  seen_fault :: bool

definition N_PRODUCERS :: nat where "N_PRODUCERS = 4"

definition N_CONSUMERS :: nat where "N_CONSUMERS = 4"

definition ITEMS_EACH :: nat where "ITEMS_EACH = 250000"

definition TOTAL :: nat where "TOTAL = N_PRODUCERS * ITEMS_EACH"

text \<open>The value that producer \<open>p\<close> pushes in its iteration \<open>i\<close>.\<close>

definition item :: "nat \<Rightarrow> nat \<Rightarrow> int" where
  "item p i = int p * int ITEMS_EACH + int i"

definition mpmc_start :: "'q \<Rightarrow> 'q mpmc_test \<Rightarrow> bool" where
  "mpmc_start q s \<longleftrightarrow> s = \<lparr>mq = q, sent = (\<lambda>_. 0), cpc = (\<lambda>_. CPop), popped = (\<lambda>_. 0), consumed = 0,
     seen = (\<lambda>_. 0), seen_fault = False\<rparr>"

inductive mpmc_step ::
  "(int \<Rightarrow> 'q \<Rightarrow> 'q option) \<Rightarrow> ('q \<Rightarrow> ('q \<times> int) option) \<Rightarrow> 'q mpmc_test \<Rightarrow> 'q mpmc_test \<Rightarrow> bool"
  for push pop where
  producer_push: "p < N_PRODUCERS \<Longrightarrow> sent s p < ITEMS_EACH \<Longrightarrow> push (item p (sent s p)) (mq s) = Some q \<Longrightarrow>
    mpmc_step push pop s (s\<lparr>mq := q, sent := (sent s)(p := Suc (sent s p))\<rparr>)"
| consumer_pop: "k < N_CONSUMERS \<Longrightarrow> cpc s k = CPop \<Longrightarrow> pop (mq s) = Some (q, v) \<Longrightarrow>
    mpmc_step push pop s (s\<lparr>mq := q, cpc := (cpc s)(k := CSeen v)\<rparr>)"
| consumer_empty: "k < N_CONSUMERS \<Longrightarrow> cpc s k = CPop \<Longrightarrow> pop (mq s) = None \<Longrightarrow>
    mpmc_step push pop s (s\<lparr>cpc := (cpc s)(k := CLoad)\<rparr>)"
| consumer_seen: "k < N_CONSUMERS \<Longrightarrow> cpc s k = CSeen v \<Longrightarrow> 0 \<le> v \<Longrightarrow> v < int TOTAL \<Longrightarrow>
    mpmc_step push pop s
      (s\<lparr>cpc := (cpc s)(k := CLoad), seen := (seen s)(v := Suc (seen s v)), popped := (popped s)(k := Suc (popped s k))\<rparr>)"
| consumer_fault: "k < N_CONSUMERS \<Longrightarrow> cpc s k = CSeen v \<Longrightarrow> v < 0 \<or> int TOTAL \<le> v \<Longrightarrow>
    mpmc_step push pop s (s\<lparr>cpc := (cpc s)(k := CDone), seen_fault := True\<rparr>)"
| consumer_load: "k < N_CONSUMERS \<Longrightarrow> cpc s k = CLoad \<Longrightarrow>
    mpmc_step push pop s
      (s\<lparr>cpc := (cpc s)(k := (if consumed s + int (popped s k) \<ge> int TOTAL then CAddInside else CPop))\<rparr>)"
| consumer_inside: "k < N_CONSUMERS \<Longrightarrow> cpc s k = CAddInside \<Longrightarrow>
    mpmc_step push pop s (s\<lparr>cpc := (cpc s)(k := CAddAfter), consumed := consumed s + int (popped s k)\<rparr>)"
| consumer_after: "k < N_CONSUMERS \<Longrightarrow> cpc s k = CAddAfter \<Longrightarrow>
    mpmc_step push pop s (s\<lparr>cpc := (cpc s)(k := CDone), consumed := consumed s + int (popped s k)\<rparr>)"

inductive_cases mpmc_stepE: "mpmc_step push pop s s'"

definition leaving :: "consumer_pc \<Rightarrow> bool" where
  "leaving pc \<longleftrightarrow> pc = CAddInside \<or> pc = CAddAfter \<or> pc = CDone"

subsection \<open>Sums over the threads\<close>

definition pending :: "(nat \<Rightarrow> consumer_pc) \<Rightarrow> int \<Rightarrow> nat" where
  "pending pcs v = (\<Sum>k<N_CONSUMERS. if pcs k = CSeen v then 1 else 0)"

lemma pending_upd:
  "k < N_CONSUMERS \<Longrightarrow> pending (pcs(k := pc)) v + (if pcs k = CSeen v then 1 else 0) =
    pending pcs v + (if pc = CSeen v then 1 else 0)"
  using sum_fun_upd [of "{..<N_CONSUMERS}" k "\<lambda>pc. if pc = CSeen v then 1 else 0" pcs pc]
  by (simp add: pending_def)

definition was_sent :: "'q mpmc_test \<Rightarrow> int \<Rightarrow> bool" where
  "was_sent s v \<longleftrightarrow> (\<exists>p<N_PRODUCERS. \<exists>i < sent s p. v = item p i)"

lemma item_inj:
  assumes "item p i = item p' i'" and "i < ITEMS_EACH" and "i' < ITEMS_EACH"
  shows "p = p' \<and> i = i'"
proof -
  have e: "p * ITEMS_EACH + i = p' * ITEMS_EACH + i'"
    using assms(1) by (simp add: item_def flip: of_nat_mult of_nat_add)
  have "p = p'" using arg_cong [OF e, of "\<lambda>x. x div ITEMS_EACH"] assms(2,3) by simp
  with e show ?thesis by simp
qed

lemma item_range: "p < N_PRODUCERS \<Longrightarrow> i < ITEMS_EACH \<Longrightarrow> 0 \<le> item p i \<and> item p i < int TOTAL"
  by (simp add: item_def TOTAL_def N_PRODUCERS_def ITEMS_EACH_def)

subsection \<open>The contract of the queue and the invariants\<close>

text \<open>Where an item can be: in the queue, on the way to \<open>seen\<close>, or counted.\<close>

definition copies :: "('q \<Rightarrow> int multiset) \<Rightarrow> 'q mpmc_test \<Rightarrow> int \<Rightarrow> nat" where
  "copies contents s v = count (contents (mq s)) v + pending (cpc s) v + seen s v"

definition quota :: "'q mpmc_test \<Rightarrow> int \<Rightarrow> nat" where
  "quota s v = (if was_sent s v then 1 else 0)"

definition items_inv :: "('q \<Rightarrow> int multiset) \<Rightarrow> 'q mpmc_test \<Rightarrow> bool" where
  "items_inv contents s \<longleftrightarrow>
     (\<forall>p<N_PRODUCERS. sent s p \<le> ITEMS_EACH) \<and> (\<forall>v. copies contents s v \<le> quota s v)"

definition count_inv :: "'q mpmc_test \<Rightarrow> bool" where
  "count_inv s \<longleftrightarrow> \<not> seen_fault s \<and> (\<Sum>k<N_CONSUMERS. popped s k) = (\<Sum>v\<in>{0..<int TOTAL}. seen s v)"

definition exit_inv :: "'q mpmc_test \<Rightarrow> bool" where
  "exit_inv s \<longleftrightarrow> consumed s = 0 \<and> (\<forall>k<N_CONSUMERS. \<not> leaving (cpc s k)) \<or> (\<exists>k<N_CONSUMERS. TOTAL \<le> popped s k)"

definition mpmc_inv :: "('q \<Rightarrow> int multiset) \<Rightarrow> 'q mpmc_test \<Rightarrow> bool" where
  "mpmc_inv contents s \<longleftrightarrow> items_inv contents s \<and> count_inv s \<and> exit_inv s"

lemma was_sent_range: "items_inv contents s \<Longrightarrow> was_sent s v \<Longrightarrow> 0 \<le> v \<and> v < int TOTAL"
  unfolding items_inv_def was_sent_def using item_range by (meson less_le_trans)

lemma next_item_new:
  assumes "items_inv contents s" and "p < N_PRODUCERS" and "sent s p < ITEMS_EACH"
  shows "\<not> was_sent s (item p (sent s p))"
proof
  assume "was_sent s (item p (sent s p))"
  then obtain p' i where "p' < N_PRODUCERS" "i < sent s p'" "item p (sent s p) = item p' i"
    by (auto simp: was_sent_def)
  moreover from this assms(1) have "i < ITEMS_EACH" by (auto simp: items_inv_def)
  ultimately show False using item_inj [of p "sent s p" p' i] assms(3) by auto
qed

text \<open>A consumer step keeps the bound when it makes no copy.\<close>

lemma items_keep:
  "items_inv contents s \<Longrightarrow> sent s' = sent s \<Longrightarrow> (\<And>v. copies contents s' v \<le> copies contents s v) \<Longrightarrow>
    items_inv contents s'"
proof -
  assume a: "items_inv contents s" "sent s' = sent s" "\<And>v. copies contents s' v \<le> copies contents s v"
  then have "quota s' v = quota s v" for v by (simp add: quota_def was_sent_def)
  then have "copies contents s' v \<le> quota s' v" for v
    using order_trans [OF a(3)] a(1) by (simp add: items_inv_def)
  then show ?thesis using a(1,2) by (simp add: items_inv_def)
qed

lemma items_pc:
  assumes "items_inv contents s" and "k < N_CONSUMERS" and "\<And>v. pc \<noteq> CSeen v"
    and "sent s' = sent s" "mq s' = mq s" "seen s' = seen s" "cpc s' = (cpc s)(k := pc)"
  shows "items_inv contents s'"
proof (rule items_keep [OF assms(1,4)])
  fix v
  show "copies contents s' v \<le> copies contents s v"
    using pending_upd [OF assms(2), of "cpc s" pc v] assms(3-) by (simp add: copies_def)
qed

lemma pending_pos: "k < N_CONSUMERS \<Longrightarrow> pcs k = CSeen v \<Longrightarrow> 0 < pending pcs v"
  using pending_upd [of k pcs CPop v] by simp

lemma handled_item_range:
  assumes "items_inv contents s" and "k < N_CONSUMERS" and "cpc s k = CSeen v"
  shows "0 \<le> v \<and> v < int TOTAL"
proof -
  have "0 < copies contents s v" using pending_pos [of k "cpc s"] assms(2,3) by (simp add: copies_def)
  then have "was_sent s v" using assms(1) by (force simp: items_inv_def quota_def split: if_splits)
  then show ?thesis by (rule was_sent_range [OF assms(1)])
qed

lemma count_step: "mpmc_step push pop s s' \<Longrightarrow> items_inv contents s \<Longrightarrow> count_inv s \<Longrightarrow> count_inv s'"
proof (induction rule: mpmc_step.induct)
  case (consumer_seen k s v)
  have "(\<Sum>j<N_CONSUMERS. ((popped s)(k := Suc (popped s k))) j) = Suc (\<Sum>j<N_CONSUMERS. popped s j)"
    using sum_fun_upd [of "{..<N_CONSUMERS}" k "\<lambda>x. x" "popped s" "Suc (popped s k)"] consumer_seen by simp
  moreover have "(\<Sum>u\<in>{0..<int TOTAL}. ((seen s)(v := Suc (seen s v))) u) = Suc (\<Sum>u\<in>{0..<int TOTAL}. seen s u)"
    using sum_fun_upd [of "{0..<int TOTAL}" v "\<lambda>x. x" "seen s" "Suc (seen s v)"] consumer_seen by simp
  ultimately show ?case using consumer_seen by (simp add: count_inv_def)
next
  case (consumer_fault k s v)
  then show ?case using handled_item_range by fastforce
qed (auto simp: count_inv_def)

lemma popped_mono: "mpmc_step push pop s s' \<Longrightarrow> popped s k \<le> popped s' k"
  by (erule mpmc_stepE) simp_all

lemma leaving_simps [simp]:
  "leaving CAddInside" "leaving CAddAfter" "leaving CDone" "\<not> leaving CPop" "\<not> leaving CLoad" "\<not> leaving (CSeen v)"
  by (simp_all add: leaving_def)

text \<open>The first consumer to leave loads 0, so it has counted all the items itself.\<close>

lemma first_leaves:
  assumes "mpmc_step push pop s s'" and "items_inv contents s"
    and "consumed s = 0" and "\<forall>k<N_CONSUMERS. \<not> leaving (cpc s k)"
  shows "consumed s' = 0 \<and> (\<forall>k<N_CONSUMERS. \<not> leaving (cpc s' k)) \<or> (\<exists>k<N_CONSUMERS. TOTAL \<le> popped s k)"
  using assms(1)
proof (cases rule: mpmc_step.cases)
  case (consumer_load k)
  show ?thesis
  proof (cases "TOTAL \<le> popped s k")
    case False
    then show ?thesis using consumer_load assms(3,4) by simp
  qed (use consumer_load in blast)
next
  case (consumer_fault k v)
  then show ?thesis using handled_item_range [OF assms(2), of k v] by linarith
qed (use assms(3,4) in \<open>simp; fail | metis leaving_simps(1,2)\<close>)+

lemma exit_step:
  assumes "mpmc_step push pop s s'" and "items_inv contents s" and "exit_inv s"
  shows "exit_inv s'"
proof -
  have "exit_inv s'" if "\<exists>k<N_CONSUMERS. TOTAL \<le> popped s k"
    using that popped_mono [OF assms(1)] order_trans unfolding exit_inv_def by blast
  with first_leaves [OF assms(1,2)] assms(3) show ?thesis unfolding exit_inv_def by blast
qed

locale item_queue =
  fixes push :: "int \<Rightarrow> 'q \<Rightarrow> 'q option" and pop :: "'q \<Rightarrow> ('q \<times> int) option"
    and contents :: "'q \<Rightarrow> int multiset" and q0 :: 'q
  assumes empty_contents: "contents q0 = {#}"
    and push_contents: "push v q = Some q' \<Longrightarrow> contents q' \<subseteq># add_mset v (contents q)"
    and pop_contents: "pop q = Some (q', v) \<Longrightarrow> add_mset v (contents q') \<subseteq># contents q"
begin

lemma items_push:
  assumes inv: "items_inv contents s" and p: "p < N_PRODUCERS" "sent s p < ITEMS_EACH"
    and q: "push (item p (sent s p)) (mq s) = Some q"
  shows "items_inv contents (s\<lparr>mq := q, sent := (sent s)(p := Suc (sent s p))\<rparr>)" (is "items_inv contents ?s")
proof -
  have new: "\<not> was_sent s (item p (sent s p))" using next_item_new inv p .
  have sent: "was_sent ?s v \<longleftrightarrow> was_sent s v \<or> v = item p (sent s p)" for v
    using p(1) by (auto simp: was_sent_def less_Suc_eq)
  have "copies contents ?s v \<le> copies contents s v + (if v = item p (sent s p) then 1 else 0)" for v
    using mset_subset_eq_count [OF push_contents [OF q], of v] by (simp add: copies_def split: if_splits)
  moreover have "quota ?s v = quota s v + (if v = item p (sent s p) then 1 else 0)" for v
    using new by (simp add: quota_def sent)
  moreover have "copies contents s v \<le> quota s v" for v using inv by (simp add: items_inv_def)
  ultimately have "copies contents ?s v \<le> quota ?s v" for v by (metis add_right_mono order_trans)
  moreover have "\<forall>p<N_PRODUCERS. sent ?s p \<le> ITEMS_EACH" using inv p(2) by (simp add: items_inv_def)
  ultimately show ?thesis by (simp only: items_inv_def) blast
qed

lemma items_pop:
  assumes "items_inv contents s" and "k < N_CONSUMERS" and "cpc s k = CPop" and "pop (mq s) = Some (q, v)"
  shows "items_inv contents (s\<lparr>mq := q, cpc := (cpc s)(k := CSeen v)\<rparr>)"
proof (rule items_keep [OF assms(1)])
  fix u
  have "count (contents q) u + (if u = v then 1 else 0) \<le> count (contents (mq s)) u"
    using mset_subset_eq_count [OF pop_contents [OF assms(4)], of u] by (simp split: if_splits)
  then show "copies contents (s\<lparr>mq := q, cpc := (cpc s)(k := CSeen v)\<rparr>) u \<le> copies contents s u"
    using pending_upd [OF assms(2), of "cpc s" "CSeen v" u] assms(3) by (auto simp: copies_def split: if_splits)
qed simp

lemma items_step: "mpmc_step push pop s s' \<Longrightarrow> items_inv contents s \<Longrightarrow> items_inv contents s'"
proof (induction rule: mpmc_step.induct)
  case (consumer_seen k s v)
  show ?case
  proof (rule items_keep [OF consumer_seen.prems])
    fix u
    show "copies contents (s\<lparr>cpc := (cpc s)(k := CLoad), seen := (seen s)(v := Suc (seen s v)),
        popped := (popped s)(k := Suc (popped s k))\<rparr>) u \<le> copies contents s u"
      using pending_upd [OF consumer_seen.hyps(1), of "cpc s" CLoad u] consumer_seen.hyps(2)
      by (auto simp: copies_def split: if_splits)
  qed simp
next
  case (consumer_load k s)
  show ?case
    by (rule items_pc [OF consumer_load.prems consumer_load.hyps(1),
          where pc = "if consumed s + int (popped s k) \<ge> int TOTAL then CAddInside else CPop"]) simp_all
next
  case (consumer_inside k s)
  show ?case by (rule items_pc [OF consumer_inside.prems consumer_inside.hyps(1), of CAddAfter]) simp_all
next
  case (consumer_after k s)
  show ?case by (rule items_pc [OF consumer_after.prems consumer_after.hyps(1), of CDone]) simp_all
next
  case (consumer_empty k s)
  show ?case by (rule items_pc [OF consumer_empty.prems consumer_empty.hyps(1), of CLoad]) simp_all
next
  case (consumer_fault k s v)
  then show ?case using handled_item_range by fastforce
qed (use items_push items_pop in blast)+

end

sublocale item_queue \<subseteq> test: invariant_system "mpmc_start q0" "mpmc_step push pop" "mpmc_inv contents"
proof
  show "mpmc_inv contents s" if "mpmc_start q0 s" for s
    using that empty_contents
    by (auto simp: mpmc_start_def mpmc_inv_def items_inv_def copies_def count_inv_def exit_inv_def leaving_def pending_def)
  show "mpmc_inv contents s'" if "mpmc_inv contents s" "mpmc_step push pop s s'" for s s'
    using that items_step count_step exit_step unfolding mpmc_inv_def by blast
qed

context item_queue
begin

lemma reach_mpmc_inv: "reach (mpmc_start q0) (mpmc_step push pop) s \<Longrightarrow> mpmc_inv contents s"
  by (rule test.reach_inv)

lemma run_mpmc_inv:
  "reach (mpmc_start q0) (mpmc_step push pop) s \<Longrightarrow> (mpmc_step push pop)\<^sup>*\<^sup>* s s' \<Longrightarrow> mpmc_inv contents s'"
  by (rule test.run_inv)

end

text \<open>What the invariant says of \<open>seen\<close> and of the consumers' own counts.\<close>

lemma seen_le_one: "mpmc_inv contents s \<Longrightarrow> seen s v \<le> 1"
proof -
  assume "mpmc_inv contents s"
  then have "copies contents s v \<le> quota s v" by (simp add: mpmc_inv_def items_inv_def)
  moreover have "quota s v \<le> 1" "seen s v \<le> copies contents s v" by (simp_all add: quota_def copies_def)
  ultimately show ?thesis by linarith
qed

lemma popped_sum_le:
  assumes "mpmc_inv contents s"
  shows "(\<Sum>k<N_CONSUMERS. popped s k) \<le> TOTAL"
proof -
  have "(\<Sum>v\<in>{0..<int TOTAL}. seen s v) \<le> (\<Sum>v\<in>{0..<int TOTAL}. 1)" by (intro sum_mono seen_le_one [OF assms])
  then show ?thesis using assms by (simp add: mpmc_inv_def count_inv_def)
qed

lemma winner_takes_all:
  assumes inv: "mpmc_inv contents s" and j: "j < N_CONSUMERS" "TOTAL \<le> popped s j"
  shows "popped s j = TOTAL \<and> (\<forall>i<N_CONSUMERS. i \<noteq> j \<longrightarrow> popped s i = 0) \<and> (\<forall>v\<in>{0..<int TOTAL}. seen s v = 1)"
proof -
  have split: "(\<Sum>k<N_CONSUMERS. popped s k) = popped s j + (\<Sum>k\<in>{..<N_CONSUMERS} - {j}. popped s k)"
    using j(1) by (simp add: sum.remove)
  then have total: "popped s j = TOTAL" "(\<Sum>k\<in>{..<N_CONSUMERS} - {j}. popped s k) = 0"
    using popped_sum_le [OF inv] j(2) by linarith+
  then have "(\<Sum>v\<in>{0..<int TOTAL}. seen s v) = (\<Sum>v\<in>{0..<int TOTAL}. 1)"
    using inv split by (simp add: mpmc_inv_def count_inv_def)
  note all_seen = sum_mono_inv [OF this]
  have "seen s v = 1" if "v \<in> {0..<int TOTAL}" for v
    using that seen_le_one [OF inv] by (intro all_seen) auto
  with total show ?thesis by auto
qed

lemma TOTAL_pos: "0 < TOTAL"
  by (simp add: TOTAL_def N_PRODUCERS_def ITEMS_EACH_def)

text \<open>Two consumers that have each received an item have done so ever after, and then nobody leaves.\<close>

lemma both_received_stable:
  "mpmc_step push pop s s' \<Longrightarrow> 0 < popped s i \<and> 0 < popped s j \<Longrightarrow> 0 < popped s' i \<and> 0 < popped s' j"
  by (erule mpmc_stepE) auto

lemma both_received_none_leaves:
  assumes "mpmc_inv contents s" and "i < N_CONSUMERS" "j < N_CONSUMERS" "i \<noteq> j" "0 < popped s i" "0 < popped s j"
  shows "consumed s = 0 \<and> (\<forall>k<N_CONSUMERS. \<not> leaving (cpc s k))"
proof -
  have "\<not> TOTAL \<le> popped s k" if "k < N_CONSUMERS" for k
    using winner_takes_all [OF assms(1) that] assms(2-) by (cases "k = i") auto
  then show ?thesis using assms(1) by (auto simp: mpmc_inv_def exit_inv_def)
qed

subsection \<open>The queue of the repository and a FIFO list\<close>

definition mpmc_push_op :: "int \<Rightarrow> int mpmc \<Rightarrow> int mpmc option" where
  "mpmc_push_op v q = Some (mpmc_push v q)"

definition mpmc_pop_op :: "int mpmc \<Rightarrow> (int mpmc \<times> int) option" where
  "mpmc_pop_op q = (case mpmc_try_pop 0 q of (q', v, ok) \<Rightarrow> if ok then Some (q', v) else None)"

definition fifo_push :: "int \<Rightarrow> int list \<Rightarrow> int list option" where
  "fifo_push v q = Some (q @ [v])"

fun fifo_pop :: "int list \<Rightarrow> (int list \<times> int) option" where
  "fifo_pop [] = None"
| "fifo_pop (v # q) = Some (q, v)"

interpretation code_queue: item_queue mpmc_push_op mpmc_pop_op "\<lambda>_. {#}" q for q
  by unfold_locales (simp_all add: mpmc_pop_op_def mpmc_try_pop_def)

interpretation fifo: item_queue fifo_push fifo_pop mset "[]"
proof
  show "add_mset v (mset q') \<subseteq># mset q" if "fifo_pop q = Some (q', v)" for q q' v
    using that by (cases q) auto
qed (auto simp: fifo_push_def)

subsection \<open>Main results\<close>

text \<open>C10: for every queue that hands out at most what was put in and every interleaving of the
  producers and consumers of the test: no access to \<open>seen\<close> is out of range and no value is counted
  twice; when some consumer leaves, one of them has received all the items, the others none, and
  every value was seen exactly once, so the final assertion holds; and as soon as two consumers have
  each received an item, no consumer ever leaves: the test does not return.\<close>

theorem mpmc_test_outcome:
  assumes "item_queue push pop contents q0" and "reach (mpmc_start q0) (mpmc_step push pop) s"
  shows "\<not> seen_fault s \<and> (\<forall>v. seen s v \<le> 1) \<and>
    (\<forall>k<N_CONSUMERS. leaving (cpc s k) \<longrightarrow>
       (\<exists>j<N_CONSUMERS. popped s j = TOTAL \<and> (\<forall>i<N_CONSUMERS. i \<noteq> j \<longrightarrow> popped s i = 0)) \<and>
       (\<forall>v\<in>{0..<int TOTAL}. seen s v = 1)) \<and>
    (\<forall>i<N_CONSUMERS. \<forall>j<N_CONSUMERS. i \<noteq> j \<longrightarrow> 0 < popped s i \<longrightarrow> 0 < popped s j \<longrightarrow>
       (\<forall>s'. (mpmc_step push pop)\<^sup>*\<^sup>* s s' \<longrightarrow> (\<forall>k<N_CONSUMERS. \<not> leaving (cpc s' k))))"
proof -
  have inv: "mpmc_inv contents s" using item_queue.reach_mpmc_inv [OF assms] .
  have "\<not> leaving (cpc s' k)"
    if "i < N_CONSUMERS" "j < N_CONSUMERS" "i \<noteq> j" "0 < popped s i" "0 < popped s j"
      "(mpmc_step push pop)\<^sup>*\<^sup>* s s'" "k < N_CONSUMERS" for i j k s'
  proof -
    have "0 < popped s' i \<and> 0 < popped s' j"
      using that(6) by (induction rule: rtranclp_induct) (use that(4,5) both_received_stable in blast)+
    then show ?thesis
      using both_received_none_leaves [of contents s' i j] item_queue.run_mpmc_inv [OF assms that(6)] that by blast
  qed
  moreover have "(\<exists>j<N_CONSUMERS. popped s j = TOTAL \<and> (\<forall>i<N_CONSUMERS. i \<noteq> j \<longrightarrow> popped s i = 0)) \<and>
      (\<forall>v\<in>{0..<int TOTAL}. seen s v = 1)" if k: "k < N_CONSUMERS" "leaving (cpc s k)" for k
  proof -
    obtain j where "j < N_CONSUMERS" "TOTAL \<le> popped s j"
      using inv k unfolding mpmc_inv_def exit_inv_def by blast
    then show ?thesis using winner_takes_all [OF inv] by blast
  qed
  ultimately show ?thesis
    using inv seen_le_one [OF inv] by (simp add: mpmc_inv_def count_inv_def)
qed

lemma fifo_producer:
  "p < N_PRODUCERS \<Longrightarrow> sent s p < ITEMS_EACH \<Longrightarrow>
    mpmc_step fifo_push fifo_pop s (s\<lparr>mq := mq s @ [item p (sent s p)], sent := (sent s)(p := Suc (sent s p))\<rparr>)"
  by (rule producer_push) (simp_all add: fifo_push_def)

lemma fifo_consumer:
  "k < N_CONSUMERS \<Longrightarrow> cpc s k = CPop \<Longrightarrow> mq s = v # q \<Longrightarrow>
    mpmc_step fifo_push fifo_pop s (s\<lparr>mq := q, cpc := (cpc s)(k := CSeen v)\<rparr>)"
  by (rule consumer_pop) simp_all

lemma fifo_two_receivers:
  "\<exists>s. reach (mpmc_start []) (mpmc_step fifo_push fifo_pop) s \<and> popped s 0 = 1 \<and> popped s 1 = 1"
proof -
  let ?step = "mpmc_step fifo_push fifo_pop" and ?R = "reach (mpmc_start []) (mpmc_step fifo_push fifo_pop)"
  define s0 :: "int list mpmc_test" where "s0 = \<lparr>mq = [], sent = (\<lambda>_. 0), cpc = (\<lambda>_. CPop), popped = (\<lambda>_. 0),
    consumed = 0, seen = (\<lambda>_. 0), seen_fault = False\<rparr>"
  note cdefs = N_PRODUCERS_def N_CONSUMERS_def ITEMS_EACH_def TOTAL_def item_def
  have "?R s0" by (rule reach_start) (simp add: mpmc_start_def s0_def)
  from reach_step [OF this fifo_producer [of 0]]
  have "?R (s0\<lparr>mq := [0], sent := (sent s0)(0 := 1)\<rparr>)" (is "reach _ _ ?s1") by (simp add: cdefs s0_def)
  from reach_step [OF this fifo_producer [of 0]]
  have "?R (?s1\<lparr>mq := [0, 1], sent := (sent s0)(0 := Suc 1)\<rparr>)" (is "reach _ _ ?s2") by (simp add: cdefs s0_def)
  from reach_step [OF this fifo_consumer [of 0]]
  have "?R (?s2\<lparr>mq := [1], cpc := (cpc s0)(0 := CSeen 0)\<rparr>)" (is "reach _ _ ?s3") by (simp add: cdefs s0_def)
  from reach_step [OF this fifo_consumer [of 1]]
  have "?R (?s3\<lparr>mq := [], cpc := (cpc s0)(0 := CSeen 0, 1 := CSeen 1)\<rparr>)" (is "reach _ _ ?s4") by (simp add: cdefs s0_def)
  from reach_step [OF this consumer_seen [of 0 _ 0]]
  have "?R (?s4\<lparr>cpc := (cpc s0)(0 := CLoad, 1 := CSeen 1), seen := (seen s0)(0 := 1), popped := (popped s0)(0 := 1)\<rparr>)"
    (is "reach _ _ ?s5") by (simp add: cdefs s0_def fun_upd_twist)
  from reach_step [OF this consumer_seen [of 1 _ 1]]
  have "?R (?s5\<lparr>cpc := (cpc s0)(0 := CLoad, 1 := CLoad), seen := (seen s0)(0 := 1, 1 := 1), popped := (popped s0)(0 := 1, 1 := 1)\<rparr>)"
    (is "reach _ _ ?s6") by (simp add: cdefs s0_def)
  moreover have "popped ?s6 0 = 1" "popped ?s6 1 = 1" by simp_all
  ultimately show ?thesis by blast
qed

theorem mpmc_test_outcome_witness:
  "\<exists>s. reach (mpmc_start []) (mpmc_step fifo_push fifo_pop) s \<and> popped s 0 = 1 \<and>
     (\<forall>s'. (mpmc_step fifo_push fifo_pop)\<^sup>*\<^sup>* s s' \<longrightarrow> \<not> leaving (cpc s' 0))"
proof -
  obtain s where s: "reach (mpmc_start []) (mpmc_step fifo_push fifo_pop) s" "popped s 0 = 1" "popped s 1 = 1"
    using fifo_two_receivers by blast
  have "item_queue fifo_push fifo_pop mset []" by (rule fifo.item_queue_axioms)
  note outcome = mpmc_test_outcome [OF this s(1), THEN conjunct2, THEN conjunct2, THEN conjunct2, rule_format]
  have "\<not> leaving (cpc s' 0)" if "(mpmc_step fifo_push fifo_pop)\<^sup>*\<^sup>* s s'" for s'
    using outcome [of 0 1 s' 0] that s(2,3) by (simp add: N_CONSUMERS_def)
  with s show ?thesis by blast
qed

text \<open>With the queue of the repository, whose \<open>try_pop\<close> is a placeholder, no consumer ever leaves.\<close>

lemma mpmc_code_queue_hangs:
  assumes "reach (mpmc_start q) (mpmc_step mpmc_push_op mpmc_pop_op) s" and "k < N_CONSUMERS"
  shows "\<not> leaving (cpc s k)"
proof -
  have "consumed s = 0 \<and> (\<forall>j. popped s j = 0 \<and> (\<forall>v. cpc s j \<noteq> CSeen v) \<and> \<not> leaving (cpc s j))"
    using assms(1)
  proof (induction rule: reach.induct)
    case (reach_step s s')
    from this(2,3) show ?case using TOTAL_pos
      by (cases rule: mpmc_step.cases) (auto simp: mpmc_pop_op_def mpmc_try_pop_def leaving_def)
  qed (auto simp: mpmc_start_def leaving_def)
  then show ?thesis by blast
qed

end
