(* ===== verification/Socket_IO.thy ===== *)
theory Socket_IO
  imports Prelude
begin

section \<open>Whole transfers over a stream socket\<close>

text \<open>
  The client helpers \<open>send_all\<close> and \<open>recv_exact\<close> of
  \<open>07-networking/exercises/ex1-epoll-server/test_server.cpp\<close>. The kernel is a parameter: \<open>snd_ret k r\<close> is what
  the \<open>k\<close>-th \<open>::send\<close> returns when \<open>r\<close> bytes are offered, and \<open>rcv_ret k r a\<close> what the \<open>k\<close>-th \<open>::recv\<close> returns
  when \<open>r\<close> bytes are asked for and the bytes \<open>a\<close> are still to be delivered. What the code relies on is that a
  call transfers at most what is offered, asked for or available. The loops advance by the count
  returned, so they end; a buffer access outside the \<open>len\<close> bytes would need a count that is too large.
\<close>

definition bounded_send :: "(nat \<Rightarrow> nat \<Rightarrow> int) \<Rightarrow> bool" where
  "bounded_send snd_ret \<longleftrightarrow> (\<forall>k r. snd_ret k r \<le> int r)"

definition bounded_recv :: "(nat \<Rightarrow> nat \<Rightarrow> 'b list \<Rightarrow> int) \<Rightarrow> bool" where
  "bounded_recv rcv_ret \<longleftrightarrow> (\<forall>k r a. rcv_ret k r a \<le> int (min r (length a)))"

text \<open>The bytes on the wire grow by what each call took from the buffer.\<close>

function send_loop :: "(nat \<Rightarrow> nat \<Rightarrow> int) \<Rightarrow> 'b list \<Rightarrow> nat \<Rightarrow> nat \<Rightarrow> nat \<Rightarrow> 'b list \<Rightarrow> bool \<times> 'b list" where
  "send_loop snd_ret p len k sent wire =
     (if sent < len then
        let n = snd_ret k (len - sent) in
        if n \<le> 0 then (False, wire)
        else send_loop snd_ret p len (Suc k) (sent + nat n) (wire @ take (nat n) (drop sent p))
      else (True, wire))"
  by pat_completeness auto
termination
  by (relation "measure (\<lambda>(_, _, len, _, sent, _). len - sent)") auto

declare send_loop.simps [simp del]

definition send_all :: "(nat \<Rightarrow> nat \<Rightarrow> int) \<Rightarrow> 'b list \<Rightarrow> nat \<Rightarrow> 'b list \<Rightarrow> bool \<times> 'b list" where
  "send_all snd_ret buf len wire = send_loop snd_ret buf len 0 0 wire"

text \<open>\<open>recv_exact\<close> stores what arrives behind what it has got; the rest of the stream remains.\<close>

function recv_loop ::
  "(nat \<Rightarrow> nat \<Rightarrow> 'b list \<Rightarrow> int) \<Rightarrow> nat \<Rightarrow> nat \<Rightarrow> nat \<Rightarrow> 'b list \<Rightarrow> 'b list \<Rightarrow> bool \<times> 'b list \<times> 'b list" where
  "recv_loop rcv_ret len k got p stream =
     (if got < len then
        let n = rcv_ret k (len - got) stream in
        if n \<le> 0 then (False, p, stream)
        else recv_loop rcv_ret len (Suc k) (got + nat n)
               (take got p @ take (nat n) stream @ drop (got + nat n) p) (drop (nat n) stream)
      else (True, p, stream))"
  by pat_completeness auto
termination
  by (relation "measure (\<lambda>(_, len, _, got, _, _). len - got)") auto

declare recv_loop.simps [simp del]

definition recv_exact ::
  "(nat \<Rightarrow> nat \<Rightarrow> 'b list \<Rightarrow> int) \<Rightarrow> 'b list \<Rightarrow> nat \<Rightarrow> 'b list \<Rightarrow> bool \<times> 'b list \<times> 'b list" where
  "recv_exact rcv_ret buf len stream = recv_loop rcv_ret len 0 0 buf stream"

subsection \<open>Sending\<close>

lemma send_loop_prefix:
  assumes "bounded_send snd_ret" and "len \<le> length p" and "sent \<le> len"
  shows "\<exists>m. sent \<le> m \<and> m \<le> len \<and> snd (send_loop snd_ret p len k sent wire) = wire @ take (m - sent) (drop sent p) \<and>
    (fst (send_loop snd_ret p len k sent wire) \<longleftrightarrow> m = len)"
  using assms
proof (induction snd_ret p len k sent wire rule: send_loop.induct)
  case (1 snd_ret p len k sent wire)
  let ?n = "snd_ret k (len - sent)"
  consider "len \<le> sent" | "sent < len" "?n \<le> 0" | "sent < len" "0 < ?n" by linarith
  then show ?case
  proof cases
    case 3
    have "?n \<le> int (len - sent)" using "1.prems"(1) by (simp add: bounded_send_def)
    then have n: "sent + nat ?n \<le> len" using 3 by linarith
    let ?rest = "send_loop snd_ret p len (Suc k) (sent + nat ?n) (wire @ take (nat ?n) (drop sent p))"
    obtain m where m: "sent + nat ?n \<le> m" "m \<le> len" "fst ?rest \<longleftrightarrow> m = len"
        "snd ?rest = (wire @ take (nat ?n) (drop sent p)) @ take (m - (sent + nat ?n)) (drop (sent + nat ?n) p)"
      using "1.IH" [OF 3(1) refl] 3(2) "1.prems"(1,2) n by auto
    have "m - sent = nat ?n + (m - (sent + nat ?n))" using m(1) by simp
    then have "take (m - sent) (drop sent p) =
        take (nat ?n) (drop sent p) @ take (m - (sent + nat ?n)) (drop (sent + nat ?n) p)"
      by (simp add: take_add add.commute)
    moreover have "send_loop snd_ret p len k sent wire = ?rest"
      using 3 by (subst send_loop.simps) (simp add: Let_def)
    ultimately show ?thesis using m by (intro exI [of _ m]) auto
  next
    case 1
    then show ?thesis using "1.prems" by (intro exI [of _ len]) (simp add: send_loop.simps)
  next
    case 2
    then show ?thesis by (intro exI [of _ sent]) (simp add: send_loop.simps)
  qed
qed

subsection \<open>Receiving\<close>

lemma splice:
  assumes "g + c \<le> length p" and "c \<le> length s"
  shows "length (take g p @ take c s @ drop (g + c) p) = length p"
    and "take (g + c) (take g p @ take c s @ drop (g + c) p) = take g p @ take c s"
    and "g + c \<le> m \<Longrightarrow> drop m (take g p @ take c s @ drop (g + c) p) = drop m p"
proof -
  have g: "min (length p) g = g" "min (length s) c = c" using assms by simp_all
  then show "length (take g p @ take c s @ drop (g + c) p) = length p"
    and "take (g + c) (take g p @ take c s @ drop (g + c) p) = take g p @ take c s"
    using assms(1) by simp_all
  show "drop m (take g p @ take c s @ drop (g + c) p) = drop m p" if "g + c \<le> m"
    using that by (simp add: g)
qed

lemma recv_loop_prefix:
  assumes "bounded_recv rcv_ret" and "len \<le> length p" and "got \<le> len"
  shows "\<exists>m. got \<le> m \<and> m \<le> len \<and> m - got \<le> length stream \<and>
    recv_loop rcv_ret len k got p stream = (m = len, take got p @ take (m - got) stream @ drop m p, drop (m - got) stream)"
  using assms
proof (induction rcv_ret len k got p stream rule: recv_loop.induct)
  case (1 rcv_ret len k got p stream)
  let ?n = "rcv_ret k (len - got) stream"
  consider "len \<le> got" | "got < len" "?n \<le> 0" | "got < len" "0 < ?n" by linarith
  then show ?case
  proof cases
    case 1
    then show ?thesis using "1.prems" by (intro exI [of _ len]) (simp add: recv_loop.simps)
  next
    case 2
    then show ?thesis by (intro exI [of _ got]) (simp add: recv_loop.simps)
  next
    case 3
    let ?c = "nat ?n" and ?p = "take got p @ take (nat ?n) stream @ drop (got + nat ?n) p"
    have "?n \<le> int (min (len - got) (length stream))" using "1.prems"(1) by (simp add: bounded_recv_def)
    then have c: "got + ?c \<le> len" "?c \<le> length stream" using 3 by linarith+
    then have fits: "got + ?c \<le> length p" using "1.prems"(2) by simp
    note p = splice [OF fits c(2)]
    have nonzero: "\<not> ?n \<le> 0" and len: "len \<le> length ?p" using 3(2) "1.prems"(2) unfolding p(1) by simp_all
    obtain m where m: "got + ?c \<le> m" "m \<le> len" "m - (got + ?c) \<le> length (drop ?c stream)"
        "recv_loop rcv_ret len (Suc k) (got + ?c) ?p (drop ?c stream) =
          (m = len, take (got + ?c) ?p @ take (m - (got + ?c)) (drop ?c stream) @ drop m ?p, drop (m - (got + ?c)) (drop ?c stream))"
      using "1.IH" [OF 3(1) refl nonzero "1.prems"(1) len c(1)] by blast
    have "m - got = ?c + (m - (got + ?c))" using m(1) by simp
    then have "take (m - got) stream = take ?c stream @ take (m - (got + ?c)) (drop ?c stream)"
      by (metis take_add)
    moreover have "recv_loop rcv_ret len k got p stream = recv_loop rcv_ret len (Suc k) (got + ?c) ?p (drop ?c stream)"
      using 3 by (subst recv_loop.simps) (simp add: Let_def)
    ultimately have "recv_loop rcv_ret len k got p stream =
        (m = len, take got p @ take (m - got) stream @ drop m p, drop (m - got) stream)"
      unfolding m(4) p(2) p(3) [OF m(1)] using m(1) by simp
    moreover have "got \<le> m" "m - got \<le> length stream" using m(1,3) c(2) unfolding length_drop by linarith+
    ultimately show ?thesis using m(2) by blast
  qed
qed

subsection \<open>Main results\<close>

text \<open>C19: for every way the kernel splits a transfer: \<open>send_all\<close> puts a prefix of the buffer on the wire, in
  order, and all of it exactly when it returns true; \<open>recv_exact\<close> fills the buffer with a prefix of the
  stream, leaves the rest of the buffer and of the stream, and returns true exactly when it got all
  \<open>len\<close> bytes. So a message sent and received with both returning true arrives unchanged.\<close>

theorem socket_transfer_roundtrip:
  assumes "bounded_send snd_ret" and "bounded_recv rcv_ret" and "len \<le> length msg" and "len \<le> length buf"
    and "send_all snd_ret msg len wire = (ok, wire')" and "recv_exact rcv_ret buf len stream = (ok', buf', stream')"
  shows "(\<exists>m \<le> len. wire' = wire @ take m msg \<and> (ok \<longleftrightarrow> m = len)) \<and>
    (\<exists>m \<le> len. m \<le> length stream \<and> buf' = take m stream @ drop m buf \<and> stream' = drop m stream \<and> (ok' \<longleftrightarrow> m = len)) \<and>
    (ok \<longrightarrow> ok' \<longrightarrow> wire = [] \<longrightarrow> stream = wire' @ later \<longrightarrow> take len buf' = take len msg \<and> stream' = later)"
proof -
  obtain m where m: "m \<le> len" "wire' = wire @ take m msg" "ok \<longleftrightarrow> m = len"
    using send_loop_prefix [OF assms(1,3), of 0 0 wire] assms(5) by (auto simp: send_all_def)
  obtain j where j: "j \<le> len" "j \<le> length stream" "buf' = take j stream @ drop j buf" "stream' = drop j stream" "ok' \<longleftrightarrow> j = len"
    using recv_loop_prefix [OF assms(2,4), of 0 stream 0] assms(6) by (auto simp: recv_exact_def)
  have "take len buf' = take len msg \<and> stream' = later" if "ok" "ok'" "wire = []" "stream = wire' @ later"
    using that m j assms(3) by simp
  with m j show ?thesis by blast
qed

theorem socket_transfer_roundtrip_witness:
  "take 3 (fst (snd (recv_exact (\<lambda>k r a. min 2 (int (min r (length a)))) ''xxxx'' 3
     (snd (send_all (\<lambda>k r. min 1 (int r)) ''abcd'' 3 []))))) = ''abc''"
proof -
  have s: "send_all (\<lambda>k r. min 1 (int r)) ''abcd'' 3 [] = (True, ''abc'')" by code_simp
  have r: "recv_exact (\<lambda>k r a. min 2 (int (min r (length a)))) ''xxxx'' 3 ''abc'' = (True, ''abcx'', [])" by code_simp
  have "bounded_send (\<lambda>k r. min 1 (int r))" "bounded_recv (\<lambda>k r (a :: char list). min 2 (int (min r (length a))))"
    by (simp_all add: bounded_send_def bounded_recv_def)
  from socket_transfer_roundtrip [OF this _ _ s r, of "[]"] show ?thesis unfolding s snd_conv r by simp
qed

end
