(* ===== verification/C_Harness.thy ===== *)
theory C_Harness
  imports Test_Harness
begin

section \<open>The C test header and its output\<close>

text \<open>
  Model of \<open>tools/common.h\<close> with everything it prints. Each assertion macro is a definition that gets the
  place of its use (file and line) and the rest of the test function; a failing one prints its line,
  counts the failure and returns from the test. The current test is a pointer that is null until the
  first \<open>RUN_TEST\<close>: printing it before is undefined. A test function is the list of its assertions, a
  value of \<open>c_assertion\<close> per macro. \<open>sp\<close> is the text \<open>printf\<close> gives for \<open>%p\<close>.
\<close>

definition GREEN :: string where "GREEN = [CHR 0x1B] @ ''[92m''"
definition RED :: string where "RED = [CHR 0x1B] @ ''[91m''"
definition BOLD :: string where "BOLD = [CHR 0x1B] @ ''[1m''"
definition RESET :: string where "RESET = [CHR 0x1B] @ ''[0m''"

record c_harness =
  ch_run :: int
  ch_passed :: int
  ch_failed :: int
  ch_current :: "string option"
  ch_out :: "string list"

type_synonym site = "string \<times> nat"

definition newline :: string where "newline = [CHR 0x0A]"

definition cprintf :: "string \<Rightarrow> c_harness \<Rightarrow> c_harness" where
  "cprintf line h = h\<lparr>ch_out := ch_out h @ [line]\<rparr>"

text \<open>The conversions of the macros: to \<open>long long\<close> and to \<open>unsigned long long\<close>.\<close>

definition to_long_long :: "int \<Rightarrow> int" where
  "to_long_long x = (x + 9223372036854775808) mod 18446744073709551616 - 9223372036854775808"

definition to_unsigned_long_long :: "int \<Rightarrow> nat" where
  "to_unsigned_long_long x = nat (x mod 18446744073709551616)"

definition hex_digit :: "nat \<Rightarrow> char" where
  "hex_digit d = ''0123456789abcdef'' ! d"

fun show_hex :: "nat \<Rightarrow> string" where
  "show_hex n = (if n < 16 then [hex_digit n] else show_hex (n div 16) @ [hex_digit (n mod 16)])"

declare show_hex.simps [simp del]

definition c_TEST_BEGIN :: "c_harness \<Rightarrow> c_harness" where
  "c_TEST_BEGIN h = h\<lparr>ch_run := 0, ch_passed := 0, ch_failed := 0\<rparr>"

definition c_RUN_TEST :: "string \<Rightarrow> (c_harness \<Rightarrow> c_harness res) \<Rightarrow> c_harness \<Rightarrow> c_harness res" where
  "c_RUN_TEST nm fn h =
     (let h1 = h\<lparr>ch_current := Some nm, ch_run := ch_run h + 1\<rparr>;
          prev_failed = ch_failed h1
      in rbind (fn h1) (\<lambda>h2.
           Inr (if ch_failed h2 = prev_failed
                then cprintf (GREEN @ ''  PASS'' @ RESET @ '' '' @ nm @ newline) (h2\<lparr>ch_passed := ch_passed h2 + 1\<rparr>)
                else h2)))"

definition summary_line :: "c_harness \<Rightarrow> string" where
  "summary_line h =
     newline @ (if ch_failed h = 0 then GREEN @ BOLD else RED @ BOLD) @ show_int (ch_passed h) @ ''/'' @
     show_int (ch_run h) @ '' tests passed'' @ RESET @ newline"

definition c_TEST_END :: "c_harness \<Rightarrow> c_harness \<times> int" where
  "c_TEST_END h = (cprintf (summary_line h) h, if ch_failed h = 0 then 0 else 1)"

text \<open>The common part of the macros: the line of a failure.\<close>

definition fail_line :: "string \<Rightarrow> string \<Rightarrow> site \<Rightarrow> string" where
  "fail_line nm msg loc = RED @ ''  FAIL'' @ RESET @ '' '' @ nm @ '': '' @ msg @ ''  ('' @ fst loc @ '':'' @
     show_nat (snd loc) @ '')'' @ newline"

definition c_fail :: "string \<Rightarrow> site \<Rightarrow> c_harness \<Rightarrow> c_harness res" where
  "c_fail msg loc h =
     (case ch_current h of None \<Rightarrow> Inl NullDeref
      | Some nm \<Rightarrow> Inr ((cprintf (fail_line nm msg loc) h)\<lparr>ch_failed := ch_failed h + 1\<rparr>))"

type_synonym c_rest = "c_harness \<Rightarrow> c_harness res"

definition c_ASSERT_EQ :: "site \<Rightarrow> int \<Rightarrow> int \<Rightarrow> c_rest \<Rightarrow> c_rest" where
  "c_ASSERT_EQ loc expected actual rest h =
     (let e = to_long_long expected; a = to_long_long actual in
      if e \<noteq> a then c_fail (''expected '' @ show_int e @ '', got '' @ show_int a) loc h else rest h)"

definition c_ASSERT_EQ_UINT :: "site \<Rightarrow> int \<Rightarrow> int \<Rightarrow> c_rest \<Rightarrow> c_rest" where
  "c_ASSERT_EQ_UINT loc expected actual rest h =
     (let e = to_unsigned_long_long expected; a = to_unsigned_long_long actual in
      if e \<noteq> a then c_fail (''expected 0x'' @ show_hex e @ '', got 0x'' @ show_hex a) loc h else rest h)"

definition c_ASSERT_TRUE :: "site \<Rightarrow> string \<Rightarrow> bool \<Rightarrow> c_rest \<Rightarrow> c_rest" where
  "c_ASSERT_TRUE loc txt cond rest h = (if \<not> cond then c_fail (''assertion failed: '' @ txt) loc h else rest h)"

definition c_ASSERT_FALSE :: "site \<Rightarrow> string \<Rightarrow> bool \<Rightarrow> c_rest \<Rightarrow> c_rest" where
  "c_ASSERT_FALSE loc txt cond = c_ASSERT_TRUE loc (''!('' @ txt @ '')'') (\<not> cond)"

definition c_ASSERT_NULL :: "(nat \<Rightarrow> string) \<Rightarrow> site \<Rightarrow> nat option \<Rightarrow> c_rest \<Rightarrow> c_rest" where
  "c_ASSERT_NULL sp loc ptr rest h =
     (case ptr of Some a \<Rightarrow> c_fail (''expected NULL, got '' @ sp a) loc h | None \<Rightarrow> rest h)"

definition c_ASSERT_NOT_NULL :: "site \<Rightarrow> nat option \<Rightarrow> c_rest \<Rightarrow> c_rest" where
  "c_ASSERT_NOT_NULL loc ptr rest h =
     (if ptr = None then c_fail ''expected non-NULL, got NULL'' loc h else rest h)"

definition or_null :: "string option \<Rightarrow> string" where
  "or_null s = (case s of None \<Rightarrow> ''(null)'' | Some t \<Rightarrow> t)"

definition c_ASSERT_STR_EQ :: "site \<Rightarrow> string option \<Rightarrow> string option \<Rightarrow> c_rest \<Rightarrow> c_rest" where
  "c_ASSERT_STR_EQ loc expected actual rest h =
     (if expected = None \<or> actual = None \<or> the expected \<noteq> the actual
      then c_fail (''expected \"'' @ or_null expected @ ''\", got \"'' @ or_null actual @ ''\"'') loc h
      else rest h)"

definition c_ASSERT_MEM_EQ :: "site \<Rightarrow> 8 word list \<Rightarrow> 8 word list \<Rightarrow> nat \<Rightarrow> c_rest \<Rightarrow> c_rest" where
  "c_ASSERT_MEM_EQ loc expected actual len rest h =
     (if length expected < len \<or> length actual < len then Inl OutOfBounds
      else if take len expected \<noteq> take len actual then c_fail (''memory mismatch ('' @ show_nat len @ '' bytes)'') loc h
      else rest h)"

subsection \<open>Test programs\<close>

datatype c_assertion =
    EQ int int
  | EQ_UINT int int
  | IS_TRUE string bool
  | IS_FALSE string bool
  | IS_NULL "nat option"
  | NOT_NULL "nat option"
  | STR_EQ "string option" "string option"
  | MEM_EQ "8 word list" "8 word list" nat

fun c_assert :: "(nat \<Rightarrow> string) \<Rightarrow> site \<Rightarrow> c_assertion \<Rightarrow> c_rest \<Rightarrow> c_rest" where
  "c_assert sp loc (EQ e a) = c_ASSERT_EQ loc e a"
| "c_assert sp loc (EQ_UINT e a) = c_ASSERT_EQ_UINT loc e a"
| "c_assert sp loc (IS_TRUE t c) = c_ASSERT_TRUE loc t c"
| "c_assert sp loc (IS_FALSE t c) = c_ASSERT_FALSE loc t c"
| "c_assert sp loc (IS_NULL p) = c_ASSERT_NULL sp loc p"
| "c_assert sp loc (NOT_NULL p) = c_ASSERT_NOT_NULL loc p"
| "c_assert sp loc (STR_EQ e a) = c_ASSERT_STR_EQ loc e a"
| "c_assert sp loc (MEM_EQ e a n) = c_ASSERT_MEM_EQ loc e a n"

text \<open>Programs over the assertions of a header: \<open>check\<close> gives the meaning of an assertion at its place.\<close>

type_synonym 'a listed_test = "string \<times> (site \<times> 'a) list"

type_synonym 'a checker = "site \<Rightarrow> 'a \<Rightarrow> c_rest \<Rightarrow> c_rest"

fun test_fn :: "'a checker \<Rightarrow> (site \<times> 'a) list \<Rightarrow> c_rest" where
  "test_fn check [] h = Inr h"
| "test_fn check ((loc, a) # as) h = check loc a (test_fn check as) h"

fun run_listed :: "'a checker \<Rightarrow> 'a listed_test list \<Rightarrow> c_rest" where
  "run_listed check [] h = Inr h"
| "run_listed check ((nm, as) # ts) h = rbind (c_RUN_TEST nm (test_fn check as) h) (run_listed check ts)"

definition listed_main :: "'a checker \<Rightarrow> 'a listed_test list \<Rightarrow> c_harness \<Rightarrow> (c_harness \<times> int) res" where
  "listed_main check ts h = rbind (run_listed check ts (c_TEST_BEGIN h)) (\<lambda>h1. Inr (c_TEST_END h1))"

subsection \<open>What an assertion checks and prints\<close>

fun holds :: "c_assertion \<Rightarrow> bool" where
  "holds (EQ e a) \<longleftrightarrow> to_long_long e = to_long_long a"
| "holds (EQ_UINT e a) \<longleftrightarrow> to_unsigned_long_long e = to_unsigned_long_long a"
| "holds (IS_TRUE t c) \<longleftrightarrow> c"
| "holds (IS_FALSE t c) \<longleftrightarrow> \<not> c"
| "holds (IS_NULL p) \<longleftrightarrow> p = None"
| "holds (NOT_NULL p) \<longleftrightarrow> p \<noteq> None"
| "holds (STR_EQ e a) \<longleftrightarrow> e \<noteq> None \<and> e = a"
| "holds (MEM_EQ e a n) \<longleftrightarrow> take n e = take n a"

fun defined :: "c_assertion \<Rightarrow> bool" where
  "defined (MEM_EQ e a n) \<longleftrightarrow> n \<le> length e \<and> n \<le> length a"
| "defined _ \<longleftrightarrow> True"

fun message :: "(nat \<Rightarrow> string) \<Rightarrow> c_assertion \<Rightarrow> string" where
  "message sp (EQ e a) = ''expected '' @ show_int (to_long_long e) @ '', got '' @ show_int (to_long_long a)"
| "message sp (EQ_UINT e a) =
     ''expected 0x'' @ show_hex (to_unsigned_long_long e) @ '', got 0x'' @ show_hex (to_unsigned_long_long a)"
| "message sp (IS_TRUE t c) = ''assertion failed: '' @ t"
| "message sp (IS_FALSE t c) = ''assertion failed: !('' @ t @ '')''"
| "message sp (IS_NULL p) = ''expected NULL, got '' @ (case p of None \<Rightarrow> [] | Some a \<Rightarrow> sp a)"
| "message sp (NOT_NULL p) = ''expected non-NULL, got NULL''"
| "message sp (STR_EQ e a) = ''expected \"'' @ or_null e @ ''\", got \"'' @ or_null a @ ''\"''"
| "message sp (MEM_EQ e a n) = ''memory mismatch ('' @ show_nat n @ '' bytes)''"

lemma c_assert_spec:
  "defined a \<Longrightarrow> c_assert sp loc a rest h = (if holds a then rest h else c_fail (message sp a) loc h)"
  by (cases a)
    (auto simp: c_ASSERT_EQ_def c_ASSERT_EQ_UINT_def c_ASSERT_TRUE_def c_ASSERT_FALSE_def c_ASSERT_NULL_def
      c_ASSERT_NOT_NULL_def c_ASSERT_STR_EQ_def c_ASSERT_MEM_EQ_def Let_def split: option.splits)

subsection \<open>What a header owes its test programs\<close>

text \<open>The first assertion of a test that fails decides its line.\<close>

fun first_failure :: "('a \<Rightarrow> bool) \<Rightarrow> (site \<times> 'a) list \<Rightarrow> (site \<times> 'a) option" where
  "first_failure ok [] = None"
| "first_failure ok ((loc, a) # as) = (if ok a then first_failure ok as else Some (loc, a))"

definition test_line :: "('a \<Rightarrow> bool) \<Rightarrow> ('a \<Rightarrow> string) \<Rightarrow> 'a listed_test \<Rightarrow> string" where
  "test_line ok msg t =
     (case first_failure ok (snd t) of
        None \<Rightarrow> GREEN @ ''  PASS'' @ RESET @ '' '' @ fst t @ newline
      | Some (loc, a) \<Rightarrow> fail_line (fst t) (msg a) loc)"

definition conditions :: "('a \<Rightarrow> bool) \<Rightarrow> 'a listed_test \<Rightarrow> string \<times> bool list" where
  "conditions ok t = (fst t, map (ok \<circ> snd) (snd t))"

text \<open>The assertions of a test are defined up to the first that fails; those behind it are not evaluated.\<close>

fun guarded :: "('a \<Rightarrow> bool) \<Rightarrow> ('a \<Rightarrow> bool) \<Rightarrow> (site \<times> 'a) list \<Rightarrow> bool" where
  "guarded ok dfd [] = True"
| "guarded ok dfd ((loc, a) # as) = (dfd a \<and> (ok a \<longrightarrow> guarded ok dfd as))"

definition well_defined :: "('a \<Rightarrow> bool) \<Rightarrow> ('a \<Rightarrow> bool) \<Rightarrow> 'a listed_test \<Rightarrow> bool" where
  "well_defined ok dfd t \<longleftrightarrow> guarded ok dfd (snd t)"

lemma guarded_all: "list_all (dfd \<circ> snd) as \<Longrightarrow> guarded ok dfd as"
  by (induction ok dfd as rule: guarded.induct) auto

definition harness_of :: "c_harness \<Rightarrow> harness" where
  "harness_of h = \<lparr>tests_run = ch_run h, tests_passed = ch_passed h, tests_failed = ch_failed h,
     current_test = (case ch_current h of None \<Rightarrow> [] | Some nm \<Rightarrow> nm)\<rparr>"

definition run_result :: "('a \<Rightarrow> bool) \<Rightarrow> ('a \<Rightarrow> string) \<Rightarrow> 'a listed_test \<Rightarrow> c_harness \<Rightarrow> c_harness" where
  "run_result ok msg t h =
     (let h1 = cprintf (test_line ok msg t) (h\<lparr>ch_current := Some (fst t), ch_run := ch_run h + 1\<rparr>)
      in if first_failure ok (snd t) = None then h1\<lparr>ch_passed := ch_passed h1 + 1\<rparr>
         else h1\<lparr>ch_failed := ch_failed h1 + 1\<rparr>)"

lemma first_failure_None: "first_failure ok as = None \<longleftrightarrow> (\<forall>c \<in> set (map (ok \<circ> snd) as). c)"
  by (induction ok as rule: first_failure.induct) auto

lemma run_result_abs:
  "harness_of (run_result ok msg t h) = RUN_TEST (fst t) (test_body (snd (conditions ok t))) (harness_of h)"
proof -
  have "first_failure ok (snd t) = None \<longleftrightarrow> (\<forall>c \<in> set (snd (conditions ok t)). c)"
    by (simp add: conditions_def first_failure_None)
  then show ?thesis
    by (simp add: run_result_def Let_def RUN_TEST_def test_body_spec harness_of_def cprintf_def)
qed

lemma run_result_out: "ch_out (run_result ok msg t h) = ch_out h @ [test_line ok msg t]"
  by (simp add: run_result_def Let_def cprintf_def)

text \<open>The contract: an assertion goes on with the test or fails with its message.\<close>

locale test_header =
  fixes check :: "'a checker" and ok :: "'a \<Rightarrow> bool" and dfd :: "'a \<Rightarrow> bool" and msg :: "'a \<Rightarrow> string"
  assumes check_spec: "dfd a \<Longrightarrow> check loc a rest h = (if ok a then rest h else c_fail (msg a) loc h)"
begin

lemma test_fn_spec:
  "guarded ok dfd as \<Longrightarrow> ch_current h = Some nm \<Longrightarrow> test_fn check as h =
    Inr (case first_failure ok as of None \<Rightarrow> h
         | Some (loc, a) \<Rightarrow> (cprintf (fail_line nm (msg a) loc) h)\<lparr>ch_failed := ch_failed h + 1\<rparr>)"
  by (induction as arbitrary: h) (auto simp: check_spec c_fail_def)

lemma RUN_TEST_result: "well_defined ok dfd t \<Longrightarrow> c_RUN_TEST (fst t) (test_fn check (snd t)) h = Inr (run_result ok msg t h)"
  by (auto simp: c_RUN_TEST_def Let_def test_fn_spec well_defined_def run_result_def cprintf_def test_line_def
      split: option.splits)

lemma run_listed_result:
  "list_all (well_defined ok dfd) ts \<Longrightarrow> run_listed check ts h = Inr (fold (run_result ok msg) ts h)"
proof (induction ts arbitrary: h)
  case (Cons t ts)
  then show ?case using RUN_TEST_result [of t h] by (cases t) simp
qed simp

lemma listed_main_result:
  "list_all (well_defined ok dfd) ts \<Longrightarrow> listed_main check ts h = Inr (c_TEST_END (fold (run_result ok msg) ts (c_TEST_BEGIN h)))"
  by (simp add: listed_main_def run_listed_result)

end

lemma fold_run_result:
  "harness_of (fold (run_result ok msg) ts h) = run_tests (map (conditions ok) ts) (harness_of h) \<and>
   ch_out (fold (run_result ok msg) ts h) = ch_out h @ map (test_line ok msg) ts"
proof (induction ts arbitrary: h)
  case (Cons t ts)
  then show ?case by (simp add: run_result_out run_result_abs conditions_def)
qed simp

text \<open>The end of a program: its counters are those of the conditions, and it printed one line for each test.\<close>

lemma end_result:
  assumes "c_TEST_END (fold (run_result ok msg) ts (c_TEST_BEGIN h)) = (h', code)"
  shows "(harness_of h', code) = test_main (map (conditions ok) ts) (harness_of h) \<and>
    ch_out h' = ch_out h @ map (test_line ok msg) ts @ [summary_line h']"
proof -
  let ?h1 = "fold (run_result ok msg) ts (c_TEST_BEGIN h)"
  have start: "harness_of (c_TEST_BEGIN h) = TEST_BEGIN (harness_of h)" "ch_out (c_TEST_BEGIN h) = ch_out h"
    by (simp_all add: harness_of_def c_TEST_BEGIN_def TEST_BEGIN_def)
  have h': "h' = cprintf (summary_line ?h1) ?h1" "code = (if ch_failed ?h1 = 0 then 0 else 1)"
    using assms by (auto simp: c_TEST_END_def)
  have "harness_of (cprintf l k) = harness_of k" "summary_line (cprintf l k) = summary_line k" for l k
    by (simp_all add: harness_of_def cprintf_def summary_line_def)
  moreover have "TEST_END (harness_of ?h1) = (if ch_failed ?h1 = 0 then 0 else 1)" by (simp add: TEST_END_def harness_of_def)
  moreover have "ch_out (cprintf l k) = ch_out k @ [l]" for l k by (simp add: cprintf_def)
  ultimately show ?thesis
    using start fold_run_result [of ok msg ts "c_TEST_BEGIN h"] unfolding h' test_main_def Let_def by (simp del: fold_simps)
qed

interpretation c_header: test_header "c_assert sp" holds defined "message sp" for sp
  by unfold_locales (rule c_assert_spec)

subsection \<open>Main results\<close>

text \<open>A test program on the C header does not fault (its memory comparisons being in range), its
  counters and exit code are those of the C++ header on the same conditions, and it prints one line
  per test, in order: the PASS line of a test whose assertions all hold, else the FAIL line of the
  first that does not, with its message and its place; and last the summary of the counters.\<close>

theorem c_harness_matches_cpp:
  assumes "list_all (well_defined holds defined) ts"
  shows "\<exists>h' code. listed_main (c_assert sp) ts h = Inr (h', code) \<and>
    (harness_of h', code) = test_main (map (conditions holds) ts) (harness_of h) \<and>
    ch_out h' = ch_out h @ map (test_line holds (message sp)) ts @ [summary_line h']"
  using c_header.listed_main_result [OF assms, of sp h] end_result [of holds "message sp" ts h] by (metis surj_pair)

theorem c_harness_matches_cpp_witness:
  "\<exists>h'. listed_main (c_assert show_nat) [(''t1'', [((''f.c'', 3), EQ 1 1)]), (''t2'', [((''f.c'', 7), EQ 1 2), ((''f.c'', 8), EQ 1 1)])]
      \<lparr>ch_run = 0, ch_passed = 0, ch_failed = 0, ch_current = None, ch_out = []\<rparr> = Inr (h', 1) \<and>
    length (ch_out h') = 3"
proof -
  let ?ts = "[(''t1'', [((''f.c'', 3), EQ 1 1)]), (''t2'', [((''f.c'', 7), EQ 1 2), ((''f.c'', 8), EQ 1 1)])]"
  let ?h = "\<lparr>ch_run = 0, ch_passed = 0, ch_failed = 0, ch_current = None, ch_out = []\<rparr>"
  have "list_all (well_defined holds defined) ?ts" by (simp add: well_defined_def)
  from c_harness_matches_cpp [OF this, of show_nat ?h]
  obtain h' code where r: "listed_main (c_assert show_nat) ?ts ?h = Inr (h', code)"
      "(harness_of h', code) = test_main (map (conditions holds) ?ts) (harness_of ?h)" "length (ch_out h') = 3" by auto
  have "snd (test_main (map (conditions holds) ?ts) (harness_of ?h)) = 1" by code_simp
  then have "code = 1" using r(2) by (metis snd_conv)
  with r show ?thesis by blast
qed

text \<open>The conversion to \<open>long long\<close> is exact on \<open>long long\<close> values and hides a difference of \<open>2 ^ 64\<close>: the
  assertion accepts an unsigned \<open>2 ^ 64 - 1\<close> where \<open>-1\<close> is expected.\<close>

lemma c_assert_eq_exact: "in_int64 e \<Longrightarrow> in_int64 a \<Longrightarrow> holds (EQ e a) \<longleftrightarrow> e = a"
  by (auto simp: in_int64_def to_long_long_def)

lemma c_assert_eq_wraps: "holds (EQ (-1) 18446744073709551615)"
  by (simp add: to_long_long_def)

end
