(* ===== verification/Conformance.thy ===== *)
theory Conformance
  imports C_Harness Bitwise Float_Bits Hello_C
begin

section \<open>The unit tests of the C components\<close>

text \<open>
  The test programs of the repository for the C components, run on the models: \<open>test_bits.c\<close> of
  \<open>01-bits-and-bytes/exercises/ex1-bitwise-basics\<close>, \<open>test_float_bits.c\<close> of \<open>ex2-ieee754\<close> and \<open>test_hello.c\<close> of
  \<open>00-c-for-programmers/exercises/ex1-hello-c\<close>. An assertion evaluates the call it checks first, which may
  fault; the harness is the model of \<open>tools/common.h\<close>. Floating-point constants are their bit patterns; an
  array of a test is the only block of a heap.
\<close>

type_synonym unit_test = "string \<times> (site \<times> c_assertion res) list"

definition aEQ :: "string \<Rightarrow> nat \<Rightarrow> int \<Rightarrow> int res \<Rightarrow> site \<times> c_assertion res" where
  "aEQ file line expected call = ((file, line), rbind call (\<lambda>v. Inr (EQ expected v)))"

definition aEQ_BITS :: "string \<Rightarrow> nat \<Rightarrow> float_bits \<Rightarrow> float_bits res \<Rightarrow> site \<times> c_assertion res" where
  "aEQ_BITS file line expected call = ((file, line), rbind call (\<lambda>v. Inr (EQ_UINT (uint expected) (uint v))))"

definition aSTR :: "string \<Rightarrow> nat \<Rightarrow> string \<Rightarrow> string res \<Rightarrow> site \<times> c_assertion res" where
  "aSTR file line expected call = ((file, line), rbind call (\<lambda>v. Inr (STR_EQ (Some expected) (Some v))))"

definition arr_of :: "int list \<Rightarrow> int heap" where
  "arr_of xs = \<lparr>blocks = [0 \<mapsto> xs], brk = 1\<rparr>"

definition buf_of :: "nat \<Rightarrow> char heap" where
  "buf_of n = \<lparr>blocks = [0 \<mapsto> replicate n (CHR 0x00)], brk = 1\<rparr>"

text \<open>The text of a buffer: its bytes up to the terminator.\<close>

definition c_string :: "char heap \<Rightarrow> string res" where
  "c_string h = rbind (hblock (Some 0) h) (\<lambda>xs.
     if CHR 0x00 \<in> set xs then Inr (takeWhile (\<lambda>c. c \<noteq> CHR 0x00) xs) else Inl OutOfBounds)"

fun unit_fn :: "(nat \<Rightarrow> string) \<Rightarrow> (site \<times> c_assertion res) list \<Rightarrow> c_rest" where
  "unit_fn sp [] h = Inr h"
| "unit_fn sp ((loc, r) # rs) h = rbind r (\<lambda>a. c_assert sp loc a (unit_fn sp rs) h)"

fun unit_tests :: "(nat \<Rightarrow> string) \<Rightarrow> unit_test list \<Rightarrow> c_rest" where
  "unit_tests sp [] h = Inr h"
| "unit_tests sp ((nm, rs) # ts) h = rbind (c_RUN_TEST nm (unit_fn sp rs) h) (unit_tests sp ts)"

definition unit_main :: "(nat \<Rightarrow> string) \<Rightarrow> unit_test list \<Rightarrow> c_harness \<Rightarrow> (c_harness \<times> int) res" where
  "unit_main sp ts h = rbind (unit_tests sp ts (c_TEST_BEGIN h)) (\<lambda>h1. Inr (c_TEST_END h1))"

subsection \<open>\<open>test_hello.c\<close>\<close>

definition test_max_of :: unit_test where
  "test_max_of = (''test_max_of'',
     [aEQ ''test_hello.c'' 7 5 (Inr (max_of 3 5)),
      aEQ ''test_hello.c'' 8 5 (Inr (max_of 5 3)),
      aEQ ''test_hello.c'' 9 7 (Inr (max_of 7 7)),
      aEQ ''test_hello.c'' 10 0 (Inr (max_of (-1) 0)),
      aEQ ''test_hello.c'' 11 (-3) (Inr (max_of (-3) (-10)))])"

definition test_min_of :: unit_test where
  "test_min_of = (''test_min_of'',
     [aEQ ''test_hello.c'' 15 3 (Inr (min_of 3 5)),
      aEQ ''test_hello.c'' 16 3 (Inr (min_of 5 3)),
      aEQ ''test_hello.c'' 17 7 (Inr (min_of 7 7)),
      aEQ ''test_hello.c'' 18 (-1) (Inr (min_of (-1) 0)),
      aEQ ''test_hello.c'' 19 (-10) (Inr (min_of (-3) (-10)))])"

definition test_clamp :: unit_test where
  "test_clamp = (''test_clamp'',
     [aEQ ''test_hello.c'' 23 5 (Inr (clamp 5 0 10)),
      aEQ ''test_hello.c'' 24 0 (Inr (clamp (-5) 0 10)),
      aEQ ''test_hello.c'' 25 10 (Inr (clamp 15 0 10)),
      aEQ ''test_hello.c'' 26 0 (Inr (clamp 0 0 10)),
      aEQ ''test_hello.c'' 27 10 (Inr (clamp 10 0 10)),
      aEQ ''test_hello.c'' 28 (-3) (Inr (clamp (-3) (-5) (-1)))])"

definition test_array_sum :: unit_test where
  "test_array_sum = (''test_array_sum'',
     [aEQ ''test_hello.c'' 35 15 (array_sum (Some 0) 5 (arr_of [1, 2, 3, 4, 5])),
      aEQ ''test_hello.c'' 38 0 (array_sum (Some 0) 4 (arr_of [(-1), 1, (-1), 1])),
      aEQ ''test_hello.c'' 40 0 (array_sum (Some 0) 0 (arr_of [1, 2, 3, 4, 5])),
      aEQ ''test_hello.c'' 43 42 (array_sum (Some 0) 1 (arr_of [42]))])"

definition test_array_max_index :: unit_test where
  "test_array_max_index = (''test_array_max_index'',
     [aEQ ''test_hello.c'' 48 3 (array_max_index (Some 0) 5 (arr_of [1, 5, 3, 9, 2])),
      aEQ ''test_hello.c'' 51 0 (array_max_index (Some 0) 4 (arr_of [10, 1, 2, 3])),
      aEQ ''test_hello.c'' 54 3 (array_max_index (Some 0) 4 (arr_of [1, 2, 3, 10])),
      aEQ ''test_hello.c'' 56 (-1) (array_max_index (Some 0) 0 (arr_of [1, 5, 3, 9, 2])),
      aEQ ''test_hello.c'' 57 (-1) (array_max_index (Some 0) (-1) (arr_of [1, 5, 3, 9, 2])),
      aEQ ''test_hello.c'' 60 0 (array_max_index (Some 0) 1 (arr_of [7])),
      aEQ ''test_hello.c'' 63 1 (array_max_index (Some 0) 3 (arr_of [(-5), (-1), (-10)]))])"

definition test_array_reverse :: unit_test where
  "test_array_reverse = (''test_array_reverse'',
     [aEQ ''test_hello.c'' 69 5 (rbind (array_reverse (Some 0) 5 (arr_of [1, 2, 3, 4, 5])) (hread (Some 0) 0)),
      aEQ ''test_hello.c'' 70 4 (rbind (array_reverse (Some 0) 5 (arr_of [1, 2, 3, 4, 5])) (hread (Some 0) 1)),
      aEQ ''test_hello.c'' 71 3 (rbind (array_reverse (Some 0) 5 (arr_of [1, 2, 3, 4, 5])) (hread (Some 0) 2)),
      aEQ ''test_hello.c'' 72 2 (rbind (array_reverse (Some 0) 5 (arr_of [1, 2, 3, 4, 5])) (hread (Some 0) 3)),
      aEQ ''test_hello.c'' 73 1 (rbind (array_reverse (Some 0) 5 (arr_of [1, 2, 3, 4, 5])) (hread (Some 0) 4)),
      aEQ ''test_hello.c'' 77 4 (rbind (array_reverse (Some 0) 4 (arr_of [1, 2, 3, 4])) (hread (Some 0) 0)),
      aEQ ''test_hello.c'' 78 3 (rbind (array_reverse (Some 0) 4 (arr_of [1, 2, 3, 4])) (hread (Some 0) 1)),
      aEQ ''test_hello.c'' 79 2 (rbind (array_reverse (Some 0) 4 (arr_of [1, 2, 3, 4])) (hread (Some 0) 2)),
      aEQ ''test_hello.c'' 80 1 (rbind (array_reverse (Some 0) 4 (arr_of [1, 2, 3, 4])) (hread (Some 0) 3)),
      aEQ ''test_hello.c'' 84 42 (rbind (array_reverse (Some 0) 1 (arr_of [42])) (hread (Some 0) 0)),
      aEQ ''test_hello.c'' 88 1 (rbind (array_reverse (Some 0) 0 (arr_of [1, 2])) (hread (Some 0) 0))])"

definition test_array_contains :: unit_test where
  "test_array_contains = (''test_array_contains'',
     [aEQ ''test_hello.c'' 93 1 (array_contains (Some 0) 5 30 (arr_of [10, 20, 30, 40, 50])),
      aEQ ''test_hello.c'' 94 1 (array_contains (Some 0) 5 10 (arr_of [10, 20, 30, 40, 50])),
      aEQ ''test_hello.c'' 95 1 (array_contains (Some 0) 5 50 (arr_of [10, 20, 30, 40, 50])),
      aEQ ''test_hello.c'' 96 0 (array_contains (Some 0) 5 25 (arr_of [10, 20, 30, 40, 50])),
      aEQ ''test_hello.c'' 97 0 (array_contains (Some 0) 5 0 (arr_of [10, 20, 30, 40, 50])),
      aEQ ''test_hello.c'' 98 0 (array_contains (Some 0) 0 10 (arr_of [10, 20, 30, 40, 50]))])"

definition test_fizzbuzz :: unit_test where
  "test_fizzbuzz = (''test_fizzbuzz'',
     [aSTR ''test_hello.c'' 107 ''1'' (rbind (fizzbuzz 1 (Some 0) (buf_of 32)) c_string),
      aSTR ''test_hello.c'' 110 ''Fizz'' (rbind (fizzbuzz 3 (Some 0) (buf_of 32)) c_string),
      aSTR ''test_hello.c'' 113 ''Buzz'' (rbind (fizzbuzz 5 (Some 0) (buf_of 32)) c_string),
      aSTR ''test_hello.c'' 116 ''FizzBuzz'' (rbind (fizzbuzz 15 (Some 0) (buf_of 32)) c_string),
      aSTR ''test_hello.c'' 119 ''7'' (rbind (fizzbuzz 7 (Some 0) (buf_of 32)) c_string),
      aSTR ''test_hello.c'' 122 ''FizzBuzz'' (rbind (fizzbuzz 30 (Some 0) (buf_of 32)) c_string),
      aSTR ''test_hello.c'' 125 ''Fizz'' (rbind (fizzbuzz 9 (Some 0) (buf_of 32)) c_string),
      aSTR ''test_hello.c'' 128 ''Buzz'' (rbind (fizzbuzz 10 (Some 0) (buf_of 32)) c_string),
      aSTR ''test_hello.c'' 131 ''Buzz'' (rbind (fizzbuzz 100 (Some 0) (buf_of 32)) c_string)])"

definition test_hello_main :: "unit_test list" where
  "test_hello_main =
     [test_max_of, test_min_of, test_clamp, test_array_sum, test_array_max_index, test_array_reverse, test_array_contains, test_fizzbuzz]"

subsection \<open>\<open>test_bits.c\<close>\<close>

definition test_bit_and :: "overflow \<Rightarrow> unit_test" where
  "test_bit_and ov = (''test_bit_and'',
     [aEQ ''test_bits.c'' 8 0 (Inr (bit_and 15 240)),
      aEQ ''test_bits.c'' 9 15 (Inr (bit_and 15 255)),
      aEQ ''test_bits.c'' 10 0 (Inr (bit_and 0 2147483647)),
      aEQ ''test_bits.c'' 11 (-1) (Inr (bit_and (-1) (-1)))])"

definition test_bit_negate :: "overflow \<Rightarrow> unit_test" where
  "test_bit_negate ov = (''test_bit_negate'',
     [aEQ ''test_bits.c'' 17 0 (bit_negate ov 0),
      aEQ ''test_bits.c'' 18 (-1) (bit_negate ov 1),
      aEQ ''test_bits.c'' 19 1 (bit_negate ov (-1)),
      aEQ ''test_bits.c'' 20 (-42) (bit_negate ov 42),
      aEQ ''test_bits.c'' 21 42 (bit_negate ov (-42)),
      aEQ ''test_bits.c'' 22 (-2147483647) (bit_negate ov 2147483647),
      aEQ ''test_bits.c'' 24 (-2147483648) (bit_negate ov (-2147483648))])"

definition test_bit_abs :: "overflow \<Rightarrow> unit_test" where
  "test_bit_abs ov = (''test_bit_abs'',
     [aEQ ''test_bits.c'' 30 0 (bit_abs ov 0),
      aEQ ''test_bits.c'' 31 1 (bit_abs ov 1),
      aEQ ''test_bits.c'' 32 1 (bit_abs ov (-1)),
      aEQ ''test_bits.c'' 33 42 (bit_abs ov 42),
      aEQ ''test_bits.c'' 34 42 (bit_abs ov (-42)),
      aEQ ''test_bits.c'' 35 2147483647 (bit_abs ov 2147483647),
      aEQ ''test_bits.c'' 38 (-2147483648) (bit_abs ov (-2147483648))])"

definition test_is_negative :: "overflow \<Rightarrow> unit_test" where
  "test_is_negative ov = (''test_is_negative'',
     [aEQ ''test_bits.c'' 44 0 (is_negative ov 0),
      aEQ ''test_bits.c'' 45 0 (is_negative ov 1),
      aEQ ''test_bits.c'' 46 0 (is_negative ov 2147483647),
      aEQ ''test_bits.c'' 47 1 (is_negative ov (-1)),
      aEQ ''test_bits.c'' 48 1 (is_negative ov (-42)),
      aEQ ''test_bits.c'' 49 1 (is_negative ov (-2147483648))])"

definition test_is_power_of_2 :: "overflow \<Rightarrow> unit_test" where
  "test_is_power_of_2 ov = (''test_is_power_of_2'',
     [aEQ ''test_bits.c'' 55 1 (is_power_of_2 ov 1),
      aEQ ''test_bits.c'' 56 1 (is_power_of_2 ov 2),
      aEQ ''test_bits.c'' 57 1 (is_power_of_2 ov 4),
      aEQ ''test_bits.c'' 58 1 (is_power_of_2 ov 1073741824),
      aEQ ''test_bits.c'' 59 0 (is_power_of_2 ov 0),
      aEQ ''test_bits.c'' 60 0 (is_power_of_2 ov 3),
      aEQ ''test_bits.c'' 61 0 (is_power_of_2 ov 6),
      aEQ ''test_bits.c'' 62 0 (is_power_of_2 ov (-1)),
      aEQ ''test_bits.c'' 63 0 (is_power_of_2 ov (-2147483648)),
      aEQ ''test_bits.c'' 64 0 (is_power_of_2 ov (-16))])"

definition test_add_ok :: "overflow \<Rightarrow> unit_test" where
  "test_add_ok ov = (''test_add_ok'',
     [aEQ ''test_bits.c'' 70 1 (add_ok ov 0 0),
      aEQ ''test_bits.c'' 71 1 (add_ok ov 1 2),
      aEQ ''test_bits.c'' 72 1 (add_ok ov (-1) 1),
      aEQ ''test_bits.c'' 73 1 (add_ok ov (-100) 100),
      aEQ ''test_bits.c'' 75 0 (add_ok ov 2147483647 1),
      aEQ ''test_bits.c'' 76 0 (add_ok ov 2147483647 2147483647),
      aEQ ''test_bits.c'' 78 0 (add_ok ov (-2147483648) (-1)),
      aEQ ''test_bits.c'' 79 0 (add_ok ov (-2147483648) (-2147483648)),
      aEQ ''test_bits.c'' 81 1 (add_ok ov 2147483647 0),
      aEQ ''test_bits.c'' 82 1 (add_ok ov (-2147483648) 0),
      aEQ ''test_bits.c'' 83 1 (add_ok ov 2147483647 (-2147483648))])"

definition test_conditional :: "overflow \<Rightarrow> unit_test" where
  "test_conditional ov = (''test_conditional'',
     [aEQ ''test_bits.c'' 89 10 (conditional ov 1 10 20),
      aEQ ''test_bits.c'' 90 20 (conditional ov 0 10 20),
      aEQ ''test_bits.c'' 91 10 (conditional ov (-1) 10 20),
      aEQ ''test_bits.c'' 92 10 (conditional ov 42 10 20),
      aEQ ''test_bits.c'' 93 0 (conditional ov 1 0 99),
      aEQ ''test_bits.c'' 94 99 (conditional ov 0 0 99),
      aEQ ''test_bits.c'' 95 (-5) (conditional ov (-2147483648) (-5) 5)])"

definition test_bit_count :: "overflow \<Rightarrow> unit_test" where
  "test_bit_count ov = (''test_bit_count'',
     [aEQ ''test_bits.c'' 101 0 (bit_count ov 0),
      aEQ ''test_bits.c'' 102 1 (bit_count ov 1),
      aEQ ''test_bits.c'' 103 1 (bit_count ov 2),
      aEQ ''test_bits.c'' 104 1 (bit_count ov 1073741824),
      aEQ ''test_bits.c'' 105 32 (bit_count ov (-1)),
      aEQ ''test_bits.c'' 106 31 (bit_count ov 2147483647),
      aEQ ''test_bits.c'' 107 1 (bit_count ov (-2147483648)),
      aEQ ''test_bits.c'' 108 16 (bit_count ov 1431655765),
      aEQ ''test_bits.c'' 109 16 (bit_count ov (-1431655766)),
      aEQ ''test_bits.c'' 110 8 (bit_count ov 255)])"

definition test_bits_main :: "overflow \<Rightarrow> unit_test list" where
  "test_bits_main ov =
     [test_bit_and ov, test_bit_negate ov, test_bit_abs ov, test_is_negative ov, test_is_power_of_2 ov, test_add_ok ov, test_conditional ov, test_bit_count ov]"

subsection \<open>\<open>test_float_bits.c\<close>\<close>

definition test_float_negate :: unit_test where
  "test_float_negate = (''test_float_negate'',
     [aEQ_BITS ''test_float_bits.c'' 19 0xbf800000 (Inr (float_negate 0x3f800000)),
      aEQ_BITS ''test_float_bits.c'' 20 0x3f800000 (Inr (float_negate 0xbf800000)),
      aEQ_BITS ''test_float_bits.c'' 21 0x80000000 (Inr (float_negate 0x0)),
      aEQ_BITS ''test_float_bits.c'' 22 0x0 (Inr (float_negate 0x80000000)),
      aEQ_BITS ''test_float_bits.c'' 25 0x7fc00000 (Inr (float_negate 0x7fc00000))])"

definition test_float_abs :: unit_test where
  "test_float_abs = (''test_float_abs'',
     [aEQ_BITS ''test_float_bits.c'' 31 0x3f800000 (Inr (float_abs 0x3f800000)),
      aEQ_BITS ''test_float_bits.c'' 32 0x3f800000 (Inr (float_abs 0xbf800000)),
      aEQ_BITS ''test_float_bits.c'' 33 0x0 (Inr (float_abs 0x0)),
      aEQ_BITS ''test_float_bits.c'' 34 0x0 (Inr (float_abs 0x80000000)),
      aEQ_BITS ''test_float_bits.c'' 35 0x4048f5c3 (Inr (float_abs 0xc048f5c3)),
      aEQ_BITS ''test_float_bits.c'' 36 0x7f800000 (Inr (float_abs 0xff800000)),
      aEQ_BITS ''test_float_bits.c'' 39 0x7fc00000 (Inr (float_abs 0x7fc00000))])"

definition test_float_twice :: unit_test where
  "test_float_twice = (''test_float_twice'',
     [aEQ_BITS ''test_float_bits.c'' 45 0x40000000 (Inr (float_twice 0x3f800000)),
      aEQ_BITS ''test_float_bits.c'' 46 0x3f800000 (Inr (float_twice 0x3f000000)),
      aEQ_BITS ''test_float_bits.c'' 47 0xc0000000 (Inr (float_twice 0xbf800000)),
      aEQ_BITS ''test_float_bits.c'' 48 0x0 (Inr (float_twice 0x0)),
      aEQ_BITS ''test_float_bits.c'' 49 0x80000000 (Inr (float_twice 0x80000000)),
      aEQ_BITS ''test_float_bits.c'' 51 0x7f800000 (Inr (float_twice 0x7f800000)),
      aEQ_BITS ''test_float_bits.c'' 52 0xff800000 (Inr (float_twice 0xff800000)),
      aEQ_BITS ''test_float_bits.c'' 55 0x7fc00000 (Inr (float_twice 0x7fc00000)),
      aEQ_BITS ''test_float_bits.c'' 58 0x2 (Inr (float_twice 0x1)),
      aEQ_BITS ''test_float_bits.c'' 61 0x800000 (Inr (float_twice 0x400000))])"

definition test_float_half :: unit_test where
  "test_float_half = (''test_float_half'',
     [aEQ_BITS ''test_float_bits.c'' 67 0x3f800000 (Inr (float_half 0x40000000)),
      aEQ_BITS ''test_float_bits.c'' 68 0x3f000000 (Inr (float_half 0x3f800000)),
      aEQ_BITS ''test_float_bits.c'' 69 0xbf000000 (Inr (float_half 0xbf800000)),
      aEQ_BITS ''test_float_bits.c'' 70 0x0 (Inr (float_half 0x0)),
      aEQ_BITS ''test_float_bits.c'' 71 0x80000000 (Inr (float_half 0x80000000)),
      aEQ_BITS ''test_float_bits.c'' 73 0x7f800000 (Inr (float_half 0x7f800000)),
      aEQ_BITS ''test_float_bits.c'' 74 0xff800000 (Inr (float_half 0xff800000)),
      aEQ_BITS ''test_float_bits.c'' 77 0x7fc00000 (Inr (float_half 0x7fc00000)),
      aEQ_BITS ''test_float_bits.c'' 79 0x1 (Inr (float_half 0x2)),
      aEQ_BITS ''test_float_bits.c'' 81 0x0 (Inr (float_half 0x1))])"

definition test_float_is_nan :: unit_test where
  "test_float_is_nan = (''test_float_is_nan'',
     [aEQ ''test_float_bits.c'' 87 1 (Inr (float_is_nan 0x7fc00000)),
      aEQ ''test_float_bits.c'' 88 1 (Inr (float_is_nan 0x7f800001)),
      aEQ ''test_float_bits.c'' 89 1 (Inr (float_is_nan 0x7fc00000)),
      aEQ ''test_float_bits.c'' 90 1 (Inr (float_is_nan 0xffc00001)),
      aEQ ''test_float_bits.c'' 91 0 (Inr (float_is_nan 0x0)),
      aEQ ''test_float_bits.c'' 92 0 (Inr (float_is_nan 0x3f800000)),
      aEQ ''test_float_bits.c'' 93 0 (Inr (float_is_nan 0xbf800000)),
      aEQ ''test_float_bits.c'' 94 0 (Inr (float_is_nan 0x7f800000)),
      aEQ ''test_float_bits.c'' 95 0 (Inr (float_is_nan 0xff800000))])"

definition test_int_to_float :: unit_test where
  "test_int_to_float = (''test_int_to_float'',
     [aEQ_BITS ''test_float_bits.c'' 101 0x0 (int_to_float 0),
      aEQ_BITS ''test_float_bits.c'' 102 0x3f800000 (int_to_float 1),
      aEQ_BITS ''test_float_bits.c'' 103 0xbf800000 (int_to_float 0xffffffff),
      aEQ_BITS ''test_float_bits.c'' 104 0x40000000 (int_to_float 2),
      aEQ_BITS ''test_float_bits.c'' 105 0xc0000000 (int_to_float 0xfffffffe),
      aEQ_BITS ''test_float_bits.c'' 106 0x42280000 (int_to_float 42),
      aEQ_BITS ''test_float_bits.c'' 107 0x43800000 (int_to_float 256),
      aEQ_BITS ''test_float_bits.c'' 108 0x44800000 (int_to_float 1024),
      aEQ_BITS ''test_float_bits.c'' 109 0x4f000000 (int_to_float 2147483647),
      aEQ_BITS ''test_float_bits.c'' 110 0xcf000000 (int_to_float 0x80000000),
      aEQ_BITS ''test_float_bits.c'' 111 0x47800000 (int_to_float 65536),
      aEQ_BITS ''test_float_bits.c'' 113 0x49800000 (int_to_float 1048576),
      aEQ_BITS ''test_float_bits.c'' 115 0x4b800000 (int_to_float 16777217)])"

definition test_float_bits_main :: "unit_test list" where
  "test_float_bits_main =
     [test_float_negate, test_float_abs, test_float_twice, test_float_half, test_float_is_nan, test_int_to_float]"


subsection \<open>Results of the calls\<close>

text \<open>A test whose calls all return values that satisfy their assertions passes.\<close>

fun passes :: "(site \<times> c_assertion res) list \<Rightarrow> bool" where
  "passes [] \<longleftrightarrow> True"
| "passes ((loc, r) # rs) \<longleftrightarrow> (case r of Inl _ \<Rightarrow> False | Inr a \<Rightarrow> defined a \<and> holds a \<and> passes rs)"

fun first_fault :: "(site \<times> c_assertion res) list \<Rightarrow> fault option" where
  "first_fault [] = None"
| "first_fault ((loc, r) # rs) =
     (case r of Inl e \<Rightarrow> Some e | Inr a \<Rightarrow> if defined a \<and> holds a then first_fault rs else None)"

lemma unit_fn_passes: "passes rs \<Longrightarrow> unit_fn sp rs h = Inr h"
  by (induction sp rs h rule: unit_fn.induct) (auto simp: c_assert_spec split: sum.splits)

lemma unit_fn_faults: "first_fault rs = Some e \<Longrightarrow> unit_fn sp rs h = Inl e"
  by (induction sp rs h rule: unit_fn.induct) (auto simp: c_assert_spec split: sum.splits if_splits)

definition pass_line :: "string \<Rightarrow> string" where
  "pass_line nm = GREEN @ ''  PASS'' @ RESET @ '' '' @ nm @ newline"

definition passed_state :: "string \<Rightarrow> c_harness \<Rightarrow> c_harness" where
  "passed_state nm h = h\<lparr>ch_current := Some nm, ch_run := ch_run h + 1, ch_passed := ch_passed h + 1,
     ch_out := ch_out h @ [pass_line nm]\<rparr>"

lemma run_passes: "passes rs \<Longrightarrow> c_RUN_TEST nm (unit_fn sp rs) h = Inr (passed_state nm h)"
  by (simp add: c_RUN_TEST_def unit_fn_passes passed_state_def pass_line_def cprintf_def Let_def)

lemma run_faults: "first_fault rs = Some e \<Longrightarrow> c_RUN_TEST nm (unit_fn sp rs) h = Inl e"
  by (simp add: c_RUN_TEST_def unit_fn_faults Let_def)

lemma unit_tests_passes:
  "list_all (passes \<circ> snd) ts \<Longrightarrow> unit_tests sp (ts @ us) h = unit_tests sp us (fold passed_state (map fst ts) h)"
  by (induction ts arbitrary: h) (auto simp: run_passes)

lemma fold_passed_state:
  "ch_failed (fold passed_state nms h) = ch_failed h"
  "ch_passed (fold passed_state nms h) = ch_passed h + int (length nms)"
  "ch_run (fold passed_state nms h) = ch_run h + int (length nms)"
  "ch_out (fold passed_state nms h) = ch_out h @ map pass_line nms"
  by (induction nms arbitrary: h) (simp_all add: passed_state_def)

text \<open>A program of passing tests ends with code 0 and prints one PASS line per test and the summary.\<close>

lemma unit_main_passes:
  assumes "list_all (passes \<circ> snd) ts"
  shows "\<exists>h'. unit_main sp ts h = Inr (h', 0) \<and> ch_passed h' = int (length ts) \<and> ch_failed h' = 0 \<and>
    ch_out h' = ch_out h @ map (pass_line \<circ> fst) ts @ [summary_line h']"
proof -
  let ?h = "fold passed_state (map fst ts) (c_TEST_BEGIN h)"
  have "unit_tests sp ts (c_TEST_BEGIN h) = Inr ?h" using unit_tests_passes [OF assms, of sp "[]"] by simp
  moreover have "summary_line (cprintf l k) = summary_line k" for l k by (simp add: summary_line_def cprintf_def)
  ultimately show ?thesis
    by (simp add: unit_main_def c_TEST_END_def c_TEST_BEGIN_def fold_passed_state) (simp add: cprintf_def fold_passed_state)
qed

lemma unit_main_faults:
  assumes "list_all (passes \<circ> snd) ts" and "first_fault rs = Some e"
  shows "unit_main sp (ts @ (nm, rs) # us) h = Inl e"
  using unit_tests_passes [OF assms(1), of sp "(nm, rs) # us"] run_faults [OF assms(2)]
  by (simp add: unit_main_def)

subsection \<open>Evaluation\<close>

lemma test_hello_passes: "list_all (passes \<circ> snd) test_hello_main"
  by code_simp

lemma test_bits_wrapping_passes: "list_all (passes \<circ> snd) (test_bits_main wrap32)"
  by code_simp

lemmas word_eval = to_unsigned_long_long_def Let_def

lemma test_float_negate_passes: "passes (snd test_float_negate)"
  by (simp add: test_float_negate_def aEQ_BITS_def float_negate_def word_eval)

lemma test_float_abs_passes: "passes (snd test_float_abs)"
  by (simp add: test_float_abs_def aEQ_BITS_def float_abs_def word_eval)

lemma test_float_twice_passes: "passes (snd test_float_twice)"
  by (simp add: test_float_twice_def aEQ_BITS_def float_twice_def word_eval)

lemma test_float_half_passes: "passes (snd test_float_half)"
  by (simp add: test_float_half_def aEQ_BITS_def float_half_def word_eval)

lemma test_float_is_nan_passes: "passes (snd test_float_is_nan)"
  by (simp add: test_float_is_nan_def aEQ_def float_is_nan_def word_eval)

lemma test_int_to_float_faults: "first_fault (snd test_int_to_float) = Some MissingReturn"
  by (simp add: test_int_to_float_def aEQ_BITS_def int_to_float_def Let_def)

lemma test_bit_and_passes: "passes (snd (test_bit_and ov))"
  by (simp add: test_bit_and_def aEQ_def bit_and_def)

lemma test_bit_negate_faults: "first_fault (snd (test_bit_negate chk32)) = Some SignedOverflow"
  by code_simp

subsection \<open>Main results\<close>

text \<open>The repository's own unit tests of the C components on the models. \<open>test_hello.c\<close> passes, and
  \<open>test_bits.c\<close> passes when \<open>int\<close> wraps around: each prints a PASS line per test and exits with 0. By the
  C standard \<open>test_bits.c\<close> has a signed overflow in its second test (it negates \<open>INT_MIN\<close>), and
  \<open>test_float_bits.c\<close> uses the result of \<open>int_to_float\<close>, which returns none, after its first five tests have
  passed.\<close>

theorem unit_test_programs:
  "(\<exists>h'. unit_main sp test_hello_main h = Inr (h', 0) \<and> ch_passed h' = 8 \<and>
      ch_out h' = ch_out h @ map (pass_line \<circ> fst) test_hello_main @ [summary_line h']) \<and>
   (\<exists>h'. unit_main sp (test_bits_main wrap32) h = Inr (h', 0) \<and> ch_passed h' = 8 \<and>
      ch_out h' = ch_out h @ map (pass_line \<circ> fst) (test_bits_main wrap32) @ [summary_line h']) \<and>
   unit_main sp (test_bits_main chk32) h = Inl SignedOverflow \<and>
   (\<exists>h'. unit_main sp (take 5 test_float_bits_main) h = Inr (h', 0) \<and> ch_passed h' = 5) \<and>
   unit_main sp test_float_bits_main h = Inl MissingReturn"
proof -
  have floats: "list_all (passes \<circ> snd) (take 5 test_float_bits_main)"
    by (simp add: test_float_bits_main_def test_float_negate_passes test_float_abs_passes test_float_twice_passes
        test_float_half_passes test_float_is_nan_passes numeral_eq_Suc)
  have "unit_main sp (test_bits_main chk32) h = Inl SignedOverflow"
    using unit_main_faults [of "[test_bit_and chk32]" "snd (test_bit_negate chk32)" SignedOverflow sp "fst (test_bit_negate chk32)"]
      test_bit_and_passes test_bit_negate_faults
    by (simp add: test_bits_main_def)
  moreover have "unit_main sp test_float_bits_main h = Inl MissingReturn"
    using unit_main_faults [OF floats test_int_to_float_faults, of sp "fst test_int_to_float" "[]" h]
    by (simp add: test_float_bits_main_def numeral_eq_Suc)
  moreover have "length test_hello_main = 8" "length (test_bits_main wrap32) = 8" "length (take 5 test_float_bits_main) = 5"
    by (simp_all add: test_hello_main_def test_bits_main_def test_float_bits_main_def)
  ultimately show ?thesis
    using unit_main_passes [OF test_hello_passes, of sp h] unit_main_passes [OF test_bits_wrapping_passes, of sp h]
      unit_main_passes [OF floats, of sp h] by auto
qed

end
