(* ===== verification/Decimal_Output.thy ===== *)
theory Decimal_Output
  imports Complex_Main Prelude
begin

section \<open>Decimal output of floating-point numbers\<close>

text \<open>
  The conversion \<open>%.<d>f\<close> of \<open>printf\<close> for a finite value: the decimal with \<open>d\<close> places nearest to it, ties to
  even, with the sign of the value. What is read back differs from the value by half a unit of the last
  place at most.
\<close>

definition round_even :: "real \<Rightarrow> int" where
  "round_even x =
     (let f = \<lfloor>x\<rfloor>; d = x - of_int f in
      if d < 1 / 2 then f else if d > 1 / 2 then f + 1 else if even f then f else f + 1)"

fun last_digits :: "nat \<Rightarrow> nat \<Rightarrow> string" where
  "last_digits 0 n = []"
| "last_digits (Suc d) n = last_digits d (n div 10) @ [digit (n mod 10)]"

definition fmt_fixed :: "nat \<Rightarrow> real \<Rightarrow> string" where
  "fmt_fixed d x =
     (let n = nat (round_even (\<bar>x\<bar> * 10 ^ d)) in
      (if x < 0 then ''-'' else '''') @ show_nat (n div 10 ^ d) @ (if d = 0 then [] else CHR ''.'' # last_digits d n))"

lemma round_even_bounds: "x - 1 / 2 \<le> of_int (round_even x)" "of_int (round_even x) \<le> x + 1 / 2"
  unfolding round_even_def Let_def by (simp_all split: if_split) (linarith+)?

lemma round_even_mono_int: "x \<le> of_int k \<Longrightarrow> round_even x \<le> k"
proof -
  assume "x \<le> of_int k"
  then have "of_int (round_even x) < of_int k + (1 :: real)" using round_even_bounds(2) [of x] by linarith
  then show ?thesis by linarith
qed

lemma round_even_nonneg: "0 \<le> x \<Longrightarrow> 0 \<le> round_even x"
  using round_even_bounds(1) [of x] by linarith

lemma length_last_digits [simp]: "length (last_digits d n) = d"
  by (induction d n rule: last_digits.induct) simp_all

lemma length_fmt_fixed:
  assumes "0 \<le> x" and "x \<le> of_nat b" and "b < 10 ^ k" and "0 < k"
  shows "length (fmt_fixed d x) \<le> k + (if d = 0 then 0 else d + 1)"
proof -
  have "x * 10 ^ d \<le> of_int (int (b * 10 ^ d))" using mult_right_mono [OF assms(2), of "10 ^ d"] by simp
  then have "nat (round_even (x * 10 ^ d)) \<le> b * 10 ^ d" using round_even_mono_int by (metis nat_int nat_mono)
  then have "nat (round_even (x * 10 ^ d)) div 10 ^ d \<le> b" by (simp add: div_le_mono [THEN order_trans])
  then have "nat (round_even (x * 10 ^ d)) div 10 ^ d < 10 ^ k" using assms(3) by simp
  then have "length (show_nat (nat (round_even (x * 10 ^ d)) div 10 ^ d)) \<le> k" using assms(4) by (rule length_show_nat)
  then show ?thesis using assms(1) by (auto simp: fmt_fixed_def Let_def)
qed

subsection \<open>Reading the number back\<close>

definition read_decimal :: "string \<Rightarrow> nat" where
  "read_decimal s = read_nat (filter (\<lambda>c. c \<noteq> CHR ''.'' \<and> c \<noteq> CHR '' '') s)"

lemma digit_printable: "d < 10 \<Longrightarrow> digit d \<noteq> CHR ''.'' \<and> digit d \<noteq> CHR '' ''"
proof -
  assume d: "d < 10"
  have "digit_value (CHR ''.'') = 0" "digit_value (CHR '' '') = 0" "digit 0 \<noteq> CHR ''.''" "digit 0 \<noteq> CHR '' ''"
    by code_simp+
  then show ?thesis using digit_value_digit [OF d] by (cases "d = 0") auto
qed

lemma show_nat_digits: "filter (\<lambda>c. c \<noteq> CHR ''.'' \<and> c \<noteq> CHR '' '') (show_nat n) = show_nat n"
proof (induction n rule: less_induct)
  case (less n)
  then show ?case
    using less [of "n div 10"] digit_printable [of n] digit_printable [of "n mod 10"] by (subst (1 2) show_nat.simps) auto
qed

lemma last_digits_digits: "filter (\<lambda>c. c \<noteq> CHR ''.'' \<and> c \<noteq> CHR '' '') (last_digits d n) = last_digits d n"
  by (induction d n rule: last_digits.induct) (simp_all add: digit_printable)

lemma read_nat_snoc: "read_nat (s @ [c]) = 10 * read_nat s + digit_value c"
  by (simp add: read_nat_def)

lemma read_last_digits: "read_nat (s @ last_digits d n) = read_nat s * 10 ^ d + n mod 10 ^ d"
proof (induction d n rule: last_digits.induct)
  case (2 d n)
  have "read_nat ((s @ last_digits d (n div 10)) @ [digit (n mod 10)]) =
      10 * (read_nat s * 10 ^ d + n div 10 mod 10 ^ d) + n mod 10"
    unfolding read_nat_snoc 2 by (simp add: digit_value_digit)
  then show ?case by (simp add: mod_mult2_eq algebra_simps)
qed simp

lemma read_fmt_fixed: "0 \<le> x \<Longrightarrow> read_decimal (fmt_fixed d x) = nat (round_even (x * 10 ^ d))"
  using read_last_digits [of "show_nat (nat (round_even (x * 10 ^ d)) div 10 ^ d)" d "nat (round_even (x * 10 ^ d))"]
  by (simp add: read_decimal_def fmt_fixed_def Let_def show_nat_digits last_digits_digits read_show_nat
      div_mult_mod_eq)

lemma read_field_right: "read_decimal (field_right w s) = read_decimal s"
  by (simp add: read_decimal_def field_right_def)

text \<open>The printed number is within half a unit of its last place.\<close>

lemma fmt_fixed_accurate:
  assumes "0 \<le> x"
  shows "\<bar>real (read_decimal (fmt_fixed d x)) / 10 ^ d - x\<bar> \<le> 1 / (2 * 10 ^ d)"
proof -
  let ?n = "round_even (x * 10 ^ d)"
  have "real (read_decimal (fmt_fixed d x)) = of_int ?n"
    using assms round_even_nonneg [of "x * 10 ^ d"] by (simp add: read_fmt_fixed)
  moreover have "\<bar>of_int ?n - x * 10 ^ d\<bar> \<le> 1 / 2" using round_even_bounds [of "x * 10 ^ d"] by linarith
  then have "\<bar>of_int ?n - x * 10 ^ d\<bar> / 10 ^ d \<le> 1 / 2 / 10 ^ d" by (rule divide_right_mono) simp
  then have "\<bar>(of_int ?n - x * 10 ^ d) / 10 ^ d\<bar> \<le> 1 / (2 * 10 ^ d)" by (simp only: abs_divide) simp
  ultimately show ?thesis by (simp add: diff_divide_distrib)
qed

end
