(* ===== verification/Bench_Table.thy ===== *)
theory Bench_Table
  imports Decimal_Output Containers_Bench
begin

section \<open>The table of the container benchmarks\<close>

text \<open>
  The output of \<open>main\<close> of \<open>03-stl-internals/exercises/ex1-container-benchmark/bench_containers.cpp\<close>, from the
  measured times: the two messages, the heading, the rule and one row per container. \<open>rnd\<close> is the
  rounding of \<open>double\<close> arithmetic. \<open>%.1f\<close> is \<open>fmt_fixed 1\<close>.
\<close>

definition fmt_f1 :: "real \<Rightarrow> string" where
  "fmt_f1 x = fmt_fixed 1 x"

definition table_row :: "(real \<Rightarrow> real) \<Rightarrow> int \<Rightarrow> bench_row \<Rightarrow> string" where
  "table_row rnd N = (\<lambda>(name, ins, look, iter).
     let per = (\<lambda>t. fmt_f1 (rnd (rnd (of_int t) / of_int N))) in
     field_left 22 name @ '' '' @ field_right 15 (per ins) @ '' '' @ field_right 15 (per look) @ '' '' @
     field_right 15 (per iter) @ [CHR 0x0A])"

definition table_heading :: "string \<Rightarrow> string \<Rightarrow> string \<Rightarrow> string \<Rightarrow> string" where
  "table_heading a b c d =
     field_left 22 a @ '' '' @ field_right 15 b @ '' '' @ field_right 15 c @ '' '' @ field_right 15 d @ [CHR 0x0A]"

text \<open>The rule is drawn with \<open>U+2500\<close>, three bytes in UTF-8.\<close>

definition bar :: "nat \<Rightarrow> string" where
  "bar n = concat (replicate n [CHR 0xE2, CHR 0x94, CHR 0x80])"

definition bench_output :: "(real \<Rightarrow> real) \<Rightarrow> int \<Rightarrow> bench_row list \<Rightarrow> string list" where
  "bench_output rnd N rows =
     [''(sanity check not yet implemented)'' @ [CHR 0x0A],
      [CHR 0x0A] @ ''N = '' @ show_int N @ [CHR 0x0A],
      table_heading ''Container'' ''Insert (ns/op)'' ''Lookup (ns/op)'' ''Iter (ns/elem)'',
      table_heading (bar 22) (bar 15) (bar 15) (bar 15)] @
     map (table_row rnd N) rows"

definition bench_names :: "string list" where
  "bench_names = [''std::list'', ''std::deque'', ''vector+lower_bound'', ''std::map'', ''unordered_map'',
     ''boost::unord_flat_map'', ''boost::flat_map'', ''boost::node_map (heap allocation)'']"

text \<open>
  \<open>main\<close> fixes one million keys. \<open>bench_program_for\<close> is its body with the constant \<open>N\<close> left open, to say
  what the same program does for other constants.
\<close>

definition bench_program_for ::
  "int \<Rightarrow> (real \<Rightarrow> real) \<Rightarrow> (nat \<Rightarrow> nat) \<Rightarrow> (nat \<Rightarrow> nat) \<Rightarrow> (nat \<Rightarrow> int) \<Rightarrow> (int \<Rightarrow> (int \<times> int) list \<Rightarrow> nat) \<Rightarrow>
   ('a, int) map_ops \<Rightarrow> ('b, int) map_ops \<Rightarrow> ('c, addr) map_ops \<Rightarrow> ('d, int) map_ops \<Rightarrow> (string list \<times> int) res" where
  "bench_program_for N rnd draw1 draw2 clk place uflat_ops flat_ops ptr_ops node_ops =
     rbind (bench_rows N draw1 draw2 clk place uflat_ops flat_ops ptr_ops node_ops)
       (\<lambda>rows. Inr (bench_output rnd N rows, 0))"

definition bench_program where
  "bench_program = bench_program_for 1000000"

subsection \<open>Decimal output\<close>

lemma length_fmt_f1: "0 \<le> x \<Longrightarrow> x \<le> 10 ^ 12 \<Longrightarrow> length (fmt_f1 x) \<le> 15"
  using length_fmt_fixed [of x "10 ^ 12" 13 1] by (simp add: fmt_f1_def)

lemma bench_rows_names:
  "bench_rows N draw1 draw2 clk place uflat_ops flat_ops ptr_ops node_ops = Inr rows \<Longrightarrow> map fst rows = bench_names"
  unfolding bench_rows_def Let_def by (auto simp: rbind_eq_Inr bench_names_def split: prod.splits)

subsection \<open>The measured times\<close>

definition took :: "(nat \<Rightarrow> int) \<Rightarrow> nat \<Rightarrow> int" where
  "took clk i = clk (i + 1) - clk i"

definition scaled :: "(nat \<Rightarrow> int) \<Rightarrow> nat \<Rightarrow> int \<Rightarrow> int" where
  "scaled clk i N = took clk i * int (nat N div min (nat N) 1000)"

text \<open>The rows of \<open>main\<close> when nothing overflows: the times between the two clock readings of each benchmark.\<close>

definition expected_rows :: "(nat \<Rightarrow> int) \<Rightarrow> int \<Rightarrow> bench_row list" where
  "expected_rows clk N =
     [(''std::list'', took clk 18, scaled clk 20 N, took clk 22),
      (''std::deque'', took clk 24, scaled clk 26 N, took clk 28),
      (''vector+lower_bound'', took clk 0, took clk 2, took clk 4),
      (''std::map'', took clk 6, took clk 8, took clk 10),
      (''unordered_map'', took clk 12, took clk 14, took clk 16),
      (''boost::unord_flat_map'', took clk 30, took clk 32, took clk 34),
      (''boost::flat_map'', took clk 36, took clk 38, took clk 40),
      (''boost::node_map (heap allocation)'', took clk 48, took clk 50, took clk 52)]"

lemma sum_of_keys_small: "n \<le> 65536 \<Longrightarrow> sum_list (map int [0..<n]) \<le> 2147483647"
proof -
  assume "n \<le> 65536"
  then have "int n * (int n - 1) \<le> 65536 * 65535" by (cases "n = 0") (simp, intro mult_mono, auto)
  then show ?thesis using sum_of_keys [of n] by linarith
qed

lemma took_time: "in_int64 (took clk i) \<Longrightarrow> in_int64 (clk (i + 1) - clk i)"
  by (simp add: took_def)

lemma timed_took: "in_int64 (took clk i) \<Longrightarrow> timed clk i kept = Inr (took clk i, kept)"
  by (simp add: timed_ok took_def)

lemma lookups_took:
  assumes "keyed_map ops good" and "set q \<subseteq> set ks" and "\<forall>k \<in> set ks. 0 \<le> k"
    and "sum_list q \<le> 2147483647" and "in_int64 (took clk i)"
  shows "bench_lookup_vector clk i (sort ks) q = Inr (took clk i, sum_list q)"
    and "bench_lookup_map clk i (put_all smap_ops ks) q = Inr (took clk i, sum_list q)"
    and "bench_lookup_umap place clk i (put_all (umap_ops place) ks) q = Inr (took clk i, sum_list q)"
    and "bench_lookup_uflat ops clk i (put_all ops ks) q = Inr (took clk i, sum_list q)"
    and "bench_lookup_flatmap ops clk i (put_all ops ks) q = Inr (took clk i, sum_list q)"
    and "bench_lookup_node_map ops clk i (put_all ops ks) q = Inr (took clk i, sum_list q)"
proof -
  have hits: "filter (\<lambda>k. k \<in> set ks) q = q" using assms(2) by (intro filter_True) auto
  then have "sum_list (filter (\<lambda>k. k \<in> set ks) q) \<le> 2147483647" using assms(4) by simp
  note agree = bench_lookups_agree_parts [OF assms(1,3) took_time [OF assms(5)] this, unfolded hits, folded took_def]
  show "bench_lookup_vector clk i (sort ks) q = Inr (took clk i, sum_list q)" by (rule agree(1) [OF assms(2)])
  show "bench_lookup_map clk i (put_all smap_ops ks) q = Inr (took clk i, sum_list q)" by (rule agree(2))
  show "bench_lookup_umap place clk i (put_all (umap_ops place) ks) q = Inr (took clk i, sum_list q)" by (rule agree(3))
  show "bench_lookup_uflat ops clk i (put_all ops ks) q = Inr (took clk i, sum_list q)" by (rule agree(4))
  show "bench_lookup_flatmap ops clk i (put_all ops ks) q = Inr (took clk i, sum_list q)" by (rule agree(5))
  show "bench_lookup_node_map ops clk i (put_all ops ks) q = Inr (took clk i, sum_list q)" by (rule agree(6))
qed

lemma iterations_took:
  assumes "keyed_map ops good" and "distinct ks" and "\<forall>k \<in> set ks. 0 \<le> k"
    and "sum_list ks \<le> 2147483647" and "in_int64 (took clk i)"
  shows "bench_iter_vector clk i (sort ks) = Inr (took clk i, sum_list ks)"
    and "bench_iter_map clk i (put_all smap_ops ks) = Inr (took clk i, sum_list ks)"
    and "bench_iter_umap place clk i (put_all (umap_ops place) ks) = Inr (took clk i, sum_list ks)"
    and "bench_iter_list clk i (push_all_back ks) = Inr (took clk i, sum_list ks)"
    and "bench_iter_deque clk i (push_all_back ks) = Inr (took clk i, sum_list ks)"
    and "bench_iter_uflat ops clk i (put_all ops ks) = Inr (took clk i, sum_list ks)"
    and "bench_iter_flatmap ops clk i (put_all ops ks) = Inr (took clk i, sum_list ks)"
    and "bench_iter_node_map ops clk i (put_all ops ks) = Inr (took clk i, sum_list ks)"
proof -
  have "sum_list ks \<le> 9223372036854775807" using assms(4) by simp
  note iter = bench_iterations_sum [OF assms(1-3) this took_time [OF assms(5)]]
  show "bench_iter_vector clk i (sort ks) = Inr (took clk i, sum_list ks)"
    and "bench_iter_map clk i (put_all smap_ops ks) = Inr (took clk i, sum_list ks)"
    and "bench_iter_umap place clk i (put_all (umap_ops place) ks) = Inr (took clk i, sum_list ks)"
    and "bench_iter_list clk i (push_all_back ks) = Inr (took clk i, sum_list ks)"
    and "bench_iter_deque clk i (push_all_back ks) = Inr (took clk i, sum_list ks)"
    and "bench_iter_uflat ops clk i (put_all ops ks) = Inr (took clk i, sum_list ks)"
    and "bench_iter_flatmap ops clk i (put_all ops ks) = Inr (took clk i, sum_list ks)"
    and "bench_iter_node_map ops clk i (put_all ops ks) = Inr (took clk i, sum_list ks)"
    using iter assms(4) by (simp_all add: took_def)
qed

lemma scans_took:
  assumes "set q \<subseteq> set ks" and "\<forall>k \<in> set q. 0 \<le> k" and "sum_list q \<le> 2147483647"
    and "length q = nat N" and "0 < N" "N \<le> 65536" and "in_int64 (took clk i)" "in_int64 (scaled clk i N)"
  shows "bench_lookup_list clk i (push_all_back ks) q = Inr (scaled clk i N, sum_list (take (min (nat N) 1000) q))"
    and "bench_lookup_deque clk i (push_all_back ks) q = Inr (scaled clk i N, sum_list (take (min (nat N) 1000) q))"
proof -
  have "q \<noteq> []" "length q < 2147483648" using assms(4-6) by auto
  then show list: "bench_lookup_list clk i (push_all_back ks) q = Inr (scaled clk i N, sum_list (take (min (nat N) 1000) q))"
    using linear_scan_scaling(2) [of q "push_all_back ks" clk i] assms took_time [of clk i]
    by (simp add: push_all_back_id scaled_def took_def)
  then show "bench_lookup_deque clk i (push_all_back ks) q = Inr (scaled clk i N, sum_list (take (min (nat N) 1000) q))"
    by (simp add: bench_lookup_list_def bench_lookup_deque_def)
qed

lemma inserts_took:
  assumes "in_int64 (took clk i)"
  shows "bench_insert_vector clk i ks = Inr (took clk i, sort (push_all_back ks))"
    and "bench_insert_map clk i ks = Inr (took clk i, put_all smap_ops ks)"
    and "bench_insert_umap place clk i ks = Inr (took clk i, put_all (umap_ops place) ks)"
    and "bench_insert_list clk i ks = Inr (took clk i, push_all_back ks)"
    and "bench_insert_deque clk i ks = Inr (took clk i, push_all_back ks)"
    and "bench_insert_uflat ops clk i ks = Inr (took clk i, put_all ops ks)"
    and "bench_insert_flatmap ops clk i ks = Inr (took clk i, put_all ops ks)"
    and "bench_insert_node_map ops clk i ks = Inr (took clk i, put_all ops ks)"
  using timed_took [OF assms]
  by (simp_all add: bench_insert_vector_def bench_insert_map_def bench_insert_umap_def bench_insert_list_def
      bench_insert_deque_def bench_insert_uflat_def bench_insert_flatmap_def bench_insert_node_map_def)

text \<open>The owning map: the first fill is released by its benchmark, the second at the end of \<open>main\<close>.\<close>

lemma owning_map_took:
  assumes "keyed_map ops good" and "set q \<subseteq> set ks" and "distinct ks" and "\<forall>k \<in> set ks. 0 \<le> k" "\<forall>k \<in> set q. 0 \<le> k"
    and "sum_list q \<le> 2147483647" "sum_list ks \<le> 2147483647" and "\<And>i. in_int64 (took clk i)"
  shows "\<exists>heap1 m h1 h2. bench_insert_uflat_ptr ops clk 42 ks empty_heap = Inr (took clk 42, heap1) \<and>
    ptr_fill ops ks (mempty ops, heap1) = Inr (m, h1) \<and>
    bench_lookup_uflat_ptr ops clk 44 (m, h1) q = Inr (took clk 44, sum_list q) \<and>
    bench_iter_uflat_ptr ops clk 46 (m, h1) = Inr (took clk 46, sum_list ks) \<and>
    ptr_release (map snd (mitems ops m)) h1 = Inr h2"
proof -
  obtain heap1 where one: "bench_insert_uflat_ptr ops clk 42 ks empty_heap = Inr (took clk 42, heap1)" "heap_ok heap1"
    using owning_map_run [OF assms(1) heap_ok_empty took_time [OF assms(8) [of 42]], of ks] by (auto simp: took_def)
  have hits: "filter (\<lambda>k. k \<in> set ks) q = q" using assms(2) by (intro filter_True) auto
  obtain m h1 h2 its where two: "ptr_fill ops ks (mempty ops, heap1) = Inr (m, h1)"
      "\<forall>clk i. bench_lookup_uflat_ptr ops clk i (m, h1) q =
        rbind (sum_into chk64 (filter (\<lambda>k. k \<in> set ks) q) 0) (timed clk i)"
      "distinct its" "set its = set ks"
      "\<forall>clk i. bench_iter_uflat_ptr ops clk i (m, h1) = rbind (sum_into chk64 its 0) (timed clk i)"
      "ptr_release (map snd (mitems ops m)) h1 = Inr h2"
    using owning_map_run [OF assms(1) one(2) took_time [OF assms(8) [of 0]], of ks] by metis
  have "mset its = mset ks" using two(3,4) assms(3) by (simp add: set_eq_iff_mset_eq_distinct)
  then have its: "sum_list its = sum_list ks" by (rule sum_list_mset_cong)
  have pos: "\<forall>k \<in> set its. 0 \<le> k" unfolding two(4) by (rule assms(4))
  have "sum_into chk64 q 0 = Inr (sum_list q)" "sum_into chk64 its 0 = Inr (sum_list ks)"
    using sum_into_exact(2) [OF assms(5), of 0] sum_into_exact(2) [OF pos, of 0] its assms(6,7) by simp_all
  then have "bench_lookup_uflat_ptr ops clk 44 (m, h1) q = Inr (took clk 44, sum_list q)"
    "bench_iter_uflat_ptr ops clk 46 (m, h1) = Inr (took clk 46, sum_list ks)"
    by (simp_all add: two(2,5) hits timed_took [OF assms(8)])
  with one(1) two(1,6) show ?thesis by blast
qed

lemma bench_rows_exact:
  assumes maps: "keyed_map uflat_ops good1" "keyed_map flat_ops good2" "keyed_map ptr_ops good3" "keyed_map node_ops good4"
    and draws: "\<And>i. draw1 i \<le> i" "\<And>i. draw2 i \<le> i" and N: "0 < N" "N \<le> 65536"
    and clock: "\<And>i. in_int64 (took clk i)" "in_int64 (scaled clk 20 N)" "in_int64 (scaled clk 26 N)"
  shows "bench_rows N draw1 draw2 clk place uflat_ops flat_ops ptr_ops node_ops = Inr (expected_rows clk N)"
proof -
  obtain ks where keys: "generate_keys draw1 N = Inr ks" and ms: "mset ks = mset (map int [0..<nat N])"
    and ks: "distinct ks" "set ks = {0..<N}" and mq: "mset (generate_shuffled draw2 ks) = mset ks"
    using generate_keys_permutation [of draw1 draw2 N, OF draws] N(1) by auto
  define q where "q = generate_shuffled draw2 ks"
  have sums: "sum_list ks \<le> 2147483647" "sum_list q \<le> 2147483647"
    using sum_list_mset_cong [OF ms] sum_list_mset_cong [OF mq] sum_of_keys_small [of "nat N"] N(2) by (simp_all add: q_def)
  have sq: "set q = set ks" "length q = nat N"
    using mset_eq_setD [OF mq] mset_eq_length [OF mq] mset_eq_length [OF ms] by (simp_all add: q_def)
  have nonneg: "\<forall>k \<in> set ks. 0 \<le> k" "\<forall>k \<in> set q. 0 \<le> k" using ks(2) sq(1) by auto
  have sub: "set q \<subseteq> set ks" using sq(1) by simp
  note look = lookups_took [OF _ sub nonneg(1) sums(2) clock(1)]
  note iter = iterations_took [OF _ ks(1) nonneg(1) sums(1) clock(1)]
  note scan = scans_took [OF sub nonneg(2) sums(2) sq(2) N clock(1)]
  note own = owning_map_took [OF maps(3) sub ks(1) nonneg sums(2,1) clock(1)]
  then obtain heap1 m h1 h2 where own: "bench_insert_uflat_ptr ptr_ops clk 42 ks empty_heap = Inr (took clk 42, heap1)"
      "ptr_fill ptr_ops ks (mempty ptr_ops, heap1) = Inr (m, h1)"
      "bench_lookup_uflat_ptr ptr_ops clk 44 (m, h1) q = Inr (took clk 44, sum_list q)"
      "bench_iter_uflat_ptr ptr_ops clk 46 (m, h1) = Inr (took clk 46, sum_list ks)"
      "ptr_release (map snd (mitems ptr_ops m)) h1 = Inr h2" by blast
  show ?thesis
    unfolding bench_rows_def keys rbind_Inr Let_def q_def [symmetric]
    by (simp add: inserts_took [OF clock(1)] look [OF maps(1)] look [OF maps(2)] look [OF maps(4)]
        iter [OF maps(1)] iter [OF maps(2)] iter [OF maps(4)] scan clock own expected_rows_def)
qed

subsection \<open>The width of a row\<close>

lemma quotient_range:
  assumes "mono rnd" and "\<And>k :: int. \<bar>k\<bar> \<le> 2 ^ 53 \<Longrightarrow> rnd (of_int k) = of_int k"
    and "0 < N" and "0 \<le> t" "t \<le> 10 ^ 12"
  shows "0 \<le> rnd (rnd (of_int t) / of_int N) \<and> rnd (rnd (of_int t) / of_int N) \<le> (10 ^ 12 :: real)"
proof -
  have t: "rnd (of_int t) = of_int t" using assms(2,4,5) by simp
  have "(of_int t :: real) / of_int N \<le> of_int t" using assms(3,4) by (simp add: divide_le_eq mult_le_cancel_left1)
  also have "\<dots> \<le> 10 ^ 12" using assms(5) by (metis of_int_le_iff of_int_numeral of_int_power)
  finally have "rnd (of_int t / of_int N) \<le> rnd (10 ^ 12)" by (rule monoD [OF assms(1)])
  moreover have "rnd (10 ^ 12) = 10 ^ 12" using assms(2) [of "10 ^ 12"] by simp
  moreover have "rnd 0 \<le> rnd (of_int t / of_int N)" using assms(3,4) by (intro monoD [OF assms(1)]) simp
  moreover have "rnd 0 = 0" using assms(2) [of 0] by simp
  ultimately show ?thesis using t by simp
qed

lemma length_table_row:
  assumes "mono rnd" and "\<And>k :: int. \<bar>k\<bar> \<le> 2 ^ 53 \<Longrightarrow> rnd (of_int k) = of_int k" and "0 < N"
    and "a \<in> {0..10 ^ 12}" "b \<in> {0..10 ^ 12}" "c \<in> {0..10 ^ 12}"
  shows "length (table_row rnd N (name, a, b, c)) = max 22 (length name) + 49"
proof -
  have "length (fmt_f1 (rnd (rnd (of_int t) / of_int N))) \<le> 15" if "t \<in> {0..10 ^ 12}" for t
    using quotient_range [OF assms(1-3), of t] that by (intro length_fmt_f1) auto
  from this [OF assms(4)] this [OF assms(5)] this [OF assms(6)] show ?thesis
    by (simp add: table_row_def Let_def max_def)
qed

subsection \<open>Main results\<close>

text \<open>As it is written, with a million keys, the program prints nothing: it has a signed overflow before
  the first line of output.\<close>

theorem bench_program_overflows:
  assumes "\<And>i. draw1 i \<le> i" and "\<And>i. draw2 i \<le> i" and "in_int64 (clk 1 - clk 0)"
  shows "bench_program rnd draw1 draw2 clk place uflat_ops flat_ops ptr_ops node_ops = Inl SignedOverflow"
proof -
  have "bench_rows 1000000 draw1 draw2 clk place uflat_ops flat_ops ptr_ops node_ops = Inl SignedOverflow"
    using assms by (intro bench_main_overflows_parts(1)) simp_all
  then show ?thesis by (simp add: bench_program_def bench_program_for_def)
qed

text \<open>The same program with a constant of at most 65536 keys, the bound above which the lookups overflow: for
  Boost maps that satisfy the contract, any random draws, measured times between 0 and 10^12
  nanoseconds (also after the scaling of the linear scans), and a monotone rounding that is exact on the integers up to 2^53, it
  runs without a fault and prints the table of the elapsed times; every row is 71 characters wide
  except that of the node map, whose name does not fit its column.\<close>

theorem bench_program_prints:
  assumes "keyed_map uflat_ops good1" "keyed_map flat_ops good2" "keyed_map ptr_ops good3" "keyed_map node_ops good4"
    and "\<And>i. draw1 i \<le> i" "\<And>i. draw2 i \<le> i" and N: "0 < N" "N \<le> 65536"
    and clock: "\<And>i. took clk i \<in> {0..10 ^ 12}" "scaled clk 20 N \<in> {0..10 ^ 12}" "scaled clk 26 N \<in> {0..10 ^ 12}"
    and rnd: "mono rnd" "\<And>k :: int. \<bar>k\<bar> \<le> 2 ^ 53 \<Longrightarrow> rnd (of_int k) = of_int k"
  shows "bench_program_for N rnd draw1 draw2 clk place uflat_ops flat_ops ptr_ops node_ops =
      Inr (bench_output rnd N (expected_rows clk N), 0) \<and>
    map length (drop 4 (bench_output rnd N (expected_rows clk N))) = [71, 71, 71, 71, 71, 71, 71, 82]"
proof -
  have range: "in_int64 t" if "t \<in> {0..10 ^ 12}" for t using that by (simp add: in_int64_def)
  have rows: "bench_rows N draw1 draw2 clk place uflat_ops flat_ops ptr_ops node_ops = Inr (expected_rows clk N)"
    using assms(1-6) N clock by (intro bench_rows_exact range)
  note row = length_table_row [OF rnd N(1)]
  have "map length (map (table_row rnd N) (expected_rows clk N)) = [71, 71, 71, 71, 71, 71, 71, 82]"
    unfolding expected_rows_def list.map by (simp only: row clock) simp
  then show ?thesis using rows by (simp add: bench_program_for_def bench_output_def)
qed

theorem bench_program_prints_witness:
  "bench_program_for 2000 (\<lambda>x. x) (\<lambda>i. 0) (\<lambda>i. i) (\<lambda>i. 7 * int i) (\<lambda>_ _. 0) smap_ops smap_ops smap_ops smap_ops =
    Inr (bench_output (\<lambda>x. x) 2000 (expected_rows (\<lambda>i. 7 * int i) 2000), 0)"
  using bench_program_prints [OF smap.keyed_map_axioms smap.keyed_map_axioms smap.keyed_map_axioms smap.keyed_map_axioms,
      of "\<lambda>i. 0" "\<lambda>i. i" 2000 "\<lambda>i. 7 * int i" "\<lambda>x. x"]
  by (simp add: took_def scaled_def mono_def)

end
