(* ===== verification/Queue_Bench.thy ===== *)
theory Queue_Bench
  imports Queue_Threads Test_Harness
begin

section \<open>The queue benchmark and its test program\<close>

text \<open>
  The rest of \<open>05-concurrency/exercises/ex3-mpmc-false-sharing/test_mpmc_queue.cpp\<close>: the 4P/4C part of
  \<open>bench_mpmc_throughput\<close> as a step relation (producers draw positions from a shared counter, consumers count
  what they receive in another), its 1P/1C part, the single-threaded tests and \<open>bench_false_sharing\<close>. One
  step is one operation on the queue or on an atomic variable. The queue is a parameter, as in
  \<open>Queue_Threads\<close>.
\<close>

subsection \<open>Four producers and four consumers\<close>

datatype bench_producer = PFetch | PPush nat | PDone

datatype bench_consumer = KLoad | KPop | KAdd | KDone

record 'q mpmc_bench =
  bq :: 'q
  produced :: nat
  counted :: nat
  ppc :: "nat \<Rightarrow> bench_producer"
  kpc :: "nat \<Rightarrow> bench_consumer"

definition BENCH_TOTAL :: nat where "BENCH_TOTAL = 4000000"

definition BENCH_THREADS :: nat where "BENCH_THREADS = 4"

definition bench_start :: "'q \<Rightarrow> 'q mpmc_bench \<Rightarrow> bool" where
  "bench_start q s \<longleftrightarrow> s = \<lparr>bq = q, produced = 0, counted = 0, ppc = (\<lambda>_. PFetch), kpc = (\<lambda>_. KLoad)\<rparr>"

inductive bench_step ::
  "(int \<Rightarrow> 'q \<Rightarrow> 'q option) \<Rightarrow> ('q \<Rightarrow> ('q \<times> int) option) \<Rightarrow> 'q mpmc_bench \<Rightarrow> 'q mpmc_bench \<Rightarrow> bool"
  for push pop where
  bench_fetch: "p < BENCH_THREADS \<Longrightarrow> ppc s p = PFetch \<Longrightarrow> bench_step push pop s
    (s\<lparr>produced := produced s + 1,
       ppc := (ppc s)(p := (if produced s \<ge> BENCH_TOTAL then PDone else PPush (produced s)))\<rparr>)"
| bench_push: "p < BENCH_THREADS \<Longrightarrow> ppc s p = PPush i \<Longrightarrow> push (int i) (bq s) = Some q \<Longrightarrow>
    bench_step push pop s (s\<lparr>bq := q, ppc := (ppc s)(p := PFetch)\<rparr>)"
| bench_load: "k < BENCH_THREADS \<Longrightarrow> kpc s k = KLoad \<Longrightarrow> bench_step push pop s
    (s\<lparr>kpc := (kpc s)(k := (if counted s < BENCH_TOTAL then KPop else KDone))\<rparr>)"
| bench_pop: "k < BENCH_THREADS \<Longrightarrow> kpc s k = KPop \<Longrightarrow> pop (bq s) = Some (q, v) \<Longrightarrow>
    bench_step push pop s (s\<lparr>bq := q, kpc := (kpc s)(k := KAdd)\<rparr>)"
| bench_empty: "k < BENCH_THREADS \<Longrightarrow> kpc s k = KPop \<Longrightarrow> pop (bq s) = None \<Longrightarrow>
    bench_step push pop s (s\<lparr>kpc := (kpc s)(k := KLoad)\<rparr>)"
| bench_add: "k < BENCH_THREADS \<Longrightarrow> kpc s k = KAdd \<Longrightarrow>
    bench_step push pop s (s\<lparr>counted := counted s + 1, kpc := (kpc s)(k := KLoad)\<rparr>)"

inductive_cases bench_stepE: "bench_step push pop s s'"

definition bench_finished :: "'q mpmc_bench \<Rightarrow> bool" where
  "bench_finished s \<longleftrightarrow> (\<forall>i<BENCH_THREADS. ppc s i = PDone \<and> kpc s i = KDone)"

subsection \<open>Counting the threads\<close>

text \<open>How many of the threads are at a place of their program.\<close>

definition threads_at :: "('pc \<Rightarrow> bool) \<Rightarrow> (nat \<Rightarrow> 'pc) \<Rightarrow> nat" where
  "threads_at P pcs = (\<Sum>i<BENCH_THREADS. if P (pcs i) then 1 else 0)"

lemma threads_at_upd:
  "i < BENCH_THREADS \<Longrightarrow> threads_at P (pcs(i := pc)) + (if P (pcs i) then 1 else 0) =
    threads_at P pcs + (if P pc then 1 else 0)"
  using sum_fun_upd [of "{..<BENCH_THREADS}" i "\<lambda>pc. if P pc then 1 else 0" pcs pc]
  by (simp add: threads_at_def)

lemma threads_at_le: "threads_at P pcs \<le> BENCH_THREADS"
proof -
  have "threads_at P pcs \<le> (\<Sum>i<BENCH_THREADS. 1)" unfolding threads_at_def by (rule sum_mono) simp
  then show ?thesis by simp
qed

lemma threads_at_all: "(\<forall>i<BENCH_THREADS. P (pcs i)) \<Longrightarrow> threads_at P pcs = BENCH_THREADS"
  by (simp add: threads_at_def)

lemma threads_at_zero: "threads_at P pcs = 0 \<longleftrightarrow> (\<forall>i<BENCH_THREADS. \<not> P (pcs i))"
  by (auto simp: threads_at_def)

definition pushing :: "bench_producer \<Rightarrow> bool" where
  "pushing pc \<longleftrightarrow> (\<exists>i. pc = PPush i)"

lemma pushing_simps [simp]: "\<not> pushing PFetch" "pushing (PPush i)" "\<not> pushing PDone"
  by (auto simp: pushing_def)

text \<open>The items drawn from the counter and, of these, the ones on their way: not yet in the queue, in the
  queue, or received but not yet counted.\<close>

definition drawn :: "'q mpmc_bench \<Rightarrow> nat" where
  "drawn s = min (produced s) BENCH_TOTAL"

definition under_way :: "('q \<Rightarrow> nat) \<Rightarrow> 'q mpmc_bench \<Rightarrow> nat" where
  "under_way len s = threads_at pushing (ppc s) + len (bq s) + threads_at (\<lambda>pc. pc = KAdd) (kpc s)"

definition counters_inv :: "'q mpmc_bench \<Rightarrow> bool" where
  "counters_inv s \<longleftrightarrow> produced s = drawn s + threads_at (\<lambda>pc. pc = PDone) (ppc s) \<and>
     (\<forall>k<BENCH_THREADS. kpc s k = KDone \<longrightarrow> BENCH_TOTAL \<le> counted s)"

lemma counters_start: "bench_start q s \<Longrightarrow> counters_inv s"
  by (simp add: bench_start_def counters_inv_def drawn_def threads_at_def)

lemma counters_step: "bench_step push pop s s' \<Longrightarrow> counters_inv s \<Longrightarrow> counters_inv s'"
proof (induction rule: bench_step.induct)
  case (bench_fetch p s)
  then show ?case
    using threads_at_upd [of p "\<lambda>pc. pc = PDone" "ppc s" "if produced s \<ge> BENCH_TOTAL then PDone else PPush (produced s)"]
    by (auto simp: counters_inv_def drawn_def min_def split: if_splits)
next
  case (bench_push p s i q)
  then show ?case
    using threads_at_upd [of p "\<lambda>pc. pc = PDone" "ppc s" PFetch] by (auto simp: counters_inv_def drawn_def)
qed (auto simp: counters_inv_def drawn_def)

subsection \<open>Every queue that hands out at most what was put in\<close>

lemma under_way_step:
  assumes "bench_step push pop s s'"
    and push: "\<And>v q q'. push v q = Some q' \<Longrightarrow> len q' \<le> len q + 1"
    and pop: "\<And>q q' v. pop q = Some (q', v) \<Longrightarrow> len q' + 1 \<le> len q"
    and "under_way len s + counted s \<le> drawn s"
  shows "under_way len s' + counted s' \<le> drawn s'"
  using assms(1,4)
proof (induction rule: bench_step.induct)
  case (bench_fetch p s)
  then show ?case
    using threads_at_upd [of p pushing "ppc s" "if produced s \<ge> BENCH_TOTAL then PDone else PPush (produced s)"]
    by (auto simp: under_way_def drawn_def min_def split: if_splits)
next
  case (bench_push p s i q)
  then show ?case using threads_at_upd [of p pushing "ppc s" PFetch] push [OF bench_push.hyps(3)]
    by (simp add: under_way_def drawn_def)
next
  case (bench_load k s)
  then show ?case
    using threads_at_upd [of k "\<lambda>pc. pc = KAdd" "kpc s" "if counted s < BENCH_TOTAL then KPop else KDone"]
    by (auto simp: under_way_def drawn_def split: if_splits)
next
  case (bench_pop k s q v)
  then show ?case using threads_at_upd [of k "\<lambda>pc. pc = KAdd" "kpc s" KAdd] pop [OF bench_pop.hyps(3)]
    by (simp add: under_way_def drawn_def)
next
  case (bench_empty k s)
  then show ?case using threads_at_upd [of k "\<lambda>pc. pc = KAdd" "kpc s" KLoad]
    by (simp add: under_way_def drawn_def)
next
  case (bench_add k s)
  then show ?case using threads_at_upd [of k "\<lambda>pc. pc = KAdd" "kpc s" KLoad]
    by (simp add: under_way_def drawn_def)
qed

definition bench_inv :: "('q \<Rightarrow> nat) \<Rightarrow> 'q mpmc_bench \<Rightarrow> bool" where
  "bench_inv len s \<longleftrightarrow> counters_inv s \<and> under_way len s + counted s \<le> drawn s"

sublocale item_queue \<subseteq> bench: invariant_system "bench_start q0" "bench_step push pop" "bench_inv (\<lambda>q. size (contents q))"
proof
  show "bench_inv (\<lambda>q. size (contents q)) s" if "bench_start q0 s" for s
    using that counters_start [OF that] empty_contents
    by (simp add: bench_start_def bench_inv_def under_way_def threads_at_def)
  show "bench_inv (\<lambda>q. size (contents q)) s'"
    if "bench_inv (\<lambda>q. size (contents q)) s" "bench_step push pop s s'" for s s'
  proof -
    have "size (contents q') \<le> size (contents q) + 1" if "push v q = Some q'" for v q q'
      using size_mset_mono [OF push_contents [OF that]] by simp
    moreover have "size (contents q') + 1 \<le> size (contents q)" if "pop q = Some (q', v)" for q q' v
      using size_mset_mono [OF pop_contents [OF that]] by simp
    ultimately show ?thesis
      using under_way_step [OF that(2), of "\<lambda>q. size (contents q)"] counters_step [OF that(2)] that(1)
      unfolding bench_inv_def by blast
  qed
qed

context item_queue
begin

lemma reach_bench_inv: "reach (bench_start q0) (bench_step push pop) s \<Longrightarrow> bench_inv (\<lambda>q. size (contents q)) s"
  by (rule bench.reach_inv)

end

lemma bench_inv_counted: "bench_inv len s \<Longrightarrow> counted s \<le> drawn s \<and> counted s \<le> BENCH_TOTAL"
  by (simp add: bench_inv_def drawn_def)

lemma bench_inv_produced: "bench_inv len s \<Longrightarrow> produced s \<le> BENCH_TOTAL + BENCH_THREADS"
  using threads_at_le [of "\<lambda>pc. pc = PDone" "ppc s"] by (auto simp: bench_inv_def counters_inv_def drawn_def min_def split: if_splits)

text \<open>A consumer leaves when everything was counted, so nothing is on its way then.\<close>

lemma bench_inv_done:
  assumes "bench_inv len s" and "k < BENCH_THREADS" and "kpc s k = KDone"
  shows "counted s = BENCH_TOTAL \<and> under_way len s = 0 \<and> BENCH_TOTAL \<le> produced s"
  using assms by (auto simp: bench_inv_def counters_inv_def drawn_def)

lemma BENCH_pos: "0 < BENCH_TOTAL" "0 < BENCH_THREADS"
  by (simp_all add: BENCH_TOTAL_def BENCH_THREADS_def)

lemma bench_inv_finished:
  assumes "bench_inv len s" and "bench_finished s"
  shows "counted s = BENCH_TOTAL \<and> produced s = BENCH_TOTAL + BENCH_THREADS \<and> len (bq s) = 0"
proof -
  have "counted s = BENCH_TOTAL" "under_way len s = 0" "BENCH_TOTAL \<le> produced s"
    using bench_inv_done [OF assms(1) BENCH_pos(2)] assms(2) BENCH_pos(2) by (auto simp: bench_finished_def)
  moreover have "threads_at (\<lambda>pc. pc = PDone) (ppc s) = BENCH_THREADS"
    using assms(2) by (intro threads_at_all) (simp add: bench_finished_def)
  ultimately show ?thesis using assms(1) by (simp add: bench_inv_def counters_inv_def drawn_def under_way_def)
qed

subsection \<open>Queues that lose nothing\<close>

text \<open>What the header of \<open>mpmc_queue.hpp\<close> asks of the queue, for its number of items: every item that went in
  comes out, \<open>try_pop\<close> fails on an empty queue only, and \<open>push\<close> waits on a non-empty one only.\<close>

definition lossless_queue ::
  "(int \<Rightarrow> 'q \<Rightarrow> 'q option) \<Rightarrow> ('q \<Rightarrow> ('q \<times> int) option) \<Rightarrow> ('q \<Rightarrow> nat) \<Rightarrow> 'q \<Rightarrow> bool" where
  "lossless_queue push pop len q0 \<longleftrightarrow> len q0 = 0 \<and>
     (\<forall>v q q'. push v q = Some q' \<longrightarrow> len q' = len q + 1) \<and> (\<forall>v q. push v q = None \<longrightarrow> 0 < len q) \<and>
     (\<forall>v q q'. pop q = Some (q', v) \<longrightarrow> len q = len q' + 1) \<and> (\<forall>q. pop q = None \<longrightarrow> len q = 0)"

lemma lossless_pop:
  "lossless_queue push pop len q0 \<Longrightarrow> 0 < len q \<Longrightarrow> \<exists>q' v. pop q = Some (q', v) \<and> len q = len q' + 1"
  by (cases "pop q") (auto simp: lossless_queue_def)

definition exact_inv :: "('q \<Rightarrow> nat) \<Rightarrow> 'q mpmc_bench \<Rightarrow> bool" where
  "exact_inv len s \<longleftrightarrow> counters_inv s \<and> under_way len s + counted s = drawn s"

lemma exact_inv_bench: "exact_inv len s \<Longrightarrow> bench_inv len s"
  by (simp add: exact_inv_def bench_inv_def)

text \<open>What a consumer's next place changes in the two counts of consumers.\<close>

lemma consumer_counts:
  "k < BENCH_THREADS \<Longrightarrow>
    threads_at (\<lambda>pc. pc = KAdd) (pcs(k := pc)) + (if pcs k = KAdd then 1 else 0) =
      threads_at (\<lambda>pc. pc = KAdd) pcs + (if pc = KAdd then 1 else 0) \<and>
    threads_at (\<lambda>pc. pc \<noteq> KDone) (pcs(k := pc)) + (if pcs k = KDone then 0 else 1) =
      threads_at (\<lambda>pc. pc \<noteq> KDone) pcs + (if pc = KDone then 0 else 1)"
  using threads_at_upd [of k "\<lambda>pc. pc = KAdd" pcs pc] threads_at_upd [of k "\<lambda>pc. pc \<noteq> KDone" pcs pc] by auto

text \<open>What a step changes: the balance of the items is kept, and the work left never grows.\<close>

definition bench_rank :: "('q \<Rightarrow> nat) \<Rightarrow> 'q mpmc_bench \<Rightarrow> nat" where
  "bench_rank len s = 4 * (BENCH_TOTAL + BENCH_THREADS - produced s) + 3 * threads_at pushing (ppc s) +
     2 * len (bq s) + threads_at (\<lambda>pc. pc = KAdd) (kpc s) + threads_at (\<lambda>pc. pc \<noteq> KDone) (kpc s)"

lemma fetch_room:
  assumes "exact_inv len s" and "p < BENCH_THREADS" and "ppc s p = PFetch"
  shows "produced s < BENCH_TOTAL + BENCH_THREADS"
proof -
  have "threads_at (\<lambda>pc. pc = PDone) ((ppc s)(p := PDone)) \<le> BENCH_THREADS" by (rule threads_at_le)
  then show ?thesis
    using threads_at_upd [OF assms(2), of "\<lambda>pc. pc = PDone" "ppc s" PDone] assms
    by (auto simp: exact_inv_def counters_inv_def drawn_def min_def split: if_splits)
qed

lemma exact_step:
  assumes "lossless_queue push pop len q0" and "bench_step push pop s s'" and "exact_inv len s"
  shows "exact_inv len s' \<and> bench_rank len s' \<le> bench_rank len s"
  using assms(2)
proof cases
  case (bench_fetch p)
  have "produced s < BENCH_TOTAL + BENCH_THREADS" using fetch_room [OF assms(3)] bench_fetch(2,3) .
  with bench_fetch assms(3) counters_step [OF assms(2)] show ?thesis
    using threads_at_upd [of p pushing "ppc s" "if produced s \<ge> BENCH_TOTAL then PDone else PPush (produced s)"]
    by (auto simp: exact_inv_def under_way_def drawn_def bench_rank_def min_def split: if_splits)
next
  case (bench_push p i q)
  moreover have "len q = len (bq s) + 1" using assms(1) bench_push(4) by (simp add: lossless_queue_def)
  ultimately show ?thesis
    using threads_at_upd [of p pushing "ppc s" PFetch] assms(3) counters_step [OF assms(2)]
    by (simp add: exact_inv_def under_way_def drawn_def bench_rank_def)
next
  case (bench_load k)
  then show ?thesis
    using consumer_counts [of k "kpc s" "if counted s < BENCH_TOTAL then KPop else KDone"]
      assms(3) counters_step [OF assms(2)]
    by (auto simp: exact_inv_def under_way_def drawn_def bench_rank_def split: if_splits)
next
  case (bench_pop k q v)
  moreover have "len (bq s) = len q + 1" using assms(1) bench_pop(4) by (simp add: lossless_queue_def)
  ultimately show ?thesis
    using consumer_counts [of k "kpc s" KAdd] assms(3) counters_step [OF assms(2)]
    by (simp add: exact_inv_def under_way_def drawn_def bench_rank_def)
next
  case (bench_empty k)
  then show ?thesis
    using consumer_counts [of k "kpc s" KLoad] assms(3) counters_step [OF assms(2)]
    by (simp add: exact_inv_def under_way_def drawn_def bench_rank_def)
next
  case (bench_add k)
  then show ?thesis
    using consumer_counts [of k "kpc s" KLoad] assms(3) counters_step [OF assms(2)]
    by (simp add: exact_inv_def under_way_def drawn_def bench_rank_def)
qed

text \<open>Whenever the program is not finished, some steps of one thread decrease the work left.\<close>

lemma rank_pop:
  assumes "lossless_queue push pop len q0" and "k < BENCH_THREADS" and "kpc s k \<noteq> KDone" and "kpc s k \<noteq> KAdd"
    and "0 < len (bq s)" and "counted s < BENCH_TOTAL"
  shows "\<exists>s'. (bench_step push pop)\<^sup>*\<^sup>* s s' \<and> bench_rank len s' < bench_rank len s"
proof -
  obtain q v where q: "pop (bq s) = Some (q, v)" "len (bq s) = len q + 1"
    using lossless_pop [OF assms(1,5)] by blast
  define t where "t = s\<lparr>kpc := (kpc s)(k := KPop)\<rparr>"
  have "(bench_step push pop)\<^sup>*\<^sup>* s t"
    using bench_load [OF assms(2), of s push pop] assms(3,4,6) by (cases "kpc s k") (auto simp: t_def fun_upd_idem)
  moreover have "bench_step push pop t (t\<lparr>bq := q, kpc := (kpc t)(k := KAdd)\<rparr>)"
    using q(1) assms(2) by (intro bench_pop) (simp_all add: t_def)
  moreover have "bench_rank len (t\<lparr>bq := q, kpc := (kpc t)(k := KAdd)\<rparr>) < bench_rank len s"
    using q(2) consumer_counts [OF assms(2), of "kpc s" KAdd] assms(3,4) by (simp add: bench_rank_def t_def)
  ultimately show ?thesis by (meson rtranclp.rtrancl_into_rtrancl)
qed

lemma rank_add:
  assumes "k < BENCH_THREADS" and "kpc s k = KAdd"
  shows "\<exists>s'. (bench_step push pop)\<^sup>*\<^sup>* s s' \<and> bench_rank len s' < bench_rank len s"
  using bench_add [OF assms, of push pop] consumer_counts [OF assms(1), of "kpc s" KLoad] assms(2)
  by (intro exI [of _ "s\<lparr>counted := counted s + 1, kpc := (kpc s)(k := KLoad)\<rparr>"]) (auto simp: bench_rank_def)

lemma rank_exit:
  assumes "lossless_queue push pop len q0" and "k < BENCH_THREADS" and "kpc s k \<noteq> KDone" and "kpc s k \<noteq> KAdd"
    and "len (bq s) = 0" and "BENCH_TOTAL \<le> counted s"
  shows "\<exists>s'. (bench_step push pop)\<^sup>*\<^sup>* s s' \<and> bench_rank len s' < bench_rank len s"
proof -
  have "pop (bq s) = None" using assms(1,5) by (cases "pop (bq s)") (auto simp: lossless_queue_def)
  define t where "t = s\<lparr>kpc := (kpc s)(k := KLoad)\<rparr>"
  have "(bench_step push pop)\<^sup>*\<^sup>* s t"
    using bench_empty [OF assms(2), of s pop push] \<open>pop (bq s) = None\<close> assms(3,4)
    by (cases "kpc s k") (auto simp: t_def fun_upd_idem)
  moreover have "bench_step push pop t (t\<lparr>kpc := (kpc t)(k := KDone)\<rparr>)"
    using bench_load [OF assms(2), of t push pop] assms(6) by (simp add: t_def)
  moreover have "bench_rank len (t\<lparr>kpc := (kpc t)(k := KDone)\<rparr>) < bench_rank len s"
    using consumer_counts [OF assms(2), of "kpc s" KDone] assms(3,4) by (simp add: bench_rank_def t_def)
  ultimately show ?thesis by (meson rtranclp.rtrancl_into_rtrancl)
qed

lemma rank_fetch:
  assumes "exact_inv len s" and "p < BENCH_THREADS" and "ppc s p = PFetch"
  shows "\<exists>s'. (bench_step push pop)\<^sup>*\<^sup>* s s' \<and> bench_rank len s' < bench_rank len s"
proof -
  let ?pc = "if produced s \<ge> BENCH_TOTAL then PDone else PPush (produced s)"
  have "produced s < BENCH_TOTAL + BENCH_THREADS" using fetch_room [OF assms] .
  then have "bench_rank len (s\<lparr>produced := produced s + 1, ppc := (ppc s)(p := ?pc)\<rparr>) < bench_rank len s"
    using threads_at_upd [OF assms(2), of pushing "ppc s" ?pc] assms(3) by (auto simp: bench_rank_def split: if_splits)
  then show ?thesis using bench_fetch [OF assms(2,3), of push pop] by blast
qed

lemma rank_push:
  assumes "lossless_queue push pop len q0" and "exact_inv len s" and "p < BENCH_THREADS" and "ppc s p = PPush i"
  shows "\<exists>s'. (bench_step push pop)\<^sup>*\<^sup>* s s' \<and> bench_rank len s' < bench_rank len s"
proof (cases "push (int i) (bq s)")
  case (Some q)
  then have "len q = len (bq s) + 1" using assms(1) by (simp add: lossless_queue_def)
  then have "bench_rank len (s\<lparr>bq := q, ppc := (ppc s)(p := PFetch)\<rparr>) < bench_rank len s"
    using threads_at_upd [OF assms(3), of pushing "ppc s" PFetch] assms(4) by (simp add: bench_rank_def)
  then show ?thesis using bench_push [of p s i push q pop] assms(3,4) Some by blast
next
  case None
  then have "0 < len (bq s)" using assms(1) by (simp add: lossless_queue_def)
  then have "0 < under_way len s" by (simp add: under_way_def)
  moreover have "counted s < BENCH_TOTAL" using assms(2) \<open>0 < under_way len s\<close> by (auto simp: exact_inv_def drawn_def min_def split: if_splits)
  moreover have "kpc s 0 \<noteq> KDone"
    using bench_inv_done [OF exact_inv_bench [OF assms(2)] BENCH_pos(2)] calculation(1) by auto
  ultimately show ?thesis
    using rank_add [OF BENCH_pos(2)] rank_pop [OF assms(1) BENCH_pos(2)] \<open>0 < len (bq s)\<close> by blast
qed

lemma bench_progress:
  assumes "lossless_queue push pop len q0" and "exact_inv len s" and "\<not> bench_finished s"
  shows "\<exists>s'. (bench_step push pop)\<^sup>*\<^sup>* s s' \<and> bench_rank len s' < bench_rank len s"
proof (cases "\<forall>p<BENCH_THREADS. ppc s p = PDone")
  case False
  then obtain p where "p < BENCH_THREADS" "ppc s p \<noteq> PDone" by blast
  then show ?thesis using rank_fetch [OF assms(2)] rank_push [OF assms(1,2)] by (cases "ppc s p") auto
next
  case True
  then obtain k where k: "k < BENCH_THREADS" "kpc s k \<noteq> KDone" using assms(3) by (auto simp: bench_finished_def)
  have "threads_at (\<lambda>pc. pc = PDone) (ppc s) = BENCH_THREADS" "threads_at pushing (ppc s) = 0"
    using True by (auto intro: threads_at_all simp: threads_at_zero)
  then have total: "len (bq s) + threads_at (\<lambda>pc. pc = KAdd) (kpc s) + counted s = BENCH_TOTAL"
    using assms(2) BENCH_pos(2)
    by (auto simp: exact_inv_def counters_inv_def under_way_def drawn_def min_def split: if_splits)
  show ?thesis
  proof (cases "threads_at (\<lambda>pc. pc = KAdd) (kpc s) = 0")
    case True
    then have "kpc s k \<noteq> KAdd" using k(1) by (simp add: threads_at_zero)
    then show ?thesis
      using rank_exit [OF assms(1) k] rank_pop [OF assms(1) k] total True by (cases "len (bq s) = 0") auto
  next
    case False
    then obtain j where "j < BENCH_THREADS" "kpc s j = KAdd" by (auto simp: threads_at_zero)
    then show ?thesis by (rule rank_add)
  qed
qed

lemma lossless_progress_system:
  assumes "lossless_queue push pop len q0"
  shows "progress_system (bench_start q0) (bench_step push pop) (exact_inv len) bench_finished (bench_rank len)"
proof
  show "exact_inv len s" if "bench_start q0 s" for s
    using that counters_start [OF that] assms
    by (simp add: bench_start_def exact_inv_def under_way_def drawn_def threads_at_def lossless_queue_def)
qed (use exact_step [OF assms] bench_progress [OF assms] in blast)+

subsection \<open>One producer and one consumer\<close>

text \<open>The second part: the main thread pushes every item, then spins on the flag and joins; the counter
  belongs to the consumer.\<close>

datatype one_main = OPush nat | OSpin | OJoin | OEnd

datatype one_consumer = OLoop | OStore | OExit

record 'q mpmc_one =
  oq :: 'q
  cnt :: nat
  done_flag :: bool
  ompc :: one_main
  ocpc :: one_consumer

definition one_start :: "'q \<Rightarrow> 'q mpmc_one \<Rightarrow> bool" where
  "one_start q s \<longleftrightarrow> s = \<lparr>oq = q, cnt = 0, done_flag = False, ompc = OPush 0, ocpc = OLoop\<rparr>"

inductive one_step ::
  "(int \<Rightarrow> 'q \<Rightarrow> 'q option) \<Rightarrow> ('q \<Rightarrow> ('q \<times> int) option) \<Rightarrow> 'q mpmc_one \<Rightarrow> 'q mpmc_one \<Rightarrow> bool"
  for push pop where
  one_push: "ompc s = OPush i \<Longrightarrow> i < BENCH_TOTAL \<Longrightarrow> push (int i) (oq s) = Some q \<Longrightarrow>
    one_step push pop s (s\<lparr>oq := q, ompc := OPush (i + 1)\<rparr>)"
| one_pushed: "ompc s = OPush i \<Longrightarrow> \<not> i < BENCH_TOTAL \<Longrightarrow> one_step push pop s (s\<lparr>ompc := OSpin\<rparr>)"
| one_spin: "ompc s = OSpin \<Longrightarrow> one_step push pop s (if done_flag s then s\<lparr>ompc := OJoin\<rparr> else s)"
| one_join: "ompc s = OJoin \<Longrightarrow> ocpc s = OExit \<Longrightarrow> one_step push pop s (s\<lparr>ompc := OEnd\<rparr>)"
| one_pop: "ocpc s = OLoop \<Longrightarrow> cnt s < BENCH_TOTAL \<Longrightarrow> pop (oq s) = Some (q, v) \<Longrightarrow>
    one_step push pop s (s\<lparr>oq := q, cnt := cnt s + 1\<rparr>)"
| one_empty: "ocpc s = OLoop \<Longrightarrow> cnt s < BENCH_TOTAL \<Longrightarrow> pop (oq s) = None \<Longrightarrow> one_step push pop s s"
| one_counted: "ocpc s = OLoop \<Longrightarrow> \<not> cnt s < BENCH_TOTAL \<Longrightarrow> one_step push pop s (s\<lparr>ocpc := OStore\<rparr>)"
| one_store: "ocpc s = OStore \<Longrightarrow> one_step push pop s (s\<lparr>done_flag := True, ocpc := OExit\<rparr>)"

inductive_cases one_stepE: "one_step push pop s s'"

fun pushed_by :: "one_main \<Rightarrow> nat" where
  "pushed_by (OPush i) = i"
| "pushed_by _ = BENCH_TOTAL"

definition one_inv :: "('q \<Rightarrow> nat) \<Rightarrow> 'q mpmc_one \<Rightarrow> bool" where
  "one_inv len s \<longleftrightarrow> pushed_by (ompc s) = cnt s + len (oq s) \<and> pushed_by (ompc s) \<le> BENCH_TOTAL \<and>
     (ocpc s \<noteq> OLoop \<longrightarrow> cnt s = BENCH_TOTAL) \<and> (done_flag s \<longleftrightarrow> ocpc s = OExit) \<and>
     (ompc s = OJoin \<or> ompc s = OEnd \<longrightarrow> done_flag s)"

definition main_left :: "one_main \<Rightarrow> nat" where
  "main_left pc = (case pc of OPush i \<Rightarrow> 2 * (BENCH_TOTAL - i) + 3 | OSpin \<Rightarrow> 2 | OJoin \<Rightarrow> 1 | OEnd \<Rightarrow> 0)"

definition cons_left :: "one_consumer \<Rightarrow> nat" where
  "cons_left pc = (case pc of OLoop \<Rightarrow> 2 | OStore \<Rightarrow> 1 | OExit \<Rightarrow> 0)"

definition one_rank :: "('q \<Rightarrow> nat) \<Rightarrow> 'q mpmc_one \<Rightarrow> nat" where
  "one_rank len s = main_left (ompc s) + len (oq s) + cons_left (ocpc s)"

definition one_finished :: "'q mpmc_one \<Rightarrow> bool" where
  "one_finished s \<longleftrightarrow> ompc s = OEnd \<and> ocpc s = OExit"

lemma one_step_inv:
  assumes "lossless_queue push pop len q0" and "one_step push pop s s'" and "one_inv len s"
  shows "one_inv len s' \<and> one_rank len s' \<le> one_rank len s"
  using assms(2,3,1)
  by cases (auto simp: one_inv_def one_rank_def main_left_def cons_left_def lossless_queue_def)

lemma one_consume:
  assumes "lossless_queue push pop len q0" and "ocpc s = OLoop" and "0 < len (oq s) \<or> \<not> cnt s < BENCH_TOTAL"
  shows "\<exists>s'. one_step push pop s s' \<and> one_rank len s' < one_rank len s"
proof (cases "cnt s < BENCH_TOTAL")
  case True
  then obtain q v where q: "pop (oq s) = Some (q, v)" "len (oq s) = len q + 1"
    using lossless_pop [OF assms(1), of "oq s"] assms(3) by auto
  from one_pop [of s pop q v push] assms(2) True q show ?thesis
    by (intro exI [of _ "s\<lparr>oq := q, cnt := cnt s + 1\<rparr>"]) (simp add: one_rank_def)
next
  case False
  then show ?thesis
    by (intro exI [of _ "s\<lparr>ocpc := OStore\<rparr>"]) (simp add: one_counted assms(2) one_rank_def cons_left_def)
qed

lemma one_produce:
  assumes "lossless_queue push pop len q0" and "one_inv len s" and "ompc s = OPush i"
  shows "\<exists>s'. one_step push pop s s' \<and> one_rank len s' < one_rank len s"
proof (cases "i < BENCH_TOTAL")
  case i: True
  show ?thesis
  proof (cases "push (int i) (oq s)")
    case None
    then have "0 < len (oq s)" using assms(1) by (simp add: lossless_queue_def)
    moreover have "ocpc s = OLoop" using assms(2,3) i by (auto simp: one_inv_def)
    ultimately show ?thesis using one_consume [OF assms(1)] by blast
  next
    case (Some q)
    then have "len q = len (oq s) + 1" using assms(1) by (simp add: lossless_queue_def)
    then have "one_rank len (s\<lparr>oq := q, ompc := OPush (i + 1)\<rparr>) < one_rank len s"
      using i assms(3) by (simp add: one_rank_def main_left_def)
    then show ?thesis using one_push [of s i push q pop] assms(3) i Some by blast
  qed
next
  case False
  then show ?thesis
    by (intro exI [of _ "s\<lparr>ompc := OSpin\<rparr>"]) (simp add: one_pushed assms(3) one_rank_def main_left_def)
qed

lemma one_wait:
  assumes "lossless_queue push pop len q0" and "one_inv len s" and "ompc s = OSpin"
  shows "\<exists>s'. one_step push pop s s' \<and> one_rank len s' < one_rank len s"
proof (cases "ocpc s")
  case OLoop
  moreover have "0 < len (oq s) \<or> \<not> cnt s < BENCH_TOTAL" using assms(2,3) by (auto simp: one_inv_def)
  ultimately show ?thesis by (rule one_consume [OF assms(1)])
next
  case OStore
  then show ?thesis
    by (intro exI [of _ "s\<lparr>done_flag := True, ocpc := OExit\<rparr>"]) (simp add: one_store one_rank_def cons_left_def)
next
  case OExit
  then have "done_flag s" using assms(2) by (simp add: one_inv_def)
  with one_spin [OF assms(3), of push pop] show ?thesis
    by (intro exI [of _ "s\<lparr>ompc := OJoin\<rparr>"]) (simp add: assms(3) one_rank_def main_left_def)
qed

lemma one_progress:
  assumes "lossless_queue push pop len q0" and "one_inv len s" and "\<not> one_finished s"
  shows "\<exists>s'. one_step push pop s s' \<and> one_rank len s' < one_rank len s"
proof (cases "ompc s")
  case OJoin
  then have "ocpc s = OExit" using assms(2) by (auto simp: one_inv_def)
  then show ?thesis
    by (intro exI [of _ "s\<lparr>ompc := OEnd\<rparr>"]) (simp add: one_join OJoin one_rank_def main_left_def)
next
  case OEnd
  then show ?thesis using assms(2,3) by (auto simp: one_inv_def one_finished_def)
qed (rule one_produce [OF assms(1,2)] one_wait [OF assms(1,2)], assumption)+

lemma one_progress_system:
  assumes "lossless_queue push pop len q0"
  shows "progress_system (one_start q0) (one_step push pop) (one_inv len) one_finished (one_rank len)"
proof
  show "one_inv len s" if "one_start q0 s" for s
    using that assms by (simp add: one_start_def one_inv_def lossless_queue_def)
qed (use one_step_inv [OF assms] one_progress [OF assms] in blast)+

subsection \<open>The single-threaded tests and the program\<close>

text \<open>The conditions that the assertions of the two tests check, on a queue fresh from its constructor.\<close>

definition test_push_pop_basic :: "int mpmc \<Rightarrow> bool list" where
  "test_push_pop_basic q0 =
     (let q = mpmc_push 3 (mpmc_push 2 (mpmc_push 1 q0));
          (q1, v1) = mpmc_pop 0 q; (q2, v2) = mpmc_pop v1 q1; (q3, v3) = mpmc_pop v2 q2
      in [1 = v1, 2 = v2, 3 = v3])"

definition test_try_push_try_pop :: "int mpmc \<Rightarrow> bool list" where
  "test_try_push_try_pop q0 =
     (let (q1, b1) = mpmc_try_push 10 q0; (q2, b2) = mpmc_try_push 20 q1;
          (q3, b3) = mpmc_try_push 30 q2; (q4, b4) = mpmc_try_push 40 q3;
          (q5, v1, c1) = mpmc_try_pop 0 q4; (q6, v2, c2) = mpmc_try_pop v1 q5;
          (q7, v3, c3) = mpmc_try_pop v2 q6; (q8, v4, c4) = mpmc_try_pop v3 q7
      in [b1, b2, b3, \<not> b4, c1, 10 = v1, c2, 20 = v2, c3, 30 = v3, \<not> c4])"

text \<open>\<open>bench_false_sharing\<close>: the comparison of the two times in \<open>double\<close>, rounded by \<open>rnd\<close>; a quotient by
  zero is infinite or not a number, and only plus infinity is greater than the bound.\<close>

definition FS_ITERS :: "64 word" where "FS_ITERS = 50000000"

definition speedup_exceeds :: "(real \<Rightarrow> real) \<Rightarrow> int \<Rightarrow> int \<Rightarrow> real \<Rightarrow> bool" where
  "speedup_exceeds rnd bad_ns good_ns bound \<longleftrightarrow>
     (let bad_per = rnd (rnd (of_int bad_ns) / real (unat FS_ITERS));
          good_per = rnd (rnd (of_int good_ns) / real (unat FS_ITERS))
      in if good_per = 0 then bad_per > 0 else rnd (bad_per / good_per) > bound)"

definition bench_false_sharing :: "(real \<Rightarrow> real) \<Rightarrow> harness \<Rightarrow> harness" where
  "bench_false_sharing rnd =
     ASSERT_TRUE (speedup_exceeds rnd (benchmark_false_sharing FS_ITERS) (benchmark_no_false_sharing FS_ITERS) (3 / 2))
       (\<lambda>h. h)"

text \<open>\<open>main\<close> up to the multi-threaded test.\<close>

definition queue_main_prefix :: "int slot list \<Rightarrow> int slot list \<Rightarrow> harness \<Rightarrow> harness res" where
  "queue_main_prefix raw16 raw4 h =
     rbind (mpmc_new 16 raw16) (\<lambda>q16. rbind (mpmc_new 4 raw4) (\<lambda>q4.
       let h1 = TEST_BEGIN h;
           h2 = RUN_TEST ''test_push_pop_basic'' (test_body (test_push_pop_basic q16)) h1
       in Inr (RUN_TEST ''test_try_push_try_pop'' (test_body (test_try_push_try_pop q4)) h2)))"

lemma queue_tests_fail:
  "test_push_pop_basic q = [False, False, False]"
  "test_try_push_try_pop q = [False, False, False, True, False, False, False, False, False, False, True]"
  by (simp_all add: test_push_pop_basic_def test_try_push_try_pop_def mpmc_pop_def mpmc_try_push_def mpmc_try_pop_def)

lemma false_sharing_fails:
  "rnd 0 = 0 \<Longrightarrow> bench_false_sharing rnd h = h\<lparr>tests_failed := tests_failed h + 1\<rparr>"
  by (simp add: bench_false_sharing_def speedup_exceeds_def ASSERT_TRUE_def benchmark_false_sharing_def Let_def)

subsection \<open>A bounded queue\<close>

definition bounded_push :: "nat \<Rightarrow> int \<Rightarrow> int list \<Rightarrow> int list option" where
  "bounded_push cap v q = (if length q < cap then Some (q @ [v]) else None)"

lemma fifo_pop_split: "fifo_pop q = Some (q', v) \<longleftrightarrow> q = v # q'"
  by (cases q) auto

lemma bounded_lossless: "0 < cap \<Longrightarrow> lossless_queue (bounded_push cap) fifo_pop length []"
  by (auto simp: lossless_queue_def bounded_push_def fifo_pop_split elim: fifo_pop.elims split: if_splits)

interpretation bounded: item_queue "bounded_push cap" fifo_pop mset "[]" for cap
proof
  show "add_mset v (mset q') \<subseteq># mset q" if "fifo_pop q = Some (q', v)" for q q' v
    using that by (simp add: fifo_pop_split)
qed (auto simp: bounded_push_def split: if_splits)

subsection \<open>Both parts complete, and neither does with the queue of the repository\<close>

lemma four_completes:
  assumes "lossless_queue push pop len q0" and "reach (bench_start q0) (bench_step push pop) s"
  shows "\<exists>s'. (bench_step push pop)\<^sup>*\<^sup>* s s' \<and> bench_finished s' \<and> counted s' = BENCH_TOTAL \<and> len (bq s') = 0"
proof -
  note sys = lossless_progress_system [OF assms(1)]
  obtain s' where s': "(bench_step push pop)\<^sup>*\<^sup>* s s'" "bench_finished s'"
    using progress_system.can_finish [OF sys assms(2)] by blast
  then have "exact_inv len s'"
    using invariant_system.run_inv [OF progress_system.axioms(1) [OF sys] assms(2)] by blast
  then show ?thesis using s' bench_inv_finished [OF exact_inv_bench] by blast
qed

lemma one_completes:
  assumes "lossless_queue push pop len q0" and "reach (one_start q0) (one_step push pop) s"
  shows "\<exists>s'. (one_step push pop)\<^sup>*\<^sup>* s s' \<and> one_finished s' \<and> cnt s' = BENCH_TOTAL \<and> len (oq s') = 0"
proof -
  note sys = one_progress_system [OF assms(1)]
  obtain s' where s': "(one_step push pop)\<^sup>*\<^sup>* s s'" "one_finished s'"
    using progress_system.can_finish [OF sys assms(2)] by blast
  then have "one_inv len s'"
    using invariant_system.run_inv [OF progress_system.axioms(1) [OF sys] assms(2)] by blast
  then show ?thesis using s' by (auto simp: one_inv_def one_finished_def)
qed

lemma bench_code_queue_hangs:
  assumes "reach (bench_start q) (bench_step mpmc_push_op mpmc_pop_op) s"
  shows "kpc s k \<noteq> KDone"
proof -
  have "counted s = 0 \<and> (\<forall>j. kpc s j \<noteq> KAdd \<and> kpc s j \<noteq> KDone)"
    using assms
  proof (induction rule: reach.induct)
    case (reach_step s s')
    from this(2,3) show ?case using BENCH_pos(1)
      by (cases rule: bench_step.cases) (auto simp: mpmc_pop_op_def mpmc_try_pop_def)
  qed (auto simp: bench_start_def)
  then show ?thesis by blast
qed

subsection \<open>Main results\<close>

text \<open>C11: for every queue that hands out at most what was put in and every interleaving of the four producers
  and four consumers of the benchmark: the count of consumed items never exceeds the total and the position
  counter never exceeds the total by more than the number of producers; a consumer leaves only when exactly
  the total was counted, and then the queue is empty and no producer is left with an item to push; when all
  threads are done, the position counter is the total plus one for each producer.\<close>

theorem mpmc_bench_outcome:
  assumes "item_queue push pop contents q0" and "reach (bench_start q0) (bench_step push pop) s"
  shows "counted s \<le> BENCH_TOTAL \<and> produced s \<le> BENCH_TOTAL + BENCH_THREADS \<and>
    (\<forall>k<BENCH_THREADS. kpc s k = KDone \<longrightarrow>
       counted s = BENCH_TOTAL \<and> contents (bq s) = {#} \<and> (\<forall>p<BENCH_THREADS. \<not> pushing (ppc s p))) \<and>
    (bench_finished s \<longrightarrow> produced s = BENCH_TOTAL + BENCH_THREADS)"
proof -
  note inv = item_queue.reach_bench_inv [OF assms]
  have "counted s = BENCH_TOTAL \<and> contents (bq s) = {#} \<and> (\<forall>p<BENCH_THREADS. \<not> pushing (ppc s p))"
    if "k < BENCH_THREADS" "kpc s k = KDone" for k
    using bench_inv_done [OF inv that] by (simp add: under_way_def threads_at_zero)
  then show ?thesis
    using bench_inv_counted [OF inv] bench_inv_produced [OF inv] bench_inv_finished [OF inv] by blast
qed

theorem mpmc_bench_outcome_witness:
  "\<exists>s. reach (bench_start []) (bench_step fifo_push fifo_pop) s \<and> produced s = 1 \<and> produced s \<le> BENCH_TOTAL + BENCH_THREADS"
proof -
  define s0 :: "int list mpmc_bench" where
    "s0 = \<lparr>bq = [], produced = 0, counted = 0, ppc = (\<lambda>_. PFetch), kpc = (\<lambda>_. KLoad)\<rparr>"
  have "reach (bench_start []) (bench_step fifo_push fifo_pop) s0"
    by (rule reach_start) (simp add: bench_start_def s0_def)
  from reach_step [OF this bench_fetch [of 0]]
  have "reach (bench_start []) (bench_step fifo_push fifo_pop) (s0\<lparr>produced := 1, ppc := (ppc s0)(0 := PPush 0)\<rparr>)"
    (is "reach _ _ ?s1") using BENCH_pos by (simp add: s0_def)
  from mpmc_bench_outcome [OF fifo.item_queue_axioms this] this show ?thesis
    by (intro exI [of _ ?s1]) simp
qed

text \<open>C12: with a queue that loses nothing, whose \<open>try_pop\<close> fails on an empty queue only and whose \<open>push\<close> waits on a
  non-empty queue only, both parts of the throughput benchmark can always be brought to their end, from
  every state that any interleaving reaches: no thread is ever stuck, and at the end every item was counted.\<close>

theorem mpmc_bench_completes:
  assumes "lossless_queue push pop len q0"
  shows "(\<forall>s. reach (bench_start q0) (bench_step push pop) s \<longrightarrow>
      (\<exists>s'. (bench_step push pop)\<^sup>*\<^sup>* s s' \<and> bench_finished s' \<and> counted s' = BENCH_TOTAL \<and> len (bq s') = 0)) \<and>
    (\<forall>s. reach (one_start q0) (one_step push pop) s \<longrightarrow>
      (\<exists>s'. (one_step push pop)\<^sup>*\<^sup>* s s' \<and> one_finished s' \<and> cnt s' = BENCH_TOTAL \<and> len (oq s') = 0))"
  using four_completes [OF assms] one_completes [OF assms] by blast

theorem mpmc_bench_completes_witness:
  "\<exists>s'. (bench_step (bounded_push 16383) fifo_pop)\<^sup>*\<^sup>*
      \<lparr>bq = [], produced = 0, counted = 0, ppc = (\<lambda>_. PFetch), kpc = (\<lambda>_. KLoad)\<rparr> s' \<and>
    bench_finished s' \<and> counted s' = BENCH_TOTAL"
proof -
  have "reach (bench_start []) (bench_step (bounded_push 16383) fifo_pop)
      \<lparr>bq = [], produced = 0, counted = 0, ppc = (\<lambda>_. PFetch), kpc = (\<lambda>_. KLoad)\<rparr>"
    by (rule reach_start) (simp add: bench_start_def)
  with mpmc_bench_completes [OF bounded_lossless [of 16383], simplified, THEN conjunct1] show ?thesis by blast
qed

text \<open>The test program on the queue of the repository: both single-threaded tests fail, and whatever the
  threads of the third test do, none of its consumers ever leaves, so \<open>main\<close> does not get to the benchmark;
  nor would the consumers of the benchmark ever leave.\<close>

theorem queue_program_outcome:
  assumes "length raw16 = 16" and "length raw4 = 4"
  shows "(\<exists>h'. queue_main_prefix raw16 raw4 h = Inr h' \<and> tests_run h' = 2 \<and> tests_passed h' = 0 \<and> tests_failed h' = 2) \<and>
    (\<forall>q s k. reach (mpmc_start q) (mpmc_step mpmc_push_op mpmc_pop_op) s \<longrightarrow> k < N_CONSUMERS \<longrightarrow> \<not> leaving (cpc s k)) \<and>
    (\<forall>q s k. reach (bench_start q) (bench_step mpmc_push_op mpmc_pop_op) s \<longrightarrow> k < BENCH_THREADS \<longrightarrow> kpc s k \<noteq> KDone)"
proof -
  obtain q16 q4 where "mpmc_new 16 raw16 = Inr q16" "mpmc_new 4 raw4 = Inr q4"
    using mpmc_new_slots assms by metis
  then have "\<exists>h'. queue_main_prefix raw16 raw4 h = Inr h' \<and> tests_run h' = 2 \<and> tests_passed h' = 0 \<and> tests_failed h' = 2"
    by (simp add: queue_main_prefix_def queue_tests_fail Let_def RUN_TEST_def ASSERT_TRUE_def TEST_BEGIN_def)
  then show ?thesis using mpmc_code_queue_hangs bench_code_queue_hangs by blast
qed

theorem queue_program_outcome_witness:
  "\<exists>h'. queue_main_prefix (replicate 16 \<lparr>seq = 0, payload = 0\<rparr>) (replicate 4 \<lparr>seq = 0, payload = 0\<rparr>)
      \<lparr>tests_run = 0, tests_passed = 0, tests_failed = 0, current_test = []\<rparr> = Inr h' \<and> tests_failed h' = 2"
  using queue_program_outcome [of "replicate 16 \<lparr>seq = 0, payload = 0\<rparr>" "replicate 4 \<lparr>seq = 0, payload = 0\<rparr>"
    "\<lparr>tests_run = 0, tests_passed = 0, tests_failed = 0, current_test = []\<rparr>"] by auto

end
