(* ===== verification/Seqlock_Threads.thy ===== *)
theory Seqlock_Threads
  imports Interleaving Lockfree_Queues Test_Harness
begin

section \<open>The multi-threaded test of the sequence lock\<close>

text \<open>
  The program of \<open>05-concurrency/exercises/ex1-seqlock/test_seqlock.cpp\<close>: the single-threaded tests, and
  \<open>test_concurrent_no_torn_reads\<close> as an interleaving of its threads. Four readers check what they read, a
  writer stores triples of equal numbers, and \<open>main\<close> sleeps, sets the flag \<open>stop\<close> and joins. One step is one
  operation on the lock or on an atomic variable, one join, or the last assertion; an access to the lock is
  one step, as its documentation promises. The lock is a parameter; the contract \<open>triple_lock\<close> is that a
  reader gets a triple that was stored whole. \<open>++n\<close> of the writer overflows when \<open>n\<close> is the largest \<open>int\<close>.
\<close>

record triple =
  ta :: int
  tb :: int
  tc :: int

definition same3 :: "int \<Rightarrow> triple" where
  "same3 n = \<lparr>ta = n, tb = n, tc = n\<rparr>"

definition equal3 :: "triple \<Rightarrow> bool" where
  "equal3 v \<longleftrightarrow> ta v = tb v \<and> tb v = tc v"

lemma equal3_same3 [simp]: "equal3 (same3 n)"
  by (simp add: equal3_def same3_def)

datatype reader_pc = RLoad | RRead | RCheck triple | RAdd | RDone

datatype writer_pc = WLoad | WWrite | WDone | WFault

datatype seq_main_pc = QSleep | QJoinWriter | QJoinReader nat | QAssert | QReturn

record 'l seq_test =
  sl :: 'l
  stop :: bool
  reads_ok :: nat
  rpc :: "nat \<Rightarrow> reader_pc"
  wpc :: writer_pc
  wn :: int
  qpc :: seq_main_pc
  failures :: nat

definition SEQ_READERS :: nat where "SEQ_READERS = 4"

text \<open>After \<open>sl.write({0, 0, 0})\<close>; the threads run, and no assertion has failed.\<close>

definition seq_start :: "(triple \<Rightarrow> 'l \<Rightarrow> 'l) \<Rightarrow> 'l \<Rightarrow> 'l seq_test \<Rightarrow> bool" where
  "seq_start wr l s \<longleftrightarrow> s = \<lparr>sl = wr (same3 0) l, stop = False, reads_ok = 0, rpc = (\<lambda>_. RLoad), wpc = WLoad, wn = 0,
     qpc = QSleep, failures = 0\<rparr>"

inductive seq_step :: "(triple \<Rightarrow> 'l \<Rightarrow> 'l) \<Rightarrow> ('l \<Rightarrow> triple) \<Rightarrow> 'l seq_test \<Rightarrow> 'l seq_test \<Rightarrow> bool" for wr rd where
  reader_load: "i < SEQ_READERS \<Longrightarrow> rpc s i = RLoad \<Longrightarrow>
    seq_step wr rd s (s\<lparr>rpc := (rpc s)(i := (if stop s then RDone else RRead))\<rparr>)"
| reader_read: "i < SEQ_READERS \<Longrightarrow> rpc s i = RRead \<Longrightarrow>
    seq_step wr rd s (s\<lparr>rpc := (rpc s)(i := RCheck (rd (sl s)))\<rparr>)"
| reader_check: "i < SEQ_READERS \<Longrightarrow> rpc s i = RCheck v \<Longrightarrow>
    seq_step wr rd s (if equal3 v then s\<lparr>rpc := (rpc s)(i := RAdd)\<rparr>
      else s\<lparr>rpc := (rpc s)(i := RDone), failures := failures s + 1\<rparr>)"
| reader_add: "i < SEQ_READERS \<Longrightarrow> rpc s i = RAdd \<Longrightarrow>
    seq_step wr rd s (s\<lparr>rpc := (rpc s)(i := RLoad), reads_ok := reads_ok s + 1\<rparr>)"
| writer_load: "wpc s = WLoad \<Longrightarrow> seq_step wr rd s (s\<lparr>wpc := (if stop s then WDone else WWrite)\<rparr>)"
| writer_write: "wpc s = WWrite \<Longrightarrow> in_int (wn s + 1) \<Longrightarrow>
    seq_step wr rd s (s\<lparr>wpc := WLoad, sl := wr (same3 (wn s)) (sl s), wn := wn s + 1\<rparr>)"
| writer_overflow: "wpc s = WWrite \<Longrightarrow> \<not> in_int (wn s + 1) \<Longrightarrow>
    seq_step wr rd s (s\<lparr>wpc := WFault, sl := wr (same3 (wn s)) (sl s)\<rparr>)"
| main_store: "qpc s = QSleep \<Longrightarrow> seq_step wr rd s (s\<lparr>qpc := QJoinWriter, stop := True\<rparr>)"
| main_join_writer: "qpc s = QJoinWriter \<Longrightarrow> wpc s = WDone \<Longrightarrow> seq_step wr rd s (s\<lparr>qpc := QJoinReader 0\<rparr>)"
| main_join_reader: "qpc s = QJoinReader i \<Longrightarrow> i < SEQ_READERS \<Longrightarrow> rpc s i = RDone \<Longrightarrow>
    seq_step wr rd s (s\<lparr>qpc := QJoinReader (Suc i)\<rparr>)"
| main_joined: "qpc s = QJoinReader i \<Longrightarrow> \<not> i < SEQ_READERS \<Longrightarrow> seq_step wr rd s (s\<lparr>qpc := QAssert\<rparr>)"
| main_assert: "qpc s = QAssert \<Longrightarrow>
    seq_step wr rd s (s\<lparr>qpc := QReturn, failures := (if reads_ok s > 0 then failures s else failures s + 1)\<rparr>)"

inductive_cases seq_stepE: "seq_step wr rd s s'"

subsection \<open>Consistency\<close>

definition seq_inv :: "('l \<Rightarrow> bool) \<Rightarrow> 'l seq_test \<Rightarrow> bool" where
  "seq_inv whole s \<longleftrightarrow> whole (sl s) \<and> (\<forall>i v. rpc s i = RCheck v \<longrightarrow> equal3 v) \<and>
     0 \<le> wn s \<and> in_int (wn s) \<and> (wpc s = WFault \<longrightarrow> \<not> in_int (wn s + 1)) \<and>
     (stop s \<longleftrightarrow> qpc s \<noteq> QSleep) \<and>
     (case qpc s of QJoinReader i \<Rightarrow> wpc s = WDone \<and> i \<le> SEQ_READERS \<and> (\<forall>j<i. rpc s j = RDone)
      | QAssert \<Rightarrow> wpc s = WDone \<and> (\<forall>j<SEQ_READERS. rpc s j = RDone)
      | QReturn \<Rightarrow> wpc s = WDone \<and> (\<forall>j<SEQ_READERS. rpc s j = RDone)
      | _ \<Rightarrow> True) \<and>
     failures s = (if qpc s = QReturn \<and> reads_ok s = 0 then 1 else 0)"

locale triple_lock =
  fixes wr :: "triple \<Rightarrow> 'l \<Rightarrow> 'l" and rd :: "'l \<Rightarrow> triple" and whole :: "'l \<Rightarrow> bool" and l0 :: 'l
  assumes new_whole: "whole (wr (same3 0) l0)"
    and write_whole: "whole l \<Longrightarrow> whole (wr (same3 n) l)"
    and read_whole: "whole l \<Longrightarrow> equal3 (rd l)"
begin

lemma seq_inv_step: "seq_step wr rd s s' \<Longrightarrow> seq_inv whole s \<Longrightarrow> seq_inv whole s'"
proof (induction rule: seq_step.induct)
  case (reader_read i s)
  then show ?case using read_whole by (auto simp: seq_inv_def split: seq_main_pc.splits)
next
  case (writer_write s)
  then show ?case using write_whole by (auto simp: seq_inv_def split: seq_main_pc.splits)
next
  case (writer_overflow s)
  then show ?case using write_whole by (auto simp: seq_inv_def split: seq_main_pc.splits)
next
  case (main_join_reader s i)
  then show ?case by (auto simp: seq_inv_def less_Suc_eq)
qed (auto simp: seq_inv_def split: seq_main_pc.splits)

end

sublocale triple_lock \<subseteq> seq_system: invariant_system "seq_start wr l0" "seq_step wr rd" "seq_inv whole"
proof
  show "seq_inv whole s" if "seq_start wr l0 s" for s
    using that new_whole by (auto simp: seq_start_def seq_inv_def in_int_def)
qed (rule seq_inv_step)

context triple_lock
begin

lemma reach_seq_inv: "reach (seq_start wr l0) (seq_step wr rd) s \<Longrightarrow> seq_inv whole s"
  by (rule seq_system.reach_inv)

end

subsection \<open>Termination\<close>

text \<open>The steps left to a thread once the flag is set, and those of \<open>main\<close>.\<close>

definition reader_left :: "reader_pc \<Rightarrow> nat" where
  "reader_left pc = (case pc of RLoad \<Rightarrow> 1 | RAdd \<Rightarrow> 2 | RCheck v \<Rightarrow> 3 | RRead \<Rightarrow> 4 | RDone \<Rightarrow> 0)"

definition writer_left :: "writer_pc \<Rightarrow> nat" where
  "writer_left pc = (case pc of WLoad \<Rightarrow> 1 | WWrite \<Rightarrow> 2 | _ \<Rightarrow> 0)"

definition main_steps :: "seq_main_pc \<Rightarrow> nat" where
  "main_steps pc = (case pc of QSleep \<Rightarrow> SEQ_READERS + 4 | QJoinWriter \<Rightarrow> SEQ_READERS + 3
     | QJoinReader i \<Rightarrow> SEQ_READERS - i + 2 | QAssert \<Rightarrow> 1 | QReturn \<Rightarrow> 0)"

definition seq_left :: "'l seq_test \<Rightarrow> nat" where
  "seq_left s = (\<Sum>i<SEQ_READERS. reader_left (rpc s i)) + writer_left (wpc s) + main_steps (qpc s)"

lemma seq_left_reader:
  "i < SEQ_READERS \<Longrightarrow> (\<Sum>j<SEQ_READERS. reader_left (((rpc s)(i := pc)) j)) + reader_left (rpc s i) =
    (\<Sum>j<SEQ_READERS. reader_left (rpc s j)) + reader_left pc"
  using sum_fun_upd [of "{..<SEQ_READERS}" i reader_left "rpc s" pc] by simp

lemma seq_left_bound: "qpc s \<noteq> QSleep \<Longrightarrow> seq_left s \<le> 5 * SEQ_READERS + 5"
proof -
  assume "qpc s \<noteq> QSleep"
  then have "main_steps (qpc s) \<le> SEQ_READERS + 3" by (auto simp: main_steps_def split: seq_main_pc.splits)
  moreover have "writer_left (wpc s) \<le> 2" by (simp add: writer_left_def split: writer_pc.splits)
  moreover have "(\<Sum>i<SEQ_READERS. reader_left (rpc s i)) \<le> (\<Sum>i<SEQ_READERS. 4)"
    by (rule sum_mono) (simp add: reader_left_def split: reader_pc.splits)
  ultimately show ?thesis by (simp add: seq_left_def)
qed

text \<open>After the flag is set, every step uses one up.\<close>

lemma seq_left_step: "seq_step wr rd s s' \<Longrightarrow> stop s \<Longrightarrow> qpc s \<noteq> QSleep \<Longrightarrow> stop s' \<and> qpc s' \<noteq> QSleep \<and> seq_left s' < seq_left s"
proof (induction rule: seq_step.induct)
  case (reader_load i s)
  then show ?case using seq_left_reader [of i s RDone] by (simp add: seq_left_def reader_left_def)
next
  case (reader_read i s)
  then show ?case using seq_left_reader [of i s "RCheck (rd (sl s))"] by (simp add: seq_left_def reader_left_def)
next
  case (reader_check i s v)
  then show ?case using seq_left_reader [of i s RAdd] seq_left_reader [of i s RDone]
    by (simp add: seq_left_def reader_left_def)
next
  case (reader_add i s)
  then show ?case using seq_left_reader [of i s RLoad] by (simp add: seq_left_def reader_left_def)
qed (auto simp: seq_left_def writer_left_def main_steps_def)

text \<open>Nothing is stuck unless the writer has overflowed.\<close>

lemma seq_enabled:
  assumes "seq_inv whole s" and "qpc s \<noteq> QReturn" and "wpc s \<noteq> WFault"
  shows "\<exists>s'. seq_step wr rd s s'"
proof -
  have reader: ?thesis if "i < SEQ_READERS" "rpc s i \<noteq> RDone" for i
    using that reader_load reader_read reader_check reader_add by (cases "rpc s i") blast+
  have writer: ?thesis if "wpc s \<noteq> WDone"
    using that assms(3) writer_load writer_write writer_overflow by (cases "wpc s") blast+
  show ?thesis
  proof (cases "qpc s")
    case QJoinWriter
    then show ?thesis using writer main_join_writer by blast
  next
    case (QJoinReader i)
    then show ?thesis using reader main_join_reader main_joined by blast
  qed (use main_store main_assert assms(2) in blast)+
qed

lemma seq_runs_bounded: "(seq_step wr rd ^^ n) s s' \<Longrightarrow> stop s \<Longrightarrow> qpc s \<noteq> QSleep \<Longrightarrow>
    stop s' \<and> qpc s' \<noteq> QSleep \<and> n + seq_left s' \<le> seq_left s"
proof (induction n arbitrary: s')
  case (Suc n)
  then obtain t where t: "(seq_step wr rd ^^ n) s t" "seq_step wr rd t s'" by auto
  with Suc have "stop t \<and> qpc t \<noteq> QSleep \<and> n + seq_left t \<le> seq_left s" by blast
  with seq_left_step [OF t(2)] show ?case by force
qed simp

text \<open>The schedule in which \<open>main\<close> sets the flag first: nobody reads, so the last assertion fails.\<close>

definition nobody_read :: "'l seq_test \<Rightarrow> bool" where
  "nobody_read s \<longleftrightarrow> stop s \<and> qpc s \<noteq> QSleep \<and> reads_ok s = 0 \<and> (wpc s = WLoad \<or> wpc s = WDone) \<and>
     (\<forall>i. rpc s i = RLoad \<or> rpc s i = RDone)"

lemma nobody_read_step: "seq_step wr rd s s' \<Longrightarrow> nobody_read s \<Longrightarrow> nobody_read s'"
  by (erule seq_stepE) (auto simp: nobody_read_def split: if_splits, (metis reader_pc.distinct)+)

lemma nobody_read_returns:
  assumes "triple_lock wr rd whole l0"
  shows "reach (seq_start wr l0) (seq_step wr rd) s \<Longrightarrow> nobody_read s \<Longrightarrow>
    \<exists>s'. reach (seq_start wr l0) (seq_step wr rd) s' \<and> nobody_read s' \<and> qpc s' = QReturn"
proof (induction "seq_left s" arbitrary: s rule: less_induct)
  case less
  show ?case
  proof (cases "qpc s = QReturn")
    case False
    moreover have "wpc s \<noteq> WFault" using less.prems(2) by (auto simp: nobody_read_def)
    ultimately obtain t where t: "seq_step wr rd s t"
      using seq_enabled [OF triple_lock.reach_seq_inv [OF assms less.prems(1)]] by blast
    moreover have "seq_left t < seq_left s" using seq_left_step [OF t] less.prems(2) by (simp add: nobody_read_def)
    ultimately show ?thesis
      using less.hyps reach_step [OF less.prems(1) t] nobody_read_step [OF t less.prems(2)] by blast
  qed (use less.prems in blast)
qed

lemma seq_test_can_fail:
  assumes "triple_lock wr rd whole l0"
  shows "\<exists>s. reach (seq_start wr l0) (seq_step wr rd) s \<and> qpc s = QReturn \<and> failures s = 1"
proof -
  define s0 where "s0 = \<lparr>sl = wr (same3 0) l0, stop = False, reads_ok = 0, rpc = (\<lambda>_. RLoad), wpc = WLoad, wn = 0,
     qpc = QSleep, failures = 0\<rparr>"
  have "reach (seq_start wr l0) (seq_step wr rd) s0" by (rule reach_start) (simp add: seq_start_def s0_def)
  from reach_step [OF this main_store] have r: "reach (seq_start wr l0) (seq_step wr rd) (s0\<lparr>qpc := QJoinWriter, stop := True\<rparr>)"
    by (simp add: s0_def)
  then obtain s where s: "reach (seq_start wr l0) (seq_step wr rd) s" "nobody_read s" "qpc s = QReturn"
    using nobody_read_returns [OF assms r] by (auto simp: nobody_read_def s0_def)
  then have "failures s = 1"
    using triple_lock.reach_seq_inv [OF assms s(1)] by (simp add: seq_inv_def nobody_read_def)
  with s show ?thesis by blast
qed

subsection \<open>The lock of the repository and an atomic variable\<close>

interpretation code_lock: triple_lock seqlock_write seqlock_read "\<lambda>l. equal3 (sdata l)" "seqlock_new (same3 0)"
  by unfold_locales (simp_all add: seqlock_write_def seqlock_read_def seqlock_new_def)

interpretation register: triple_lock "\<lambda>v l. v" "\<lambda>l. l" equal3 v for v
  by unfold_locales simp_all

subsection \<open>The single-threaded tests\<close>

definition test_single_write_read :: "bool list" where
  "test_single_write_read = [42 = seqlock_read (seqlock_write (42 :: int) (seqlock_new 0))]"

definition test_multiple_writes :: "bool list" where
  "test_multiple_writes = [99 = seqlock_read (fold seqlock_write [0..99 :: int] (seqlock_new 0))]"

definition test_struct_write_read :: "bool list" where
  "test_struct_write_read =
     (let v = seqlock_read (seqlock_write \<lparr>ta = 10, tb = 20, tc = 30\<rparr> (seqlock_new (same3 0)))
      in [10 = ta v, 20 = tb v, 30 = tc v])"

definition test_seq_even_after_write :: "bool list" where
  "test_seq_even_after_write = [(0 :: int) = uint (seqlock_seq (seqlock_write (1 :: int) (seqlock_new 0)) mod 2)]"

definition seqlock_tests :: "(string \<times> bool list) list" where
  "seqlock_tests = [(''test_single_write_read'', test_single_write_read), (''test_multiple_writes'', test_multiple_writes),
     (''test_struct_write_read'', test_struct_write_read), (''test_seq_even_after_write'', test_seq_even_after_write)]"

lemma fold_seqlock_write: "fold seqlock_write vs l = l"
  by (induction vs) (simp_all add: seqlock_write_def)

text \<open>With the placeholders of the repository three of the four fail, so the program exits with 1.\<close>

lemma seqlock_tests_outcome:
  "tests_failed (run_tests seqlock_tests (TEST_BEGIN h)) = 3 \<and> tests_passed (run_tests seqlock_tests (TEST_BEGIN h)) = 1"
proof -
  have outcomes: "test_single_write_read = [False]" "test_multiple_writes = [False]" "test_struct_write_read = [False, False, False]"
    "test_seq_even_after_write = [True]"
    by (simp_all add: test_single_write_read_def test_multiple_writes_def test_struct_write_read_def
        test_seq_even_after_write_def fold_seqlock_write seqlock_write_def seqlock_read_def seqlock_new_def seqlock_seq_def same3_def)
  show ?thesis by (simp add: seqlock_tests_def outcomes RUN_TEST_def ASSERT_TRUE_def TEST_BEGIN_def)
qed

subsection \<open>Main results\<close>

text \<open>C13: for every lock whose readers get triples that were stored whole and every interleaving of the readers,
  the writer and \<open>main\<close>: every triple that a reader checks has equal components and no reader's assertion
  fails; the test fails at most once, at its end, and exactly when no reader has counted a read; until it
  returns some thread can move, unless the writer's counter has overflowed; and after the flag is set every
  execution ends, within five steps for each reader and five more.\<close>

theorem seqlock_test_outcome:
  assumes "triple_lock wr rd whole l0" and "reach (seq_start wr l0) (seq_step wr rd) s"
  shows "(\<forall>i v. rpc s i = RCheck v \<longrightarrow> equal3 v) \<and>
    failures s = (if qpc s = QReturn \<and> reads_ok s = 0 then 1 else 0) \<and>
    (wpc s = WFault \<longrightarrow> \<not> in_int (wn s + 1)) \<and>
    (qpc s \<noteq> QReturn \<longrightarrow> wpc s \<noteq> WFault \<longrightarrow> (\<exists>s'. seq_step wr rd s s')) \<and>
    (stop s \<longrightarrow> (\<forall>n s'. (seq_step wr rd ^^ n) s s' \<longrightarrow> n \<le> 5 * SEQ_READERS + 5))"
proof -
  note inv = triple_lock.reach_seq_inv [OF assms]
  have "n \<le> 5 * SEQ_READERS + 5" if "stop s" "(seq_step wr rd ^^ n) s s'" for n s'
  proof -
    have "qpc s \<noteq> QSleep" using inv that(1) by (simp add: seq_inv_def)
    then show ?thesis using seq_runs_bounded [OF that(2,1)] seq_left_bound [of s] by linarith
  qed
  then show ?thesis using inv seq_enabled [OF inv] unfolding seq_inv_def by blast
qed

theorem seqlock_test_outcome_witness:
  "\<exists>s. reach (seq_start seqlock_write (seqlock_new (same3 0))) (seq_step seqlock_write seqlock_read) s \<and> stop s \<and>
     (\<forall>n s'. (seq_step seqlock_write seqlock_read ^^ n) s s' \<longrightarrow> n \<le> 25)"
proof -
  obtain s where s: "reach (seq_start seqlock_write (seqlock_new (same3 0))) (seq_step seqlock_write seqlock_read) s"
      "qpc s = QReturn"
    using seq_test_can_fail [OF code_lock.triple_lock_axioms] by blast
  moreover have "stop s" using triple_lock.reach_seq_inv [OF code_lock.triple_lock_axioms s(1)] s(2) by (simp add: seq_inv_def)
  ultimately show ?thesis
    using seqlock_test_outcome [OF code_lock.triple_lock_axioms s(1)] by (auto simp: SEQ_READERS_def)
qed

end
