(* ===== verification/Test_Scripts.thy ===== *)
theory Test_Scripts
  imports Conformance Linked_List Int_Vec Entity C_Strings
begin

section \<open>Test programs with state\<close>

text \<open>
  The test programs \<open>test_structs.c\<close> and \<open>test_strings.c\<close> of \<open>00-c-for-programmers/exercises\<close>. A test function
  is a list of statements on its local variables and the heap: a call, or an assertion on the result of a
  call, which may change the state too. A statement may fault and, for the linked list, might not return.
  Statements carry their line; the harness is the model of \<open>tools/common.h\<close>. The tests of the list and the
  vector are passed on to the abstract list by the representation lemmas of those components, for any
  contents of fresh memory; the others are evaluated.
\<close>

datatype 's stmt =
    Do "'s \<Rightarrow> 's res option"
  | Check nat "'s \<Rightarrow> ('s \<times> c_assertion) res option"

text \<open>A failed assertion counts and returns from the test function.\<close>

fun script_fn :: "(nat \<Rightarrow> string) \<Rightarrow> string \<Rightarrow> 's stmt list \<Rightarrow> 's \<Rightarrow> c_harness \<Rightarrow> c_harness res option" where
  "script_fn sp file [] s h = Some (Inr h)"
| "script_fn sp file (Do f # ss) s h = pbind (f s) (\<lambda>s'. script_fn sp file ss s' h)"
| "script_fn sp file (Check line f # ss) s h =
     pbind (f s) (\<lambda>(s', a).
     pbind (Some (c_assert sp (file, line) a Inr h)) (\<lambda>h'.
     if ch_failed h' = ch_failed h then script_fn sp file ss s' h' else Some (Inr h')))"

type_synonym script_test = "string \<times> (c_harness \<Rightarrow> c_harness res option)"

definition script_RUN_TEST :: "script_test \<Rightarrow> c_harness \<Rightarrow> c_harness res option" where
  "script_RUN_TEST t h =
     (case snd t (h\<lparr>ch_current := Some (fst t), ch_run := ch_run h + 1\<rparr>) of
        None \<Rightarrow> None
      | Some r \<Rightarrow> Some (c_RUN_TEST (fst t) (\<lambda>_. r) h))"

fun script_tests :: "script_test list \<Rightarrow> c_harness \<Rightarrow> c_harness res option" where
  "script_tests [] h = Some (Inr h)"
| "script_tests (t # ts) h = pbind (script_RUN_TEST t h) (script_tests ts)"

text \<open>\<open>main\<close>: the heading, the tests, the summary.\<close>

definition script_main :: "string \<Rightarrow> script_test list \<Rightarrow> c_harness \<Rightarrow> (c_harness \<times> int) res option" where
  "script_main heading ts h =
     pbind (script_tests ts (c_TEST_BEGIN (cprintf heading h))) (\<lambda>h1. Some (Inr (c_TEST_END h1)))"

fun script_passes :: "'s stmt list \<Rightarrow> 's \<Rightarrow> bool" where
  "script_passes [] s \<longleftrightarrow> True"
| "script_passes (Do f # ss) s \<longleftrightarrow> (case f s of Some (Inr s') \<Rightarrow> script_passes ss s' | _ \<Rightarrow> False)"
| "script_passes (Check line f # ss) s \<longleftrightarrow>
     (case f s of Some (Inr (s', a)) \<Rightarrow> defined a \<and> holds a \<and> script_passes ss s' | _ \<Rightarrow> False)"

lemma script_fn_passes: "script_passes ss s \<Longrightarrow> script_fn sp file ss s h = Some (Inr h)"
  by (induction ss s rule: script_passes.induct) (auto simp: c_assert_spec split: option.splits sum.splits)

definition test_passes :: "script_test \<Rightarrow> bool" where
  "test_passes t \<longleftrightarrow> (\<forall>h. snd t h = Some (Inr h))"

lemma script_RUN_TEST_passes: "test_passes t \<Longrightarrow> script_RUN_TEST t h = Some (Inr (passed_state (fst t) h))"
  by (simp add: script_RUN_TEST_def test_passes_def c_RUN_TEST_def passed_state_def pass_line_def cprintf_def Let_def)

lemma script_tests_passes:
  "list_all test_passes ts \<Longrightarrow> script_tests ts h = Some (Inr (fold passed_state (map fst ts) h))"
  by (induction ts arbitrary: h) (simp_all add: script_RUN_TEST_passes)

lemma script_main_passes:
  assumes "list_all test_passes ts"
  shows "\<exists>h'. script_main heading ts h = Some (Inr (h', 0)) \<and> ch_passed h' = int (length ts) \<and> ch_failed h' = 0 \<and>
    ch_out h' = ch_out h @ [heading] @ map (pass_line \<circ> fst) ts @ [summary_line h']"
proof -
  have "summary_line (cprintf l k) = summary_line k" for l k by (simp add: summary_line_def cprintf_def)
  then show ?thesis
    using script_tests_passes [OF assms]
    by (simp add: script_main_def c_TEST_END_def c_TEST_BEGIN_def fold_passed_state)
      (simp add: cprintf_def fold_passed_state)
qed

subsection \<open>Statements on a linked list\<close>

datatype ll_stmt =
    LCall ll_op
  | LAssert nat int ll_op
  | LLength nat int
  | LFree
  | LHeadNull nat

fun ll_exec :: "(nat \<Rightarrow> ll_node) \<Rightarrow> ll_stmt \<Rightarrow> ll_state stmt" where
  "ll_exec f (LCall oper) = Do (\<lambda>s. pbind (ll_step (Some f) oper s) (\<lambda>(s', r). Some (Inr s')))"
| "ll_exec f (LAssert line e oper) = Check line (\<lambda>s. pbind (ll_step (Some f) oper s) (\<lambda>(s', r). Some (Inr (s', EQ e r))))"
| "ll_exec f (LLength line e) = Check line (\<lambda>s. Some (Inr (s, EQ e (uint (len (fst s))))))"
| "ll_exec f LFree = Do ll_free"
| "ll_exec f (LHeadNull line) = Check line (\<lambda>s. Some (Inr (s, IS_NULL (head (fst s)))))"

text \<open>The same statements on an abstract list.\<close>

fun list_passes :: "ll_stmt list \<Rightarrow> int list \<Rightarrow> bool" where
  "list_passes [] xs \<longleftrightarrow> True"
| "list_passes (LCall oper # ss) xs \<longleftrightarrow> (case list_step oper xs of None \<Rightarrow> False | Some (ys, r) \<Rightarrow> list_passes ss ys)"
| "list_passes (LAssert line e oper # ss) xs \<longleftrightarrow>
     (case list_step oper xs of None \<Rightarrow> False | Some (ys, r) \<Rightarrow> e = r \<and> list_passes ss ys)"
| "list_passes (LLength line e # ss) xs \<longleftrightarrow> e = int (length xs) \<and> list_passes ss xs"
| "list_passes (LFree # ss) xs \<longleftrightarrow> list_passes ss []"
| "list_passes (LHeadNull line # ss) xs \<longleftrightarrow> xs = [] \<and> list_passes ss xs"

lemma free_rep:
  assumes "ll_rep g s ns"
  shows "\<exists>s'. ll_free s = Some (Inr s') \<and> ll_rep g s' []"
proof -
  obtain l h where s: "s = (l, h)" by (cases s)
  then obtain h' where "ll_free_loop (head l) h = Some (Inr h')" "framed g h' {}"
    using free_loop_ok [of h "head l" ns g] assms by (auto simp: ll_rep_def)
  then show ?thesis by (auto simp: s ll_free_def ll_rep_def)
qed

lemma ll_rep_length: "ll_rep g s ns \<Longrightarrow> uint (len (fst s)) = int (length ns)"
  by (simp add: ll_rep_def uint_nat unsigned_of_nat take_bit_nat_eq_self)

lemma ll_script_passes:
  assumes "list_passes ss xs" and "ll_rep g s ns" and "map snd ns = xs" and "length xs + length ss < 2 ^ 64"
  shows "script_passes (map (ll_exec f) ss) s"
  using assms
proof (induction ss xs arbitrary: s ns rule: list_passes.induct)
  case (2 oper ss xs)
  then obtain ys r where r: "list_step oper (map snd ns) = Some (ys, r)" "list_passes ss ys" by (auto split: option.splits)
  have "Suc (length ns) < 2 ^ 64" using 2(4,5) by auto
  then obtain s' ns' where "ll_step (Some f) oper s = Some (Inr (s', r))" "ll_rep g s' ns'" "map snd ns' = ys" "length ns' \<le> Suc (length ns)"
    using ll_step_refines [OF 2(3) r(1), of "Some f"] by blast
  then show ?case using 2(1) [of "(ys, r)" ys r s' ns'] r 2(4,5) by auto
next
  case (3 line e oper ss xs)
  then obtain ys where r: "list_step oper (map snd ns) = Some (ys, e)" "list_passes ss ys" by (auto split: option.splits)
  have "Suc (length ns) < 2 ^ 64" using 3(4,5) by auto
  then obtain s' ns' where "ll_step (Some f) oper s = Some (Inr (s', e))" "ll_rep g s' ns'" "map snd ns' = ys" "length ns' \<le> Suc (length ns)"
    using ll_step_refines [OF 3(3) r(1), of "Some f"] by blast
  then show ?case using 3(1) [of "(ys, e)" ys e s' ns'] r 3(4,5) by auto
next
  case (4 line e ss xs)
  then show ?case using ll_rep_length [OF 4(3)] by auto
next
  case (5 ss xs)
  then obtain s' where "ll_free s = Some (Inr s')" "ll_rep g s' []" using free_rep by blast
  then show ?case using 5(1) [of s' "[]"] 5(2,5) by simp
next
  case (6 line ss xs)
  then have "head (fst s) = None" by (auto simp: ll_rep_def)
  then show ?case using 6(1) [of s ns] 6(2-5) by auto
qed simp

subsection \<open>\<open>test_structs.c\<close>: the list\<close>

definition test_ll_push_front :: "string \<times> ll_stmt list" where
  "test_ll_push_front = (''test_ll_push_front'',
     [LCall (PushFront 10), LLength 12 1, LAssert 13 10 (Get 0), LCall (PushFront 20), LLength 16 2,
      LAssert 17 20 (Get 0), LAssert 18 10 (Get 1), LCall (PushFront 30), LAssert 21 30 (Get 0),
      LAssert 22 20 (Get 1), LAssert 23 10 (Get 2), LFree])"

definition test_ll_push_back :: "string \<times> ll_stmt list" where
  "test_ll_push_back = (''test_ll_push_back'',
     [LCall (PushBack 10), LCall (PushBack 20), LCall (PushBack 30), LLength 35 3,
      LAssert 36 10 (Get 0), LAssert 37 20 (Get 1), LAssert 38 30 (Get 2), LFree])"

definition test_ll_pop_front :: "string \<times> ll_stmt list" where
  "test_ll_pop_front = (''test_ll_pop_front'',
     [LCall (PushFront 10), LCall (PushFront 20), LCall (PushFront 30), LAssert 51 30 PopFront,
      LLength 52 2, LAssert 53 20 PopFront, LLength 54 1, LAssert 55 10 PopFront, LLength 56 0,
      LFree])"

definition test_ll_contains :: "string \<times> ll_stmt list" where
  "test_ll_contains = (''test_ll_contains'',
     [LAssert 65 0 (Contains 5), LCall (PushBack 10), LCall (PushBack 20), LCall (PushBack 30),
      LAssert 71 1 (Contains 10), LAssert 72 1 (Contains 20), LAssert 73 1 (Contains 30),
      LAssert 74 0 (Contains 15), LAssert 75 0 (Contains 0), LFree])"

definition test_ll_remove :: "string \<times> ll_stmt list" where
  "test_ll_remove = (''test_ll_remove'',
     [LCall (PushBack 10), LCall (PushBack 20), LCall (PushBack 30), LCall (PushBack 40),
      LAssert 90 1 (Remove 20), LLength 91 3, LAssert 92 0 (Contains 20), LAssert 93 10 (Get 0),
      LAssert 94 30 (Get 1), LAssert 95 40 (Get 2), LAssert 98 1 (Remove 10), LLength 99 2,
      LAssert 100 30 (Get 0), LAssert 103 1 (Remove 40), LLength 104 1, LAssert 105 30 (Get 0),
      LAssert 108 0 (Remove 99), LLength 109 1, LAssert 112 1 (Remove 30), LLength 113 0, LFree])"

definition test_ll_free :: "string \<times> ll_stmt list" where
  "test_ll_free = (''test_ll_free'',
     map (\<lambda>i. LCall (PushBack (int i))) [0..<100] @
      [LLength 125 100, LFree,
      LLength 128 0, LHeadNull 129, LCall (PushFront 42), LLength 133 1, LAssert 134 42 (Get 0),
      LFree])"

text \<open>A list test starts with \<open>ll_init\<close> on the heap as it is.\<close>

definition ll_test :: "(nat \<Rightarrow> string) \<Rightarrow> (nat \<Rightarrow> ll_node) \<Rightarrow> ll_node heap \<Rightarrow> string \<times> ll_stmt list \<Rightarrow> script_test" where
  "ll_test sp f hp0 t = (fst t, script_fn sp ''test_structs.c'' (map (ll_exec f) (snd t)) (ll_init, hp0))"

lemma ll_test_passes:
  assumes "heap_ok hp0" and "list_passes (snd t) []" and "length (snd t) < 2 ^ 64"
  shows "test_passes (ll_test sp f hp0 t)"
proof -
  have "script_passes (map (ll_exec f) (snd t)) (ll_init, hp0)"
    using ll_script_passes [OF assms(2) init_ok [OF assms(1)]] assms(3) by simp
  then show ?thesis by (simp add: test_passes_def ll_test_def script_fn_passes)
qed

definition list_tests :: "(string \<times> ll_stmt list) list" where
  "list_tests = [test_ll_push_front, test_ll_push_back, test_ll_pop_front, test_ll_contains, test_ll_remove, test_ll_free]"

lemma list_tests_pass: "list_all (\<lambda>t. list_passes (snd t) []) list_tests"
  by code_simp

lemmas list_test_defs = list_tests_def test_ll_push_front_def test_ll_push_back_def test_ll_pop_front_def
  test_ll_contains_def test_ll_remove_def test_ll_free_def

lemma list_tests_short: "list_all (\<lambda>t. length (snd t) < 2 ^ 64) list_tests"
  by (simp add: list_test_defs)

subsection \<open>\<open>test_structs.c\<close>: the entities\<close>

text \<open>The variables of the entity tests: one entity or two, and the text buffer.\<close>

type_synonym entity_vars = "entity \<times> entity \<times> char heap"

definition eDo :: "(entity \<Rightarrow> entity res) \<Rightarrow> entity_vars stmt" where
  "eDo f = Do (\<lambda>(e, b, h). Some (rbind (f e) (\<lambda>e'. Inr (e', b, h))))"

definition eDoB :: "(entity \<Rightarrow> entity res) \<Rightarrow> entity_vars stmt" where
  "eDoB f = Do (\<lambda>(e, b, h). Some (rbind (f b) (\<lambda>b'. Inr (e, b', h))))"

definition eEQ :: "nat \<Rightarrow> int \<Rightarrow> (entity \<Rightarrow> int) \<Rightarrow> entity_vars stmt" where
  "eEQ line n field = Check line (\<lambda>(e, b, h). Some (Inr ((e, b, h), EQ n (field e))))"

definition eName :: "nat \<Rightarrow> string \<Rightarrow> entity_vars stmt" where
  "eName line t = Check line (\<lambda>(e, b, h). Some (Inr ((e, b, h), STR_EQ (Some t) (Some (entity_name e)))))"

definition eDistance :: "nat \<Rightarrow> int \<Rightarrow> (entity \<times> entity \<Rightarrow> int res) \<Rightarrow> entity_vars stmt" where
  "eDistance line n f = Check line (\<lambda>(e, b, h). Some (rbind (f (e, b)) (\<lambda>d. Inr ((e, b, h), EQ n d))))"

definition eStatus :: "entity_vars stmt" where
  "eStatus = Do (\<lambda>(e, b, h). Some (rbind (entity_status e (Some 0) h) (\<lambda>h'. Inr (e, b, h'))))"

definition eBuf :: "nat \<Rightarrow> string \<Rightarrow> entity_vars stmt" where
  "eBuf line t = Check line (\<lambda>(e, b, h). Some (rbind (c_string h) (\<lambda>u. Inr ((e, b, h), STR_EQ (Some t) (Some u)))))"

definition test_entity_init :: "string \<times> entity_vars stmt list" where
  "test_entity_init = (''test_entity_init'',
     [eDo (\<lambda>e. Inr (entity_init e ''Goblin'' 3 5 10)), eName 144 ''Goblin'', eEQ 145 3 ex,
      eEQ 146 5 ey, eEQ 147 10 hp, eEQ 148 10 max_hp, eEQ 149 1 alive])"

definition test_entity_take_damage :: "string \<times> entity_vars stmt list" where
  "test_entity_take_damage = (''test_entity_take_damage'',
     [eDo (\<lambda>e. Inr (entity_init e ''Hero'' 0 0 20)), eDo (entity_take_damage 5),
      eEQ 157 15 hp, eEQ 158 1 alive, eDo (entity_take_damage 10), eEQ 161 5 hp, eEQ 162 1 alive,
      eDo (entity_take_damage 100), eEQ 166 0 hp, eEQ 167 0 alive])"

definition test_entity_heal :: "string \<times> entity_vars stmt list" where
  "test_entity_heal = (''test_entity_heal'',
     [eDo (\<lambda>e. Inr (entity_init e ''Hero'' 0 0 20)), eDo (entity_take_damage 15),
      eEQ 175 5 hp, eDo (entity_heal 3), eEQ 178 8 hp, eDo (entity_heal 100), eEQ 182 20 hp,
      eDo (entity_take_damage 999), eEQ 186 0 hp, eEQ 187 0 alive, eDo (entity_heal 10), eEQ 189 0 hp])"

definition test_entity_move :: "string \<times> entity_vars stmt list" where
  "test_entity_move = (''test_entity_move'',
     [eDo (\<lambda>e. Inr (entity_init e ''Scout'' 0 0 5)), eDo (entity_move 3 4), eEQ 197 3 ex,
      eEQ 198 4 ey, eDo (entity_move (-1) (-2)), eEQ 201 2 ex, eEQ 202 2 ey])"

definition test_entity_distance :: "string \<times> entity_vars stmt list" where
  "test_entity_distance = (''test_entity_distance'',
     [eDo (\<lambda>e. Inr (entity_init e ''A'' 0 0 1)),
      eDoB (\<lambda>e. Inr (entity_init e ''B'' 3 4 1)),
      eDistance 210 7 (\<lambda>(a, b). entity_distance a b),
      eDistance 211 7 (\<lambda>(a, b). entity_distance b a),
      eDoB (\<lambda>e. Inr (entity_init e ''B'' (-2) (-3) 1)),
      eDistance 214 5 (\<lambda>(a, b). entity_distance a b),
      eDistance 216 0 (\<lambda>(a, b). entity_distance a a)])"

definition test_entity_status :: "string \<times> entity_vars stmt list" where
  "test_entity_status = (''test_entity_status'',
     [eDo (\<lambda>e. Inr (entity_init e ''Goblin'' 3 5 10)), eStatus,
      eBuf 225 ''Goblin (3,5) HP: 10/10 [ALIVE]'', eDo (entity_take_damage 2), eStatus,
      eBuf 229 ''Goblin (3,5) HP: 8/10 [ALIVE]'', eDo (entity_take_damage 100), eStatus,
      eBuf 233 ''Goblin (3,5) HP: 0/10 [DEAD]''])"

definition entity_tests :: "(string \<times> entity_vars stmt list) list" where
  "entity_tests = [test_entity_init, test_entity_take_damage, test_entity_heal, test_entity_move, test_entity_distance, test_entity_status]"

definition raw_entity :: "char \<Rightarrow> int \<Rightarrow> entity" where
  "raw_entity c n = \<lparr>name = replicate 64 c, ex = n, ey = n, hp = n, max_hp = n, alive = n\<rparr>"

definition raw_vars :: "char \<Rightarrow> int \<Rightarrow> entity_vars" where
  "raw_vars c n = (raw_entity c n, raw_entity c n, \<lparr>blocks = [0 \<mapsto> replicate 128 c], brk = 1\<rparr>)"

definition entity_test :: "(nat \<Rightarrow> string) \<Rightarrow> entity_vars \<Rightarrow> string \<times> entity_vars stmt list \<Rightarrow> script_test" where
  "entity_test sp vars t = (fst t, script_fn sp ''test_structs.c'' (snd t) vars)"

lemma entity_tests_pass: "list_all (\<lambda>t. script_passes (snd t) (raw_vars (CHR 0xCC) (-1))) entity_tests"
proof -
  let ?vars = "raw_vars (CHR 0xCC) (-1)"
  have "script_passes (snd test_entity_init) ?vars" "script_passes (snd test_entity_take_damage) ?vars"
    "script_passes (snd test_entity_heal) ?vars" "script_passes (snd test_entity_move) ?vars"
    "script_passes (snd test_entity_distance) ?vars" by code_simp+
  moreover have "script_passes (snd test_entity_status) ?vars" by code_simp
  ultimately show ?thesis by (simp add: entity_tests_def)
qed

end
