(* ===== verification/String_Tests.thy ===== *)
theory String_Tests
  imports Test_Scripts
begin

section \<open>The unit tests of the strings and the vector\<close>

text \<open>
  The program \<open>test_strings.c\<close> of \<open>00-c-for-programmers/exercises/ex2-strings-and-arrays\<close>. The variables of a
  string test are the pointer it works with, the argument of \<open>my_strdup\<close> (a literal or \<open>orig\<close>) and the heap,
  where literals and arrays are blocks. The tests of the vector run on the abstract stack, by the representation lemmas of \<open>Int_Vec\<close>.
\<close>

subsection \<open>Statements of the string tests\<close>

type_synonym str_vars = "(ptr \<times> nat) \<times> (ptr \<times> nat) \<times> char heap"

definition new_array :: "string \<Rightarrow> char heap \<Rightarrow> (ptr \<times> nat) \<times> char heap" where
  "new_array bytes h = (let (a, h') = halloc bytes h in ((Some a, 0), h'))"

definition literal :: "string \<Rightarrow> char heap \<Rightarrow> (ptr \<times> nat) \<times> char heap" where
  "literal t = new_array (t @ [CHR 0x00])"

text \<open>The text at a pointer: the bytes up to the terminator.\<close>

definition c_text :: "ptr \<times> nat \<Rightarrow> char heap \<Rightarrow> string res" where
  "c_text p h = rbind (hblock (fst p) h) (\<lambda>xs. let ys = drop (snd p) xs in
     if CHR 0x00 \<in> set ys then Inr (takeWhile (\<lambda>c. c \<noteq> CHR 0x00) ys) else Inl OutOfBounds)"

definition sStrlen :: "nat \<Rightarrow> int \<Rightarrow> string \<Rightarrow> str_vars stmt" where
  "sStrlen line n t = Check line (\<lambda>(p, orig, h). let (q, h1) = literal t h in
     Some (rbind (my_strlen q h1) (\<lambda>k. Inr ((p, orig, h1), EQ n (int k)))))"

definition sArray :: "string \<Rightarrow> str_vars stmt" where
  "sArray bytes = Do (\<lambda>(p, orig, h). let (q, h1) = new_array bytes h in Some (Inr (q, orig, h1)))"

definition sStrcpy :: "string \<Rightarrow> str_vars stmt" where
  "sStrcpy t = Do (\<lambda>(p, orig, h). let (q, h1) = literal t h in
     Some (rbind (my_strcpy p q h1) (\<lambda>(_, h2). Inr (p, orig, h2))))"

definition sStrcat :: "string \<Rightarrow> str_vars stmt" where
  "sStrcat t = Do (\<lambda>(p, orig, h). let (q, h1) = literal t h in
     Some (rbind (my_strcat p q h1) (\<lambda>(_, h2). Inr (p, orig, h2))))"

definition sStrcmp :: "string \<Rightarrow> string \<Rightarrow> (int \<Rightarrow> c_assertion) \<Rightarrow> nat \<Rightarrow> str_vars stmt" where
  "sStrcmp t u expect line = Check line (\<lambda>(p, orig, h). let (q, h1) = literal t h; (r, h2) = literal u h1 in
     Some (rbind (my_strcmp q r h2) (\<lambda>d. Inr ((p, orig, h2), expect d))))"

definition sOrig :: "string \<Rightarrow> str_vars stmt" where
  "sOrig t = Do (\<lambda>(p, orig, h). let (q, h1) = literal t h in Some (Inr (p, q, h1)))"

definition sStrdup :: "char alloc \<Rightarrow> str_vars stmt" where
  "sStrdup m = Do (\<lambda>(p, orig, h). Some (rbind (my_strdup m orig h) (\<lambda>(q, h1). Inr (q, orig, h1))))"

definition sJoin :: "char alloc \<Rightarrow> string \<Rightarrow> string \<Rightarrow> str_vars stmt" where
  "sJoin m t u = Do (\<lambda>(p, orig, h). let (q, h1) = literal t h; (r, h2) = literal u h1 in
     Some (rbind (str_join m q r h2) (\<lambda>(j, h3). Inr (j, orig, h3))))"

definition sReverse :: "str_vars stmt" where
  "sReverse = Do (\<lambda>(p, orig, h). Some (rbind (str_reverse p h) (\<lambda>h1. Inr (p, orig, h1))))"

definition sPalindrome :: "nat \<Rightarrow> int \<Rightarrow> string \<Rightarrow> str_vars stmt" where
  "sPalindrome line n t = Check line (\<lambda>(p, orig, h). let (q, h1) = literal t h in
     Some (rbind (str_is_palindrome q h1) (\<lambda>r. Inr ((p, orig, h1), EQ n r))))"

definition sText :: "nat \<Rightarrow> string \<Rightarrow> str_vars stmt" where
  "sText line t = Check line (\<lambda>(p, orig, h).
     Some (rbind (c_text p h) (\<lambda>u. Inr ((p, orig, h), STR_EQ (Some t) (Some u)))))"

definition sNotNull :: "nat \<Rightarrow> str_vars stmt" where
  "sNotNull line = Check line (\<lambda>(p, orig, h). Some (Inr ((p, orig, h), NOT_NULL (fst p))))"

definition sFree :: "str_vars stmt" where
  "sFree = Do (\<lambda>(p, orig, h). Some (rbind (hfree (fst p) h) (\<lambda>h1. Inr (p, orig, h1))))"

definition sDiffer :: "nat \<Rightarrow> str_vars stmt" where
  "sDiffer line = Check line (\<lambda>(p, orig, h). Some (Inr ((p, orig, h), IS_TRUE ''dup != orig'' (p \<noteq> orig))))"

definition uninit :: "nat \<Rightarrow> string" where
  "uninit n = replicate n (CHR 0xCC)"

definition fresh_memory :: "char alloc" where
  "fresh_memory = Some (\<lambda>_. CHR 0xCC)"

text \<open>\<open>char a[n] = "..."\<close>: the rest of the array is zero.\<close>

definition init_array :: "nat \<Rightarrow> string \<Rightarrow> string" where
  "init_array n t = t @ replicate (n - length t) (CHR 0x00)"

subsection \<open>The string tests\<close>

definition test_strlen :: "string \<times> str_vars stmt list" where
  "test_strlen = (''test_strlen'',
     [sStrlen 8 5 ''hello'', sStrlen 9 0 [], sStrlen 10 1 ''x'', sStrlen 11 11 ''hello world''])"

definition test_strcpy :: "string \<times> str_vars stmt list" where
  "test_strcpy = (''test_strcpy'',
     [sArray (uninit 32), sStrcpy ''hello'', sText 19 ''hello'', sStrcpy [], sText 22 [],
      sStrcpy ''a longer string here'', sText 25 ''a longer string here''])"

definition test_strcmp :: "string \<times> str_vars stmt list" where
  "test_strcmp = (''test_strcmp'',
     [sStrcmp ''hello'' ''hello'' (EQ 0) 31, sStrcmp [] [] (EQ 0) 32,
      sStrcmp ''apple'' ''banana'' (\<lambda>d. IS_TRUE ''my_strcmp(\"apple\", \"banana\") < 0'' (d < 0)) 33,
      sStrcmp ''banana'' ''apple'' (\<lambda>d. IS_TRUE ''my_strcmp(\"banana\", \"apple\") > 0'' (d > 0)) 34,
      sStrcmp ''abc'' ''abd'' (\<lambda>d. IS_TRUE ''my_strcmp(\"abc\", \"abd\") < 0'' (d < 0)) 35,
      sStrcmp ''abc'' ''ab'' (\<lambda>d. IS_TRUE ''my_strcmp(\"abc\", \"ab\") > 0'' (d > 0)) 36,
      sStrcmp ''ab'' ''abc'' (\<lambda>d. IS_TRUE ''my_strcmp(\"ab\", \"abc\") < 0'' (d < 0)) 37])"

definition test_strcat :: "string \<times> str_vars stmt list" where
  "test_strcat = (''test_strcat'',
     [sArray (init_array 64 ''hello''), sStrcat '' world'', sText 45 ''hello world'',
      sArray (init_array 64 []), sStrcat ''test'', sText 49 ''test'',
      sArray (init_array 64 ''abc''), sStrcat [], sText 53 ''abc''])"

definition test_strdup :: "string \<times> str_vars stmt list" where
  "test_strdup = (''test_strdup'',
     [sOrig ''hello'', sStrdup fresh_memory, sNotNull 60, sText 61 ''hello'', sFree, sOrig [],
      sStrdup fresh_memory, sNotNull 65, sText 66 [], sFree, sOrig ''test string'',
      sStrdup fresh_memory, sNotNull 71, sText 72 ''test string'', sDiffer 73, sFree])"

definition test_str_join :: "string \<times> str_vars stmt list" where
  "test_str_join = (''test_str_join'',
     [sJoin fresh_memory ''hello'' '' world'', sNotNull 81, sText 82 ''hello world'', sFree,
      sJoin fresh_memory [] ''test'', sNotNull 86, sText 87 ''test'', sFree,
      sJoin fresh_memory ''test'' [], sNotNull 91, sText 92 ''test'', sFree,
      sJoin fresh_memory [] [], sNotNull 96, sText 97 [], sFree])"

definition test_str_reverse :: "string \<times> str_vars stmt list" where
  "test_str_reverse = (''test_str_reverse'',
     [sArray (init_array 6 ''hello''), sReverse, sText 106 ''olleh'', sArray (init_array 3 ''ab''),
      sReverse, sText 110 ''ba'', sArray (init_array 2 ''a''), sReverse, sText 114 ''a'',
      sArray (init_array 1 []), sReverse, sText 118 [], sArray (init_array 8 ''racecar''), sReverse,
      sText 122 ''racecar''])"

definition test_str_is_palindrome :: "string \<times> str_vars stmt list" where
  "test_str_is_palindrome = (''test_str_is_palindrome'',
     [sPalindrome 128 1 ''racecar'', sPalindrome 129 1 ''aba'', sPalindrome 130 1 ''a'',
      sPalindrome 131 1 [], sPalindrome 132 1 ''abba'', sPalindrome 133 0 ''hello'',
      sPalindrome 134 0 ''ab'', sPalindrome 135 0 ''abc''])"

definition string_tests :: "(string \<times> str_vars stmt list) list" where
  "string_tests = [test_strlen, test_strcpy, test_strcmp, test_strcat, test_strdup, test_str_join, test_str_reverse, test_str_is_palindrome]"

definition str_vars0 :: str_vars where
  "str_vars0 = ((None, 0), (None, 0), empty_heap)"

definition string_test :: "(nat \<Rightarrow> string) \<Rightarrow> string \<times> str_vars stmt list \<Rightarrow> script_test" where
  "string_test sp t = (fst t, script_fn sp ''test_strings.c'' (snd t) str_vars0)"

lemma string_tests_pass: "list_all (\<lambda>t. script_passes (snd t) str_vars0) string_tests"
proof -
  have "script_passes (snd test_strlen) str_vars0" by code_simp
  moreover have "script_passes (snd test_strcpy) str_vars0" by code_simp
  moreover have "script_passes (snd test_strcmp) str_vars0" by code_simp
  moreover have "script_passes (snd test_strcat) str_vars0" by code_simp
  moreover have "script_passes (snd test_strdup) str_vars0" "script_passes (snd test_str_join) str_vars0" by code_simp+
  moreover have "script_passes (snd test_str_reverse) str_vars0" by code_simp
  moreover have "script_passes (snd test_str_is_palindrome) str_vars0" by code_simp
  ultimately show ?thesis by (simp add: string_tests_def)
qed

subsection \<open>Statements on a vector\<close>

datatype vec_stmt =
    VCall vec_op
  | VAssert nat int vec_op
  | VLength nat int
  | VCapacity nat int
  | VCapacityAtLeast nat string int
  | VDataNotNull nat
  | VFree

fun vec_exec :: "(nat \<Rightarrow> int) \<Rightarrow> vec_stmt \<Rightarrow> vec_state stmt" where
  "vec_exec f (VCall oper) = Do (\<lambda>s. Some (rbind (vec_step (Some f) oper s) (\<lambda>(s', r). Inr s')))"
| "vec_exec f (VAssert line e oper) = Check line (\<lambda>s. Some (rbind (vec_step (Some f) oper s) (\<lambda>(s', r). Inr (s', EQ e r))))"
| "vec_exec f (VLength line e) = Check line (\<lambda>s. Some (Inr (s, EQ e (uint (vlen (fst s))))))"
| "vec_exec f (VCapacity line e) = Check line (\<lambda>s. Some (Inr (s, EQ e (uint (capacity (fst s))))))"
| "vec_exec f (VCapacityAtLeast line t n) = Check line (\<lambda>s. Some (Inr (s, IS_TRUE t (uint (capacity (fst s)) \<ge> n))))"
| "vec_exec f (VDataNotNull line) = Check line (\<lambda>s. Some (Inr (s, NOT_NULL (data (fst s)))))"
| "vec_exec f VFree = Do (\<lambda>s. Some (vec_free s))"

text \<open>The same statements on an abstract stack; the capacity is known exactly until the first call, and at
  least the length always. Nothing follows \<open>vec_free\<close>.\<close>

fun stack_passes :: "vec_stmt list \<Rightarrow> int option \<Rightarrow> int list \<Rightarrow> bool" where
  "stack_passes [] c xs \<longleftrightarrow> True"
| "stack_passes (VCall oper # ss) c xs \<longleftrightarrow>
     (case stack_step oper xs of None \<Rightarrow> False | Some (ys, r) \<Rightarrow> stack_passes ss None ys)"
| "stack_passes (VAssert line e oper # ss) c xs \<longleftrightarrow>
     (case stack_step oper xs of None \<Rightarrow> False | Some (ys, r) \<Rightarrow> e = r \<and> stack_passes ss None ys)"
| "stack_passes (VLength line e # ss) c xs \<longleftrightarrow> e = int (length xs) \<and> stack_passes ss c xs"
| "stack_passes (VCapacity line e # ss) c xs \<longleftrightarrow> c = Some e \<and> stack_passes ss c xs"
| "stack_passes (VCapacityAtLeast line t n # ss) c xs \<longleftrightarrow> n \<le> int (length xs) \<and> stack_passes ss c xs"
| "stack_passes (VDataNotNull line # ss) c xs \<longleftrightarrow> stack_passes ss c xs"
| "stack_passes (VFree # ss) c xs \<longleftrightarrow> ss = []"

lemma vec_rep_fields:
  assumes "vec_rep s xs"
  shows "uint (vlen (fst s)) = int (length xs)" and "int (length xs) \<le> uint (capacity (fst s))"
    and "data (fst s) \<noteq> None" and "\<exists>s'. vec_free s = Inr s'"
proof -
  obtain v h where s: "s = (v, h)" by (cases s)
  obtain a junk where rep: "data v = Some a" "blocks h a = Some (xs @ junk)" "length xs + length junk = unat (capacity v)"
      "unat (vlen v) = length xs"
    using assms unfolding s by (rule vec_repE)
  have nums: "uint (vlen v) = int (unat (vlen v))" "uint (capacity v) = int (unat (capacity v))" by simp_all
  show "data (fst s) \<noteq> None" using rep(1) by (simp add: s)
  show "uint (vlen (fst s)) = int (length xs)" unfolding s fst_conv nums rep(4) ..
  show "int (length xs) \<le> uint (capacity (fst s))" unfolding s fst_conv nums rep(3) [symmetric] by simp
  show "\<exists>s'. vec_free s = Inr s'" using rep(1,2) by (simp add: s vec_free_def hfree_Some)
qed

lemma vec_script_passes:
  assumes "stack_passes ss c xs" and "vec_rep s xs" and "\<And>e. c = Some e \<Longrightarrow> uint (capacity (fst s)) = e"
    and "length xs + length ss \<le> 2 ^ 60"
  shows "script_passes (map (vec_exec f) ss) s"
  using assms
proof (induction ss c xs arbitrary: s rule: stack_passes.induct)
  case (2 oper ss c xs)
  then obtain ys r where r: "stack_step oper xs = Some (ys, r)" "stack_passes ss None ys" by (auto split: option.splits)
  have "length xs < 2 ^ 60" using 2(5) by simp
  then obtain s' where "vec_step (Some f) oper s = Inr (s', r)" "vec_rep s' ys" using vec_step_refines [OF 2(3) r(1), of "Some f"] by blast
  then show ?case using 2(1) [of "(ys, r)" ys r s'] r 2(5) stack_step_length [OF r(1)] by simp
next
  case (3 line e oper ss c xs)
  then obtain ys where r: "stack_step oper xs = Some (ys, e)" "stack_passes ss None ys" by (auto split: option.splits)
  have "length xs < 2 ^ 60" using 3(5) by simp
  then obtain s' where "vec_step (Some f) oper s = Inr (s', e)" "vec_rep s' ys" using vec_step_refines [OF 3(3) r(1), of "Some f"] by blast
  then show ?case using 3(1) [of "(ys, e)" ys e s'] r 3(5) stack_step_length [OF r(1)] by simp
next
  case (8 ss c xs)
  then show ?case using vec_rep_fields(4) [OF 8(2)] by auto
qed (use vec_rep_fields in \<open>fastforce+\<close>)

subsection \<open>The vector tests\<close>

definition test_vec_basic :: "string \<times> 64 word \<times> vec_stmt list" where
  "test_vec_basic = (''test_vec_basic'', 4,
     [VLength 143 0, VCapacity 144 4, VDataNotNull 145, VCall (VPush 10), VCall (VPush 20), VCall (VPush 30),
      VLength 150 3, VAssert 151 10 (VGet 0), VAssert 152 20 (VGet 1), VAssert 153 30 (VGet 2),
      VAssert 156 30 VPop, VLength 157 2, VFree])"

definition test_vec_grow :: "string \<times> 64 word \<times> vec_stmt list" where
  "test_vec_grow = (''test_vec_grow'', 2,
     map (\<lambda>i. VCall (VPush (int i * 10))) [0..<100] @
     [VLength 169 100, VCapacityAtLeast 170 ''v.capacity >= 100'' 100] @
     map (\<lambda>i. VAssert 173 (int i * 10) (VGet (of_nat i))) [0..<100] @ [VFree])"

definition test_vec_push_pop :: "string \<times> 64 word \<times> vec_stmt list" where
  "test_vec_push_pop = (''test_vec_push_pop'', 1,
     [VCall (VPush 5), VCall (VPush 10), VCall (VPush 15), VAssert 187 15 VPop, VAssert 188 10 VPop,
      VCall (VPush 99), VAssert 191 99 (VGet 1), VLength 192 2, VFree])"

definition vector_tests :: "(string \<times> 64 word \<times> vec_stmt list) list" where
  "vector_tests = [test_vec_basic, test_vec_grow, test_vec_push_pop]"

text \<open>A vector test starts with \<open>vec_init\<close> on uninitialised fields.\<close>

definition vec_test ::
  "(nat \<Rightarrow> string) \<Rightarrow> (nat \<Rightarrow> int) \<Rightarrow> vec_state \<Rightarrow> string \<times> 64 word \<times> vec_stmt list \<Rightarrow> script_test" where
  "vec_test sp f s0 t = (fst t, script_fn sp ''test_strings.c''
     (Do (\<lambda>s. Some (vec_init (Some f) (fst (snd t)) s)) # map (vec_exec f) (snd (snd t))) s0)"

lemma stack_passes_pushes:
  "stack_passes (map (\<lambda>i. VCall (VPush (g i))) is @ ss) c xs \<longleftrightarrow>
    stack_passes ss (if is = [] then c else None) (xs @ map g is)"
  by (induction "is" arbitrary: c xs) simp_all

lemma stack_passes_reads:
  "(\<And>i. i \<in> set is \<Longrightarrow> i < length xs \<and> i < 2 ^ 64 \<and> xs ! i = g i) \<Longrightarrow>
    stack_passes (map (\<lambda>i. VAssert line (g i) (VGet (of_nat i))) is @ ss) c xs \<longleftrightarrow>
    stack_passes ss (if is = [] then c else None) xs"
  by (induction "is" arbitrary: c) (auto simp: unsigned_of_nat take_bit_nat_eq_self)

lemma vector_tests_pass:
  "stack_passes (snd (snd test_vec_basic)) (Some 4) []"
  "stack_passes (snd (snd test_vec_grow)) (Some 2) []"
  "stack_passes (snd (snd test_vec_push_pop)) (Some 1) []"
proof -
  show "stack_passes (snd (snd test_vec_grow)) (Some 2) []"
    unfolding test_vec_grow_def snd_conv stack_passes_pushes
    using stack_passes_reads [of "[0..<100]" "map (\<lambda>i. int i * 10) [0..<100]" "\<lambda>i. int i * 10" 173 "[VFree]" None]
    by (simp del: upt_Suc)
qed (simp_all add: test_vec_basic_def test_vec_push_pop_def)

lemma vec_init_capacity: "vec_init m c s = Inr s' \<Longrightarrow> capacity (fst s') = c"
  by (cases s) (auto simp: vec_init_def Let_def rbind_eq_Inr split: prod.splits)

lemma vec_test_passes:
  assumes "heap_ok (snd s0)" and "0 < unat (fst (snd t))" "unat (fst (snd t)) < 2 ^ 62"
    and "stack_passes (snd (snd t)) (Some (uint (fst (snd t)))) []" and "length (snd (snd t)) \<le> 2 ^ 60"
  shows "test_passes (vec_test sp f s0 t)"
proof -
  obtain s where s: "vec_init (Some f) (fst (snd t)) s0 = Inr s" "vec_rep s []"
    using vec_init_ok [OF assms(1-3), of f "fst s0"] by auto
  then have "script_passes (map (vec_exec f) (snd (snd t))) s"
    using vec_script_passes [OF assms(4) s(2)] vec_init_capacity [OF s(1)] assms(5) by simp
  with s(1) show ?thesis by (simp add: test_passes_def vec_test_def script_fn_passes)
qed

subsection \<open>Main results\<close>

definition test_structs_main ::
  "(nat \<Rightarrow> string) \<Rightarrow> (nat \<Rightarrow> ll_node) \<Rightarrow> ll_node heap \<Rightarrow> c_harness \<Rightarrow> (c_harness \<times> int) res option" where
  "test_structs_main sp f hp0 = script_main (''=== Structs and Pointers ==='' @ newline @ newline)
     (map (ll_test sp f hp0) list_tests @ map (entity_test sp (raw_vars (CHR 0xCC) (-1))) entity_tests)"

definition test_strings_main ::
  "(nat \<Rightarrow> string) \<Rightarrow> (nat \<Rightarrow> int) \<Rightarrow> vec_state \<Rightarrow> c_harness \<Rightarrow> (c_harness \<times> int) res option" where
  "test_strings_main sp f s0 = script_main (''=== Strings and Arrays ==='' @ newline @ newline)
     (map (string_test sp) string_tests @ map (vec_test sp f s0) vector_tests)"

lemma list_tests_ok: "heap_ok hp0 \<Longrightarrow> list_all test_passes (map (ll_test sp f hp0) list_tests)"
  using list_tests_pass list_tests_short ll_test_passes unfolding list_all_iff set_map by blast

lemma entity_tests_ok: "list_all test_passes (map (entity_test sp (raw_vars (CHR 0xCC) (-1))) entity_tests)"
  using entity_tests_pass by (auto simp: list_all_iff entity_test_def test_passes_def intro: script_fn_passes)

lemma string_tests_ok: "list_all test_passes (map (string_test sp) string_tests)"
  using string_tests_pass by (auto simp: list_all_iff string_test_def test_passes_def intro: script_fn_passes)

lemma vector_tests_ok:
  assumes "heap_ok (snd s0)"
  shows "list_all test_passes (map (vec_test sp f s0) vector_tests)"
proof -
  have "test_passes (vec_test sp f s0 test_vec_basic)" "test_passes (vec_test sp f s0 test_vec_grow)"
    "test_passes (vec_test sp f s0 test_vec_push_pop)"
    using vector_tests_pass
    by (intro vec_test_passes [OF assms]; simp add: test_vec_basic_def test_vec_grow_def test_vec_push_pop_def)+
  then show ?thesis by (simp add: vector_tests_def)
qed

text \<open>C29: the repository's own tests of the list, the entities, the strings and the vector on the models: for
  any contents of fresh memory that \<open>malloc\<close> gives the list and the vector, both programs return, without a
  fault, with exit code 0, after a PASS line for each of their twelve and eleven tests and the summary.\<close>

theorem struct_and_string_tests_pass:
  assumes "heap_ok hp0" and "heap_ok (snd s0)"
  shows "(\<exists>h'. test_structs_main sp f hp0 h = Some (Inr (h', 0)) \<and> ch_passed h' = 12 \<and>
      ch_out h' = ch_out h @ [''=== Structs and Pointers ==='' @ newline @ newline] @
        map pass_line (map fst list_tests @ map fst entity_tests) @ [summary_line h']) \<and>
    (\<exists>h'. test_strings_main sp k s0 h = Some (Inr (h', 0)) \<and> ch_passed h' = 11 \<and>
      ch_out h' = ch_out h @ [''=== Strings and Arrays ==='' @ newline @ newline] @
        map pass_line (map fst string_tests @ map fst vector_tests) @ [summary_line h'])"
proof -
  have names: "map (pass_line \<circ> fst) (map (ll_test sp f hp0) ts @ map (entity_test sp vars) us) =
      map pass_line (map fst ts @ map fst us)"
    "map (pass_line \<circ> fst) (map (string_test sp) vs @ map (vec_test sp k s0) ws) =
      map pass_line (map fst vs @ map fst ws)" for ts us vs ws vars
    by (simp_all add: ll_test_def entity_test_def string_test_def vec_test_def)
  have lengths: "length list_tests = 6" "length entity_tests = 6" "length string_tests = 8" "length vector_tests = 3"
    by (simp_all add: list_tests_def entity_tests_def string_tests_def vector_tests_def)
  have structs: "list_all test_passes
      (map (ll_test sp f hp0) list_tests @ map (entity_test sp (raw_vars (CHR 0xCC) (-1))) entity_tests)"
    using list_tests_ok [OF assms(1)] entity_tests_ok by simp
  have strings: "list_all test_passes (map (string_test sp) string_tests @ map (vec_test sp k s0) vector_tests)"
    using string_tests_ok vector_tests_ok [OF assms(2)] by simp
  show ?thesis
    using script_main_passes [OF structs, unfolded names] script_main_passes [OF strings, unfolded names]
    by (simp add: test_structs_main_def test_strings_main_def lengths) blast
qed

theorem struct_and_string_tests_pass_witness:
  "\<exists>h'. test_structs_main show_nat (\<lambda>_. \<lparr>value = 7, next = Some 3\<rparr>) empty_heap
      \<lparr>ch_run = 0, ch_passed = 0, ch_failed = 0, ch_current = None, ch_out = []\<rparr> = Some (Inr (h', 0)) \<and> ch_passed h' = 12"
proof -
  have "heap_ok (empty_heap :: ll_node heap)" "heap_ok (snd (\<lparr>data = None, vlen = 0, capacity = 0\<rparr>, empty_heap :: int heap))"
    by (simp_all add: heap_ok_def empty_heap_def)
  from struct_and_string_tests_pass [OF this] show ?thesis by blast
qed

end
