(* ===== verification/Cpp_Tests.thy ===== *)
theory Cpp_Tests
  imports Test_Harness Move_Buffer Primitives
begin

section \<open>The unit tests of the C++ components\<close>

text \<open>
  The test programs \<open>test_buffer.cpp\<close> and \<open>test_primitives.cpp\<close> of \<open>02-modern-cpp/exercises\<close> on the harness of
  \<open>tools/common.hpp\<close>. A test function is a list of statements on its variables; at its end, and where a failed
  assertion returns from it, the variables that were constructed are destroyed, last first. The free store and
  the static counters live on from test to test. The headings that \<open>main\<close> prints are left out. The runs are
  those in which every \<open>new\<close> succeeds; an exception no test catches is the fault \<open>BadAlloc\<close>.
\<close>

datatype 's cpp_stmt = Exec "'s \<Rightarrow> 's res" | Assert "'s \<Rightarrow> bool res"

fun cpp_fn :: "('s \<Rightarrow> 's res) \<Rightarrow> 's cpp_stmt list \<Rightarrow> 's \<Rightarrow> harness \<Rightarrow> ('s \<times> harness) res" where
  "cpp_fn leave [] s h = rbind (leave s) (\<lambda>s'. Inr (s', h))"
| "cpp_fn leave (Exec f # ss) s h = rbind (f s) (\<lambda>s'. cpp_fn leave ss s' h)"
| "cpp_fn leave (Assert c # ss) s h =
     rbind (c s) (\<lambda>b.
     if b then cpp_fn leave ss s h
     else rbind (leave s) (\<lambda>s'. Inr (s', h\<lparr>tests_failed := tests_failed h + 1\<rparr>)))"

type_synonym 's cpp_test = "string \<times> 's cpp_stmt list"

fun cpp_tests :: "('s \<Rightarrow> 's res) \<Rightarrow> 's cpp_test list \<Rightarrow> 's \<Rightarrow> harness \<Rightarrow> ('s \<times> harness) res" where
  "cpp_tests leave [] s h = Inr (s, h)"
| "cpp_tests leave ((nm, ss) # ts) s h =
     rbind (cpp_fn leave ss s (h\<lparr>current_test := nm, tests_run := tests_run h + 1\<rparr>)) (\<lambda>(s', h').
     cpp_tests leave ts s' (RUN_TEST nm (\<lambda>_. h') h))"

definition cpp_main :: "('s \<Rightarrow> 's res) \<Rightarrow> 's cpp_test list \<Rightarrow> 's \<Rightarrow> harness \<Rightarrow> ('s \<times> harness \<times> int) res" where
  "cpp_main leave ts s h = rbind (cpp_tests leave ts s (TEST_BEGIN h)) (\<lambda>(s', h'). Inr (s', h', TEST_END h'))"

text \<open>What the statements of a test do when every assertion holds, and of a list of tests.\<close>

fun cpp_state :: "('s \<Rightarrow> 's res) \<Rightarrow> 's cpp_stmt list \<Rightarrow> 's \<Rightarrow> 's option" where
  "cpp_state leave [] s = (case leave s of Inr s' \<Rightarrow> Some s' | Inl _ \<Rightarrow> None)"
| "cpp_state leave (Exec f # ss) s = (case f s of Inr s' \<Rightarrow> cpp_state leave ss s' | Inl _ \<Rightarrow> None)"
| "cpp_state leave (Assert c # ss) s = (if c s = Inr True then cpp_state leave ss s else None)"

fun cpp_states :: "('s \<Rightarrow> 's res) \<Rightarrow> 's cpp_test list \<Rightarrow> 's \<Rightarrow> 's option" where
  "cpp_states leave [] s = Some s"
| "cpp_states leave (t # ts) s = (case cpp_state leave (snd t) s of Some s' \<Rightarrow> cpp_states leave ts s' | None \<Rightarrow> None)"

lemma cpp_fn_passes: "cpp_state leave ss s = Some s' \<Longrightarrow> cpp_fn leave ss s h = Inr (s', h)"
  by (induction leave ss s rule: cpp_state.induct) (auto split: sum.splits if_splits)

lemma RUN_TEST_passed: "RUN_TEST nm (\<lambda>_. h\<lparr>current_test := nm, tests_run := tests_run h + 1\<rparr>) h =
    h\<lparr>current_test := nm, tests_run := tests_run h + 1, tests_passed := tests_passed h + 1\<rparr>"
  by (simp add: RUN_TEST_def Let_def)

lemma cpp_tests_pass:
  "cpp_states leave ts s = Some s' \<Longrightarrow> \<exists>h'. cpp_tests leave ts s h = Inr (s', h') \<and>
    tests_run h' = tests_run h + int (length ts) \<and> tests_passed h' = tests_passed h + int (length ts) \<and>
    tests_failed h' = tests_failed h"
proof (induction ts arbitrary: s h)
  case (Cons t ts)
  obtain nm ss where t: "t = (nm, ss)" by (cases t)
  then obtain s1 where "cpp_state leave ss s = Some s1" "cpp_states leave ts s1 = Some s'"
    using Cons.prems by (auto split: option.splits)
  with Cons.IH [of s1 "h\<lparr>current_test := nm, tests_run := tests_run h + 1, tests_passed := tests_passed h + 1\<rparr>"]
  show ?case by (auto simp: t cpp_fn_passes RUN_TEST_passed)
qed simp

lemma cpp_main_passes:
  assumes "cpp_states leave ts s = Some s'"
  shows "\<exists>h'. cpp_main leave ts s h = Inr (s', h', 0) \<and> tests_passed h' = int (length ts) \<and> tests_failed h' = 0"
  using cpp_tests_pass [OF assms, of "TEST_BEGIN h"] by (auto simp: cpp_main_def TEST_END_def TEST_BEGIN_def)

subsection \<open>\<open>test_buffer.cpp\<close>\<close>

text \<open>The variables: at most two buffers, by number, and a saved pointer.\<close>

definition returned :: "'s outcome res \<Rightarrow> 's res" where
  "returned m = rbind m (\<lambda>out. case out of Returns s \<Rightarrow> Inr s | Throws _ \<Rightarrow> Inl BadAlloc)"

definition buf_new :: "obj \<Rightarrow> nat \<Rightarrow> buf_state \<Rightarrow> buf_state res" where
  "buf_new i n s = returned (buf_construct True i n s)"

definition buf_copy :: "obj \<Rightarrow> obj \<Rightarrow> buf_state \<Rightarrow> buf_state res" where
  "buf_copy i j s = returned (buf_copy_construct True i j s)"

type_synonym buf_vars = "buf_state \<times> ptr"

definition bDo :: "(buf_state \<Rightarrow> buf_state res) \<Rightarrow> buf_vars cpp_stmt" where
  "bDo f = Exec (\<lambda>(s, p). rbind (f s) (\<lambda>s'. Inr (s', p)))"

definition bIs :: "(buf_state \<Rightarrow> bool res) \<Rightarrow> buf_vars cpp_stmt" where
  "bIs c = Assert (\<lambda>(s, p). c s)"

definition the_buf :: "obj \<Rightarrow> (buffer \<Rightarrow> 'a) \<Rightarrow> buf_state \<Rightarrow> 'a res" where
  "the_buf i f s = (case bobjs s i of None \<Rightarrow> Inl DeadObject | Some b \<Rightarrow> Inr (f b))"

definition bSize :: "obj \<Rightarrow> nat \<Rightarrow> buf_vars cpp_stmt" where
  "bSize i n = bIs (the_buf i (\<lambda>b. n = bf_size b))"

definition bNotNull :: "obj \<Rightarrow> buf_vars cpp_stmt" where
  "bNotNull i = bIs (the_buf i (\<lambda>b. bf_data b \<noteq> None))"

definition bNull :: "obj \<Rightarrow> buf_vars cpp_stmt" where
  "bNull i = bIs (the_buf i (\<lambda>b. bf_data b = None))"

definition bByte :: "obj \<Rightarrow> nat \<Rightarrow> byte \<Rightarrow> buf_vars cpp_stmt" where
  "bByte i k v = bIs (\<lambda>s. rbind (buf_read i k s) (\<lambda>w. Inr (v = w)))"

definition bOther :: "obj \<Rightarrow> obj \<Rightarrow> buf_vars cpp_stmt" where
  "bOther i j = bIs (\<lambda>s. rbind (the_buf i bf_data s) (\<lambda>p. rbind (the_buf j bf_data s) (\<lambda>q. Inr (p \<noteq> q))))"

definition bSameSize :: "obj \<Rightarrow> obj \<Rightarrow> buf_vars cpp_stmt" where
  "bSameSize i j = bIs (\<lambda>s. rbind (the_buf i bf_size s) (\<lambda>m. rbind (the_buf j bf_size s) (\<lambda>n. Inr (m = n))))"

definition bCopies :: "int \<Rightarrow> buf_vars cpp_stmt" where
  "bCopies n = bIs (\<lambda>s. Inr (n = s_copies s))"

definition bMoves :: "int \<Rightarrow> buf_vars cpp_stmt" where
  "bMoves n = bIs (\<lambda>s. Inr (n = s_moves s))"

definition bSave :: "obj \<Rightarrow> buf_vars cpp_stmt" where
  "bSave i = Exec (\<lambda>(s, p). rbind (the_buf i bf_data s) (\<lambda>q. Inr (s, q)))"

definition bSaved :: "obj \<Rightarrow> buf_vars cpp_stmt" where
  "bSaved i = Assert (\<lambda>(s, p). rbind (the_buf i bf_data s) (\<lambda>q. Inr (p = q)))"

definition bReset :: "buf_vars cpp_stmt" where
  "bReset = bDo (\<lambda>s. Inr (reset_counters s))"

text \<open>No block of the free store is left. Freed addresses may be given out again, so such a store is the empty one.\<close>

definition nothing_left :: "'a heap \<Rightarrow> bool" where
  "nothing_left h \<longleftrightarrow> list_all (\<lambda>a. blocks h a = None) [0..<brk h]"

definition reuse :: "'a heap \<Rightarrow> 'a heap" where
  "reuse h = (if nothing_left h then empty_heap else h)"

text \<open>The destructors of the variables that exist; then the variables are gone.\<close>

definition buf_leave :: "buf_vars \<Rightarrow> buf_vars res" where
  "buf_leave = (\<lambda>(s, p).
     rbind (if bobjs s 1 = None then Inr s else buf_destroy 1 s) (\<lambda>s1.
     rbind (if bobjs s1 0 = None then Inr s1 else buf_destroy 0 s1) (\<lambda>s2. Inr (s2\<lparr>bheap := reuse (bheap s2), bobjs := Map.empty\<rparr>, p))))"

definition test_basic_allocation :: "buf_vars cpp_test" where
  "test_basic_allocation = (''test_basic_allocation'',
     [bDo (buf_new 0 64), bNotNull 0, bSize 0 64] @ map (\<lambda>i. bByte 0 i 0) [0..<64])"

definition test_copy_independence :: "buf_vars cpp_test" where
  "test_copy_independence = (''test_copy_independence'',
     [bDo (buf_new 0 32), bNotNull 0, bSize 0 32] @ map (\<lambda>i. bDo (buf_write 0 i (of_nat i))) [0..<32] @
     [bDo (buf_copy 1 0), bOther 1 0, bSameSize 0 1, bDo (buf_write 1 0 0xFF), bByte 0 0 0x00, bByte 1 0 0xFF])"

definition test_copy_count :: "buf_vars cpp_test" where
  "test_copy_count = (''test_copy_count'',
     [bReset, bDo (buf_new 0 64), bDo (buf_copy 1 0), bCopies 1, bMoves 0])"

definition test_move_transfers_ownership :: "buf_vars cpp_test" where
  "test_move_transfers_ownership = (''test_move_transfers_ownership'',
     [bDo (buf_new 0 128), bNotNull 0, bDo (buf_write 0 0 42), bSave 0, bDo (buf_move_construct 1 0),
      bNull 0, bSize 0 0, bSaved 1, bSize 1 128, bByte 1 0 42])"

definition test_move_count :: "buf_vars cpp_test" where
  "test_move_count = (''test_move_count'',
     [bReset, bDo (buf_new 0 64), bDo (buf_move_construct 1 0), bMoves 1, bCopies 0])"

definition test_copy_assign :: "buf_vars cpp_test" where
  "test_copy_assign = (''test_copy_assign'',
     [bReset, bDo (buf_new 0 16), bDo (buf_new 1 32), bDo (\<lambda>s. returned (buf_copy_assign True 1 0 s)), bSameSize 0 1, bOther 1 0,
      bCopies 1])"

definition test_move_assign :: "buf_vars cpp_test" where
  "test_move_assign = (''test_move_assign'',
     [bReset, bDo (buf_new 0 16), bDo (buf_new 1 32), bSave 0, bDo (buf_move_assign 1 0), bSaved 1, bNull 0,
      bMoves 1])"

text \<open>Returning a named local: the compiler may build it in place or move it.\<close>

definition make_named_buffer :: "bool \<Rightarrow> obj \<Rightarrow> nat \<Rightarrow> buf_state \<Rightarrow> buf_state res" where
  "make_named_buffer elide i n s =
     (if elide then buf_new i n s
      else rbind (buf_new 2 n s) (\<lambda>s1. rbind (buf_move_construct i 2 s1) (buf_destroy 2)))"

definition test_nrvo_no_copy :: "bool \<Rightarrow> buf_vars cpp_test" where
  "test_nrvo_no_copy elide = (''test_nrvo_no_copy'',
     [bReset, bDo (make_named_buffer elide 0 256), bNotNull 0, bSize 0 256, bCopies 0])"

definition test_make_buffer :: "buf_vars cpp_test" where
  "test_make_buffer = (''test_make_buffer'',
     [bReset, bDo (\<lambda>s. returned (make_buffer True 0 512 s)), bNotNull 0, bSize 0 512, bCopies 0])"

definition test_buffer_units :: "bool \<Rightarrow> buf_vars cpp_test list" where
  "test_buffer_units elide =
     [test_basic_allocation, test_copy_independence, test_copy_count, test_move_transfers_ownership, test_move_count,
      test_copy_assign, test_move_assign, test_nrvo_no_copy elide, test_make_buffer]"

text \<open>\<open>bench_copy_vs_move\<close>, which \<open>main\<close> runs as a test: a buffer of one megabyte is filled, copied a thousand times and
  moved a thousand times. The samples of the clock and the lines it prints are left out.\<close>

definition copy_iteration :: "buf_state \<Rightarrow> buf_state res" where
  "copy_iteration s = rbind (buf_copy 1 0 s) (buf_destroy 1)"

definition move_iteration :: "nat \<Rightarrow> buf_state \<Rightarrow> buf_state res" where
  "move_iteration n s =
     rbind (buf_new 1 n s) (\<lambda>s1. rbind (buf_move_construct 2 1 s1) (\<lambda>s2. rbind (buf_destroy 2 s2) (buf_destroy 1)))"

definition bench_copy_vs_move :: "nat \<Rightarrow> buf_state \<Rightarrow> buf_state res" where
  "bench_copy_vs_move n s =
     rbind (buf_new 0 n s) (\<lambda>s1. rbind (the_buf 0 bf_data s1) (\<lambda>p.
     if p = None then Inr s1
     else rbind (for_range 0 n (\<lambda>i. buf_write 0 i (of_nat i)) s1) (\<lambda>s2.
          rbind (for_range 0 1000 (\<lambda>_. copy_iteration) s2) (for_range 0 1000 (\<lambda>_. move_iteration n)))))"

definition test_buffer_main :: "bool \<Rightarrow> buf_vars cpp_test list" where
  "test_buffer_main elide = test_buffer_units elide @ [(''bench_copy_vs_move'', [bDo (bench_copy_vs_move (1024 * 1024))])]"

lemma test_buffer_units_pass:
  "case cpp_states buf_leave (test_buffer_units elide) (buf_init empty_heap, None) of
     None \<Rightarrow> False | Some v \<Rightarrow> nothing_left (bheap (fst v)) \<and> s_copies (fst v) = 0 \<and> s_moves (fst v) = 0"
proof -
  have "case cpp_states buf_leave (test_buffer_units True) (buf_init empty_heap, None) of
     None \<Rightarrow> False | Some v \<Rightarrow> nothing_left (bheap (fst v)) \<and> s_copies (fst v) = 0 \<and> s_moves (fst v) = 0" by code_simp
  moreover have "case cpp_states buf_leave (test_buffer_units False) (buf_init empty_heap, None) of
     None \<Rightarrow> False | Some v \<Rightarrow> nothing_left (bheap (fst v)) \<and> s_copies (fst v) = 0 \<and> s_moves (fst v) = 0" by code_simp
  ultimately show ?thesis by (cases elide) simp_all
qed

text \<open>The state of the benchmark: one buffer, nothing else on the free store, and room for \<open>k\<close> more counts.\<close>

definition bench_inv :: "buf_state \<Rightarrow> nat \<Rightarrow> bool" where
  "bench_inv s k \<longleftrightarrow> buf_wf s k \<and> own_inv (buf_abs s) \<and> objs (buf_abs s) = {0} \<and> escaped (buf_abs s) = {}"

lemma rbind_Inr_right: "rbind m Inr = m"
  by (simp add: rbind_def split: sum.splits)

lemma exec_prog_fun:
  "exec_prog c m a d u [] = Inr"
  "exec_prog c m a d u (x # ops) = (\<lambda>s. rbind (exec_op c m a d u x s) (exec_prog c m a d u ops))"
  by (rule ext, simp)+

text \<open>A construction whose allocation succeeds is the same step for a client that catches exceptions.\<close>

lemma buf_new_step: "rbind (buf_ctor i (True, n) s) (\<lambda>out. Inr (end_state out)) = buf_new i n s"
  by (simp add: buf_new_def returned_def buf_ctor_def buf_construct_def halloc_def)

lemma buf_copy_step:
  "rbind (buf_copy_construct True i j s) (\<lambda>out. Inr (end_state out)) = buf_copy i j s"
  by (auto simp: buf_copy_def returned_def buf_copy_construct_def halloc_def Let_def rbind_def
      split: option.splits sum.splits)

lemma copy_iteration_ok:
  assumes "bench_inv s (Suc (Suc k))"
  shows "\<exists>s'. copy_iteration s = Inr s' \<and> bench_inv s' k"
proof -
  let ?ops = "[Use (BufCopyConstruct True 1 0), Destroy 1]"
  have "copy_iteration s = exec_prog buf_ctor buf_move_construct buf_move_assign buf_destroy buf_use ?ops s"
    unfolding exec_prog_fun by (simp add: copy_iteration_def buf_copy_step rbind_Inr_right)
  then show ?thesis using mbuf.run_keeps [of s ?ops k] assms by (auto simp: bench_inv_def)
qed

lemma move_iteration_ok:
  assumes "bench_inv s (4 + k)"
  shows "\<exists>s'. move_iteration n s = Inr s' \<and> bench_inv s' k"
proof -
  let ?ops = "[Construct 1 (True, n), MoveConstruct 2 1, Destroy 2, Destroy 1]"
  have "move_iteration n s = exec_prog buf_ctor buf_move_construct buf_move_assign buf_destroy buf_use ?ops s"
    unfolding exec_prog_fun by (simp add: move_iteration_def buf_new_step rbind_Inr_right)
  moreover have "bench_inv s (Suc (Suc (Suc (Suc k))))" using assms by (simp add: numeral_eq_Suc)
  ultimately show ?thesis using mbuf.run_keeps [of s ?ops k] by (auto simp: bench_inv_def)
qed

lemma write_ok:
  assumes "buf_wf s m" and "bobjs s i = Some x" and "bf_data x = Some a" and "k < bf_size x"
  shows "\<exists>s'. buf_write i k v s = Inr s' \<and> buf_wf s' m \<and> buf_abs s' = buf_abs s \<and> bobjs s' = bobjs s"
proof -
  obtain bs where bs: "blocks (bheap s) a = Some bs" "length bs = bf_size x"
    using buf_wf_fits [OF assms(1,2)] assms(3) by (auto simp: buf_fits_def split: option.splits)
  let ?h = "(bheap s)\<lparr>blocks := (blocks (bheap s))(a \<mapsto> bs[k := v])\<rparr>"
  have w: "buf_write i k v s = Inr (s\<lparr>bheap := ?h\<rparr>)"
    using assms bs by (simp add: buf_write_def hwrite_def hblock_def)
  have "buf_fits ?h y = buf_fits (bheap s) y" for y
    using bs by (auto simp: buf_fits_def split: option.splits)
  moreover have "heap_ok ?h" using assms(1) bs by (auto simp: buf_wf_def heap_ok_def)
  ultimately have "buf_wf (s\<lparr>bheap := ?h\<rparr>) m" using assms(1) by (auto simp: buf_wf_def)
  moreover have "dom (blocks ?h) = dom (blocks (bheap s))" using bs by auto
  ultimately show ?thesis using w by (auto simp: buf_abs_def habs_def)
qed

lemma bench_construct_ok:
  assumes "buf_wf s (Suc k)" and "bobjs s = Map.empty" and "dom (blocks (bheap s)) = {}"
  shows "\<exists>s' x a. buf_new 0 n s = Inr s' \<and> bench_inv s' k \<and> bobjs s' 0 = Some x \<and> bf_data x = Some a \<and> bf_size x = n"
proof -
  have "own_inv (buf_abs s)" "objs (buf_abs s) = {}" "escaped (buf_abs s) = {}"
    using assms(2,3) by (simp_all add: buf_abs_def own_inv_habs_init)
  then obtain s' where s': "buf_new 0 n s = Inr s'" "bench_inv s' k"
    using mbuf.run_keeps [of s "[Construct 0 (True, n)]" k] assms(1)
    by (auto simp: bench_inv_def exec_prog_fun rbind_Inr_right buf_new_step)
  moreover have "bobjs s' 0 = Some \<lparr>bf_data = Some (brk (bheap s)), bf_size = n\<rparr>"
    using s'(1) by (auto simp: buf_new_def returned_def buf_construct_def halloc_def)
  ultimately show ?thesis by auto
qed

lemma bench_fill_ok:
  assumes "bench_inv s k" and "bobjs s 0 = Some x" and "bf_data x = Some a" and "bf_size x = n"
  shows "\<exists>s'. for_range 0 n (\<lambda>i. buf_write 0 i (f i)) s = Inr s' \<and> bench_inv s' k"
proof -
  have "\<exists>t'. buf_write 0 i (f i) t = Inr t' \<and> bench_inv t' k \<and> bobjs t' = bobjs s"
    if "bench_inv t k \<and> bobjs t = bobjs s" "i < n" for t i
    using write_ok [of t k 0 x a i "f i"] that assms(2-4) by (auto simp: bench_inv_def)
  then have "\<exists>s'. for_range 0 n (\<lambda>i. buf_write 0 i (f i)) s = Inr s' \<and> bench_inv s' k \<and> bobjs s' = bobjs s"
    using assms(1) by (intro for_range_invariant [where I = "\<lambda>i t. bench_inv t k \<and> bobjs t = bobjs s"]) simp_all
  then show ?thesis by blast
qed

lemma bench_loop_ok:
  assumes "\<And>t j. bench_inv t (d + j) \<Longrightarrow> \<exists>t'. body t = Inr t' \<and> bench_inv t' j" and "bench_inv s (d * m + k)"
  shows "\<exists>s'. for_range 0 m (\<lambda>_. body) s = Inr s' \<and> bench_inv s' k"
proof -
  have "\<exists>s'. for_range 0 m (\<lambda>_. body) s = Inr s' \<and> bench_inv s' (d * (m - m) + k)"
  proof (intro for_range_invariant [where I = "\<lambda>i t. bench_inv t (d * (m - i) + k)"])
    show "\<exists>t'. body t = Inr t' \<and> bench_inv t' (d * (m - Suc i) + k)" if "i < m" "bench_inv t (d * (m - i) + k)" for i t
    proof -
      have "m - i = Suc (m - Suc i)" using that(1) by simp
      then have "d * (m - i) + k = d + (d * (m - Suc i) + k)" by (simp only: mult_Suc_right add.assoc)
      then show ?thesis using assms(1) [of t "d * (m - Suc i) + k"] that(2) by (simp only:)
    qed
  qed (use assms(2) in simp_all)
  then show ?thesis by simp
qed

lemma bench_copy_vs_move_ok:
  assumes "buf_wf s (6001 + k)" and "bobjs s = Map.empty" and "dom (blocks (bheap s)) = {}"
  shows "\<exists>s'. bench_copy_vs_move n s = Inr s' \<and> bench_inv s' k"
proof -
  obtain s1 x a where s1: "buf_new 0 n s = Inr s1" "bench_inv s1 (6000 + k)" "bobjs s1 0 = Some x" "bf_data x = Some a" "bf_size x = n"
    using bench_construct_ok [of s "6000 + k" n] assms by auto
  obtain s2 where s2: "for_range 0 n (\<lambda>i. buf_write 0 i (of_nat i)) s1 = Inr s2" "bench_inv s2 (6000 + k)"
    using bench_fill_ok [OF s1(2-5)] by blast
  obtain s3 where s3: "for_range 0 1000 (\<lambda>_. copy_iteration) s2 = Inr s3" "bench_inv s3 (4000 + k)"
    using bench_loop_ok [of 2 copy_iteration s2 1000 "4000 + k"] copy_iteration_ok s2(2) by auto
  obtain s4 where s4: "for_range 0 1000 (\<lambda>_. move_iteration n) s3 = Inr s4" "bench_inv s4 k"
    using bench_loop_ok [of 4 "move_iteration n" s3 1000 k] move_iteration_ok s3(2) by auto
  show ?thesis using s1 s2 s3 s4 by (simp add: bench_copy_vs_move_def the_buf_def)
qed

text \<open>Leaving a test: the variables are gone, and a free store with nothing on it starts anew.\<close>

lemma nothing_left_empty: "nothing_left h \<Longrightarrow> heap_ok h \<Longrightarrow> dom (blocks h) = {}"
  by (force simp: nothing_left_def heap_ok_def list_all_iff)

lemma empty_nothing_left: "dom (blocks h) = {} \<Longrightarrow> nothing_left h"
  by (auto simp: nothing_left_def list_all_iff)

lemma reuse_nothing_left: "nothing_left (reuse h) \<Longrightarrow> reuse h = empty_heap"
  by (auto simp: reuse_def split: if_splits)

lemma buf_leave_clean: "buf_leave v = Inr v' \<Longrightarrow> bobjs (fst v') = Map.empty \<and> (\<exists>h. bheap (fst v') = reuse h)"
  by (auto simp: buf_leave_def rbind_eq_Inr split: prod.splits if_splits)

lemma cpp_state_clean: "cpp_state buf_leave ss v = Some v' \<Longrightarrow> bobjs (fst v') = Map.empty \<and> (\<exists>h. bheap (fst v') = reuse h)"
  by (induction buf_leave ss v rule: cpp_state.induct) (auto split: sum.splits if_splits dest: buf_leave_clean)

lemma cpp_states_append:
  "cpp_states leave (ts @ us) s = (case cpp_states leave ts s of None \<Rightarrow> None | Some s' \<Rightarrow> cpp_states leave us s')"
  by (induction ts arbitrary: s) (auto split: option.splits)

lemma cpp_states_clean:
  "cpp_states buf_leave ts v = Some v' \<Longrightarrow> ts \<noteq> [] \<Longrightarrow> bobjs (fst v') = Map.empty \<and> (\<exists>h. bheap (fst v') = reuse h)"
proof (induction ts arbitrary: v)
  case (Cons t ts)
  then obtain w where w: "cpp_state buf_leave (snd t) v = Some w" "cpp_states buf_leave ts w = Some v'"
    by (auto split: option.splits)
  then show ?case using Cons.IH [OF w(2)] cpp_state_clean [OF w(1)] by (cases ts) auto
qed simp

lemma bench_leave_ok:
  assumes "bench_inv s (Suc k)"
  shows "\<exists>s'. buf_leave (s, p) = Inr (s', p) \<and> nothing_left (bheap s')"
proof -
  have o: "bobjs s 1 = None" "bobjs s 0 \<noteq> None" using assms by (auto simp: bench_inv_def buf_abs_def)
  obtain t where t: "buf_destroy 0 s = Inr t" "objs (buf_abs t) = {}" "live (buf_abs t) = {}"
    using mbuf.run_no_leak [of s "[Destroy 0]"] mbuf.run_keeps [of s "[Destroy 0]" k] assms
    by (auto simp: bench_inv_def exec_prog_fun rbind_Inr_right own_inv_no_objs)
  then have "nothing_left (bheap t)" by (intro empty_nothing_left) (simp add: buf_abs_def)
  then have "nothing_left (reuse (bheap t))" by (simp add: reuse_def nothing_left_def empty_heap_def)
  with o t(1) show ?thesis by (auto simp: buf_leave_def)
qed

lemma test_buffer_passes:
  "case cpp_states buf_leave (test_buffer_main elide) (buf_init empty_heap, None) of
     None \<Rightarrow> False | Some v \<Rightarrow> nothing_left (bheap (fst v))"
proof -
  obtain s p where v: "cpp_states buf_leave (test_buffer_units elide) (buf_init empty_heap, None) = Some (s, p)"
      "nothing_left (bheap s)" "s_copies s = 0" "s_moves s = 0"
    using test_buffer_units_pass [of elide] by (auto split: option.splits)
  have "bobjs s = Map.empty" "bheap s = empty_heap"
    using cpp_states_clean [OF v(1)] v(2) reuse_nothing_left by (auto simp: test_buffer_units_def)
  moreover from this have "buf_wf s 6002" using v(3,4) by (simp add: buf_wf_def cnt_ok_def heap_ok_def empty_heap_def)
  ultimately obtain s1 where s1: "bench_copy_vs_move (1024 * 1024) s = Inr s1" "bench_inv s1 1"
    using bench_copy_vs_move_ok [of s 1 "1024 * 1024"] by (auto simp: empty_heap_def)
  obtain s2 where s2: "buf_leave (s1, p) = Inr (s2, p)" "nothing_left (bheap s2)" using bench_leave_ok [of s1 0 p] s1(2) by auto
  have "cpp_state buf_leave [bDo (bench_copy_vs_move (1024 * 1024))] (s, p) = Some (s2, p)"
    unfolding bDo_def cpp_state.simps prod.case s1(1) rbind_Inr sum.case s2(1) option.case by simp
  then show ?thesis
    unfolding test_buffer_main_def cpp_states_append v(1) option.case cpp_states.simps snd_conv using s2(2) by simp
qed

subsection \<open>\<open>test_primitives.cpp\<close>\<close>

text \<open>These tests have no state: each checks the results of calls, which fault on signed overflow.\<close>

definition pEQ :: "int \<Rightarrow> int res \<Rightarrow> unit cpp_stmt" where
  "pEQ n r = Assert (\<lambda>_. rbind r (\<lambda>v. Inr (n = v)))"

definition pTRUE :: "bool \<Rightarrow> unit cpp_stmt" where
  "pTRUE b = Assert (\<lambda>_. Inr b)"

definition price_of :: "price res \<Rightarrow> int res" where
  "price_of r = rbind r (\<lambda>p. Inr (price_value p))"

definition quantity_of :: "quantity res \<Rightarrow> int res" where
  "quantity_of r = rbind r (\<lambda>q. Inr (quantity_value q))"

definition test_price_construction :: "unit cpp_test" where
  "test_price_construction = (''test_price_construction'',
     [pEQ 500 (Inr (price_value (Price 500))), pEQ 0 (Inr (price_value (Price 0)))])"

definition test_price_arithmetic :: "unit cpp_test" where
  "test_price_arithmetic = (''test_price_arithmetic'',
     [pEQ 420 (price_of (price_add (Price 300) (Price 120))), pEQ 180 (price_of (price_sub (Price 300) (Price 120)))])"

definition test_price_comparisons :: "unit cpp_test" where
  "test_price_comparisons = (''test_price_comparisons'',
     let lo = Price 50; hi = Price 200 in
     [pTRUE (price_lt lo hi), pTRUE (price_gt hi lo), pTRUE (price_le lo lo), pTRUE (price_ge hi hi),
      pTRUE (price_ne lo hi), pTRUE (price_eq (Price 99) (Price 99))])"

definition test_quantity_construction :: "unit cpp_test" where
  "test_quantity_construction = (''test_quantity_construction'', [pEQ 1000 (Inr (quantity_value (Quantity 1000)))])"

definition test_quantity_arithmetic :: "unit cpp_test" where
  "test_quantity_arithmetic = (''test_quantity_arithmetic'',
     let a = Quantity 400; b = Quantity 100 in
     [pEQ 500 (quantity_of (quantity_add a b)), pEQ 300 (quantity_of (quantity_sub a b)),
      pEQ 800 (quantity_of (quantity_scale a 2))])"

definition test_quantity_comparisons :: "unit cpp_test" where
  "test_quantity_comparisons = (''test_quantity_comparisons'',
     let small = Quantity 10; big = Quantity 99 in
     [pTRUE (quantity_lt small big), pTRUE (quantity_gt big small), pTRUE (quantity_eq (Quantity 7) (Quantity 7)),
      pTRUE (quantity_ne small big)])"

text \<open>Its assertion is checked by the compiler.\<close>

definition test_types_are_distinct :: "unit cpp_test" where
  "test_types_are_distinct = (''test_types_are_distinct'', [])"

definition test_side_opposite :: "unit cpp_test" where
  "test_side_opposite = (''test_side_opposite'', [pTRUE (opposite Buy = Sell), pTRUE (opposite Sell = Buy)])"

definition test_side_str :: "unit cpp_test" where
  "test_side_str = (''test_side_str'', [pTRUE (''Buy'' = side_str Buy), pTRUE (''Sell'' = side_str Sell)])"

definition test_order_construction :: "unit cpp_test" where
  "test_order_construction = (''test_order_construction'',
     let ord = Order 42 (Price 9850) (Quantity 500) Sell in
     [pEQ 42 (Inr (sint (order_id ord))), pEQ 9850 (Inr (price_value (order_price ord))),
      pEQ 500 (Inr (quantity_value (order_qty ord))), pTRUE (order_side ord = Sell)])"

definition test_order_round_trip :: "unit cpp_test" where
  "test_order_round_trip = (''test_order_round_trip'',
     let p = Price 1234; q = Quantity 10; buy = Order 1 p q Buy;
         sell = (\<lambda>q2. Order 2 p q2 Sell); twice = quantity_scale q 2 in
     [pEQ 1234 (Inr (price_value (order_price buy))),
      pEQ 20 (quantity_of (rbind twice (\<lambda>q2. Inr (order_qty (sell q2))))),
      pTRUE (order_side buy = Buy),
      Assert (\<lambda>_. rbind twice (\<lambda>q2. Inr (order_side (sell q2) = Sell))),
      Assert (\<lambda>_. rbind twice (\<lambda>q2. Inr (opposite (order_side buy) = order_side (sell q2))))])"

definition test_symbol_id_known :: "unit cpp_test" where
  "test_symbol_id_known = (''test_symbol_id_known'',
     [pEQ 0 (Inr (symbol_id ''AAPL'')), pEQ 1 (Inr (symbol_id ''MSFT'')), pEQ 2 (Inr (symbol_id ''GOOG'')),
      pEQ 3 (Inr (symbol_id ''AMZN'')), pEQ 4 (Inr (symbol_id ''META'')), pEQ 5 (Inr (symbol_id ''NVDA'')),
      pEQ 6 (Inr (symbol_id ''TSLA'')), pEQ 7 (Inr (symbol_id ''JPM''))])"

definition test_symbol_id_unknown :: "unit cpp_test" where
  "test_symbol_id_unknown = (''test_symbol_id_unknown'',
     [pEQ (-1) (Inr (symbol_id ''UNKNOWN'')), pEQ (-1) (Inr (symbol_id ''XYZ'')), pEQ (-1) (Inr (symbol_id [])),
      pEQ (-1) (Inr (symbol_id ''aapl''))])"

text \<open>A \<open>static_assert\<close> too; its condition is the first of the test before.\<close>

definition test_symbol_id_constexpr :: "unit cpp_test" where
  "test_symbol_id_constexpr = (''test_symbol_id_constexpr'', [])"

definition test_num_symbols :: "unit cpp_test" where
  "test_num_symbols = (''test_num_symbols'', [pEQ 8 (Inr (int NUM_SYMBOLS))])"

definition test_primitives_main :: "unit cpp_test list" where
  "test_primitives_main =
     [test_price_construction, test_price_arithmetic, test_price_comparisons, test_quantity_construction,
      test_quantity_arithmetic, test_quantity_comparisons, test_types_are_distinct, test_side_opposite, test_side_str,
      test_order_construction, test_order_round_trip, test_symbol_id_known, test_symbol_id_unknown,
      test_symbol_id_constexpr, test_num_symbols]"

lemma test_primitives_passes: "cpp_states Inr test_primitives_main () = Some ()"
  by code_simp

end
