(* ===== verification/Ownership_Tests.thy ===== *)
theory Ownership_Tests
  imports Cpp_Tests Ownership
begin

section \<open>The unit tests of the ownership classes\<close>

text \<open>
  The program \<open>test_ownership.cpp\<close> of \<open>02-modern-cpp/exercises/ex1-raii-ownership\<close>, and the results on the three
  C++ test programs. The variables of a test are \<open>ScopedFd\<close> and \<open>UniqueBuffer<int>\<close> objects by number, the raw
  descriptors and a saved pointer. The runs are those in which the environment does not fail: \<open>open\<close> answers with
  the lowest descriptor that is not open, a call on an open descriptor succeeds, one on a closed descriptor fails
  with \<open>EBADF\<close>, and every \<open>new\<close> succeeds.
\<close>

record own_vars =
  ofds :: fd_state
  raw :: int
  released :: int
  oubs :: "int ub_state"
  optr :: ptr

definition lowest_fd :: "int list \<Rightarrow> int" where
  "lowest_fd xs =
     (case find (\<lambda>i. i \<notin> set xs) (map int [0..<Suc (length xs)]) of Some i \<Rightarrow> i | None \<Rightarrow> 0)"

text \<open>It is an answer the contract of \<open>ScopedFd\<close> allows the kernel.\<close>

lemma lowest_fd_fresh: "lowest_fd xs \<notin> set xs \<and> 0 \<le> lowest_fd xs"
proof -
  let ?c = "map int [0..<Suc (length xs)]"
  have "card (set ?c) = Suc (length xs)"
    by (simp add: card_image del: upt_Suc)
  then have "\<not> set ?c \<subseteq> set xs"
    using card_mono [of "set xs" "set ?c"] card_length [of xs] by fastforce
  then have "find (\<lambda>i. i \<notin> set xs) ?c \<noteq> None"
    by (auto simp: find_None_iff simp del: upt_Suc)
  then obtain i where i: "find (\<lambda>i. i \<notin> set xs) ?c = Some i" by blast
  then have "i \<notin> set xs \<and> i \<in> set ?c"
    unfolding find_Some_iff using nth_mem by metis
  then show ?thesis using i by (auto simp: lowest_fd_def simp del: upt_Suc)
qed

lemma lowest_fd_allowed: "owner_step (Use (FdOpen (lowest_fd (ftab (kern s))))) (fd_abs s) \<noteq> None"
  using lowest_fd_fresh [of "ftab (kern s)"] by simp

definition EBADF :: int where "EBADF = 9"

definition sys_read :: "int \<Rightarrow> kernel \<Rightarrow> int \<times> int" where
  "sys_read fd k = (if fd \<in> set (ftab k) then (0, 0) else (-1, EBADF))"

definition sys_write1 :: "int \<Rightarrow> kernel \<Rightarrow> int" where
  "sys_write1 fd k = (if fd \<in> set (ftab k) then 1 else -1)"

text \<open>Statements on the descriptors.\<close>

definition oFd :: "(fd_state \<Rightarrow> fd_state res) \<Rightarrow> own_vars cpp_stmt" where
  "oFd f = Exec (\<lambda>v. rbind (f (ofds v)) (\<lambda>s. Inr (v\<lparr>ofds := s\<rparr>)))"

definition oOpen :: "own_vars cpp_stmt" where
  "oOpen = Exec (\<lambda>v. let fd = lowest_fd (ftab (kern (ofds v)))
     in rbind (fd_use (FdOpen fd) (ofds v)) (\<lambda>s. Inr (v\<lparr>raw := fd, ofds := s\<rparr>)))"

definition oCtor :: "obj \<Rightarrow> own_vars cpp_stmt" where
  "oCtor i = Exec (\<lambda>v. rbind (fd_construct i (raw v) (ofds v)) (\<lambda>s. Inr (v\<lparr>ofds := s\<rparr>)))"

definition oOpened :: "own_vars cpp_stmt" where
  "oOpened = Assert (\<lambda>v. Inr (raw v \<ge> 0))"

definition the_fd :: "obj \<Rightarrow> (scoped_fd \<Rightarrow> own_vars \<Rightarrow> bool) \<Rightarrow> own_vars cpp_stmt" where
  "the_fd i c = Assert (\<lambda>v. case fdobjs (ofds v) i of None \<Rightarrow> Inl DeadObject | Some x \<Rightarrow> Inr (c x v))"

definition oRelease :: "obj \<Rightarrow> own_vars cpp_stmt" where
  "oRelease i = Exec (\<lambda>v. case fdobjs (ofds v) i of None \<Rightarrow> Inl DeadObject
     | Some x \<Rightarrow> rbind (fd_use (FdRelease i) (ofds v)) (\<lambda>s. Inr (v\<lparr>ofds := s, released := fst (fd_release x)\<rparr>)))"

definition oClose :: "own_vars cpp_stmt" where
  "oClose = Exec (\<lambda>v. rbind (fd_use (FdClose (released v)) (ofds v)) (\<lambda>s. Inr (v\<lparr>ofds := s\<rparr>)))"

text \<open>Statements on the buffers.\<close>

definition oUb :: "(int ub_state \<Rightarrow> int ub_state res) \<Rightarrow> own_vars cpp_stmt" where
  "oUb f = Exec (\<lambda>v. rbind (f (oubs v)) (\<lambda>s. Inr (v\<lparr>oubs := s\<rparr>)))"

definition the_ub :: "obj \<Rightarrow> (unique_buffer \<Rightarrow> own_vars \<Rightarrow> bool) \<Rightarrow> own_vars cpp_stmt" where
  "the_ub i c = Assert (\<lambda>v. case uobjs (oubs v) i of None \<Rightarrow> Inl DeadObject | Some b \<Rightarrow> Inr (c b v))"

definition oElem :: "obj \<Rightarrow> nat \<Rightarrow> int \<Rightarrow> own_vars cpp_stmt" where
  "oElem i k n = Assert (\<lambda>v. rbind (ub_read i k (oubs v)) (\<lambda>x. Inr (n = x)))"

definition oSave :: "obj \<Rightarrow> own_vars cpp_stmt" where
  "oSave i = Exec (\<lambda>v. case uobjs (oubs v) i of None \<Rightarrow> Inl DeadObject | Some b \<Rightarrow> Inr (v\<lparr>optr := ub_data b\<rparr>))"

text \<open>Leaving a test: the destructors of the objects that exist; then the objects are gone.\<close>

definition destroy_if :: "('s \<Rightarrow> bool) \<Rightarrow> ('s \<Rightarrow> 's res) \<Rightarrow> 's \<Rightarrow> 's res" where
  "destroy_if alive dtor s = (if alive s then dtor s else Inr s)"

definition own_leave :: "own_vars \<Rightarrow> own_vars res" where
  "own_leave v =
     rbind (destroy_if (\<lambda>s. fdobjs s 1 \<noteq> None) (fd_destroy 1) (ofds v)) (\<lambda>f1.
     rbind (destroy_if (\<lambda>s. fdobjs s 0 \<noteq> None) (fd_destroy 0) f1) (\<lambda>f2.
     rbind (destroy_if (\<lambda>s. uobjs s 1 \<noteq> None) (ub_destroy 1) (oubs v)) (\<lambda>u1.
     rbind (destroy_if (\<lambda>s. uobjs s 0 \<noteq> None) (ub_destroy 0) u1) (\<lambda>u2.
     Inr (v\<lparr>ofds := f2\<lparr>fdobjs := Map.empty\<rparr>, oubs := \<lparr>uheap = reuse (uheap u2), uobjs = Map.empty\<rparr>\<rparr>)))))"

subsection \<open>\<open>test_ownership.cpp\<close>\<close>

definition test_scoped_fd_valid :: "own_vars cpp_test" where
  "test_scoped_fd_valid = (''test_scoped_fd_valid'',
     [oOpen, oOpened, oCtor 0, the_fd 0 (\<lambda>x v. fd_valid x), the_fd 0 (\<lambda>x v. raw v = fd_get x)])"

definition test_scoped_fd_destructor_closes :: "own_vars cpp_test" where
  "test_scoped_fd_destructor_closes = (''test_scoped_fd_destructor_closes'',
     [oOpen, oOpened, oCtor 0, the_fd 0 (\<lambda>x v. fd_valid x), oFd (fd_destroy 0),
      Assert (\<lambda>v. Inr (-1 = fst (sys_read (raw v) (kern (ofds v))))),
      Assert (\<lambda>v. Inr (EBADF = snd (sys_read (raw v) (kern (ofds v)))))])"

definition test_scoped_fd_move :: "own_vars cpp_test" where
  "test_scoped_fd_move = (''test_scoped_fd_move'',
     [oOpen, oOpened, oCtor 0, oFd (fd_move_construct 1 0), the_fd 0 (\<lambda>x v. \<not> fd_valid x), the_fd 1 (\<lambda>x v. fd_valid x),
      the_fd 1 (\<lambda>x v. raw v = fd_get x)])"

text \<open>The two tests of copying are \<open>static_assert\<close>s.\<close>

definition test_scoped_fd_not_copyable :: "own_vars cpp_test" where
  "test_scoped_fd_not_copyable = (''test_scoped_fd_not_copyable'', [])"

definition test_scoped_fd_release :: "own_vars cpp_test" where
  "test_scoped_fd_release = (''test_scoped_fd_release'',
     [oOpen, oOpened, oCtor 0, oRelease 0, Assert (\<lambda>v. Inr (raw v = released v)), the_fd 0 (\<lambda>x v. \<not> fd_valid x),
      oFd (fd_destroy 0), Assert (\<lambda>v. Inr (1 = sys_write1 (released v) (kern (ofds v)))), oClose])"

definition test_unique_buffer_basic :: "own_vars cpp_test" where
  "test_unique_buffer_basic = (''test_unique_buffer_basic'',
     [oUb (\<lambda>s. returned (ub_construct True 0 10 s)), the_ub 0 (\<lambda>b v. ub_data b \<noteq> None), the_ub 0 (\<lambda>b v. 10 = ub_size b),
      oUb (ub_write 0 0 42), oUb (ub_write 0 9 99), oElem 0 0 42, oElem 0 9 99])"

definition test_unique_buffer_move :: "own_vars cpp_test" where
  "test_unique_buffer_move = (''test_unique_buffer_move'',
     [oUb (\<lambda>s. returned (ub_construct True 0 5 s)), the_ub 0 (\<lambda>b v. ub_data b \<noteq> None), oUb (ub_write 0 0 7), oSave 0, oUb (ub_move_construct 1 0),
      the_ub 0 (\<lambda>b v. ub_data b = None), the_ub 0 (\<lambda>b v. 0 = ub_size b), the_ub 1 (\<lambda>b v. optr v = ub_data b),
      oElem 1 0 7])"

definition test_unique_buffer_not_copyable :: "own_vars cpp_test" where
  "test_unique_buffer_not_copyable = (''test_unique_buffer_not_copyable'', [])"

text \<open>The state of a guard test is the flag its guard sets.\<close>

definition test_scope_guard_runs :: "own_vars cpp_test" where
  "test_scope_guard_runs = (''test_scope_guard_runs'',
     [Assert (\<lambda>_. Inr (\<not> fst (snd (guarded (make_scope_guard (\<lambda>_. True)) [] False)))),
      Assert (\<lambda>_. Inr (fst (guard_scope (\<lambda>_. True) [] False)))])"

definition test_scope_guard_dismiss :: "own_vars cpp_test" where
  "test_scope_guard_dismiss = (''test_scope_guard_dismiss'',
     [Assert (\<lambda>_. Inr (\<not> fst (guard_scope (\<lambda>_. True) [Dismiss] False)))])"

definition test_scope_guard_exception_path :: "own_vars cpp_test" where
  "test_scope_guard_exception_path = (''test_scope_guard_exception_path'',
     [Assert (\<lambda>_. Inr (fst (guard_scope (\<lambda>_. True) [Throw] False)))])"

definition test_ownership_main :: "own_vars cpp_test list" where
  "test_ownership_main =
     [test_scoped_fd_valid, test_scoped_fd_destructor_closes, test_scoped_fd_move, test_scoped_fd_not_copyable,
      test_scoped_fd_release, test_unique_buffer_basic, test_unique_buffer_move, test_unique_buffer_not_copyable,
      test_scope_guard_runs, test_scope_guard_dismiss, test_scope_guard_exception_path]"

text \<open>The program starts with the three standard descriptors.\<close>

definition own_vars0 :: own_vars where
  "own_vars0 = \<lparr>ofds = \<lparr>kern = \<lparr>ftab = [2, 1, 0], ebadf = 0\<rparr>, fdobjs = Map.empty\<rparr>, raw = 0, released = 0,
     oubs = \<lparr>uheap = empty_heap, uobjs = Map.empty\<rparr>, optr = None\<rparr>"

definition nothing_held :: "own_vars \<Rightarrow> bool" where
  "nothing_held v \<longleftrightarrow> kern (ofds v) = kern (ofds own_vars0) \<and> nothing_left (uheap (oubs v))"

lemma test_ownership_passes:
  "case cpp_states own_leave test_ownership_main own_vars0 of None \<Rightarrow> False | Some v \<Rightarrow> nothing_held v"
  by code_simp

subsection \<open>Main results\<close>

text \<open>In runs in which every \<open>new\<close> succeeds and the descriptor calls are answered as said above, the repository's own tests of \<open>Buffer\<close>, of the trading primitives and of the ownership classes on the
  models: the three programs end without a fault and with exit code 0, all their tests passed, whether or not
  the compiler builds a returned local in place; afterwards no block of the free store is left, the open
  descriptors are those from before, and no closed descriptor was closed again.\<close>

theorem cpp_test_programs:
  "(\<exists>v h'. cpp_main buf_leave (test_buffer_main elide) (buf_init empty_heap, None) h = Inr (v, h', 0) \<and>
      tests_passed h' = 10 \<and> nothing_left (bheap (fst v))) \<and>
   (\<exists>h'. cpp_main Inr test_primitives_main () h = Inr ((), h', 0) \<and> tests_passed h' = 15) \<and>
   (\<exists>v h'. cpp_main own_leave test_ownership_main own_vars0 h = Inr (v, h', 0) \<and> tests_passed h' = 11 \<and>
      kern (ofds v) = \<lparr>ftab = [2, 1, 0], ebadf = 0\<rparr> \<and> nothing_left (uheap (oubs v)))"
proof -
  obtain v where v: "cpp_states buf_leave (test_buffer_main elide) (buf_init empty_heap, None) = Some v"
      "nothing_left (bheap (fst v))"
    using test_buffer_passes [of elide] by (auto split: option.splits)
  obtain w where w: "cpp_states own_leave test_ownership_main own_vars0 = Some w" "nothing_held w"
    using test_ownership_passes by (auto split: option.splits)
  have "length (test_buffer_main elide) = 10" "length test_primitives_main = 15" "length test_ownership_main = 11"
    by (simp_all add: test_buffer_main_def test_buffer_units_def test_primitives_main_def test_ownership_main_def)
  moreover have "kern (ofds w) = \<lparr>ftab = [2, 1, 0], ebadf = 0\<rparr>" "nothing_left (uheap (oubs w))"
    using w(2) by (simp_all add: nothing_held_def own_vars0_def)
  ultimately show ?thesis
    using cpp_main_passes [OF v(1), of h] cpp_main_passes [OF test_primitives_passes, of h]
      cpp_main_passes [OF w(1), of h] v(2) by (cases v) auto
qed

end
