(* ===== verification/Report_Lines.thy ===== *)
theory Report_Lines
  imports C_Harness Decimal_Output
begin

section \<open>The report lines of the benchmarks\<close>

text \<open>
  The lines that \<open>print_result\<close>, \<open>print_throughput\<close> and \<open>print_latency_dist\<close> of \<open>tools/common.hpp\<close> print. \<open>rnd\<close>
  is the rounding of \<open>double\<close> arithmetic; a quotient by zero is printed as an infinity or, for \<open>0 / 0\<close>, as the
  text \<open>nan\<close> of the C library, a parameter.
\<close>

definition CYAN :: string where "CYAN = [CHR 0x1B] @ ''[96m''"

text \<open>The number and the unit; the sign of the microsecond is two bytes in UTF-8.\<close>

definition result_shown :: "(real \<Rightarrow> real) \<Rightarrow> real \<Rightarrow> real \<times> string" where
  "result_shown rnd ns_per_iter =
     (if ns_per_iter < 1000 then (ns_per_iter, ''ns'')
      else if ns_per_iter < 10 ^ 6 then (rnd (ns_per_iter / 1000), [CHR 0xC2, CHR 0xB5] @ ''s'')
      else (rnd (ns_per_iter / 10 ^ 6), ''ms''))"

definition print_result :: "(real \<Rightarrow> real) \<Rightarrow> string \<Rightarrow> real \<Rightarrow> int \<Rightarrow> string" where
  "print_result rnd label ns_per_iter iters =
     (let (v, u) = result_shown rnd ns_per_iter in
      CYAN @ ''  bench'' @ RESET @ '' '' @ field_left 40 label @ ''  '' @ field_right 6 (fmt_fixed 1 v) @ '' '' @ u @
      ''  ('' @ show_int iters @ '' iters)'' @ newline)"

definition mops_text :: "(real \<Rightarrow> real) \<Rightarrow> string \<Rightarrow> int \<Rightarrow> real \<Rightarrow> string" where
  "mops_text rnd nan ops total_ns =
     (if total_ns = 0 then (if ops = 0 then nan else if ops > 0 then ''inf'' else ''-inf'')
      else fmt_fixed 2 (rnd (rnd (rnd (of_int ops) / total_ns) * 1000)))"

definition print_throughput :: "(real \<Rightarrow> real) \<Rightarrow> string \<Rightarrow> string \<Rightarrow> int \<Rightarrow> real \<Rightarrow> string" where
  "print_throughput rnd nan label ops total_ns =
     CYAN @ ''  bench'' @ RESET @ '' '' @ field_left 40 label @ ''  '' @ field_right 6 (mops_text rnd nan ops total_ns) @
     '' Mops/s'' @ newline"

text \<open>\<open>print_latency_dist\<close> prints nothing for an empty sample; the percentiles are converted to \<open>double\<close>.\<close>

definition dist_line :: "(real \<Rightarrow> real) \<Rightarrow> string \<Rightarrow> real \<times> int \<times> int \<times> int \<Rightarrow> string" where
  "dist_line rnd label = (\<lambda>(avg, p50, p99, p999).
     CYAN @ ''  dist '' @ RESET @ '' '' @ field_left 30 label @ ''  avg='' @ fmt_fixed 0 avg @ ''ns  p50='' @
     fmt_fixed 0 (rnd (of_int p50)) @ ''ns  p99='' @ fmt_fixed 0 (rnd (of_int p99)) @ ''ns  p99.9='' @
     fmt_fixed 0 (rnd (of_int p999)) @ ''ns'' @ newline)"

definition latency_output :: "(real \<Rightarrow> real) \<Rightarrow> string \<Rightarrow> int list \<Rightarrow> string list res" where
  "latency_output rnd label samples =
     rbind (print_latency_dist rnd samples) (\<lambda>r.
       Inr (case r of None \<Rightarrow> [] | Some vals \<Rightarrow> [dist_line rnd label vals]))"

subsection \<open>Main results\<close>

lemma fmt_fixed_0_exact: "fmt_fixed 0 (of_int k) = show_int k"
proof -
  have "round_even (of_int \<bar>k\<bar>) = \<bar>k\<bar>" by (simp add: round_even_def del: of_int_abs)
  then show ?thesis by (simp add: fmt_fixed_def show_int_def Let_def flip: of_int_abs)
qed

lemma result_shown_range:
  assumes "mono rnd" and "rnd 0 = 0" and "rnd 1000 = 1000" and "0 \<le> ns" and "ns \<le> 10 ^ 9"
  shows "0 \<le> fst (result_shown rnd ns) \<and> fst (result_shown rnd ns) \<le> 1000"
proof -
  have "0 \<le> rnd x \<and> rnd x \<le> 1000" if "0 \<le> x" "x \<le> 1000" for x
    using monoD [OF assms(1) that(1)] monoD [OF assms(1) that(2)] assms(2,3) by simp
  from this [of "ns / 1000"] this [of "ns / 10 ^ 6"] show ?thesis
    using assms(4,5) by (simp add: result_shown_def)
qed

text \<open>What the unit of a line means, in nanoseconds.\<close>

definition unit_ns :: "string \<Rightarrow> real option" where
  "unit_ns u =
     (if u = ''ns'' then Some 1
      else if u = [CHR 0xC2, CHR 0xB5] @ ''s'' then Some 1000
      else if u = ''ms'' then Some (10 ^ 6) else None)"

text \<open>The number and the unit together are the time, up to one rounding of the quotient.\<close>

lemma result_shown_time:
  assumes "\<And>x. 1 \<le> x \<Longrightarrow> x \<le> 1000 \<Longrightarrow> \<bar>rnd x - x\<bar> \<le> x / 2 ^ 53" and "0 \<le> ns" and "ns < 10 ^ 9"
    and "result_shown rnd ns = (v, u)"
  shows "\<exists>scale. unit_ns u = Some scale \<and> 0 < scale \<and> \<bar>v * scale - ns\<bar> \<le> ns / 2 ^ 53 \<and>
    ns < 1000 * scale \<and> (scale = 1 \<or> scale \<le> ns)"
proof -
  have scaled: "\<bar>rnd (ns / k) * k - ns\<bar> \<le> ns / 2 ^ 53" if "0 < k" "k \<le> ns" "ns \<le> 1000 * k" for k
  proof -
    have "\<bar>rnd (ns / k) - ns / k\<bar> \<le> ns / k / 2 ^ 53"
      using that by (intro assms(1)) (simp_all add: field_simps)
    then have "\<bar>rnd (ns / k) - ns / k\<bar> * k \<le> ns / k / 2 ^ 53 * k" using that(1) by (intro mult_right_mono) simp_all
    moreover have "\<bar>rnd (ns / k) - ns / k\<bar> * k = \<bar>(rnd (ns / k) - ns / k) * k\<bar>" using that(1) by (simp add: abs_mult)
    moreover have "(rnd (ns / k) - ns / k) * k = rnd (ns / k) * k - ns" using that(1) by (simp add: field_simps)
    ultimately show ?thesis using that(1) by simp
  qed
  consider "ns < 1000" | "1000 \<le> ns" "ns < 10 ^ 6" | "10 ^ 6 \<le> ns" by linarith
  then show ?thesis
  proof cases
    case 1
    then show ?thesis using assms(2,4) by (auto simp: result_shown_def unit_ns_def)
  next
    case 2
    then show ?thesis using assms(4) scaled [of 1000] by (auto simp: result_shown_def unit_ns_def)
  next
    case 3
    then show ?thesis using assms(3,4) scaled [of "10 ^ 6"] by (auto simp: result_shown_def unit_ns_def)
  qed
qed

lemma near_scaled:
  fixes r v s t e :: real
  assumes "\<bar>r - v\<bar> \<le> 1 / 20" and "0 < s" and "\<bar>v * s - t\<bar> \<le> e"
  shows "\<bar>r * s - t\<bar> \<le> s / 20 + e"
proof -
  have "\<bar>r * s - v * s\<bar> = \<bar>r - v\<bar> * s" using assms(2) by (simp add: abs_mult flip: left_diff_distrib)
  also have "\<dots> \<le> 1 / 20 * s" using assms(1,2) by (intro mult_right_mono) simp_all
  finally have "\<bar>r * s - v * s\<bar> \<le> s / 20" by simp
  with assms(3) show ?thesis by linarith
qed

text \<open>C31: a time per iteration of at least zero and below a second, and a label of at most forty characters;
  the rounding of \<open>double\<close> is monotone, exact at 0 and 1000, and has a relative error of at most 2^-53
  between 1 and 1000. The line of \<open>print_result\<close> has its number in a field of six characters at a fixed column,
  followed by a unit, nanoseconds, microseconds or milliseconds. The number read back from the field times what the unit
  stands for is the time, to within a twentieth of that unit (half of the last printed place) and the
  rounding of the quotient; and the unit is the one in which the time is below 1000 and, unless it
  is nanoseconds, at least 1.\<close>

theorem result_line_accurate:
  assumes "mono rnd" and "rnd 0 = 0" and "rnd 1000 = 1000" and "\<And>x. 1 \<le> x \<Longrightarrow> x \<le> 1000 \<Longrightarrow> \<bar>rnd x - x\<bar> \<le> x / 2 ^ 53"
    and "0 \<le> ns" and "ns < 10 ^ 9" and "length label \<le> 40"
  shows "\<exists>field u scale. print_result rnd label ns iters =
      CYAN @ ''  bench'' @ RESET @ '' '' @ field_left 40 label @ ''  '' @ field @ '' '' @ u @
      ''  ('' @ show_int iters @ '' iters)'' @ newline \<and>
    length field = 6 \<and> length (CYAN @ ''  bench'' @ RESET @ '' '' @ field_left 40 label @ ''  '') = 59 \<and>
    unit_ns u = Some scale \<and> \<bar>real (read_decimal field) / 10 * scale - ns\<bar> \<le> scale / 20 + ns / 2 ^ 53 \<and>
    ns < 1000 * scale \<and> (scale = 1 \<or> scale \<le> ns)"
proof -
  obtain v u where vu: "result_shown rnd ns = (v, u)" by (cases "result_shown rnd ns")
  obtain scale where scale: "unit_ns u = Some scale" "0 < scale" "\<bar>v * scale - ns\<bar> \<le> ns / 2 ^ 53"
    "ns < 1000 * scale" "scale = 1 \<or> scale \<le> ns"
    using result_shown_time [OF assms(4,5,6) vu] by blast
  have v: "0 \<le> v" "v \<le> 1000" using result_shown_range [OF assms(1-3,5)] assms(6) vu by simp_all
  let ?field = "field_right 6 (fmt_fixed 1 v)"
  have "length (fmt_fixed 1 v) \<le> 6" using length_fmt_fixed [of v 1000 4 1] v by simp
  then have width: "length ?field = 6" by simp
  have "\<bar>real (read_decimal ?field) / 10 - v\<bar> \<le> 1 / 20"
    unfolding read_field_right using fmt_fixed_accurate [OF v(1), of 1] by simp
  then have near: "\<bar>real (read_decimal ?field) / 10 * scale - ns\<bar> \<le> scale / 20 + ns / 2 ^ 53"
    using scale(2,3) by (rule near_scaled)
  have "print_result rnd label ns iters =
      CYAN @ ''  bench'' @ RESET @ '' '' @ field_left 40 label @ ''  '' @ ?field @ '' '' @ u @
      ''  ('' @ show_int iters @ '' iters)'' @ newline"
    using vu by (simp add: print_result_def)
  moreover have "length (CYAN @ ''  bench'' @ RESET @ '' '' @ field_left 40 label @ ''  '') = 59"
    using assms(7) by (simp add: CYAN_def RESET_def)
  ultimately show ?thesis using width near scale(1,4,5) by blast
qed

theorem result_line_accurate_witness:
  "\<exists>field u. print_result (\<lambda>x. x) ''lookup'' 1234567 100 =
      CYAN @ ''  bench'' @ RESET @ '' '' @ field_left 40 ''lookup'' @ ''  '' @ field @ '' '' @ u @
      ''  ('' @ show_int 100 @ '' iters)'' @ newline \<and> length field = 6 \<and> unit_ns u = Some (10 ^ 6)"
proof -
  have big: "scale = 10 ^ 6" if "unit_ns u = Some scale" "1234567 < 1000 * scale" for u scale
    using that by (auto simp: unit_ns_def split: if_splits)
  show ?thesis using result_line_accurate [of "\<lambda>x. x" 1234567 "''lookup''" 100] big by (fastforce simp: mono_def)
qed

text \<open>The unit is chosen before the number is rounded, so that a time just below a microsecond is printed as
  \<open>1000.0 ns\<close>. The percentiles are printed exactly where \<open>double\<close> represents them.\<close>

lemma result_line_rounds_up: "fmt_fixed 1 (fst (result_shown rnd (99996 / 100))) = ''1000.0''"
proof -
  have "round_even (99996 / 10) = 10000" by (simp add: round_even_def floor_eq_iff Let_def)
  moreover have "digit 0 = CHR ''0''" "digit 1 = CHR ''1''" by code_simp+
  ultimately show ?thesis by (simp add: result_shown_def fmt_fixed_def Let_def show_nat.simps)
qed

lemma dist_line_exact:
  assumes "\<And>k. k \<in> {p50, p99, p999} \<Longrightarrow> rnd (of_int k) = of_int k"
  shows "dist_line rnd label (avg, p50, p99, p999) =
    CYAN @ ''  dist '' @ RESET @ '' '' @ field_left 30 label @ ''  avg='' @ fmt_fixed 0 avg @ ''ns  p50='' @ show_int p50 @
    ''ns  p99='' @ show_int p99 @ ''ns  p99.9='' @ show_int p999 @ ''ns'' @ newline"
  using assms by (simp add: dist_line_def fmt_fixed_0_exact)

end
