(* ===== verification/Cpp_Output.thy ===== *)
theory Cpp_Output
  imports C_Harness Decimal_Output
begin

section \<open>The C++ test header and its output\<close>

text \<open>
  The assertions of \<open>tools/common.hpp\<close> with everything they print. The counters and \<open>TEST_BEGIN\<close>, \<open>RUN_TEST\<close> and
  \<open>TEST_END\<close> have the text of the C header, and so the definitions of \<open>C_Harness\<close>; the assertions differ.
  \<open>ASSERT_EQ\<close> compares its sides in their own types, by the usual arithmetic conversions (\<open>int\<close> has 32 bits,
  \<open>long\<close> and \<open>long long\<close> have 64; narrower types are promoted to \<open>int\<close>), and converts them to \<open>long long\<close> only
  to print them. \<open>ASSERT_EQ_F\<close> compares \<open>double\<close> values, with \<open>sub\<close> as their subtraction. \<open>ASSERT_STR_EQ\<close> makes
  \<open>std::string\<close>s of its sides, which must not be null pointers, and prints them up to their first zero byte.
  \<open>ASSERT_THROWS\<close> gets what its expression raises and the exceptions that its type covers.
\<close>

subsection \<open>Comparison of integers\<close>

datatype int_type = TInt | TUInt | TLong | TULong

type_synonym c_value = "int_type \<times> int"

fun in_type :: "c_value \<Rightarrow> bool" where
  "in_type (TInt, x) \<longleftrightarrow> - 2147483648 \<le> x \<and> x < 2147483648"
| "in_type (TUInt, x) \<longleftrightarrow> 0 \<le> x \<and> x < 4294967296"
| "in_type (TLong, x) \<longleftrightarrow> - 9223372036854775808 \<le> x \<and> x < 9223372036854775808"
| "in_type (TULong, x) \<longleftrightarrow> 0 \<le> x \<and> x < 18446744073709551616"

fun convert :: "int_type \<Rightarrow> int \<Rightarrow> int" where
  "convert TInt x = (x + 2147483648) mod 4294967296 - 2147483648"
| "convert TUInt x = x mod 4294967296"
| "convert TLong x = to_long_long x"
| "convert TULong x = int (to_unsigned_long_long x)"

definition common_type :: "int_type \<Rightarrow> int_type \<Rightarrow> int_type" where
  "common_type t u =
     (if t = TULong \<or> u = TULong then TULong else if t = TLong \<or> u = TLong then TLong
      else if t = TUInt \<or> u = TUInt then TUInt else TInt)"

definition cpp_equal :: "c_value \<Rightarrow> c_value \<Rightarrow> bool" where
  "cpp_equal v w = (let t = common_type (fst v) (fst w) in convert t (snd v) = convert t (snd w))"

subsection \<open>The macros\<close>

definition cpp_fail :: "string \<Rightarrow> site \<Rightarrow> c_harness \<Rightarrow> c_harness res" where
  "cpp_fail msg loc h =
     (case ch_current h of None \<Rightarrow> Inl NullDeref
      | Some nm \<Rightarrow>
          (let h1 = cprintf (RED @ ''  FAIL'' @ RESET @ '' '' @ nm @ '': '' @ msg @ ''  ('' @ fst loc @ '':'' @
                 show_nat (snd loc) @ '')'' @ newline) h
           in Inr (h1\<lparr>ch_failed := ch_failed h1 + 1\<rparr>)))"

definition cpp_ASSERT_EQ :: "site \<Rightarrow> c_value \<Rightarrow> c_value \<Rightarrow> c_rest \<Rightarrow> c_rest" where
  "cpp_ASSERT_EQ loc expected actual rest h =
     (if \<not> cpp_equal expected actual
      then cpp_fail (''expected '' @ show_int (to_long_long (snd expected)) @ '', got '' @ show_int (to_long_long (snd actual))) loc h
      else rest h)"

definition cpp_ASSERT_EQ_F :: "(real \<Rightarrow> real \<Rightarrow> real) \<Rightarrow> site \<Rightarrow> real \<Rightarrow> real \<Rightarrow> real \<Rightarrow> c_rest \<Rightarrow> c_rest" where
  "cpp_ASSERT_EQ_F sub loc expected actual tol rest h =
     (if \<bar>sub expected actual\<bar> > tol
      then cpp_fail (''expected '' @ fmt_fixed 6 expected @ '', got '' @ fmt_fixed 6 actual) loc h
      else rest h)"

definition cpp_ASSERT_TRUE :: "site \<Rightarrow> string \<Rightarrow> bool \<Rightarrow> c_rest \<Rightarrow> c_rest" where
  "cpp_ASSERT_TRUE loc txt cond rest h = (if \<not> cond then cpp_fail (''assertion failed: '' @ txt) loc h else rest h)"

definition cpp_ASSERT_FALSE :: "site \<Rightarrow> string \<Rightarrow> bool \<Rightarrow> c_rest \<Rightarrow> c_rest" where
  "cpp_ASSERT_FALSE loc txt cond = cpp_ASSERT_TRUE loc (''!('' @ txt @ '')'') (\<not> cond)"

definition cpp_ASSERT_NULL :: "site \<Rightarrow> string \<Rightarrow> nat option \<Rightarrow> c_rest \<Rightarrow> c_rest" where
  "cpp_ASSERT_NULL loc txt ptr = cpp_ASSERT_TRUE loc (''('' @ txt @ '') == nullptr'') (ptr = None)"

definition cpp_ASSERT_NOT_NULL :: "site \<Rightarrow> string \<Rightarrow> nat option \<Rightarrow> c_rest \<Rightarrow> c_rest" where
  "cpp_ASSERT_NOT_NULL loc txt ptr = cpp_ASSERT_TRUE loc (''('' @ txt @ '') != nullptr'') (ptr \<noteq> None)"

definition c_str_text :: "string \<Rightarrow> string" where
  "c_str_text s = takeWhile (\<lambda>c. c \<noteq> CHR 0x00) s"

definition cpp_ASSERT_STR_EQ :: "site \<Rightarrow> string option \<Rightarrow> string option \<Rightarrow> c_rest \<Rightarrow> c_rest" where
  "cpp_ASSERT_STR_EQ loc expected actual rest h =
     (case (expected, actual) of
        (Some e, Some a) \<Rightarrow>
          if e \<noteq> a then cpp_fail (''expected \"'' @ c_str_text e @ ''\", got \"'' @ c_str_text a @ ''\"'') loc h else rest h
      | _ \<Rightarrow> Inl NullDeref)"

definition cpp_ASSERT_THROWS :: "site \<Rightarrow> string \<Rightarrow> fault list \<Rightarrow> fault option \<Rightarrow> c_rest \<Rightarrow> c_rest" where
  "cpp_ASSERT_THROWS loc ExcType covered raised rest h =
     (case raised of
        None \<Rightarrow> cpp_fail (''expected '' @ ExcType @ '' not thrown'') loc h
      | Some e \<Rightarrow> if e \<in> set covered then rest h else Inl e)"

datatype cpp_assertion =
    CppEq c_value c_value
  | CppEqF real real real
  | CppTrue string bool
  | CppFalse string bool
  | CppNull string "nat option"
  | CppNotNull string "nat option"
  | CppStrEq "string option" "string option"
  | CppThrows string "fault list" "fault option"

fun cpp_assert :: "(real \<Rightarrow> real \<Rightarrow> real) \<Rightarrow> cpp_assertion checker" where
  "cpp_assert sub loc (CppEq e a) = cpp_ASSERT_EQ loc e a"
| "cpp_assert sub loc (CppEqF e a tol) = cpp_ASSERT_EQ_F sub loc e a tol"
| "cpp_assert sub loc (CppTrue t c) = cpp_ASSERT_TRUE loc t c"
| "cpp_assert sub loc (CppFalse t c) = cpp_ASSERT_FALSE loc t c"
| "cpp_assert sub loc (CppNull t p) = cpp_ASSERT_NULL loc t p"
| "cpp_assert sub loc (CppNotNull t p) = cpp_ASSERT_NOT_NULL loc t p"
| "cpp_assert sub loc (CppStrEq e a) = cpp_ASSERT_STR_EQ loc e a"
| "cpp_assert sub loc (CppThrows t es r) = cpp_ASSERT_THROWS loc t es r"

subsection \<open>What an assertion checks and prints\<close>

fun cpp_holds :: "(real \<Rightarrow> real \<Rightarrow> real) \<Rightarrow> cpp_assertion \<Rightarrow> bool" where
  "cpp_holds sub (CppEq e a) \<longleftrightarrow> cpp_equal e a"
| "cpp_holds sub (CppEqF e a tol) \<longleftrightarrow> \<bar>sub e a\<bar> \<le> tol"
| "cpp_holds sub (CppTrue t c) \<longleftrightarrow> c"
| "cpp_holds sub (CppFalse t c) \<longleftrightarrow> \<not> c"
| "cpp_holds sub (CppNull t p) \<longleftrightarrow> p = None"
| "cpp_holds sub (CppNotNull t p) \<longleftrightarrow> p \<noteq> None"
| "cpp_holds sub (CppStrEq e a) \<longleftrightarrow> e = a"
| "cpp_holds sub (CppThrows t es r) \<longleftrightarrow> r \<noteq> None"

text \<open>No null pointer is made a string, and no exception leaves the test.\<close>

fun cpp_defined :: "cpp_assertion \<Rightarrow> bool" where
  "cpp_defined (CppStrEq e a) \<longleftrightarrow> e \<noteq> None \<and> a \<noteq> None"
| "cpp_defined (CppThrows t es r) \<longleftrightarrow> (case r of None \<Rightarrow> True | Some e \<Rightarrow> e \<in> set es)"
| "cpp_defined _ \<longleftrightarrow> True"

fun cpp_message :: "cpp_assertion \<Rightarrow> string" where
  "cpp_message (CppEq e a) = ''expected '' @ show_int (to_long_long (snd e)) @ '', got '' @ show_int (to_long_long (snd a))"
| "cpp_message (CppEqF e a tol) = ''expected '' @ fmt_fixed 6 e @ '', got '' @ fmt_fixed 6 a"
| "cpp_message (CppTrue t c) = ''assertion failed: '' @ t"
| "cpp_message (CppFalse t c) = ''assertion failed: !('' @ t @ '')''"
| "cpp_message (CppNull t p) = ''assertion failed: ('' @ t @ '') == nullptr''"
| "cpp_message (CppNotNull t p) = ''assertion failed: ('' @ t @ '') != nullptr''"
| "cpp_message (CppStrEq e a) = ''expected \"'' @ c_str_text (the e) @ ''\", got \"'' @ c_str_text (the a) @ ''\"''"
| "cpp_message (CppThrows t es r) = ''expected '' @ t @ '' not thrown''"

lemma cpp_fail_eq: "cpp_fail = c_fail"
  by (simp add: fun_eq_iff cpp_fail_def c_fail_def fail_line_def cprintf_def split: option.splits)

lemma cpp_assert_spec:
  "cpp_defined a \<Longrightarrow> cpp_assert sub loc a rest h = (if cpp_holds sub a then rest h else c_fail (cpp_message a) loc h)"
  by (cases a)
    (auto simp: cpp_ASSERT_EQ_def cpp_ASSERT_EQ_F_def cpp_ASSERT_TRUE_def cpp_ASSERT_FALSE_def cpp_ASSERT_NULL_def
      cpp_ASSERT_NOT_NULL_def cpp_ASSERT_STR_EQ_def cpp_ASSERT_THROWS_def cpp_fail_eq split: option.splits)

interpretation cpp_header: test_header "cpp_assert sub" "cpp_holds sub" cpp_defined cpp_message for sub
  by unfold_locales (rule cpp_assert_spec)

subsection \<open>The two headers\<close>

text \<open>On values of their types the headers compare alike, unless an \<open>int\<close> meets an \<open>unsigned\<close>.\<close>

definition mixed :: "c_value \<Rightarrow> c_value \<Rightarrow> bool" where
  "mixed v w \<longleftrightarrow> {fst v, fst w} = {TInt, TUInt}"

lemma long_long_mod: "to_long_long x = to_long_long y \<longleftrightarrow> x mod 18446744073709551616 = y mod 18446744073709551616"
  unfolding to_long_long_def by (simp add: mod_eq_dvd_iff)

lemma in_type_small: "in_type v \<Longrightarrow> fst v \<noteq> TULong \<Longrightarrow> to_long_long (snd v) = snd v"
  by (cases v rule: in_type.cases) (auto simp: to_long_long_def)

lemma convert_own: "in_type v \<Longrightarrow> convert (fst v) (snd v) = snd v"
  by (cases v rule: in_type.cases) (auto simp: to_long_long_def to_unsigned_long_long_def)

lemma cpp_equal_as_c:
  assumes "in_type v" and "in_type w" and "\<not> mixed v w"
  shows "cpp_equal v w \<longleftrightarrow> to_long_long (snd v) = to_long_long (snd w)"
proof -
  consider "fst v = TULong \<or> fst w = TULong" | "fst v = fst w" "fst v \<noteq> TULong"
    | "fst v \<noteq> TULong" "fst w \<noteq> TULong" "common_type (fst v) (fst w) = TLong"
    using assms(3) by (cases "fst v"; cases "fst w") (auto simp: mixed_def common_type_def)
  then show ?thesis
  proof cases
    case 1
    then show ?thesis by (auto simp: cpp_equal_def common_type_def long_long_mod to_unsigned_long_long_def)
  next
    case 2
    then have "common_type (fst v) (fst w) = fst v" by (cases "fst v") (simp_all add: common_type_def)
    then show ?thesis using 2 assms(1,2) convert_own [of v] convert_own [of w] in_type_small [of v] in_type_small [of w]
      by (simp add: cpp_equal_def)
  next
    case 3
    then show ?thesis by (simp add: cpp_equal_def)
  qed
qed

text \<open>Of an \<open>int\<close> and an \<open>unsigned\<close> the first is converted: the C++ header accepts 4294967295 where \<open>-1\<close> is expected.
  Both headers accept \<open>2 ^ 64 - 1\<close> there, as a \<open>size_t\<close>.\<close>

lemma cpp_equal_mixed: "in_type (TInt, x) \<Longrightarrow> in_type (TUInt, y) \<Longrightarrow> cpp_equal (TInt, x) (TUInt, y) \<longleftrightarrow> x = y \<or> x + 4294967296 = y"
proof -
  assume x: "in_type (TInt, x)" and y: "in_type (TUInt, y)"
  then have "x mod 4294967296 = (if x < 0 then x + 4294967296 else x)"
    using mod_pos_pos_trivial [of "x + 4294967296" 4294967296] by simp
  then show ?thesis using x y by (auto simp: cpp_equal_def common_type_def)
qed

lemma cpp_assert_eq_wraps:
  "cpp_equal (TInt, -1) (TUInt, 4294967295) \<and> \<not> holds (EQ (-1) 4294967295) \<and>
   cpp_equal (TInt, -1) (TULong, 18446744073709551615) \<and> holds (EQ (-1) 18446744073709551615)"
  by (simp add: cpp_equal_def common_type_def to_long_long_def to_unsigned_long_long_def)

text \<open>
  The assertions that both headers have, and what the C header makes of them. The two null-pointer
  assertions check the same in both and print different messages; \<open>null_assertion\<close> singles them out.
\<close>

fun shared :: "cpp_assertion \<Rightarrow> bool" where
  "shared (CppEq e a) \<longleftrightarrow> in_type e \<and> in_type a \<and> \<not> mixed e a"
| "shared (CppTrue t c) \<longleftrightarrow> True"
| "shared (CppFalse t c) \<longleftrightarrow> True"
| "shared (CppNull t p) \<longleftrightarrow> True"
| "shared (CppNotNull t p) \<longleftrightarrow> True"
| "shared (CppStrEq (Some e) (Some a)) \<longleftrightarrow> CHR 0x00 \<notin> set e \<and> CHR 0x00 \<notin> set a"
| "shared _ \<longleftrightarrow> False"

fun to_c :: "cpp_assertion \<Rightarrow> c_assertion" where
  "to_c (CppEq e a) = EQ (snd e) (snd a)"
| "to_c (CppTrue t c) = IS_TRUE t c"
| "to_c (CppFalse t c) = IS_FALSE t c"
| "to_c (CppNull t p) = IS_NULL p"
| "to_c (CppNotNull t p) = NOT_NULL p"
| "to_c (CppStrEq e a) = STR_EQ e a"
| "to_c _ = IS_TRUE [] True"

fun null_assertion :: "cpp_assertion \<Rightarrow> bool" where
  "null_assertion (CppNull t p) \<longleftrightarrow> True"
| "null_assertion (CppNotNull t p) \<longleftrightarrow> True"
| "null_assertion _ \<longleftrightarrow> False"

definition as_c :: "cpp_assertion listed_test \<Rightarrow> c_assertion listed_test" where
  "as_c t = (fst t, map (\<lambda>(loc, a). (loc, to_c a)) (snd t))"

lemma c_str_text_id: "CHR 0x00 \<notin> set s \<Longrightarrow> c_str_text s = s"
  unfolding c_str_text_def by (rule takeWhile_eq_all_conv [THEN iffD2]) auto

lemma shared_agree: "shared a \<Longrightarrow> cpp_defined a \<and> defined (to_c a) \<and> holds (to_c a) = cpp_holds sub a"
  by (cases a rule: shared.cases) (simp_all add: cpp_equal_as_c)

lemma shared_message: "shared a \<Longrightarrow> \<not> null_assertion a \<Longrightarrow> message sp (to_c a) = cpp_message a"
  by (cases a rule: shared.cases) (simp_all add: c_str_text_id or_null_def)

lemma first_failure_as_c:
  "list_all (shared \<circ> snd) as \<Longrightarrow> first_failure holds (map (\<lambda>(loc, a). (loc, to_c a)) as) =
    map_option (\<lambda>(loc, a). (loc, to_c a)) (first_failure (cpp_holds sub) as)"
  by (induction as) (auto simp: shared_agree [where sub = sub])

lemma first_failure_in: "first_failure ok as = Some (loc, a) \<Longrightarrow> (loc, a) \<in> set as \<and> \<not> ok a"
  by (induction ok as rule: first_failure.induct) (auto split: if_splits)

definition all_shared :: "cpp_assertion listed_test \<Rightarrow> bool" where
  "all_shared t \<longleftrightarrow> list_all (shared \<circ> snd) (snd t)"

lemma conditions_as_c: "all_shared t \<Longrightarrow> conditions holds (as_c t) = conditions (cpp_holds sub) t"
  using shared_agree [where sub = sub] by (auto simp: conditions_def as_c_def all_shared_def list_all_iff)

lemma well_defined_as_c: "all_shared t \<Longrightarrow> well_defined (cpp_holds sub) cpp_defined t \<and> well_defined holds defined (as_c t)"
  using shared_agree by (fastforce simp: well_defined_def all_shared_def as_c_def list_all_iff intro!: guarded_all)

text \<open>
  The lines of a test on the two headers: a failing null-pointer assertion prints its expression in
  C++, and in C the pointer (\<open>%p\<close> is \<open>sp\<close>) or that there is none; every other line is the same.
\<close>

definition lines_correspond ::
  "(real \<Rightarrow> real \<Rightarrow> real) \<Rightarrow> (nat \<Rightarrow> string) \<Rightarrow> cpp_assertion listed_test \<Rightarrow> string \<Rightarrow> string \<Rightarrow> bool" where
  "lines_correspond sub sp t cpp_line c_line \<longleftrightarrow>
     (case first_failure (cpp_holds sub) (snd t) of
        Some (loc, CppNull x p) \<Rightarrow>
          cpp_line = fail_line (fst t) (''assertion failed: ('' @ x @ '') == nullptr'') loc \<and>
          c_line = fail_line (fst t) (''expected NULL, got '' @ sp (the p)) loc
      | Some (loc, CppNotNull x p) \<Rightarrow>
          cpp_line = fail_line (fst t) (''assertion failed: ('' @ x @ '') != nullptr'') loc \<and>
          c_line = fail_line (fst t) ''expected non-NULL, got NULL'' loc
      | Some (loc, a) \<Rightarrow> c_line = cpp_line \<and> cpp_line = fail_line (fst t) (cpp_message a) loc
      | None \<Rightarrow> c_line = cpp_line \<and> cpp_line = GREEN @ ''  PASS'' @ RESET @ '' '' @ fst t @ newline)"

lemma test_lines_correspond:
  assumes "all_shared t"
  shows "lines_correspond sub sp t (test_line (cpp_holds sub) cpp_message t) (test_line holds (message sp) (as_c t))"
proof -
  have a: "list_all (shared \<circ> snd) (snd t)" using assms by (simp add: all_shared_def)
  note ff = first_failure_as_c [OF a, of sub]
  show ?thesis
  proof (cases "first_failure (cpp_holds sub) (snd t)")
    case None
    then show ?thesis using ff by (simp add: lines_correspond_def test_line_def as_c_def)
  next
    case (Some f)
    obtain loc b where f: "f = (loc, b)" by (cases f)
    with Some have "shared b" "\<not> cpp_holds sub b"
      using a first_failure_in [of "cpp_holds sub" "snd t" loc b] by (auto simp: list_all_iff)
    have lines: "test_line (cpp_holds sub) cpp_message t = fail_line (fst t) (cpp_message b) loc"
      "test_line holds (message sp) (as_c t) = fail_line (fst t) (message sp (to_c b)) loc"
      using ff Some f by (simp_all add: test_line_def as_c_def)
    show ?thesis
    proof (cases "null_assertion b")
      case True
      then show ?thesis
        using lines Some f \<open>\<not> cpp_holds sub b\<close> by (cases b) (auto simp: lines_correspond_def)
    next
      case False
      then have "message sp (to_c b) = cpp_message b" using \<open>shared b\<close> by (intro shared_message)
      then have same: "test_line holds (message sp) (as_c t) = test_line (cpp_holds sub) cpp_message t"
        unfolding lines by (rule arg_cong)
      show ?thesis
        unfolding same lines_correspond_def Some f using lines(1) False by (cases b) simp_all
    qed
  qed
qed

subsection \<open>Main result\<close>

text \<open>A program on the C++ header whose assertions are defined: one line per test, then the summary of the counters.\<close>

lemma cpp_harness_reports:
  assumes "list_all (well_defined (cpp_holds sub) cpp_defined) ts"
  shows "\<exists>h' code. listed_main (cpp_assert sub) ts h = Inr (h', code) \<and>
    (harness_of h', code) = test_main (map (conditions (cpp_holds sub)) ts) (harness_of h) \<and>
    ch_out h' = ch_out h @ map (test_line (cpp_holds sub) cpp_message) ts @ [summary_line h']"
  using cpp_header.listed_main_result [OF assms, of h] end_result [of "cpp_holds sub" cpp_message ts h] by (metis surj_pair)

text \<open>An exception of another type than the expected one leaves the test and ends the program.\<close>

lemma unexpected_exception: "e \<notin> set es \<Longrightarrow> c_RUN_TEST nm (test_fn (cpp_assert sub) ((loc, CppThrows t es (Some e)) # as)) h = Inl e"
  by (simp add: c_RUN_TEST_def Let_def cpp_ASSERT_THROWS_def)

text \<open>The counters at the end of a program.\<close>

lemma end_counts:
  assumes "(harness_of h', code) = test_main (map (conditions ok) ts) h0"
  shows "ch_run h' = int (length ts) \<and> ch_passed h' + ch_failed h' = ch_run h' \<and>
    (code = 0 \<longleftrightarrow> (\<forall>t \<in> set ts. \<forall>a \<in> set (snd t). ok (snd a)))"
proof -
  let ?P = "\<lambda>t. \<forall>c \<in> set (snd t). c" and ?cs = "map (conditions ok) ts"
  define p n where "p = length (filter ?P ?cs)" and "n = length (filter (\<lambda>t. \<not> ?P t) ?cs)"
  have "p + n = length ts" unfolding p_def n_def by (simp only: sum_length_filter_compl length_map)
  moreover have "n = 0 \<longleftrightarrow> (\<forall>t \<in> set ts. \<forall>a \<in> set (snd t). ok (snd a))"
    by (simp add: n_def filter_empty_conv conditions_def)
  moreover have "harness_of h' = run_tests ?cs (TEST_BEGIN h0)" "code = (if n = 0 then 0 else 1)"
    using assms run_tests_counts(3) [of ?cs "TEST_BEGIN h0", folded n_def] by (simp_all add: test_main_def Let_def TEST_END_def TEST_BEGIN_def)
  moreover have "ch_run h' = tests_run (harness_of h')" "ch_passed h' = tests_passed (harness_of h')"
      "ch_failed h' = tests_failed (harness_of h')" by (simp_all add: harness_of_def)
  ultimately show ?thesis
    using run_tests_counts [of ?cs "TEST_BEGIN h0", folded p_def n_def] by (simp add: TEST_BEGIN_def)
qed

text \<open>The summary shows the counters only.\<close>

lemma summary_line_counters: "harness_of h = harness_of k \<Longrightarrow> summary_line h = summary_line k"
  by (simp add: harness_of_def summary_line_def)

text \<open>C27: a test program uses any of the assertions both headers have: \<open>ASSERT_EQ\<close> on values of their types
  with no \<open>int\<close> compared to an \<open>unsigned\<close>, \<open>ASSERT_TRUE\<close>, \<open>ASSERT_FALSE\<close>, \<open>ASSERT_NULL\<close>, \<open>ASSERT_NOT_NULL\<close>, and
  \<open>ASSERT_STR_EQ\<close> on two strings, neither a null pointer. On either header it runs to its end with the same counters
  and exit code, those of the conditions: every test is counted, as passed or as failed, and the exit code is 0 exactly
  when every assertion holds. Each run prints one line per test and then the same summary. The lines of
  a test are the same, the PASS line or the FAIL line of the first assertion that fails, unless that assertion is one of the two about
  null pointers: there C++ prints the expression and C prints the pointer, or that it got NULL.\<close>

theorem test_headers_agree:
  assumes "list_all all_shared ts"
  shows "\<exists>h1 h2 code. listed_main (cpp_assert sub) ts h = Inr (h1, code) \<and>
    listed_main (c_assert sp) (map as_c ts) h = Inr (h2, code) \<and> harness_of h1 = harness_of h2 \<and>
    (harness_of h1, code) = test_main (map (conditions (cpp_holds sub)) ts) (harness_of h) \<and>
    ch_run h1 = int (length ts) \<and> ch_passed h1 + ch_failed h1 = ch_run h1 \<and>
    (code = 0 \<longleftrightarrow> (\<forall>t \<in> set ts. \<forall>a \<in> set (snd t). cpp_holds sub (snd a))) \<and>
    (\<exists>ls1 ls2. ch_out h1 = ch_out h @ ls1 @ [summary_line h1] \<and> ch_out h2 = ch_out h @ ls2 @ [summary_line h1] \<and>
      length ls1 = length ts \<and> length ls2 = length ts \<and>
      (\<forall>i < length ts. lines_correspond sub sp (ts ! i) (ls1 ! i) (ls2 ! i)))"
proof -
  have w: "list_all (well_defined (cpp_holds sub) cpp_defined) ts" "list_all (well_defined holds defined) (map as_c ts)"
    using assms well_defined_as_c by (auto simp: list_all_iff)
  have conds: "map (conditions holds) (map as_c ts) = map (conditions (cpp_holds sub)) ts"
    using assms conditions_as_c by (auto simp: list_all_iff)
  obtain h1 code where e1: "c_TEST_END (fold (run_result (cpp_holds sub) cpp_message) ts (c_TEST_BEGIN h)) = (h1, code)"
    by (meson surj_pair)
  obtain h2 code2 where e2: "c_TEST_END (fold (run_result holds (message sp)) (map as_c ts) (c_TEST_BEGIN h)) = (h2, code2)"
    by (meson surj_pair)
  note r1 = end_result [OF e1] and r2 = end_result [OF e2, unfolded conds]
  have same: "harness_of h1 = harness_of h2" "code2 = code" using r1 r2 by (metis fst_conv, metis snd_conv)
  let ?ls1 = "map (test_line (cpp_holds sub) cpp_message) ts" and ?ls2 = "map (test_line holds (message sp)) (map as_c ts)"
  have "listed_main (cpp_assert sub) ts h = Inr (h1, code)" "listed_main (c_assert sp) (map as_c ts) h = Inr (h2, code)"
    using e1 e2 same(2) by (simp_all add: cpp_header.listed_main_result [OF w(1)] c_header.listed_main_result [OF w(2)] del: fold_map)
  moreover have "ch_out h2 = ch_out h @ ?ls2 @ [summary_line h1]"
    using r2 summary_line_counters [OF same(1)] by simp
  moreover have "\<forall>i < length ts. lines_correspond sub sp (ts ! i) (?ls1 ! i) (?ls2 ! i)"
    using assms test_lines_correspond by (simp add: list_all_length)
  moreover have "length ?ls1 = length ts" "length ?ls2 = length ts" by simp_all
  ultimately show ?thesis using r1 same(1) end_counts [OF conjunct1 [OF r1]] by blast
qed

theorem test_headers_agree_witness:
  "\<exists>h1 h2. listed_main (cpp_assert (\<lambda>x y. x - y)) [(''t1'', [((''f.cpp'', 3), CppEq (TInt, 1) (TULong, 1))]),
      (''t2'', [((''f.cpp'', 7), CppNull ''p'' (Some 5)), ((''f.cpp'', 8), CppTrue ''x'' True)])]
      \<lparr>ch_run = 0, ch_passed = 0, ch_failed = 0, ch_current = None, ch_out = []\<rparr> = Inr (h1, 1) \<and> length (ch_out h1) = 3 \<and>
    ch_out h1 ! 1 = fail_line ''t2'' ''assertion failed: (p) == nullptr'' (''f.cpp'', 7) \<and>
    listed_main (c_assert (\<lambda>_. ''0x5'')) [(''t1'', [((''f.cpp'', 3), EQ 1 1)]),
      (''t2'', [((''f.cpp'', 7), IS_NULL (Some 5)), ((''f.cpp'', 8), IS_TRUE ''x'' True)])]
      \<lparr>ch_run = 0, ch_passed = 0, ch_failed = 0, ch_current = None, ch_out = []\<rparr> = Inr (h2, 1) \<and> length (ch_out h2) = 3 \<and>
    ch_out h2 ! 1 = fail_line ''t2'' ''expected NULL, got 0x5'' (''f.cpp'', 7)"
proof -
  let ?ts = "[(''t1'', [((''f.cpp'', 3), CppEq (TInt, 1) (TULong, 1))]),
      (''t2'', [((''f.cpp'', 7), CppNull ''p'' (Some 5)), ((''f.cpp'', 8), CppTrue ''x'' True)])]"
  let ?h = "\<lparr>ch_run = 0, ch_passed = 0, ch_failed = 0, ch_current = None, ch_out = []\<rparr>" and ?sub = "\<lambda>x y :: real. x - y"
  have "list_all all_shared ?ts" by (auto simp: all_shared_def mixed_def)
  from test_headers_agree [OF this, where sub = ?sub and sp = "\<lambda>_. ''0x5''" and h = ?h]
  obtain h1 h2 code ls1 ls2 where r: "listed_main (cpp_assert ?sub) ?ts ?h = Inr (h1, code)"
      "listed_main (c_assert (\<lambda>_. ''0x5'')) (map as_c ?ts) ?h = Inr (h2, code)"
      "(harness_of h1, code) = test_main (map (conditions (cpp_holds ?sub)) ?ts) (harness_of ?h)"
      "ch_out h1 = ls1 @ [summary_line h1]" "ch_out h2 = ls2 @ [summary_line h1]" "length ls1 = 2" "length ls2 = 2"
      "\<forall>i < 2. lines_correspond ?sub (\<lambda>_. ''0x5'') (?ts ! i) (ls1 ! i) (ls2 ! i)" by auto
  have "cpp_equal (TInt, 1) (TULong, 1)" by (simp add: cpp_equal_def common_type_def)
  then have "snd (test_main (map (conditions (cpp_holds ?sub)) ?ts) (harness_of ?h)) = 1"
    by (simp add: test_main_def Let_def TEST_END_def run_tests_counts TEST_BEGIN_def conditions_def del: run_tests.simps)
  then have "code = 1" using r(3) by (metis snd_conv)
  moreover have "lines_correspond ?sub (\<lambda>_. ''0x5'') (?ts ! 1) (ls1 ! 1) (ls2 ! 1)" by (rule r(8) [THEN spec, THEN mp]) simp
  then have "ls1 ! 1 = fail_line ''t2'' ''assertion failed: (p) == nullptr'' (''f.cpp'', 7)"
    "ls2 ! 1 = fail_line ''t2'' ''expected NULL, got 0x5'' (''f.cpp'', 7)"
    by (simp_all add: lines_correspond_def)
  moreover have "map as_c ?ts = [(''t1'', [((''f.cpp'', 3), EQ 1 1)]),
      (''t2'', [((''f.cpp'', 7), IS_NULL (Some 5)), ((''f.cpp'', 8), IS_TRUE ''x'' True)])]" by (simp add: as_c_def)
  ultimately show ?thesis using r by (intro exI [of _ h1] exI [of _ h2]) (simp add: nth_append)
qed

end
