(* ===== verification/Pool_Vector.thy ===== *)
theory Pool_Vector
  imports Pool_Allocator Sequence_Spec
begin

section \<open>Vectors on the pool allocator\<close>

text \<open>
  The client of the allocator: \<open>std::vector<T, PoolAllocator<T>>\<close> as \<open>test_pool_allocator.cpp\<close> of
  \<open>03-stl-internals/exercises/ex3-pool-allocator\<close> uses it. The pool is \<open>g_pool\<close>, an array of bytes, and the offset
  \<open>g_offset\<close>; a vector has a pointer into the pool, a size and a capacity, and any number of vectors share the
  pool. The element type is given by its size and its representation in bytes. The library leaves the new
  capacity of a full vector open: it is the parameter \<open>grow\<close>, of which \<open>growth_policy\<close> asks what the
  implementations do, growing by a factor between one and a half and two. A thrown exception is an outcome
  of a call, and the program goes on with the state the call left.
\<close>

record 'a elem_type =
  elem_size :: "64 word"
  to_bytes :: "'a \<Rightarrow> 8 word list"
  of_bytes :: "8 word list \<Rightarrow> 'a"
  elem_dom :: "'a \<Rightarrow> bool"

abbreviation esize :: "'a elem_type \<Rightarrow> nat" where
  "esize T \<equiv> unat (elem_size T)"

record pvec =
  v_data :: "64 word option"
  v_size :: nat
  v_cap :: nat

record pool_state =
  g_offset :: "64 word"
  g_pool :: "nat \<Rightarrow> 8 word"
  pvecs :: "nat \<Rightarrow> pvec option"

subsection \<open>Bytes\<close>

definition bytes_at :: "(nat \<Rightarrow> 8 word) \<Rightarrow> nat \<Rightarrow> nat \<Rightarrow> 8 word list" where
  "bytes_at m p n = map m [p..<p + n]"

definition put_bytes :: "nat \<Rightarrow> 8 word list \<Rightarrow> (nat \<Rightarrow> 8 word) \<Rightarrow> nat \<Rightarrow> 8 word" where
  "put_bytes p bs m = (\<lambda>x. if p \<le> x \<and> x < p + length bs then bs ! (x - p) else m x)"

lemma bytes_put_same [simp]: "bytes_at (put_bytes p bs m) p (length bs) = bs"
  by (rule nth_equalityI) (auto simp: bytes_at_def put_bytes_def)

lemma bytes_put_other:
  "q + n \<le> p \<or> p + length bs \<le> q \<Longrightarrow> bytes_at (put_bytes p bs m) q n = bytes_at m q n"
  by (auto simp: bytes_at_def put_bytes_def)

lemma bytes_at_cong: "(\<And>x. p \<le> x \<Longrightarrow> x < p + n \<Longrightarrow> m x = m' x) \<Longrightarrow> bytes_at m p n = bytes_at m' p n"
  by (simp add: bytes_at_def)

subsection \<open>Elements\<close>

definition load :: "'a elem_type \<Rightarrow> (nat \<Rightarrow> 8 word) \<Rightarrow> nat \<Rightarrow> nat \<Rightarrow> 'a" where
  "load T m p k = of_bytes T (bytes_at m (p + k * esize T) (esize T))"

definition store_elem :: "'a elem_type \<Rightarrow> nat \<Rightarrow> nat \<Rightarrow> 'a \<Rightarrow> (nat \<Rightarrow> 8 word) \<Rightarrow> nat \<Rightarrow> 8 word" where
  "store_elem T p k x = put_bytes (p + k * esize T) (to_bytes T x)"

definition elem_ok :: "'a elem_type \<Rightarrow> bool" where
  "elem_ok T \<longleftrightarrow> 0 < esize T \<and> esize T < 2 ^ 63 \<and>
     (\<forall>x. elem_dom T x \<longrightarrow> length (to_bytes T x) = esize T \<and> of_bytes T (to_bytes T x) = x)"

text \<open>Moving the elements of a vector to a new block, one by one.\<close>

fun relocate :: "'a elem_type \<Rightarrow> nat \<Rightarrow> nat \<Rightarrow> nat \<Rightarrow> (nat \<Rightarrow> 8 word) \<Rightarrow> nat \<Rightarrow> 8 word" where
  "relocate T old new 0 m = m"
| "relocate T old new (Suc n) m =
     (let m' = relocate T old new n m in store_elem T new n (load T m' old n) m')"

lemma load_store_same:
  "elem_ok T \<Longrightarrow> elem_dom T x \<Longrightarrow> load T (store_elem T p k x m) p k = x"
  using bytes_put_same [of "p + k * esize T" "to_bytes T x" m] by (auto simp: elem_ok_def load_def store_elem_def)

lemma block_step: "k < n \<Longrightarrow> k * (s :: nat) + s \<le> n * s"
  using mult_le_mono1 [of "Suc k" n s] by simp

lemma load_cong:
  assumes "\<And>x. p \<le> x \<Longrightarrow> x < p + n * esize T \<Longrightarrow> m x = m' x" and "k < n"
  shows "load T m p k = load T m' p k"
proof -
  have "bytes_at m (p + k * esize T) (esize T) = bytes_at m' (p + k * esize T) (esize T)"
    using block_step [OF assms(2), of "esize T"] by (intro bytes_at_cong assms(1)) auto
  then show ?thesis by (simp add: load_def)
qed

lemma store_elem_outside:
  "elem_ok T \<Longrightarrow> elem_dom T x \<Longrightarrow> k < n \<Longrightarrow> y < p \<or> p + n * esize T \<le> y \<Longrightarrow> store_elem T p k x m y = m y"
  using block_step [of k n "esize T"] by (auto simp: store_elem_def put_bytes_def elem_ok_def)

lemma load_store_other:
  assumes "elem_ok T" and "elem_dom T x" and "j \<noteq> k"
  shows "load T (store_elem T p k x m) p j = load T m p j"
proof -
  have "j * esize T + esize T \<le> k * esize T \<or> k * esize T + esize T \<le> j * esize T"
    using block_step [of j k "esize T"] block_step [of k j "esize T"] assms(3) by (meson nat_neq_iff)
  then show ?thesis using assms(1,2) by (auto simp: load_def store_elem_def elem_ok_def bytes_put_other)
qed

lemma relocate_moves:
  assumes "elem_ok T" and "\<And>k. k < n \<Longrightarrow> elem_dom T (load T m old k)" and "n \<le> c"
    and "old + n * esize T \<le> new"
  shows "(\<forall>k<n. load T (relocate T old new n m) new k = load T m old k) \<and>
    (\<forall>y. y < new \<or> new + c * esize T \<le> y \<longrightarrow> relocate T old new n m y = m y)"
  using assms(2-)
proof (induction n)
  case (Suc n)
  let ?m = "relocate T old new n m"
  have IH: "\<forall>k<n. load T ?m new k = load T m old k" "\<forall>y. y < new \<or> new + c * esize T \<le> y \<longrightarrow> ?m y = m y"
    using Suc by auto
  have "load T ?m old n = load T m old n"
    using IH(2) Suc.prems(3) by (intro load_cong [where n = "Suc n"]) auto
  moreover have "elem_dom T (load T m old n)" using Suc.prems(1) by simp
  ultimately show ?case
    using IH Suc.prems(2) assms(1) by (auto simp: Let_def less_Suc_eq load_store_same load_store_other store_elem_outside [of _ _ n c])
qed simp

subsection \<open>Operations\<close>

definition growth_policy :: "(nat \<Rightarrow> nat) \<Rightarrow> bool" where
  "growth_policy grow \<longleftrightarrow> (\<forall>n. n < grow n \<and> n + n div 2 \<le> grow n \<and> grow n \<le> max 1 (2 * n))"

text \<open>The largest size of a vector: the distance of its ends is a \<open>ptrdiff_t\<close>.\<close>

definition vec_max_size :: "'a elem_type \<Rightarrow> 64 word" where
  "vec_max_size T = 0x7FFFFFFFFFFFFFFF div elem_size T"

text \<open>A new block of \<open>n\<close> elements: allocate, move the elements, give the old block back.\<close>

definition vec_realloc :: "'a elem_type \<Rightarrow> nat \<Rightarrow> nat \<Rightarrow> pvec \<Rightarrow> pool_state \<Rightarrow> pool_state res" where
  "vec_realloc T i n v s =
     rbind (allocate (elem_size T) (of_nat n) (g_offset s)) (\<lambda>(p, g).
       let (m, g') = (case v_data v of None \<Rightarrow> (g_pool s, g)
             | Some q \<Rightarrow> (relocate T (unat q) (unat p) (v_size v) (g_pool s), deallocate q (of_nat (v_cap v)) g))
       in Inr (s\<lparr>g_offset := g', g_pool := m, pvecs := (pvecs s)(i \<mapsto> v\<lparr>v_data := Some p, v_cap := n\<rparr>)\<rparr>))"

definition on_vec :: "nat \<Rightarrow> pool_state \<Rightarrow> (pvec \<Rightarrow> 'b res) \<Rightarrow> 'b res" where
  "on_vec i s f = (case pvecs s i of None \<Rightarrow> Inl DeadObject | Some v \<Rightarrow> f v)"

definition pv_construct :: "nat \<Rightarrow> pool_state \<Rightarrow> pool_state res" where
  "pv_construct i s =
     (if pvecs s i \<noteq> None then Inl DeadObject
      else Inr (s\<lparr>pvecs := (pvecs s)(i \<mapsto> \<lparr>v_data = None, v_size = 0, v_cap = 0\<rparr>)\<rparr>))"

definition append_elem :: "'a elem_type \<Rightarrow> nat \<Rightarrow> 'a \<Rightarrow> pool_state \<Rightarrow> pool_state res" where
  "append_elem T i x s = on_vec i s (\<lambda>v.
     case v_data v of None \<Rightarrow> Inl NullDeref
     | Some p \<Rightarrow> Inr (s\<lparr>g_pool := store_elem T (unat p) (v_size v) x (g_pool s),
                     pvecs := (pvecs s)(i \<mapsto> v\<lparr>v_size := v_size v + 1\<rparr>)\<rparr>))"

definition pv_push_back :: "'a elem_type \<Rightarrow> (nat \<Rightarrow> nat) \<Rightarrow> nat \<Rightarrow> 'a \<Rightarrow> pool_state \<Rightarrow> pool_state res" where
  "pv_push_back T grow i x s = on_vec i s (\<lambda>v.
     if v_size v < v_cap v then append_elem T i x s
     else if of_nat (v_size v) = vec_max_size T then Inl LengthError
     else rbind (vec_realloc T i (grow (v_size v)) v s) (append_elem T i x))"

definition pv_reserve :: "'a elem_type \<Rightarrow> nat \<Rightarrow> 64 word \<Rightarrow> pool_state \<Rightarrow> pool_state res" where
  "pv_reserve T i n s = on_vec i s (\<lambda>v.
     if vec_max_size T < n then Inl LengthError
     else if v_cap v < unat n then vec_realloc T i (unat n) v s
     else Inr s)"

definition pv_clear :: "nat \<Rightarrow> pool_state \<Rightarrow> pool_state res" where
  "pv_clear i s = on_vec i s (\<lambda>v. Inr (s\<lparr>pvecs := (pvecs s)(i \<mapsto> v\<lparr>v_size := 0\<rparr>)\<rparr>))"

definition pv_destroy :: "nat \<Rightarrow> pool_state \<Rightarrow> pool_state res" where
  "pv_destroy i s = on_vec i s (\<lambda>v.
     let g = (case v_data v of None \<Rightarrow> g_offset s | Some q \<Rightarrow> deallocate q (of_nat (v_cap v)) (g_offset s))
     in Inr (s\<lparr>g_offset := g, pvecs := (pvecs s)(i := None)\<rparr>))"

definition pv_get :: "'a elem_type \<Rightarrow> nat \<Rightarrow> nat \<Rightarrow> pool_state \<Rightarrow> 'a res" where
  "pv_get T i k s = on_vec i s (\<lambda>v.
     case v_data v of None \<Rightarrow> Inl NullDeref
     | Some p \<Rightarrow> if k < v_size v then Inr (load T (g_pool s) (unat p) k) else Inl OutOfBounds)"

definition pv_size :: "nat \<Rightarrow> pool_state \<Rightarrow> 64 word res" where
  "pv_size i s = on_vec i s (\<lambda>v. Inr (of_nat (v_size v)))"

definition reset_pool :: "pool_state \<Rightarrow> pool_state" where
  "reset_pool s = s\<lparr>g_offset := pool_reset\<rparr>"

datatype 'a pv_op =
    PvNew nat
  | PvPush nat 'a
  | PvReserve nat "64 word"
  | PvClear nat
  | PvDestroy nat
  | PvReset

definition pv_step :: "'a elem_type \<Rightarrow> (nat \<Rightarrow> nat) \<Rightarrow> 'a pv_op \<Rightarrow> pool_state \<Rightarrow> pool_state res" where
  "pv_step T grow oper s =
     (case oper of PvNew i \<Rightarrow> pv_construct i s | PvPush i x \<Rightarrow> pv_push_back T grow i x s
      | PvReserve i n \<Rightarrow> pv_reserve T i n s | PvClear i \<Rightarrow> pv_clear i s | PvDestroy i \<Rightarrow> pv_destroy i s
      | PvReset \<Rightarrow> Inr (reset_pool s))"

text \<open>A program that catches what its calls throw: the outcome of each call and the last state.\<close>

fun pv_run :: "'a elem_type \<Rightarrow> (nat \<Rightarrow> nat) \<Rightarrow> 'a pv_op list \<Rightarrow> pool_state \<Rightarrow> fault option list \<times> pool_state" where
  "pv_run T grow [] s = ([], s)"
| "pv_run T grow (oper # ops) s =
     (case pv_step T grow oper s of
        Inl e \<Rightarrow> (let (rs, s') = pv_run T grow ops s in (Some e # rs, s'))
      | Inr s1 \<Rightarrow> (let (rs, s') = pv_run T grow ops s1 in (None # rs, s')))"

text \<open>The programs of the specification: constructors of dead objects only, calls on live ones, and a reset of the
  pool when no vector is left. They act on one list for each vector, and a call that threw changes nothing.\<close>

fun pv_legal :: "('a \<Rightarrow> bool) \<Rightarrow> 'a pv_op list \<Rightarrow> nat set \<Rightarrow> bool" where
  "pv_legal P [] L = True"
| "pv_legal P (PvNew i # ops) L = (i \<notin> L \<and> pv_legal P ops (insert i L))"
| "pv_legal P (PvPush i x # ops) L = (i \<in> L \<and> P x \<and> pv_legal P ops L)"
| "pv_legal P (PvReserve i n # ops) L = (i \<in> L \<and> pv_legal P ops L)"
| "pv_legal P (PvClear i # ops) L = (i \<in> L \<and> pv_legal P ops L)"
| "pv_legal P (PvDestroy i # ops) L = (i \<in> L \<and> pv_legal P ops (L - {i}))"
| "pv_legal P (PvReset # ops) L = (L = {} \<and> pv_legal P ops L)"

fun lists_step :: "'a pv_op \<Rightarrow> (nat \<rightharpoonup> 'a list) \<Rightarrow> nat \<rightharpoonup> 'a list" where
  "lists_step (PvNew i) A = A(i \<mapsto> [])"
| "lists_step (PvPush i x) A = A(i := map_option (\<lambda>xs. xs @ [x]) (A i))"
| "lists_step (PvReserve i n) A = A"
| "lists_step (PvClear i) A = A(i := map_option (\<lambda>xs. []) (A i))"
| "lists_step (PvDestroy i) A = A(i := None)"
| "lists_step PvReset A = A"

fun lists_run :: "'a pv_op list \<Rightarrow> fault option list \<Rightarrow> (nat \<rightharpoonup> 'a list) \<Rightarrow> nat \<rightharpoonup> 'a list" where
  "lists_run (oper # ops) (r # rs) A = lists_run ops rs (if r = None then lists_step oper A else A)"
| "lists_run _ _ A = A"

subsection \<open>Representation\<close>

definition holds :: "'a elem_type \<Rightarrow> (nat \<Rightarrow> 8 word) \<Rightarrow> nat \<Rightarrow> pvec \<Rightarrow> 'a list \<Rightarrow> bool" where
  "holds T m limit v xs \<longleftrightarrow> v_size v = length xs \<and> length xs \<le> v_cap v \<and> (\<forall>x\<in>set xs. elem_dom T x) \<and>
     (case v_data v of None \<Rightarrow> v_cap v = 0
      | Some p \<Rightarrow> unat p + v_cap v * esize T \<le> limit \<and> (\<forall>k<length xs. load T m (unat p) k = xs ! k))"

definition apart :: "'a elem_type \<Rightarrow> pvec \<Rightarrow> pvec \<Rightarrow> bool" where
  "apart T v w \<longleftrightarrow> (\<forall>p q. v_data v = Some p \<longrightarrow> v_data w = Some q \<longrightarrow>
     disjoint_regions (unat p, v_cap v * esize T) (unat q, v_cap w * esize T))"

definition pv_rep :: "'a elem_type \<Rightarrow> pool_state \<Rightarrow> (nat \<rightharpoonup> 'a list) \<Rightarrow> bool" where
  "pv_rep T s A \<longleftrightarrow> unat (g_offset s) \<le> 4194304 \<and> dom (pvecs s) = dom A \<and>
     (\<forall>i v xs. pvecs s i = Some v \<longrightarrow> A i = Some xs \<longrightarrow> holds T (g_pool s) (unat (g_offset s)) v xs) \<and>
     (\<forall>i j v w. i \<noteq> j \<longrightarrow> pvecs s i = Some v \<longrightarrow> pvecs s j = Some w \<longrightarrow> apart T v w)"

lemma pv_repD:
  assumes "pv_rep T s A" and "pvecs s i = Some v"
  obtains xs where "A i = Some xs" "holds T (g_pool s) (unat (g_offset s)) v xs"
  using assms unfolding pv_rep_def by (metis domD domI)

lemma pv_rep_holds: "pv_rep T s A \<Longrightarrow> pvecs s i = Some v \<Longrightarrow> A i = Some xs \<Longrightarrow> holds T (g_pool s) (unat (g_offset s)) v xs"
  unfolding pv_rep_def by blast

lemma pv_rep_apart: "pv_rep T s A \<Longrightarrow> pvecs s i = Some v \<Longrightarrow> pvecs s j = Some w \<Longrightarrow> i \<noteq> j \<Longrightarrow> apart T v w"
  unfolding pv_rep_def by blast

lemma apart_sym: "apart T v w \<Longrightarrow> apart T w v"
  by (auto simp: apart_def disjoint_regions_def)

lemma holds_cong:
  assumes "holds T m limit v xs" and "limit \<le> limit'"
    and "\<And>p y. v_data v = Some p \<Longrightarrow> unat p \<le> y \<Longrightarrow> y < unat p + v_cap v * esize T \<Longrightarrow> m' y = m y"
  shows "holds T m' limit' v xs"
proof (cases "v_data v")
  case (Some p)
  have "load T m' (unat p) k = load T m (unat p) k" if "k < length xs" for k
    using that assms(1) Some by (intro load_cong [where n = "v_cap v"] assms(3)) (auto simp: holds_def)
  then show ?thesis using assms(1,2) Some by (auto simp: holds_def)
qed (use assms(1) in \<open>auto simp: holds_def\<close>)

lemma holds_below:
  "holds T m limit v xs \<Longrightarrow> v_data v = Some p \<Longrightarrow> unat p + v_cap v * esize T \<le> limit"
  by (simp add: holds_def)

text \<open>The state after a vector is changed: the other vectors keep their bytes and stay apart from it.\<close>

lemma pv_rep_update:
  assumes rep: "pv_rep T s A" and i: "pvecs s i = Some v"
    and new: "holds T m' (unat g') v' xs'" and g': "unat (g_offset s) \<le> unat g'" "unat g' \<le> 4194304"
    and other: "\<And>j w q y. j \<noteq> i \<Longrightarrow> pvecs s j = Some w \<Longrightarrow> v_data w = Some q \<Longrightarrow> unat q \<le> y \<Longrightarrow>
      y < unat q + v_cap w * esize T \<Longrightarrow> m' y = g_pool s y"
    and apart: "\<And>j w. j \<noteq> i \<Longrightarrow> pvecs s j = Some w \<Longrightarrow> apart T v' w"
  shows "pv_rep T (s\<lparr>g_offset := g', g_pool := m', pvecs := (pvecs s)(i \<mapsto> v')\<rparr>) (A(i \<mapsto> xs'))"
proof -
  let ?s = "s\<lparr>g_offset := g', g_pool := m', pvecs := (pvecs s)(i \<mapsto> v')\<rparr>"
  have "holds T m' (unat g') w ys" if "pvecs ?s j = Some w" "(A(i \<mapsto> xs')) j = Some ys" for j w ys
  proof (cases "j = i")
    case False
    then have j: "pvecs s j = Some w" "A j = Some ys" using that by simp_all
    then show ?thesis using other [OF False j(1)] g'(1)
      by (intro holds_cong [OF pv_rep_holds [OF rep j]]) auto
  qed (use that new in simp)
  moreover have "apart T w w'" if "j \<noteq> k" "pvecs ?s j = Some w" "pvecs ?s k = Some w'" for j k w w'
    using that apart [of k w'] apart_sym [OF apart, of j w] pv_rep_apart [OF rep, of j w k w'] by (auto split: if_splits)
  moreover have "dom (pvecs ?s) = dom (A(i \<mapsto> xs'))" using rep i by (auto simp: pv_rep_def)
  ultimately show ?thesis using g'(2) unfolding pv_rep_def by simp
qed

lemma append_ok:
  assumes "elem_ok T" and rep: "pv_rep T s A" and i: "pvecs s i = Some v" "A i = Some xs"
    and room: "length xs < v_cap v" and x: "elem_dom T x"
  shows "\<exists>s'. append_elem T i x s = Inr s' \<and> pv_rep T s' (A(i \<mapsto> xs @ [x])) \<and> g_offset s' = g_offset s \<and>
    pvecs s' = (pvecs s)(i \<mapsto> v\<lparr>v_size := v_size v + 1\<rparr>)"
proof -
  have h: "holds T (g_pool s) (unat (g_offset s)) v xs" using rep i by (simp add: pv_rep_def)
  then obtain p where p: "v_data v = Some p" using room by (auto simp: holds_def split: option.splits)
  let ?m = "store_elem T (unat p) (v_size v) x (g_pool s)"
  have "load T ?m (unat p) k = (xs @ [x]) ! k" if "k < length (xs @ [x])" for k
    using that h p assms(1) x
    by (cases "k = length xs") (auto simp: holds_def load_store_same load_store_other nth_append)
  then have new: "holds T ?m (unat (g_offset s)) (v\<lparr>v_size := v_size v + 1\<rparr>) (xs @ [x])"
    using h p room x by (auto simp: holds_def)
  have other: "?m y = g_pool s y"
    if "j \<noteq> i" "pvecs s j = Some w" "v_data w = Some q" "unat q \<le> y" "y < unat q + v_cap w * esize T" for j w q y
  proof -
    have "y < unat p \<or> unat p + v_cap v * esize T \<le> y"
      using pv_rep_apart [OF rep i(1) that(2)] that p by (auto simp: apart_def disjoint_regions_def)
    moreover have "v_size v < v_cap v" using h room by (simp add: holds_def)
    ultimately show ?thesis using assms(1) x by (intro store_elem_outside)
  qed
  have "apart T (v\<lparr>v_size := v_size v + 1\<rparr>) w" if "j \<noteq> i" "pvecs s j = Some w" for j w
    using pv_rep_apart [OF rep i(1) that(2)] that(1) by (simp add: apart_def)
  from pv_rep_update [OF rep i(1) new _ _ other this]
  have "pv_rep T (s\<lparr>g_pool := ?m, pvecs := (pvecs s)(i \<mapsto> v\<lparr>v_size := v_size v + 1\<rparr>)\<rparr>) (A(i \<mapsto> xs @ [x]))"
    using rep by (simp add: pv_rep_def)
  with i p show ?thesis by (simp add: append_elem_def on_vec_def)
qed

lemma realloc_ok:
  assumes "elem_ok T" and rep: "pv_rep T s A" and i: "pvecs s i = Some v" "A i = Some xs"
    and room: "v_cap v < n" and n: "n * esize T < 2 ^ 63"
  shows "if unat (g_offset s) + n * esize T \<le> 4194304
    then \<exists>s' p. vec_realloc T i n v s = Inr s' \<and> pv_rep T s' A \<and>
      unat (g_offset s') = unat (g_offset s) + n * esize T \<and> pvecs s' = (pvecs s)(i \<mapsto> v\<lparr>v_data := Some p, v_cap := n\<rparr>)
    else vec_realloc T i n v s = Inl BadAlloc"
proof -
  have "0 < esize T" using assms(1) by (simp add: elem_ok_def)
  then have "n < 2 ^ 63" using n by (metis le_less_trans mult_le_mono2 nat_mult_1_right Suc_leI One_nat_def)
  then have un: "unat (of_nat n :: 64 word) = n" by (simp add: unsigned_of_nat take_bit_nat_eq_self)
  have g: "unat (g_offset s) \<le> 4194304" using rep by (simp add: pv_rep_def)
  have al: "allocate (elem_size T) (of_nat n) (g_offset s) =
      (if unat (g_offset s) + esize T * n \<le> 4194304 then Inr (g_offset s, g_offset s + of_nat n * elem_size T) else Inl BadAlloc)"
    "unat (g_offset s + of_nat n * elem_size T) = unat (g_offset s) + esize T * n"
    using allocate_exact [of "elem_size T" "of_nat n" "g_offset s"] n g un by (simp_all add: mult.commute)
  have h: "holds T (g_pool s) (unat (g_offset s)) v xs" using rep i by (simp add: pv_rep_def)
  show ?thesis
  proof (cases "unat (g_offset s) + n * esize T \<le> 4194304")
    case True
    let ?p = "g_offset s" and ?g = "g_offset s + of_nat n * elem_size T"
    let ?m = "case v_data v of None \<Rightarrow> g_pool s | Some q \<Rightarrow> relocate T (unat q) (unat ?p) (v_size v) (g_pool s)"
    have moved: "(\<forall>k<length xs. load T ?m (unat ?p) k = xs ! k) \<and> (\<forall>y. y < unat ?p \<longrightarrow> ?m y = g_pool s y)"
    proof (cases "v_data v")
      case (Some q)
      have "elem_dom T (load T (g_pool s) (unat q) k)" if "k < length xs" for k
        using that h Some by (simp add: holds_def)
      moreover have "unat q + length xs * esize T \<le> unat ?p"
        using holds_below [OF h Some] mult_le_mono1 [of "length xs" "v_cap v" "esize T"] h unfolding holds_def by linarith
      ultimately show ?thesis
        using relocate_moves [OF assms(1), of "length xs" "g_pool s" "unat q" n "unat ?p"] h Some room by (auto simp: holds_def)
    qed (use h in \<open>auto simp: holds_def\<close>)
    then have new: "holds T ?m (unat ?g) (v\<lparr>v_data := Some ?p, v_cap := n\<rparr>) xs"
      using h room al(2) by (auto simp: holds_def mult.commute)
    have below: "unat q + v_cap w * esize T \<le> unat ?p" if "pvecs s j = Some w" "v_data w = Some q" for j w q
      by (rule pv_repD [OF rep that(1)]) (rule holds_below [OF _ that(2)])
    then have "apart T (v\<lparr>v_data := Some ?p, v_cap := n\<rparr>) w" if "pvecs s j = Some w" for j w
      using that by (auto simp: apart_def disjoint_regions_def)
    moreover have "?m y = g_pool s y"
      if "pvecs s j = Some w" "v_data w = Some q" "y < unat q + v_cap w * esize T" for j w q y
      using below [OF that(1,2)] that(3) moved by auto
    ultimately have "pv_rep T (s\<lparr>g_offset := ?g, g_pool := ?m, pvecs := (pvecs s)(i \<mapsto> v\<lparr>v_data := Some ?p, v_cap := n\<rparr>)\<rparr>) (A(i \<mapsto> xs))"
      using True al(2) by (intro pv_rep_update [OF rep i(1) new]) (auto simp: mult.commute)
    then have "pv_rep T (s\<lparr>g_offset := ?g, g_pool := ?m, pvecs := (pvecs s)(i \<mapsto> v\<lparr>v_data := Some ?p, v_cap := n\<rparr>)\<rparr>) A"
      using i(2) by (simp add: fun_upd_idem)
    with True al show ?thesis
      by (auto simp: vec_realloc_def deallocate_def mult.commute split: option.splits)
  qed (use al in \<open>simp add: vec_realloc_def mult.commute\<close>)
qed

subsection \<open>Every operation does what its list operation does, or throws\<close>

text \<open>The bytes a call asks the pool for.\<close>

definition pv_need :: "'a elem_type \<Rightarrow> (nat \<Rightarrow> nat) \<Rightarrow> 'a pv_op \<Rightarrow> pool_state \<Rightarrow> nat" where
  "pv_need T grow oper s =
     (case oper of
        PvPush i x \<Rightarrow> (case pvecs s i of None \<Rightarrow> 0 | Some v \<Rightarrow> if v_size v < v_cap v then 0 else grow (v_size v) * esize T)
      | PvReserve i n \<Rightarrow> (case pvecs s i of None \<Rightarrow> 0 | Some v \<Rightarrow> if v_cap v < unat n then unat n * esize T else 0)
      | _ \<Rightarrow> 0)"

definition pv_throws :: "'a elem_type \<Rightarrow> (nat \<Rightarrow> nat) \<Rightarrow> 'a pv_op \<Rightarrow> pool_state \<Rightarrow> fault option" where
  "pv_throws T grow oper s =
     (case oper of
        PvReserve i n \<Rightarrow>
          if vec_max_size T < n then Some LengthError
          else if unat (g_offset s) + pv_need T grow oper s \<le> 4194304 then None else Some BadAlloc
      | _ \<Rightarrow> if unat (g_offset s) + pv_need T grow oper s \<le> 4194304 then None else Some BadAlloc)"

lemma unat_max_size: "unat (vec_max_size T) = (2 ^ 63 - 1) div esize T"
  by (simp add: vec_max_size_def unat_div)

lemma vec_max_size_bytes: "n \<le> vec_max_size T \<Longrightarrow> unat n * esize T < 2 ^ 63"
proof -
  assume "n \<le> vec_max_size T"
  then have "unat n * esize T \<le> (2 ^ 63 - 1) div esize T * esize T"
    unfolding word_le_nat_alt unat_max_size by (rule mult_le_mono1)
  also have "\<dots> \<le> 2 ^ 63 - 1" by (rule div_times_less_eq_dividend)
  finally show ?thesis by simp
qed

lemma push_ok:
  assumes T: "elem_ok T" and grow: "growth_policy grow" and rep: "pv_rep T s A"
    and i: "pvecs s i = Some v" "A i = Some xs" and x: "elem_dom T x"
  shows "if unat (g_offset s) + pv_need T grow (PvPush i x) s \<le> 4194304
    then \<exists>s' v'. pv_push_back T grow i x s = Inr s' \<and> pv_rep T s' (A(i \<mapsto> xs @ [x])) \<and>
      unat (g_offset s') = unat (g_offset s) + pv_need T grow (PvPush i x) s \<and>
      pvecs s' i = Some v' \<and> v_size v' = Suc (length xs) \<and>
      v_cap v' = (if length xs < v_cap v then v_cap v else grow (length xs))
    else pv_push_back T grow i x s = Inl BadAlloc"
proof -
  have h: "v_size v = length xs" "length xs \<le> v_cap v" using pv_rep_holds [OF rep i] by (simp_all add: holds_def)
  have g: "unat (g_offset s) \<le> 4194304" using rep by (simp add: pv_rep_def)
  show ?thesis
  proof (cases "length xs < v_cap v")
    case True
    obtain s' where "append_elem T i x s = Inr s'" "pv_rep T s' (A(i \<mapsto> xs @ [x]))" "g_offset s' = g_offset s"
        "pvecs s' = (pvecs s)(i \<mapsto> v\<lparr>v_size := v_size v + 1\<rparr>)"
      using append_ok [OF T rep i True x] by blast
    then show ?thesis using True h i g by (simp add: pv_push_back_def on_vec_def pv_need_def)
  next
    case False
    then have full: "v_cap v = length xs" using h by simp
    have small: "length xs * esize T \<le> 4194304"
    proof (cases "v_data v")
      case (Some p)
      then show ?thesis using holds_below [OF pv_rep_holds [OF rep i] Some] g full by simp
    qed (use pv_rep_holds [OF rep i] full in \<open>simp add: holds_def\<close>)
    have gr: "length xs < grow (length xs)" "grow (length xs) \<le> max 1 (2 * length xs)"
      using grow by (simp_all add: growth_policy_def)
    have e: "esize T < 2 ^ 63" "0 < esize T" using T by (simp_all add: elem_ok_def)
    have need: "grow (length xs) * esize T < 2 ^ 63"
    proof (cases "xs = []")
      case False
      then have "grow (length xs) \<le> 2 * length xs" using gr by (cases xs) auto
      then have "grow (length xs) * esize T \<le> 2 * length xs * esize T" by (rule mult_le_mono1)
      also have "\<dots> \<le> 8388608" using small by (simp only: mult.assoc)
      finally show ?thesis by simp
    next
      case True
      then have "grow (length xs) = 1" using gr by simp
      then show ?thesis using e by simp
    qed
    then have "Suc (length xs) * esize T \<le> 2 ^ 63 - 1"
      using mult_le_mono1 [of "Suc (length xs)" "grow (length xs)" "esize T"] gr(1) by linarith
    then have "Suc (length xs) \<le> unat (vec_max_size T)"
      unfolding unat_max_size using e(2) by (simp add: less_eq_div_iff_mult_less_eq)
    moreover from this have "unat (of_nat (length xs) :: 64 word) = length xs"
      using unsigned_less [of "vec_max_size T", where ?'a = nat] by (simp add: unsigned_of_nat take_bit_nat_eq_self)
    ultimately have max: "of_nat (v_size v) \<noteq> vec_max_size T" using h(1) by auto
    show ?thesis
    proof (cases "unat (g_offset s) + grow (length xs) * esize T \<le> 4194304")
      case True
      then obtain s1 p where s1: "vec_realloc T i (grow (length xs)) v s = Inr s1" "pv_rep T s1 A"
          "unat (g_offset s1) = unat (g_offset s) + grow (length xs) * esize T"
          "pvecs s1 = (pvecs s)(i \<mapsto> v\<lparr>v_data := Some p, v_cap := grow (length xs)\<rparr>)"
        using realloc_ok [OF T rep i, of "grow (length xs)"] full gr(1) need by auto
      let ?v = "v\<lparr>v_data := Some p, v_cap := grow (length xs)\<rparr>"
      have v1: "pvecs s1 i = Some ?v" using s1(4) by simp
      obtain s' where s': "append_elem T i x s1 = Inr s'" "pv_rep T s' (A(i \<mapsto> xs @ [x]))" "g_offset s' = g_offset s1"
          "pvecs s' = (pvecs s1)(i \<mapsto> ?v\<lparr>v_size := v_size ?v + 1\<rparr>)"
        using append_ok [OF T s1(2) v1 i(2) _ x] gr(1) by auto
      show ?thesis using True False full max h i s1 s' by (simp add: pv_push_back_def on_vec_def pv_need_def)
    next
      case False': False
      then have "vec_realloc T i (grow (length xs)) v s = Inl BadAlloc"
        using realloc_ok [OF T rep i, of "grow (length xs)"] full gr(1) need by auto
      then show ?thesis using False False' full max h i by (simp add: pv_push_back_def on_vec_def pv_need_def)
    qed
  qed
qed

lemma reserve_ok:
  assumes T: "elem_ok T" and rep: "pv_rep T s A" and i: "pvecs s i = Some v" "A i = Some xs"
  shows "if vec_max_size T < n then pv_reserve T i n s = Inl LengthError
    else if unat (g_offset s) + pv_need T grow (PvReserve i n) s \<le> 4194304
    then \<exists>s'. pv_reserve T i n s = Inr s' \<and> pv_rep T s' A \<and>
      unat (g_offset s') = unat (g_offset s) + pv_need T grow (PvReserve i n) s
    else pv_reserve T i n s = Inl BadAlloc"
proof (cases "vec_max_size T < n \<or> unat n \<le> v_cap v")
  case True
  then show ?thesis using i rep by (auto simp: pv_reserve_def on_vec_def pv_need_def pv_rep_def)
next
  case False
  then have "v_cap v < unat n" "unat n * esize T < 2 ^ 63" using vec_max_size_bytes [of n T] by auto
  from realloc_ok [OF T rep i this] False i show ?thesis
    by (auto simp: pv_reserve_def on_vec_def pv_need_def)
qed

lemma construct_ok:
  assumes "pv_rep T s A" and "i \<notin> dom A"
  shows "\<exists>s'. pv_construct i s = Inr s' \<and> pv_rep T s' (A(i \<mapsto> [])) \<and> g_offset s' = g_offset s"
proof -
  let ?e = "\<lparr>v_data = None, v_size = 0, v_cap = 0\<rparr>"
  have none: "pvecs s i = None" using assms by (auto simp: pv_rep_def)
  have [simp]: "holds T m limit ?e []" "apart T ?e w" "apart T w ?e" for m limit w
    by (simp_all add: holds_def apart_def)
  have "pv_rep T (s\<lparr>pvecs := (pvecs s)(i \<mapsto> ?e)\<rparr>) (A(i \<mapsto> []))"
    using assms(1) unfolding pv_rep_def by (auto split: if_splits)
  with none show ?thesis by (simp add: pv_construct_def)
qed

lemma clear_ok:
  assumes rep: "pv_rep T s A" and i: "pvecs s i = Some v" "A i = Some xs"
  shows "\<exists>s'. pv_clear i s = Inr s' \<and> pv_rep T s' (A(i \<mapsto> [])) \<and> g_offset s' = g_offset s"
proof -
  have new: "holds T (g_pool s) (unat (g_offset s)) (v\<lparr>v_size := 0\<rparr>) []"
    using pv_rep_holds [OF rep i] by (auto simp: holds_def split: option.splits)
  have ap: "apart T (v\<lparr>v_size := 0\<rparr>) w" if "j \<noteq> i" "pvecs s j = Some w" for j w
    using pv_rep_apart [OF rep i(1) that(2)] that(1) by (simp add: apart_def)
  have "unat (g_offset s) \<le> 4194304" using rep by (simp add: pv_rep_def)
  from pv_rep_update [OF rep i(1) new order_refl this refl ap]
  have "pv_rep T (s\<lparr>pvecs := (pvecs s)(i \<mapsto> v\<lparr>v_size := 0\<rparr>)\<rparr>) (A(i \<mapsto> []))" by simp
  with i show ?thesis by (simp add: pv_clear_def on_vec_def)
qed

lemma destroy_ok:
  assumes rep: "pv_rep T s A" and i: "pvecs s i = Some v"
  shows "\<exists>s'. pv_destroy i s = Inr s' \<and> pv_rep T s' (A(i := None)) \<and> g_offset s' = g_offset s"
proof -
  have "pv_rep T (s\<lparr>pvecs := (pvecs s)(i := None)\<rparr>) (A(i := None))"
    using rep unfolding pv_rep_def by (simp add: dom_fun_upd)
  with i show ?thesis by (simp add: pv_destroy_def on_vec_def deallocate_def split: option.splits)
qed

lemma reset_ok: "pv_rep T s Map.empty \<Longrightarrow> pv_rep T (reset_pool s) Map.empty"
  by (auto simp: pv_rep_def reset_pool_def pool_reset_def)

fun live_after :: "'a pv_op \<Rightarrow> nat set \<Rightarrow> nat set" where
  "live_after (PvNew i) L = insert i L"
| "live_after (PvDestroy i) L = L - {i}"
| "live_after oper L = L"

lemma pv_legal_Cons: "pv_legal P (oper # ops) L \<longleftrightarrow> pv_legal P [oper] L \<and> pv_legal P ops (live_after oper L)"
  by (cases oper) auto

lemma lists_step_dom: "pv_legal P [oper] (dom A) \<Longrightarrow> dom (lists_step oper A) = live_after oper (dom A)"
  by (cases oper) auto

text \<open>One call: it throws exactly when the request is too large, and then nothing has changed; otherwise the
  vectors hold what the list operation gives.\<close>

lemma pv_step_ok:
  assumes T: "elem_ok T" and grow: "growth_policy grow" and rep: "pv_rep T s A"
    and legal: "pv_legal (elem_dom T) [oper] (dom A)"
  shows "case pv_throws T grow oper s of
      Some e \<Rightarrow> pv_step T grow oper s = Inl e \<and> (e = BadAlloc \<or> e = LengthError) \<and> live_after oper (dom A) = dom A
    | None \<Rightarrow> \<exists>s'. pv_step T grow oper s = Inr s' \<and> pv_rep T s' (lists_step oper A)"
proof -
  have g: "unat (g_offset s) \<le> 4194304" and d: "dom (pvecs s) = dom A" using rep by (simp_all add: pv_rep_def)
  have live: "\<exists>v xs. pvecs s i = Some v \<and> A i = Some xs" if "i \<in> dom A" for i
    using that d by (metis domD)
  show ?thesis
  proof (cases oper)
    case (PvNew i)
    then show ?thesis using construct_ok [OF rep, of i] legal g by (auto simp: pv_step_def pv_throws_def pv_need_def)
  next
    case (PvPush i x)
    then obtain v xs where i: "pvecs s i = Some v" "A i = Some xs" using legal live [of i] by auto
    show ?thesis using push_ok [OF T grow rep i, of x] legal i PvPush by (auto simp: pv_step_def pv_throws_def)
  next
    case (PvReserve i n)
    then obtain v xs where i: "pvecs s i = Some v" "A i = Some xs" using legal live [of i] by auto
    show ?thesis using reserve_ok [OF T rep i, of n grow] i PvReserve by (auto simp: pv_step_def pv_throws_def)
  next
    case (PvClear i)
    then obtain v xs where i: "pvecs s i = Some v" "A i = Some xs" using legal live [of i] by auto
    show ?thesis using clear_ok [OF rep i] i g PvClear by (auto simp: pv_step_def pv_throws_def pv_need_def)
  next
    case (PvDestroy i)
    then obtain v where i: "pvecs s i = Some v" using legal live [of i] by auto
    show ?thesis using destroy_ok [OF rep i] g PvDestroy by (auto simp: pv_step_def pv_throws_def pv_need_def)
  next
    case PvReset
    then have "A = Map.empty" using legal by simp
    then show ?thesis using reset_ok rep g PvReset by (auto simp: pv_step_def pv_throws_def pv_need_def)
  qed
qed

lemma pv_run_ok:
  assumes "elem_ok T" and "growth_policy grow"
  shows "pv_rep T s A \<Longrightarrow> pv_legal (elem_dom T) ops (dom A) \<Longrightarrow> pv_run T grow ops s = (rs, s') \<Longrightarrow>
    length rs = length ops \<and> set rs \<subseteq> {None, Some BadAlloc, Some LengthError} \<and> pv_rep T s' (lists_run ops rs A)"
proof (induction ops arbitrary: s A rs)
  case (Cons oper ops)
  have legal: "pv_legal (elem_dom T) [oper] (dom A)" "pv_legal (elem_dom T) ops (live_after oper (dom A))"
    using Cons.prems(2) pv_legal_Cons by blast+
  note step = pv_step_ok [OF assms Cons.prems(1) legal(1)]
  show ?case
  proof (cases "pv_throws T grow oper s")
    case None
    then obtain s1 where s1: "pv_step T grow oper s = Inr s1" "pv_rep T s1 (lists_step oper A)" using step by auto
    then obtain rs1 where "pv_run T grow ops s1 = (rs1, s')" "rs = None # rs1"
      using Cons.prems(3) by (auto split: prod.splits)
    then show ?thesis
      using Cons.IH [OF s1(2)] legal(2) lists_step_dom [OF legal(1)] by simp
  next
    case (Some e)
    then have e: "pv_step T grow oper s = Inl e" "e = BadAlloc \<or> e = LengthError" "live_after oper (dom A) = dom A"
      using step by auto
    then obtain rs1 where "pv_run T grow ops s = (rs1, s')" "rs = Some e # rs1"
      using Cons.prems(3) by (auto split: prod.splits)
    then show ?thesis using Cons.IH [OF Cons.prems(1)] legal(2) e by auto
  qed
qed simp

lemma pv_get_ok: "pv_rep T s A \<Longrightarrow> A i = Some xs \<Longrightarrow> k < length xs \<Longrightarrow> pv_get T i k s = Inr (xs ! k)"
proof -
  assume rep: "pv_rep T s A" and i: "A i = Some xs" and k: "k < length xs"
  obtain v where v: "pvecs s i = Some v" using rep i unfolding pv_rep_def by (metis domD domI)
  from pv_rep_holds [OF rep v i] k v show ?thesis
    by (auto simp: pv_get_def on_vec_def holds_def split: option.splits)
qed

lemma pv_size_ok: "pv_rep T s A \<Longrightarrow> pv_size i s = (case A i of None \<Rightarrow> Inl DeadObject | Some xs \<Rightarrow> Inr (of_nat (length xs)))"
proof -
  assume rep: "pv_rep T s A"
  show ?thesis
  proof (cases "pvecs s i")
    case None
    then have "i \<notin> dom A" using rep by (auto simp: pv_rep_def)
    then have "A i = None" by (simp add: domIff)
    then show ?thesis using None by (simp add: pv_size_def on_vec_def)
  next
    case (Some v)
    then obtain xs where "A i = Some xs" "holds T (g_pool s) (unat (g_offset s)) v xs" by (rule pv_repD [OF rep])
    then show ?thesis using Some by (simp add: pv_size_def on_vec_def holds_def)
  qed
qed

subsection \<open>A vector that is only filled\<close>

text \<open>The blocks a vector has left behind sum up to less than four times its capacity, so up to 131072 elements of
  four bytes fit into the pool.\<close>

definition filled :: "'a elem_type \<Rightarrow> pool_state \<Rightarrow> 'a list \<Rightarrow> bool" where
  "filled T s xs \<longleftrightarrow> pv_rep T s [0 \<mapsto> xs] \<and>
     (\<exists>v. pvecs s 0 = Some v \<and> unat (g_offset s) \<le> 4 * v_cap v * esize T \<and> v_cap v \<le> 2 * length xs)"

lemma growth_bound:
  assumes "growth_policy grow"
  shows "4 * n + grow n \<le> 4 * grow n" and "grow n \<le> 2 * Suc n"
proof -
  have g: "n < grow n" "n + n div 2 \<le> grow n" "grow n \<le> max 1 (2 * n)" using assms by (simp_all add: growth_policy_def)
  then show "grow n \<le> 2 * Suc n" by simp
  show "4 * n + grow n \<le> 4 * grow n"
  proof (cases "n < 3")
    case True
    then have "n = 0 \<or> n = 1 \<or> n = 2" by auto
    then show ?thesis using g by auto
  next
    case False
    have "n \<le> 2 * (n div 2) + 1" by presburger
    then show ?thesis using g(2) False by linarith
  qed
qed

lemma filled_push:
  assumes T: "elem_ok T" "elem_dom T x" and grow: "growth_policy grow" and f: "filled T s xs"
    and room: "8 * Suc (length xs) * esize T \<le> 4194304"
  shows "\<exists>s'. pv_push_back T grow 0 x s = Inr s' \<and> filled T s' (xs @ [x])"
proof -
  obtain v where rep: "pv_rep T s [0 \<mapsto> xs]" and v: "pvecs s 0 = Some v" "unat (g_offset s) \<le> 4 * v_cap v * esize T" "v_cap v \<le> 2 * length xs"
    using f by (auto simp: filled_def)
  have h: "v_size v = length xs" "length xs \<le> v_cap v" using pv_rep_holds [OF rep v(1)] by (simp_all add: holds_def)
  let ?c = "if length xs < v_cap v then v_cap v else grow (length xs)"
  have need: "pv_need T grow (PvPush 0 x) s = (if length xs < v_cap v then 0 else grow (length xs) * esize T)"
    using v h by (simp add: pv_need_def)
  have c: "?c \<le> 2 * Suc (length xs)" using v(3) growth_bound(2) [OF grow] by simp
  have used: "unat (g_offset s) + pv_need T grow (PvPush 0 x) s \<le> 4 * ?c * esize T"
  proof (cases "length xs < v_cap v")
    case False
    then have "v_cap v = length xs" using h by simp
    then have "(4 * v_cap v + grow (length xs)) * esize T \<le> 4 * grow (length xs) * esize T"
      using growth_bound(1) [OF grow, of "length xs"] by (intro mult_le_mono1) simp
    then have "4 * v_cap v * esize T + grow (length xs) * esize T \<le> 4 * grow (length xs) * esize T"
      by (simp only: add_mult_distrib)
    then show ?thesis using False need v(2) by (simp only: if_False)
  qed (use need v(2) in simp)
  also have "\<dots> \<le> 8 * Suc (length xs) * esize T"
    using mult_le_mono1 [OF c, of "4 * esize T"] by (simp only: ac_simps)
  finally have "unat (g_offset s) + pv_need T grow (PvPush 0 x) s \<le> 4194304" using room by simp
  then obtain s' v' where s': "pv_push_back T grow 0 x s = Inr s'" "pv_rep T s' ([0 \<mapsto> xs](0 \<mapsto> xs @ [x]))"
      "unat (g_offset s') = unat (g_offset s) + pv_need T grow (PvPush 0 x) s" "pvecs s' 0 = Some v'" "v_cap v' = ?c"
    using push_ok [OF T(1) grow rep v(1) _ T(2)] by auto
  then have "filled T s' (xs @ [x])" using used c by (simp add: filled_def)
  with s'(1) show ?thesis by blast
qed

subsection \<open>Integers, and the contract of a growable sequence\<close>

text \<open>An \<open>int\<close> in four bytes, the lowest first.\<close>

definition int_elem :: "32 word elem_type" where
  "int_elem = \<lparr>elem_size = 4, to_bytes = (\<lambda>x. map (\<lambda>k. ucast (drop_bit (8 * k) x)) [0..<4]),
     of_bytes = (\<lambda>bs. foldr (\<lambda>b w. or (ucast b) (push_bit 8 w)) bs 0), elem_dom = (\<lambda>_. True)\<rparr>"

lemma int_elem_simps [simp]: "elem_size int_elem = 4" "elem_dom int_elem x"
  by (simp_all add: int_elem_def)

lemma low_byte_first: "or (ucast (ucast y :: 8 word)) (push_bit 8 (drop_bit 8 y)) = (y :: 32 word)"
proof (rule bit_word_eqI)
  fix n
  assume "n < LENGTH(32)"
  then show "bit (or (ucast (ucast y :: 8 word)) (push_bit 8 (drop_bit 8 y))) n = bit y n"
    by (cases "n < 8") (auto simp: bit_simps)
qed

lemma drop_whole_word: "drop_bit 32 (y :: 32 word) = 0"
  by (rule bit_word_eqI) (simp add: bit_simps)

lemma int_elem_ok: "elem_ok int_elem"
proof -
  have "foldr (\<lambda>b w. or (ucast b) (push_bit 8 w)) (map (\<lambda>k. ucast (drop_bit (8 * k) x)) [0..<4] :: 8 word list) 0 = x"
    for x :: "32 word"
    using low_byte_first [of x] low_byte_first [of "drop_bit 8 x"] low_byte_first [of "drop_bit 16 x"] low_byte_first [of "drop_bit 24 x"]
    by (simp add: upt_rec drop_whole_word)
  then show ?thesis by (simp add: elem_ok_def int_elem_def)
qed

definition vec_count :: "pool_state \<Rightarrow> 64 word" where
  "vec_count s = (case pv_size 0 s of Inr n \<Rightarrow> n | Inl e \<Rightarrow> 0)"

lemma pool_growable:
  assumes "growth_policy grow"
  shows "growable_seq (filled int_elem) (\<lambda>x s. Some (pv_push_back int_elem grow 0 x s)) (pv_get int_elem 0) vec_count 131072"
proof
  show "\<exists>s'. Some (pv_push_back int_elem grow 0 x s) = Some (Inr s') \<and> filled int_elem s' (xs @ [x])"
    if "filled int_elem s xs" "length xs < 131072" for s xs x
    using filled_push [OF int_elem_ok _ assms that(1), of x] that(2) by simp
  show "pv_get int_elem 0 k s = Inr (xs ! k)" if "filled int_elem s xs" "k < length xs" for s xs k
    using pv_get_ok that by (fastforce simp: filled_def)
  show "vec_count s = of_nat (length xs)" if "filled int_elem s xs" for s xs
  proof -
    have "pv_rep int_elem s [0 \<mapsto> xs]" using that by (simp add: filled_def)
    from pv_size_ok [OF this, of 0] show ?thesis by (simp add: vec_count_def)
  qed
qed

text \<open>The policies of the common libraries.\<close>

definition doubling :: "nat \<Rightarrow> nat" where
  "doubling n = max 1 (2 * n)"

definition half_more :: "nat \<Rightarrow> nat" where
  "half_more n = max (n + 1) (n + n div 2)"

lemma growth_policies: "growth_policy doubling" "growth_policy half_more"
  by (auto simp: growth_policy_def doubling_def half_more_def)

interpretation pool_doubling: growable_seq "filled int_elem"
  "\<lambda>x s. Some (pv_push_back int_elem doubling 0 x s)" "pv_get int_elem 0" vec_count 131072
  by (rule pool_growable [OF growth_policies(1)])

interpretation pool_half_more: growable_seq "filled int_elem"
  "\<lambda>x s. Some (pv_push_back int_elem half_more 0 x s)" "pv_get int_elem 0" vec_count 131072
  by (rule pool_growable [OF growth_policies(2)])

fun pv_fill :: "'a elem_type \<Rightarrow> (nat \<Rightarrow> nat) \<Rightarrow> nat \<Rightarrow> 'a list \<Rightarrow> pool_state \<Rightarrow> pool_state res" where
  "pv_fill T grow i [] s = Inr s"
| "pv_fill T grow i (x # xs) s = rbind (pv_push_back T grow i x s) (pv_fill T grow i xs)"

lemma pv_fill_filled:
  assumes "elem_ok T" and "growth_policy grow"
  shows "filled T s xs \<Longrightarrow> \<forall>y\<in>set ys. elem_dom T y \<Longrightarrow> 8 * (length xs + length ys) * esize T \<le> 4194304 \<Longrightarrow>
    \<exists>s'. pv_fill T grow 0 ys s = Inr s' \<and> filled T s' (xs @ ys)"
proof (induction ys arbitrary: s xs)
  case (Cons y ys)
  have "8 * Suc (length xs) * esize T \<le> 8 * (length xs + length (y # ys)) * esize T" by (intro mult_le_mono1) simp
  then have "8 * Suc (length xs) * esize T \<le> 4194304" using Cons.prems(3) by (rule order_trans)
  then obtain s1 where s1: "pv_push_back T grow 0 y s = Inr s1" "filled T s1 (xs @ [y])"
    using filled_push [OF assms(1) _ assms(2) Cons.prems(1), of y] Cons.prems(2) by auto
  then show ?case using Cons.IH [OF s1(2)] Cons.prems(2,3) by simp
qed simp

text \<open>Pushing within the capacity.\<close>

lemma pv_fill_reserved:
  assumes "elem_ok T" and "growth_policy grow"
  shows "pv_rep T s [0 \<mapsto> xs] \<Longrightarrow> pvecs s 0 = Some v \<Longrightarrow> length xs + length ys \<le> v_cap v \<Longrightarrow> \<forall>y\<in>set ys. elem_dom T y \<Longrightarrow>
    \<exists>s'. pv_fill T grow 0 ys s = Inr s' \<and> pv_rep T s' [0 \<mapsto> xs @ ys]"
proof (induction ys arbitrary: s xs v)
  case (Cons y ys)
  have h: "v_size v = length xs" using pv_rep_holds [OF Cons.prems(1,2)] by (simp add: holds_def)
  have "unat (g_offset s) + pv_need T grow (PvPush 0 y) s \<le> 4194304"
    using Cons.prems(1,2,3) h by (simp add: pv_need_def pv_rep_def)
  then obtain s1 v1 where s1: "pv_push_back T grow 0 y s = Inr s1" "pv_rep T s1 [0 \<mapsto> xs @ [y]]" "pvecs s1 0 = Some v1" "v_cap v1 = v_cap v"
    using push_ok [OF assms Cons.prems(1,2), of xs y] Cons.prems(3,4) by auto
  then show ?case using Cons.IH [OF s1(2,3)] Cons.prems(3,4) by simp
qed auto

lemma pv_fill_push_all:
  assumes "growth_policy grow"
  shows "growable_seq.push_all (\<lambda>x s. Some (pv_push_back int_elem grow 0 x s)) xs s = Some (pv_fill int_elem grow 0 xs s)"
  by (induction xs arbitrary: s)
    (simp_all add: growable_seq.push_all.simps [OF pool_growable [OF assms]] rbind_def split: sum.splits)

text \<open>The state of a program that has just reset the pool and has no vector.\<close>

definition pool_fresh :: "(nat \<Rightarrow> 8 word) \<Rightarrow> pool_state" where
  "pool_fresh m = \<lparr>g_offset = pool_reset, g_pool = m, pvecs = Map.empty\<rparr>"

lemma fresh_rep: "pv_rep T (pool_fresh m) Map.empty"
  by (simp add: pv_rep_def pool_fresh_def pool_reset_def)

lemma construct_filled:
  assumes "pvecs s = Map.empty" and "g_offset s = 0"
  shows "\<exists>s'. pv_construct 0 s = Inr s' \<and> filled T s' [] \<and> g_offset s' = 0 \<and>
    pvecs s' = [0 \<mapsto> \<lparr>v_data = None, v_size = 0, v_cap = 0\<rparr>]"
  using assms by (simp add: pv_construct_def filled_def pv_rep_def holds_def apart_def)

text \<open>A reset while a vector lives: the next vector gets the same bytes.\<close>

lemma reset_aliases:
  "(let (rs, s) = pv_run int_elem doubling [PvNew 0, PvPush 0 1, PvReset, PvNew 1, PvPush 1 2] (pool_fresh (\<lambda>_. 0))
    in (rs, pv_get int_elem 0 0 s)) = ([None, None, None, None, None], Inr 2)"
  by code_simp

subsection \<open>Main results\<close>

text \<open>C1: whatever the growth policy and the element type, in a program on any number of vectors that share the
  pool, starting from a reset pool: a call either succeeds or throws \<open>bad_alloc\<close> or (a reserve beyond the largest
  size) \<open>length_error\<close>, never anything else; every vector has the size and the elements that its list
  operations give, through all reallocations; and a call that threw has changed none of them.\<close>

theorem pool_vector_programs:
  assumes "elem_ok T" and "growth_policy grow" and "pv_legal (elem_dom T) ops {}"
    and "pv_run T grow ops (pool_fresh m) = (rs, s)"
  shows "length rs = length ops \<and> set rs \<subseteq> {None, Some BadAlloc, Some LengthError} \<and>
    (\<forall>i. pv_size i s = (case lists_run ops rs Map.empty i of None \<Rightarrow> Inl DeadObject | Some xs \<Rightarrow> Inr (of_nat (length xs)))) \<and>
    (\<forall>i xs k. lists_run ops rs Map.empty i = Some xs \<longrightarrow> k < length xs \<longrightarrow> pv_get T i k s = Inr (xs ! k))"
proof -
  have ok: "length rs = length ops \<and> set rs \<subseteq> {None, Some BadAlloc, Some LengthError} \<and> pv_rep T s (lists_run ops rs Map.empty)"
    using pv_run_ok [OF assms(1,2) fresh_rep _ assms(4)] assms(3) by simp
  then have rep: "pv_rep T s (lists_run ops rs Map.empty)" by blast
  show ?thesis using ok pv_size_ok [OF rep] pv_get_ok [OF rep] by blast
qed

theorem pool_vector_programs_witness:
  "\<exists>s. pv_run int_elem doubling [PvNew 0, PvPush 0 5, PvNew 1, PvPush 1 7, PvPush 0 6, PvReserve 1 0x8000000000000000] (pool_fresh (\<lambda>_. 0)) =
      ([None, None, None, None, None, Some LengthError], s) \<and>
    pv_get int_elem 0 0 s = Inr 5 \<and> pv_get int_elem 0 1 s = Inr 6 \<and> pv_get int_elem 1 0 s = Inr 7"
proof -
  let ?ops = "[PvNew 0, PvPush 0 5, PvNew 1, PvPush 1 7, PvPush 0 6, PvReserve 1 0x8000000000000000] :: 32 word pv_op list"
  have "fst (pv_run int_elem doubling ?ops (pool_fresh (\<lambda>_. 0))) = [None, None, None, None, None, Some LengthError]"
    by code_simp
  then obtain s where s: "pv_run int_elem doubling ?ops (pool_fresh (\<lambda>_. 0)) = ([None, None, None, None, None, Some LengthError], s)"
    by (metis prod.collapse)
  from pool_vector_programs [OF int_elem_ok growth_policies(1) _ s] s show ?thesis
    by (auto simp: numeral_2_eq_2)
qed

text \<open>C22: whatever the growth policy, up to 131072 integers can be pushed, without a reserve, to one vector on a fresh
  pool: no call throws, the vector gives all of them back, and all the blocks that its growth has used take at
  most 32 bytes of the pool for each element.\<close>

theorem pool_vector_fills:
  assumes "growth_policy grow" and "length xs \<le> 131072"
  shows "\<exists>s. rbind (pv_construct 0 (pool_fresh m)) (pv_fill int_elem grow 0 xs) = Inr s \<and>
    pv_size 0 s = Inr (of_nat (length xs)) \<and> (\<forall>k<length xs. pv_get int_elem 0 k s = Inr (xs ! k)) \<and>
    unat (g_offset s) \<le> 32 * length xs"
proof -
  obtain s0 where s0: "pv_construct 0 (pool_fresh m) = Inr s0" "filled int_elem s0 []"
    using construct_filled [of "pool_fresh m" int_elem] by (auto simp: pool_fresh_def pool_reset_def)
  obtain s where s: "pv_fill int_elem grow 0 xs s0 = Inr s" "filled int_elem s xs"
    using growable_seq.push_all_appends [OF pool_growable [OF assms(1)] s0(2), of xs] assms pv_fill_push_all [OF assms(1)] by auto
  have rep: "pv_rep int_elem s [0 \<mapsto> xs]" and "unat (g_offset s) \<le> 32 * length xs" using s(2) by (auto simp: filled_def)
  with s0 s(1) pv_size_ok [OF rep, of 0] pv_get_ok [OF rep] show ?thesis by simp
qed

theorem pool_vector_fills_witness:
  "\<exists>s. rbind (pv_construct 0 (pool_fresh (\<lambda>_. 0))) (pv_fill int_elem half_more 0 (replicate 100000 7)) = Inr s \<and>
    pv_get int_elem 0 99999 s = Inr 7"
  using pool_vector_fills [OF growth_policies(2), of "replicate 100000 7" "\<lambda>_. 0"] by auto

end
