(* ===== verification/Pool_Tests.thy ===== *)
theory Pool_Tests
  imports Pool_Vector Cpp_Tests
begin

section \<open>The test program of the pool allocator\<close>

text \<open>
  \<open>test_pool_allocator.cpp\<close> of \<open>03-stl-internals/exercises/ex3-pool-allocator\<close> as a whole: its eight tests on the runner of
  \<open>Cpp_Tests\<close>, and what its two benchmarks do with the pool (the times they measure and print, and the vectors
  on the default allocator, are left out). Parameters are the growth policy of \<open>std::vector\<close>, the
  representation \<open>S\<close> of \<open>std::string\<close> in its own bytes, and the address \<open>base\<close> of \<open>g_pool\<close>.
\<close>

text \<open>The variables of a test: the vectors, by number, and a pointer. At its end the vectors are destroyed.\<close>

type_synonym pool_vars = "pool_state \<times> 64 word"

definition pDo :: "'a elem_type \<Rightarrow> (nat \<Rightarrow> nat) \<Rightarrow> 'a pv_op \<Rightarrow> pool_vars cpp_stmt" where
  "pDo T grow oper = Exec (\<lambda>(s, p). rbind (pv_step T grow oper s) (\<lambda>s'. Inr (s', p)))"

definition pIs :: "'a elem_type \<Rightarrow> nat \<Rightarrow> 'a \<Rightarrow> pool_vars cpp_stmt" where
  "pIs T k x = Assert (\<lambda>(s, p). rbind (pv_get T 0 k s) (\<lambda>y. Inr (x = y)))"

definition pSize :: "int \<Rightarrow> pool_vars cpp_stmt" where
  "pSize n = Assert (\<lambda>(s, p). rbind (pv_size 0 s) (\<lambda>m. Inr (n = sint (ucast m :: 32 word))))"

definition pAlloc :: "64 word \<Rightarrow> 64 word \<Rightarrow> 64 word \<Rightarrow> pool_vars cpp_stmt" where
  "pAlloc base sz n = Exec (\<lambda>(s, p).
     rbind (allocate sz n (g_offset s)) (\<lambda>(a, g). Inr (s\<lparr>g_offset := g\<rparr>, base + a)))"

definition pNotNull :: "pool_vars cpp_stmt" where
  "pNotNull = Assert (\<lambda>(s, p). Inr (p \<noteq> 0))"

definition pFree :: "64 word \<Rightarrow> pool_vars cpp_stmt" where
  "pFree n = Exec (\<lambda>(s, p). Inr (s\<lparr>g_offset := deallocate p n (g_offset s)\<rparr>, p))"

definition pool_leave :: "pool_vars \<Rightarrow> pool_vars res" where
  "pool_leave = (\<lambda>(s, p). rbind (if pvecs s 0 = None then Inr s else pv_destroy 0 s) (\<lambda>s'. Inr (s', p)))"

definition pReset :: "pool_vars cpp_stmt" where
  "pReset = Exec (\<lambda>(s, p). Inr (reset_pool s, p))"

abbreviation int_of :: "int \<Rightarrow> 32 word" where
  "int_of \<equiv> word_of_int"

definition test_int_push_back :: "(nat \<Rightarrow> nat) \<Rightarrow> pool_vars cpp_test" where
  "test_int_push_back grow = (''test_int_push_back'',
     [pReset, pDo int_elem grow (PvNew 0)] @ map (\<lambda>x. pDo int_elem grow (PvPush 0 x)) [1, 2, 3] @
     [pSize 3, pIs int_elem 0 1, pIs int_elem 1 2, pIs int_elem 2 3])"

definition test_int_values_survive_realloc :: "(nat \<Rightarrow> nat) \<Rightarrow> pool_vars cpp_test" where
  "test_int_values_survive_realloc grow = (''test_int_values_survive_realloc'',
     [pReset, pDo int_elem grow (PvNew 0)] @
     map (\<lambda>x. pDo int_elem grow (PvPush 0 x)) (map (\<lambda>i. int_of (int i * 3)) [0..<512]) @
     [pSize 512] @ map (\<lambda>i. pIs int_elem i (int_of (int i * 3))) [0..<512])"

definition test_string_push_back :: "string elem_type \<Rightarrow> (nat \<Rightarrow> nat) \<Rightarrow> pool_vars cpp_test" where
  "test_string_push_back S grow = (''test_string_push_back'',
     [pReset, pDo S grow (PvNew 0)] @ map (\<lambda>x. pDo S grow (PvPush 0 x)) [''hello'', ''world'', ''hft''] @
     [pSize 3, pIs S 0 ''hello'', pIs S 1 ''world'', pIs S 2 ''hft''])"

definition test_clear_and_repopulate :: "(nat \<Rightarrow> nat) \<Rightarrow> pool_vars cpp_test" where
  "test_clear_and_repopulate grow = (''test_clear_and_repopulate'',
     [pReset, pDo int_elem grow (PvNew 0)] @ map (\<lambda>x. pDo int_elem grow (PvPush 0 x)) (map of_nat [0..<16]) @
     [pDo int_elem grow (PvClear 0), pSize 0] @ map (\<lambda>x. pDo int_elem grow (PvPush 0 x)) [99] @ [pSize 1, pIs int_elem 0 99])"

definition test_pool_reset_between_uses :: "(nat \<Rightarrow> nat) \<Rightarrow> pool_vars cpp_test" where
  "test_pool_reset_between_uses grow = (''test_pool_reset_between_uses'',
     [pReset, pDo int_elem grow (PvNew 0)] @ map (\<lambda>x. pDo int_elem grow (PvPush 0 x)) (map of_nat [0..<64]) @
     [pSize 64, pDo int_elem grow (PvDestroy 0), pReset, pDo int_elem grow (PvNew 0)] @
     map (\<lambda>x. pDo int_elem grow (PvPush 0 x)) (map of_nat [100..<164]) @
     [pSize 64, pIs int_elem 0 100, pIs int_elem 63 163])"

definition test_large_reserve :: "(nat \<Rightarrow> nat) \<Rightarrow> pool_vars cpp_test" where
  "test_large_reserve grow = (''test_large_reserve'',
     [pReset, pDo int_elem grow (PvNew 0), pDo int_elem grow (PvReserve 0 10000)] @
     map (\<lambda>x. pDo int_elem grow (PvPush 0 x)) (map of_nat [0..<10000]) @
     [pSize 10000, pIs int_elem 0 0, pIs int_elem 9999 9999])"

definition test_alignment_not_null :: "64 word \<Rightarrow> pool_vars cpp_test" where
  "test_alignment_not_null base = (''test_alignment_not_null'', [pReset, pAlloc base 4 1, pNotNull, pFree 1])"

definition test_rebind :: "64 word \<Rightarrow> pool_vars cpp_test" where
  "test_rebind base = (''test_rebind'', [pReset, pAlloc base 8 4, pNotNull, pFree 4])"

definition pool_tests :: "string elem_type \<Rightarrow> 64 word \<Rightarrow> (nat \<Rightarrow> nat) \<Rightarrow> pool_vars cpp_test list" where
  "pool_tests S base grow =
     [test_int_push_back grow, test_int_values_survive_realloc grow, test_string_push_back S grow,
      test_clear_and_repopulate grow, test_pool_reset_between_uses grow, test_large_reserve grow,
      test_alignment_not_null base, test_rebind base]"

text \<open>The benchmarks: 100000 integers in one vector, and 10000 allocations of 64 bytes.\<close>

definition bench_vector_push_back :: "(nat \<Rightarrow> nat) \<Rightarrow> pool_state \<Rightarrow> pool_state res" where
  "bench_vector_push_back grow s =
     rbind (pv_construct 0 (reset_pool s)) (\<lambda>s1.
     rbind (pv_fill int_elem grow 0 (map of_nat [0..<100000]) s1) (\<lambda>s2.
     rbind (pv_get int_elem 0 0 s2) (\<lambda>_. pv_destroy 0 s2)))"

definition bench_alloc_latency_distribution :: "pool_state \<Rightarrow> pool_state res" where
  "bench_alloc_latency_distribution s =
     rbind (alloc_all pool_alloc request_bytes (replicate 10000 (1, 64)) (g_offset (reset_pool s)))
       (\<lambda>(ps, g). Inr (s\<lparr>g_offset := g\<rparr>))"

definition pool_test_main ::
    "string elem_type \<Rightarrow> 64 word \<Rightarrow> (nat \<Rightarrow> nat) \<Rightarrow> pool_vars \<Rightarrow> harness \<Rightarrow> (pool_state \<times> harness \<times> int) res" where
  "pool_test_main S base grow s h =
     rbind (cpp_tests pool_leave (pool_tests S base grow) s (TEST_BEGIN h)) (\<lambda>((s1, p), h1).
     rbind (bench_vector_push_back grow s1) (\<lambda>s2.
     rbind (bench_alloc_latency_distribution s2) (\<lambda>s3. Inr (s3, h1, TEST_END h1))))"

subsection \<open>The statements\<close>

definition idle :: "pool_state \<Rightarrow> bool" where
  "idle s \<longleftrightarrow> pvecs s = Map.empty"

definition passes :: "pool_vars cpp_test \<Rightarrow> bool" where
  "passes t \<longleftrightarrow> (\<forall>s p. idle s \<longrightarrow> (\<exists>s' p'. cpp_state pool_leave (snd t) (s, p) = Some (s', p') \<and> idle s'))"

lemma state_reset: "cpp_state leave (pReset # ss) (s, p) = cpp_state leave ss (reset_pool s, p)"
  by (simp add: pReset_def)

lemma state_do: "pv_step T grow oper s = Inr s' \<Longrightarrow> cpp_state leave (pDo T grow oper # ss) (s, p) = cpp_state leave ss (s', p)"
  by (simp add: pDo_def)

lemma state_fill: "pv_fill T grow 0 xs s = Inr s' \<Longrightarrow>
    cpp_state leave (map (\<lambda>x. pDo T grow (PvPush 0 x)) xs @ ss) (s, p) = cpp_state leave ss (s', p)"
  by (induction xs arbitrary: s) (auto simp: pDo_def pv_step_def rbind_eq_Inr)

lemma state_size:
  assumes "pv_rep T s [0 \<mapsto> xs]" and "length xs < 2 ^ 31" and "n = int (length xs)"
  shows "cpp_state leave (pSize n # ss) (s, p) = cpp_state leave ss (s, p)"
proof -
  have "unat (ucast (of_nat (length xs) :: 64 word) :: 32 word) = length xs"
    using assms(2) by (simp add: unsigned_ucast_eq unsigned_of_nat take_bit_nat_eq_self min_def)
  then have "sint (ucast (of_nat (length xs) :: 64 word) :: 32 word) = int (length xs)"
    using assms(2) by (simp add: sint_uint uint_nat signed_take_bit_int_eq_self)
  then show ?thesis using pv_size_ok [OF assms(1), of 0] assms(3) by (simp add: pSize_def)
qed

lemma state_is:
  "pv_rep T s [0 \<mapsto> xs] \<Longrightarrow> k < length xs \<Longrightarrow> xs ! k = x \<Longrightarrow> cpp_state leave (pIs T k x # ss) (s, p) = cpp_state leave ss (s, p)"
  using pv_get_ok [of T s "[0 \<mapsto> xs]" 0 xs k] by (simp add: pIs_def)

lemma state_all:
  "pv_rep T s [0 \<mapsto> xs] \<Longrightarrow> \<forall>k\<in>set ks. k < length xs \<and> xs ! k = f k \<Longrightarrow>
    cpp_state leave (map (\<lambda>k. pIs T k (f k)) ks @ ss) (s, p) = cpp_state leave ss (s, p)"
  by (induction ks) (auto simp: state_is)

lemma rep_single: "pv_rep T s [0 \<mapsto> xs] \<Longrightarrow> \<exists>v. pvecs s = [0 \<mapsto> v] \<and> holds T (g_pool s) (unat (g_offset s)) v xs"
proof -
  assume rep: "pv_rep T s [0 \<mapsto> xs]"
  then have d: "dom (pvecs s) = {0}" by (simp add: pv_rep_def)
  then obtain v where v: "pvecs s 0 = Some v" by auto
  have "pvecs s j = None" if "j \<noteq> 0" for j using d that by (metis domIff singletonD)
  with v have "pvecs s = [0 \<mapsto> v]" by (simp add: fun_eq_iff)
  with pv_rep_holds [OF rep v] show ?thesis by (intro exI conjI) auto
qed

lemma state_destroy: "pv_rep T s [0 \<mapsto> xs] \<Longrightarrow> \<exists>s'. pv_destroy 0 s = Inr s' \<and> idle s'"
  using rep_single [of T s xs] by (auto simp: pv_destroy_def on_vec_def idle_def)

lemma state_leave: "pv_rep T s [0 \<mapsto> xs] \<Longrightarrow> \<exists>s' p'. cpp_state pool_leave [] (s, p) = Some (s', p') \<and> idle s'"
  using state_destroy [of T s xs] rep_single [of T s xs] by (auto simp: pool_leave_def)

lemma state_start:
  assumes "idle s"
  shows "\<exists>s1. filled T s1 [] \<and> pvecs s1 = [0 \<mapsto> \<lparr>v_data = None, v_size = 0, v_cap = 0\<rparr>] \<and> g_offset s1 = 0 \<and>
    (\<forall>leave ss p. cpp_state leave (pReset # pDo T grow (PvNew 0) # ss) (s, p) = cpp_state leave ss (s1, p))"
proof -
  obtain s1 where "pv_construct 0 (reset_pool s) = Inr s1" "filled T s1 []" "g_offset s1 = 0"
      "pvecs s1 = [0 \<mapsto> \<lparr>v_data = None, v_size = 0, v_cap = 0\<rparr>]"
    using construct_filled [of "reset_pool s" T] assms by (auto simp: idle_def reset_pool_def pool_reset_def)
  then show ?thesis by (auto simp: state_reset state_do pv_step_def)
qed

lemma state_filled:
  assumes "elem_ok T" and "growth_policy grow" and "idle s" and "\<forall>x\<in>set xs. elem_dom T x"
    and "8 * length xs * esize T \<le> 4194304"
  shows "\<exists>s1. filled T s1 xs \<and> (\<forall>leave ss p. cpp_state leave
      (pReset # pDo T grow (PvNew 0) # map (\<lambda>x. pDo T grow (PvPush 0 x)) xs @ ss) (s, p) = cpp_state leave ss (s1, p))"
proof -
  obtain s0 where s0: "filled T s0 []"
      "\<And>leave ss p. cpp_state leave (pReset # pDo T grow (PvNew 0) # ss) (s, p) = cpp_state leave ss (s0, p)"
    using state_start [OF assms(3)] by blast
  obtain s1 where "pv_fill T grow 0 xs s0 = Inr s1" "filled T s1 xs"
    using pv_fill_filled [OF assms(1,2) s0(1), of xs] assms(4,5) by auto
  then show ?thesis using s0(2) state_fill by metis
qed

lemma filled_rep: "filled T s xs \<Longrightarrow> pv_rep T s [0 \<mapsto> xs]"
  by (simp add: filled_def)

subsection \<open>The tests\<close>

text \<open>A test that fills one vector and then checks it: the form of the first three.\<close>

lemma fill_test_passes:
  assumes "elem_ok T" and "growth_policy grow" and "\<forall>x\<in>set xs. elem_dom T x" and "8 * length xs * esize T \<le> 4194304"
    and "\<forall>k\<in>set ks. k < length xs \<and> xs ! k = f k" and "n = int (length xs)" and "length xs < 2 ^ 31"
  shows "passes (nm, [pReset, pDo T grow (PvNew 0)] @ map (\<lambda>x. pDo T grow (PvPush 0 x)) xs @ [pSize n] @ map (\<lambda>k. pIs T k (f k)) ks)"
  unfolding passes_def
proof (intro allI impI)
  fix s p
  assume "idle s"
  then obtain s1 where s1: "filled T s1 xs" "\<And>leave ss p. cpp_state leave
      (pReset # pDo T grow (PvNew 0) # map (\<lambda>x. pDo T grow (PvPush 0 x)) xs @ ss) (s, p) = cpp_state leave ss (s1, p)"
    using state_filled [OF assms(1,2) _ assms(3,4)] by blast
  note rep = filled_rep [OF s1(1)]
  show "\<exists>s' p'. cpp_state pool_leave (snd (nm, [pReset, pDo T grow (PvNew 0)] @ map (\<lambda>x. pDo T grow (PvPush 0 x)) xs @
      [pSize n] @ map (\<lambda>k. pIs T k (f k)) ks)) (s, p) = Some (s', p') \<and> idle s'"
    using state_leave [OF rep] state_all [OF rep assms(5), of pool_leave "[]" p]
    by (simp add: s1(2) state_size [OF rep assms(7,6)] del: cpp_state.simps)
qed

lemma test_int_push_back_passes: "growth_policy grow \<Longrightarrow> passes (test_int_push_back grow)"
proof -
  assume g: "growth_policy grow"
  have eq: "test_int_push_back grow = (''test_int_push_back'', [pReset, pDo int_elem grow (PvNew 0)] @
      map (\<lambda>x. pDo int_elem grow (PvPush 0 x)) [1, 2, 3] @ [pSize 3] @ map (\<lambda>k. pIs int_elem k ([1, 2, 3] ! k)) [0, 1, 2])"
    by (simp add: test_int_push_back_def)
  show ?thesis unfolding eq by (rule fill_test_passes [OF int_elem_ok g]) simp_all
qed

lemma test_int_values_survive_realloc_passes: "growth_policy grow \<Longrightarrow> passes (test_int_values_survive_realloc grow)"
  unfolding test_int_values_survive_realloc_def
  by (rule fill_test_passes [OF int_elem_ok]) (simp_all del: upt_rec_numeral)

lemma test_string_push_back_passes:
  assumes "growth_policy grow" and "elem_ok S" and "\<forall>x\<in>{''hello'', ''world'', ''hft''}. elem_dom S x" and "esize S \<le> 4096"
  shows "passes (test_string_push_back S grow)"
proof -
  have eq: "test_string_push_back S grow = (''test_string_push_back'', [pReset, pDo S grow (PvNew 0)] @
      map (\<lambda>x. pDo S grow (PvPush 0 x)) [''hello'', ''world'', ''hft''] @ [pSize 3] @
      map (\<lambda>k. pIs S k ([''hello'', ''world'', ''hft''] ! k)) [0, 1, 2])"
    by (simp add: test_string_push_back_def)
  show ?thesis unfolding eq using assms(3,4) by (intro fill_test_passes [OF assms(2,1)]) simp_all
qed

lemma test_clear_and_repopulate_passes: "growth_policy grow \<Longrightarrow> passes (test_clear_and_repopulate grow)"
  unfolding passes_def
proof (intro allI impI)
  fix s p
  let ?xs = "map of_nat [0..<16]"
  assume g: "growth_policy grow" and "idle s"
  then obtain s1 where s1: "filled int_elem s1 ?xs" "\<And>leave ss p. cpp_state leave
      (pReset # pDo int_elem grow (PvNew 0) # map (\<lambda>x. pDo int_elem grow (PvPush 0 x)) ?xs @ ss) (s, p) = cpp_state leave ss (s1, p)"
    using state_filled [OF int_elem_ok g, of s ?xs] by (auto simp del: upt_rec_numeral map_map)
  obtain v where v: "pvecs s1 = [0 \<mapsto> v]" "holds int_elem (g_pool s1) (unat (g_offset s1)) v ?xs"
    using rep_single [OF filled_rep [OF s1(1)]] by blast
  obtain s2 where s2: "pv_clear 0 s1 = Inr s2" "pv_rep int_elem s2 [0 \<mapsto> []]"
    using clear_ok [OF filled_rep [OF s1(1)], of 0] v(1) by auto
  have v2: "pvecs s2 0 = Some (v\<lparr>v_size := 0\<rparr>)" using s2(1) v(1) by (auto simp: pv_clear_def on_vec_def)
  have "16 \<le> v_cap v" using v(2) by (simp add: holds_def del: upt_rec_numeral)
  then obtain s3 where s3: "pv_fill int_elem grow 0 [99] s2 = Inr s3" "pv_rep int_elem s3 [0 \<mapsto> [99]]"
    using pv_fill_reserved [OF int_elem_ok g s2(2) v2, of "[99]"] by auto
  have clear: "pv_step int_elem grow (PvClear 0) s1 = Inr s2" using s2(1) by (simp add: pv_step_def)
  have push: "cpp_state pool_leave (pDo int_elem grow (PvPush 0 99) # ss) (s2, p) = cpp_state pool_leave ss (s3, p)" for ss
    using state_fill [OF s3(1), of pool_leave ss p] by simp
  show "\<exists>s' p'. cpp_state pool_leave (snd (test_clear_and_repopulate grow)) (s, p) = Some (s', p') \<and> idle s'"
    using state_leave [OF s3(2)]
    by (simp add: test_clear_and_repopulate_def s1(2) state_do [OF clear] state_size [OF s2(2)] state_size [OF s3(2)]
        push state_is [OF s3(2)] del: cpp_state.simps upt_rec_numeral map_map)
qed

lemma test_pool_reset_between_uses_passes: "growth_policy grow \<Longrightarrow> passes (test_pool_reset_between_uses grow)"
  unfolding passes_def
proof (intro allI impI)
  fix s p
  let ?xs = "map of_nat [0..<64]" and ?ys = "map of_nat [100..<164]"
  assume g: "growth_policy grow" and "idle s"
  then obtain s1 where s1: "filled int_elem s1 ?xs" "\<And>leave ss p. cpp_state leave
      (pReset # pDo int_elem grow (PvNew 0) # map (\<lambda>x. pDo int_elem grow (PvPush 0 x)) ?xs @ ss) (s, p) = cpp_state leave ss (s1, p)"
    using state_filled [OF int_elem_ok g, of s ?xs] by (auto simp del: upt_rec_numeral map_map)
  obtain s2 where s2: "pv_destroy 0 s1 = Inr s2" "idle s2" using state_destroy [OF filled_rep [OF s1(1)]] by blast
  obtain s3 where s3: "filled int_elem s3 ?ys" "\<And>leave ss p. cpp_state leave
      (pReset # pDo int_elem grow (PvNew 0) # map (\<lambda>x. pDo int_elem grow (PvPush 0 x)) ?ys @ ss) (s2, p) = cpp_state leave ss (s3, p)"
    using state_filled [OF int_elem_ok g s2(2), of ?ys] by (auto simp del: upt_rec_numeral map_map)
  have destroy: "pv_step int_elem grow (PvDestroy 0) s1 = Inr s2" using s2(1) by (simp add: pv_step_def)
  show "\<exists>s' p'. cpp_state pool_leave (snd (test_pool_reset_between_uses grow)) (s, p) = Some (s', p') \<and> idle s'"
    using state_leave [OF filled_rep [OF s3(1)]]
    by (simp add: test_pool_reset_between_uses_def s1(2) s3(2) state_do [OF destroy] state_size [OF filled_rep [OF s1(1)]]
        state_size [OF filled_rep [OF s3(1)]] state_is [OF filled_rep [OF s3(1)]] del: cpp_state.simps upt_rec_numeral map_map)
qed

lemma test_large_reserve_passes: "growth_policy grow \<Longrightarrow> passes (test_large_reserve grow)"
  unfolding passes_def
proof (intro allI impI)
  fix s p
  let ?xs = "map of_nat [0..<10000] :: 32 word list"
  assume g: "growth_policy grow" and "idle s"
  then obtain s1 where s1: "filled int_elem s1 []" "pvecs s1 = [0 \<mapsto> \<lparr>v_data = None, v_size = 0, v_cap = 0\<rparr>]" "g_offset s1 = 0"
      "\<And>leave ss p. cpp_state leave (pReset # pDo int_elem grow (PvNew 0) # ss) (s, p) = cpp_state leave ss (s1, p)"
    using state_start by blast
  have v1: "pvecs s1 0 = Some \<lparr>v_data = None, v_size = 0, v_cap = 0\<rparr>" using s1(2) by simp
  have "\<exists>s2 q. vec_realloc int_elem 0 10000 \<lparr>v_data = None, v_size = 0, v_cap = 0\<rparr> s1 = Inr s2 \<and> pv_rep int_elem s2 [0 \<mapsto> []] \<and>
      pvecs s2 = (pvecs s1)(0 \<mapsto> \<lparr>v_data = Some q, v_size = 0, v_cap = 10000\<rparr>)"
    using realloc_ok [OF int_elem_ok filled_rep [OF s1(1)] v1, of "[]" 10000] s1(3) by auto
  then obtain s2 q where s2: "pv_reserve int_elem 0 10000 s1 = Inr s2" "pv_rep int_elem s2 [0 \<mapsto> []]"
      "pvecs s2 0 = Some \<lparr>v_data = Some q, v_size = 0, v_cap = 10000\<rparr>"
    using v1 by (auto simp: pv_reserve_def on_vec_def vec_max_size_def)
  obtain s3 where s3: "pv_fill int_elem grow 0 ?xs s2 = Inr s3" "pv_rep int_elem s3 [0 \<mapsto> ?xs]"
    using pv_fill_reserved [OF int_elem_ok g s2(2,3), of ?xs] by (auto simp del: upt_rec_numeral)
  have reserve: "pv_step int_elem grow (PvReserve 0 10000) s1 = Inr s2" using s2(1) by (simp add: pv_step_def)
  show "\<exists>s' p'. cpp_state pool_leave (snd (test_large_reserve grow)) (s, p) = Some (s', p') \<and> idle s'"
    using state_leave [OF s3(2)]
    by (simp add: test_large_reserve_def s1(4) state_do [OF reserve] state_fill [OF s3(1)] state_size [OF s3(2)] state_is [OF s3(2)]
        del: cpp_state.simps upt_rec_numeral map_map)
qed

text \<open>The two tests of the allocator itself: after a reset the first allocation returns the address of the pool.\<close>

lemma allocator_test_passes:
  assumes "base \<noteq> 0" and "unat sz * unat n \<le> 4194304"
  shows "passes (nm, [pReset, pAlloc base sz n, pNotNull, pFree n])"
proof -
  have "allocate sz n 0 = Inr (0, n * sz)" using allocate_exact(1) [of sz n 0] assms(2) by simp
  then show ?thesis using assms(1)
    by (auto simp: passes_def pReset_def pAlloc_def pNotNull_def pFree_def pool_leave_def reset_pool_def pool_reset_def idle_def)
qed

lemma tests_passes: "\<forall>t\<in>set ts. passes t \<Longrightarrow> idle s \<Longrightarrow> \<exists>s' p'. cpp_states pool_leave ts (s, p) = Some (s', p') \<and> idle s'"
proof (induction ts arbitrary: s p)
  case (Cons t ts)
  then obtain s1 p1 where "cpp_state pool_leave (snd t) (s, p) = Some (s1, p1)" "idle s1"
    unfolding passes_def by (metis list.set_intros(1))
  then show ?case using Cons.IH [of s1 p1] Cons.prems(1) by simp
qed simp

lemma pool_tests_pass:
  assumes "growth_policy grow" and "elem_ok S" and "\<forall>x\<in>{''hello'', ''world'', ''hft''}. elem_dom S x" and "esize S \<le> 4096"
    and "base \<noteq> 0"
  shows "\<forall>t\<in>set (pool_tests S base grow). passes t"
proof -
  have "passes (test_alignment_not_null base)" "passes (test_rebind base)"
    unfolding test_alignment_not_null_def test_rebind_def by (rule allocator_test_passes [OF assms(5)]; simp)+
  then show ?thesis
    using assms test_int_push_back_passes test_int_values_survive_realloc_passes test_string_push_back_passes
      test_clear_and_repopulate_passes test_pool_reset_between_uses_passes test_large_reserve_passes
    by (simp add: pool_tests_def)
qed

subsection \<open>The benchmarks\<close>

lemma bench_vector_ok:
  assumes "growth_policy grow" and "idle s"
  shows "\<exists>s'. bench_vector_push_back grow s = Inr s' \<and> idle s'"
proof -
  let ?xs = "map of_nat [0..<100000] :: 32 word list"
  obtain s1 where s1: "pv_construct 0 (reset_pool s) = Inr s1" "filled int_elem s1 []"
    using construct_filled [of "reset_pool s" int_elem] assms(2) by (auto simp: idle_def reset_pool_def pool_reset_def)
  obtain s2 where s2: "pv_fill int_elem grow 0 ?xs s1 = Inr s2" "filled int_elem s2 ?xs"
    using pv_fill_filled [OF int_elem_ok assms(1) s1(2), of ?xs] by (auto simp del: upt_rec_numeral)
  have "pv_get int_elem 0 0 s2 = Inr (?xs ! 0)"
    by (rule pv_get_ok [OF filled_rep [OF s2(2)]]) (simp_all del: upt_rec_numeral)
  then show ?thesis using s1 s2 state_destroy [OF filled_rep [OF s2(2)]] by (simp add: bench_vector_push_back_def del: upt_rec_numeral)
qed

lemma bench_alloc_ok: "\<exists>s'. bench_alloc_latency_distribution s = Inr s'"
proof -
  have "\<exists>ps g. alloc_all pool_alloc request_bytes (replicate 10000 (1, 64)) 0 = Inr (ps, g)"
    by (rule pool.all_succeed) (simp_all add: request_ok_def request_bytes_def sum_list_replicate)
  then show ?thesis by (auto simp: bench_alloc_latency_distribution_def reset_pool_def pool_reset_def)
qed

subsection \<open>Strings kept in place\<close>

text \<open>A representation of the short strings: the length and the characters in an object of 32 bytes.\<close>

definition short_string :: "string elem_type" where
  "short_string = \<lparr>elem_size = 32, to_bytes = (\<lambda>s. of_nat (length s) # map of_char s @ replicate (31 - length s) 0),
     of_bytes = (\<lambda>bs. map (\<lambda>b. char_of (unat b)) (take (unat (hd bs)) (tl bs))), elem_dom = (\<lambda>s. length s \<le> 15)\<rparr>"

lemma char_byte: "char_of (unat (of_char c :: 8 word)) = c"
proof -
  have "unat (of_char c :: 8 word) = of_char c" by (cases c) (simp add: of_char_def)
  then show ?thesis by simp
qed

lemma short_string_ok: "elem_ok short_string"
proof -
  have "unat (of_nat (length s) :: 8 word) = length s" if "length s \<le> 15" for s :: string
    using that by (simp add: unsigned_of_nat take_bit_nat_eq_self)
  then show ?thesis by (simp add: elem_ok_def short_string_def o_def char_byte)
qed

subsection \<open>Main result\<close>

text \<open>C23: the test program of the pool allocator exits with 0, all eight tests passed and no exception thrown, for
  every growth policy, every representation of the strings of at most 4096 bytes, and any earlier content of the pool.\<close>

theorem pool_test_program:
  assumes "growth_policy grow" and "elem_ok S" and "\<forall>x\<in>{''hello'', ''world'', ''hft''}. elem_dom S x" and "esize S \<le> 4096"
    and "base \<noteq> 0" and "pvecs s = Map.empty"
  shows "\<exists>s' h'. pool_test_main S base grow (s, p) h = Inr (s', h', 0) \<and> tests_passed h' = 8 \<and> tests_failed h' = 0"
proof -
  obtain s1 p1 where s1: "cpp_states pool_leave (pool_tests S base grow) (s, p) = Some (s1, p1)" "idle s1"
    using tests_passes [OF pool_tests_pass [OF assms(1-5)]] assms(6) idle_def by blast
  obtain h1 where h1: "cpp_tests pool_leave (pool_tests S base grow) (s, p) (TEST_BEGIN h) = Inr ((s1, p1), h1)"
      "tests_passed h1 = 8" "tests_failed h1 = 0"
    using cpp_tests_pass [OF s1(1), of "TEST_BEGIN h"] by (auto simp: TEST_BEGIN_def pool_tests_def)
  obtain s2 where s2: "bench_vector_push_back grow s1 = Inr s2" using bench_vector_ok [OF assms(1) s1(2)] by blast
  obtain s3 where "bench_alloc_latency_distribution s2 = Inr s3" using bench_alloc_ok by blast
  with h1 s2 show ?thesis by (simp add: pool_test_main_def TEST_END_def)
qed

theorem pool_test_program_witness:
  "\<exists>s' h'. pool_test_main short_string 4096 doubling (pool_fresh (\<lambda>_. 0), 0)
      \<lparr>tests_run = 0, tests_passed = 0, tests_failed = 0, current_test = []\<rparr> = Inr (s', h', 0) \<and> tests_passed h' = 8"
proof -
  have "\<forall>x\<in>{''hello'', ''world'', ''hft''}. elem_dom short_string x" "esize short_string \<le> 4096" "(4096 :: 64 word) \<noteq> 0"
    "pvecs (pool_fresh (\<lambda>_. 0)) = Map.empty"
    by (simp_all add: short_string_def pool_fresh_def)
  from pool_test_program [OF growth_policies(1) short_string_ok this] show ?thesis by blast
qed

end
