(* ===== verification/Spsc_Bench.thy ===== *)
theory Spsc_Bench
  imports Interleaving Lockfree_Queues Test_Harness
begin

section \<open>The test program of the single-producer queue\<close>

text \<open>
  The program of \<open>05-concurrency/exercises/ex2-spsc-queue/test_spsc_queue.cpp\<close>. Both benchmarks have one shape: the
  producer (\<open>main\<close>) pushes a number of items, waiting on a full queue, and joins the consumer, which tries to pop
  until it has as many. \<open>bench_throughput\<close> sends events made from a counter; \<open>bench_latency\<close> starts the consumer by a
  flag, sends readings of the clock and records what the clock shows when they arrive. One step is one
  operation on the queue, on an atomic variable or on the clock, whose time passes at any moment. The
  queue is a parameter; the contract \<open>fifo_queue\<close> says that it is a bounded FIFO queue. The queue of the
  repository satisfies it with the capacity zero, the one its header documents with one less than its size.
\<close>

subsection \<open>The contract\<close>

locale fifo_queue =
  fixes push :: "'e \<Rightarrow> 'q \<Rightarrow> 'q \<times> bool" and try_pop :: "'e \<Rightarrow> 'q \<Rightarrow> 'q \<times> 'e \<times> bool"
    and contents :: "'q \<Rightarrow> 'e list" and ok :: "'q \<Rightarrow> bool" and cap :: nat and q0 :: 'q
  assumes new_queue: "ok q0 \<and> contents q0 = []"
    and push_fifo: "ok q \<Longrightarrow> push v q = (q', b) \<Longrightarrow>
      ok q' \<and> (b \<longleftrightarrow> length (contents q) < cap) \<and> contents q' = (if b then contents q @ [v] else contents q)"
    and pop_fifo: "ok q \<Longrightarrow> try_pop out q = (q', v, b) \<Longrightarrow>
      ok q' \<and> (if b then contents q = v # contents q' else contents q = [] \<and> contents q' = [] \<and> v = out)"

text \<open>The queue with the observers that the single-threaded tests use.\<close>

locale observed_queue = fifo_queue push try_pop contents ok cap q0
  for push :: "'e \<Rightarrow> 'q \<Rightarrow> 'q \<times> bool" and try_pop :: "'e \<Rightarrow> 'q \<Rightarrow> 'q \<times> 'e \<times> bool"
    and contents :: "'q \<Rightarrow> 'e list" and ok :: "'q \<Rightarrow> bool" and cap :: nat and q0 :: 'q +
  fixes is_empty :: "'q \<Rightarrow> bool" and is_full :: "'q \<Rightarrow> bool"
  assumes empty_iff: "ok q \<Longrightarrow> is_empty q \<longleftrightarrow> contents q = []"
    and full_iff: "ok q \<Longrightarrow> is_full q \<longleftrightarrow> length (contents q) = cap"

subsection \<open>The transfer\<close>

datatype 'e spsc_main = MReady | MMake | MPush 'e | MJoin | MEnd

datatype 'e spsc_consumer = KWait | KTry | KGot 'e | KStore | KEnd

text \<open>
  \<open>sb_got\<close> are the received items, each with the time the consumer reads from the clock for it. Two fields
  are records for the statements: \<open>sb_pushed\<close> is what was pushed, and \<open>sb_made\<close> the time the clock
  showed when the producer made each item.
\<close>

record ('q, 'e) spsc_bench =
  sb_queue :: 'q
  sb_ready :: bool
  sb_done :: bool
  sb_count :: nat
  sb_now :: nat
  sb_main :: "'e spsc_main"
  sb_sent :: nat
  sb_pushed :: "'e list"
  sb_made :: "nat list"
  sb_cons :: "'e spsc_consumer"
  sb_var :: 'e
  sb_cnt :: nat
  sb_got :: "('e \<times> nat) list"

inductive spsc_step ::
  "('e \<Rightarrow> 'q \<Rightarrow> 'q \<times> bool) \<Rightarrow> ('e \<Rightarrow> 'q \<Rightarrow> 'q \<times> 'e \<times> bool) \<Rightarrow> nat \<Rightarrow> (nat \<Rightarrow> nat \<Rightarrow> 'e) \<Rightarrow>
   ('q, 'e) spsc_bench \<Rightarrow> ('q, 'e) spsc_bench \<Rightarrow> bool"
  for push try_pop items mk where
  spsc_tick: "spsc_step push try_pop items mk s (s\<lparr>sb_now := sb_now s + 1\<rparr>)"
| spsc_ready: "sb_main s = MReady \<Longrightarrow> spsc_step push try_pop items mk s (s\<lparr>sb_ready := True, sb_main := MMake\<rparr>)"
| spsc_make: "sb_main s = MMake \<Longrightarrow> sb_sent s < items \<Longrightarrow>
    spsc_step push try_pop items mk s
      (s\<lparr>sb_main := MPush (mk (sb_sent s) (sb_now s)), sb_made := sb_made s @ [sb_now s]\<rparr>)"
| spsc_push: "sb_main s = MPush v \<Longrightarrow> push v (sb_queue s) = (q, True) \<Longrightarrow>
    spsc_step push try_pop items mk s
      (s\<lparr>sb_queue := q, sb_main := MMake, sb_sent := sb_sent s + 1, sb_pushed := sb_pushed s @ [v]\<rparr>)"
| spsc_full_spin: "sb_main s = MPush v \<Longrightarrow> push v (sb_queue s) = (q, False) \<Longrightarrow>
    spsc_step push try_pop items mk s (s\<lparr>sb_queue := q\<rparr>)"
| spsc_sent: "sb_main s = MMake \<Longrightarrow> \<not> sb_sent s < items \<Longrightarrow>
    spsc_step push try_pop items mk s (s\<lparr>sb_main := MJoin\<rparr>)"
| spsc_join: "sb_main s = MJoin \<Longrightarrow> sb_cons s = KEnd \<Longrightarrow> spsc_step push try_pop items mk s (s\<lparr>sb_main := MEnd\<rparr>)"
| spsc_wait: "sb_cons s = KWait \<Longrightarrow>
    spsc_step push try_pop items mk s (s\<lparr>sb_cons := (if sb_ready s then KTry else KWait)\<rparr>)"
| spsc_got: "sb_cons s = KTry \<Longrightarrow> sb_cnt s < items \<Longrightarrow> try_pop (sb_var s) (sb_queue s) = (q, v, True) \<Longrightarrow>
    spsc_step push try_pop items mk s (s\<lparr>sb_queue := q, sb_var := v, sb_cons := KGot v\<rparr>)"
| spsc_empty_spin: "sb_cons s = KTry \<Longrightarrow> sb_cnt s < items \<Longrightarrow> try_pop (sb_var s) (sb_queue s) = (q, v, False) \<Longrightarrow>
    spsc_step push try_pop items mk s (s\<lparr>sb_queue := q, sb_var := v\<rparr>)"
| spsc_record: "sb_cons s = KGot v \<Longrightarrow>
    spsc_step push try_pop items mk s (s\<lparr>sb_cons := KTry, sb_cnt := sb_cnt s + 1, sb_got := sb_got s @ [(v, sb_now s)]\<rparr>)"
| spsc_leave: "sb_cons s = KTry \<Longrightarrow> \<not> sb_cnt s < items \<Longrightarrow>
    spsc_step push try_pop items mk s (s\<lparr>sb_cons := KStore, sb_count := sb_cnt s\<rparr>)"
| spsc_store: "sb_cons s = KStore \<Longrightarrow> spsc_step push try_pop items mk s (s\<lparr>sb_cons := KEnd, sb_done := True\<rparr>)"

inductive_cases spsc_stepE: "spsc_step push try_pop items mk s s'"

text \<open>\<open>bench_throughput\<close>: both threads start at their loops.\<close>

record event =
  timestamp :: "64 word"
  price :: "32 word"
  qty :: "32 word"

definition SPSC_TOTAL :: nat where "SPSC_TOTAL = 10000000"

definition SPSC_QSIZE :: "64 word" where "SPSC_QSIZE = push_bit 16 1"

definition make_event :: "nat \<Rightarrow> event" where
  "make_event cnt = (let c = of_nat cnt :: 64 word in
     \<lparr>timestamp = c, price = ucast (and c 0x7fffffff), qty = ucast (drop_bit 32 c)\<rparr>)"

definition throughput_start :: "'q \<Rightarrow> ('q, event) spsc_bench \<Rightarrow> bool" where
  "throughput_start q s \<longleftrightarrow> (\<exists>t. s = \<lparr>sb_queue = q, sb_ready = False, sb_done = False, sb_count = 0, sb_now = t, sb_main = MMake,
     sb_sent = 0, sb_pushed = [], sb_made = [], sb_cons = KTry, sb_var = \<lparr>timestamp = 0, price = 0, qty = 0\<rparr>, sb_cnt = 0, sb_got = []\<rparr>)"

text \<open>\<open>bench_latency\<close>: the consumer waits for the flag.\<close>

definition SPSC_SAMPLES :: nat where "SPSC_SAMPLES = 10000"

definition make_stamp :: "nat \<Rightarrow> nat \<Rightarrow> 64 word" where
  "make_stamp i now = of_nat now"

definition latency_start :: "'q \<Rightarrow> ('q, 64 word) spsc_bench \<Rightarrow> bool" where
  "latency_start q s \<longleftrightarrow> (\<exists>t. s = \<lparr>sb_queue = q, sb_ready = False, sb_done = False, sb_count = 0, sb_now = t, sb_main = MReady,
     sb_sent = 0, sb_pushed = [], sb_made = [], sb_cons = KWait, sb_var = 0, sb_cnt = 0, sb_got = []\<rparr>)"

definition latencies :: "('q, 64 word) spsc_bench \<Rightarrow> int list" where
  "latencies s = map (\<lambda>(ts, recv). sint (of_nat recv - ts)) (sb_got s)"

subsection \<open>Consistency\<close>

text \<open>What the consumer has taken out of the queue, and what has not arrived yet.\<close>

definition in_hand :: "'e spsc_consumer \<Rightarrow> 'e list" where
  "in_hand pc = (case pc of KGot v \<Rightarrow> [v] | _ \<Rightarrow> [])"

lemma in_hand_simps [simp]: "in_hand KWait = []" "in_hand KTry = []" "in_hand (KGot v) = [v]" "in_hand KStore = []" "in_hand KEnd = []"
  by (simp_all add: in_hand_def)

definition order_inv :: "('q \<Rightarrow> 'e list) \<Rightarrow> ('q \<Rightarrow> bool) \<Rightarrow> nat \<Rightarrow> ('q, 'e) spsc_bench \<Rightarrow> bool" where
  "order_inv contents ok cap s \<longleftrightarrow> ok (sb_queue s) \<and> length (contents (sb_queue s)) \<le> cap \<and>
     map fst (sb_got s) @ in_hand (sb_cons s) @ contents (sb_queue s) = sb_pushed s"

definition count_inv :: "nat \<Rightarrow> ('q, 'e) spsc_bench \<Rightarrow> bool" where
  "count_inv items s \<longleftrightarrow> length (sb_pushed s) = sb_sent s \<and> length (sb_got s) = sb_cnt s \<and> sb_sent s \<le> items \<and> sb_cnt s \<le> items \<and>
     (case sb_main s of MReady \<Rightarrow> sb_sent s = 0 | MMake \<Rightarrow> True | MPush v \<Rightarrow> sb_sent s < items | MJoin \<Rightarrow> sb_sent s = items
      | MEnd \<Rightarrow> sb_sent s = items \<and> sb_cons s = KEnd) \<and>
     (case sb_cons s of KWait \<Rightarrow> sb_main s = MReady \<or> sb_ready s | KTry \<Rightarrow> True | KGot v \<Rightarrow> sb_cnt s < items
      | KStore \<Rightarrow> sb_cnt s = items \<and> sb_count s = items | KEnd \<Rightarrow> sb_cnt s = items \<and> sb_count s = items \<and> sb_done s)"

definition time_inv :: "(nat \<Rightarrow> nat \<Rightarrow> 'e) \<Rightarrow> ('q, 'e) spsc_bench \<Rightarrow> bool" where
  "time_inv mk s \<longleftrightarrow>
     length (sb_made s) = sb_sent s + (case sb_main s of MPush v \<Rightarrow> 1 | _ \<Rightarrow> 0) \<and>
     (\<forall>v. sb_main s = MPush v \<longrightarrow> v = mk (sb_sent s) (sb_made s ! sb_sent s)) \<and>
     (\<forall>i<length (sb_pushed s). sb_pushed s ! i = mk i (sb_made s ! i)) \<and>
     (\<forall>j<length (sb_got s). fst (sb_got s ! j) = mk j (sb_made s ! j) \<and> sb_made s ! j \<le> snd (sb_got s ! j)) \<and>
     (\<forall>t\<in>set (sb_made s). t \<le> sb_now s) \<and> (\<forall>r\<in>set (sb_got s). snd r \<le> sb_now s)"

definition spsc_inv where
  "spsc_inv contents ok cap items mk s \<longleftrightarrow> order_inv contents ok cap s \<and> count_inv items s \<and> time_inv mk s"

text \<open>A starting state of either benchmark.\<close>

definition spsc_start :: "'q \<Rightarrow> ('q, 'e) spsc_bench \<Rightarrow> bool" where
  "spsc_start q s \<longleftrightarrow> sb_queue s = q \<and> (sb_main s = MMake \<and> sb_cons s = KTry \<or> sb_main s = MReady \<and> sb_cons s = KWait) \<and>
     sb_sent s = 0 \<and> sb_pushed s = [] \<and> sb_made s = [] \<and> sb_cnt s = 0 \<and> sb_got s = []"

lemma starts: "throughput_start q s \<Longrightarrow> spsc_start q s" "latency_start q s' \<Longrightarrow> spsc_start q s'"
  by (auto simp: throughput_start_def latency_start_def spsc_start_def)

lemma transfer_counts: "spsc_step push try_pop items mk s s' \<Longrightarrow> count_inv items s \<Longrightarrow> count_inv items s'"
  by (erule spsc_stepE)
    (auto simp: count_inv_def split: spsc_main.splits spsc_consumer.splits)

context fifo_queue
begin

lemma order_step:
  assumes "spsc_step push try_pop items mk s s'" and "order_inv contents ok cap s"
  shows "order_inv contents ok cap s'"
  using assms(1)
proof cases
  case (spsc_push v q)
  then show ?thesis using assms(2) push_fifo [of "sb_queue s" v q True] by (auto simp: order_inv_def)
next
  case (spsc_full_spin v q)
  then show ?thesis using assms(2) push_fifo [of "sb_queue s" v q False] by (auto simp: order_inv_def)
next
  case (spsc_got q v)
  then show ?thesis using assms(2) pop_fifo [of "sb_queue s" "sb_var s" q v True] by (auto simp: order_inv_def)
next
  case (spsc_empty_spin q v)
  then show ?thesis using assms(2) pop_fifo [of "sb_queue s" "sb_var s" q v False] by (auto simp: order_inv_def)
qed (use assms(2) in \<open>auto simp: order_inv_def\<close>)

end

lemma time_step:
  assumes "spsc_step push try_pop items mk s s'" and "time_inv mk s" and "count_inv items s"
    and "map fst (sb_got s) @ in_hand (sb_cons s) @ rest = sb_pushed s"
  shows "time_inv mk s'"
proof -
  have counts: "length (sb_pushed s) = sb_sent s" "length (sb_got s) \<le> sb_sent s"
    using assms(3) arg_cong [OF assms(4), of length] by (simp_all add: count_inv_def)
  show ?thesis
    using assms(1)
  proof cases
    case (spsc_push v q)
    then show ?thesis using assms(2) counts by (auto simp: time_inv_def nth_append less_Suc_eq)
  next
    case spsc_make
    then show ?thesis using assms(2) counts by (auto simp: time_inv_def nth_append)
  next
    case (spsc_record v)
    have v: "sb_pushed s ! length (sb_got s) = v" using assms(4) spsc_record by (auto simp: nth_append simp flip: assms(4))
    have less: "length (sb_got s) < length (sb_pushed s)" using spsc_record by (simp flip: assms(4))
    then have "v = mk (length (sb_got s)) (sb_made s ! length (sb_got s))" using assms(2) v by (auto simp: time_inv_def)
    moreover have "sb_made s ! length (sb_got s) \<le> sb_now s" using assms(2) less counts by (auto simp: time_inv_def)
    ultimately show ?thesis using assms(2) spsc_record by (auto simp: time_inv_def nth_append less_Suc_eq)
  next
    case spsc_tick
    then show ?thesis using assms(2) by (auto simp: time_inv_def le_Suc_eq)
  qed (use assms(2) in \<open>auto simp: time_inv_def split: spsc_main.splits\<close>)
qed

sublocale fifo_queue \<subseteq> spsc: invariant_system "spsc_start q0" "spsc_step push try_pop items mk" "spsc_inv contents ok cap items mk" for items mk
proof
  show "spsc_inv contents ok cap items mk s" if "spsc_start q0 s" for s
    using that new_queue by (auto simp: spsc_start_def spsc_inv_def order_inv_def count_inv_def time_inv_def)
  show "spsc_inv contents ok cap items mk s'"
    if "spsc_inv contents ok cap items mk s" "spsc_step push try_pop items mk s s'" for s s'
    using that order_step [OF that(2)] transfer_counts [OF that(2)] time_step [OF that(2), of "contents (sb_queue s)"]
    by (auto simp: spsc_inv_def order_inv_def)
qed

context fifo_queue
begin

lemma reach_spsc_inv:
  "reach (spsc_start q0) (spsc_step push try_pop items mk) s \<Longrightarrow> spsc_inv contents ok cap items mk s"
  by (rule spsc.reach_inv)

end

subsection \<open>Progress\<close>

definition producer_left :: "nat \<Rightarrow> 'e spsc_main \<Rightarrow> nat \<Rightarrow> nat" where
  "producer_left items pc n = (case pc of MReady \<Rightarrow> 2 * items + 4 | MMake \<Rightarrow> 2 * (items - n) + 3
     | MPush v \<Rightarrow> 2 * (items - n) + 2 | MJoin \<Rightarrow> 1 | MEnd \<Rightarrow> 0)"

definition consumer_left :: "nat \<Rightarrow> 'e spsc_consumer \<Rightarrow> nat \<Rightarrow> nat" where
  "consumer_left items pc n = (case pc of KWait \<Rightarrow> 2 * items + 4 | KTry \<Rightarrow> 2 * (items - n) + 3
     | KGot v \<Rightarrow> 2 * (items - n) + 2 | KStore \<Rightarrow> 1 | KEnd \<Rightarrow> 0)"

definition spsc_left :: "nat \<Rightarrow> ('q, 'e) spsc_bench \<Rightarrow> nat" where
  "spsc_left items s = producer_left items (sb_main s) (sb_sent s) + consumer_left items (sb_cons s) (sb_cnt s)"

lemma left_simps [simp]:
  "producer_left items MReady n = 2 * items + 4" "producer_left items MMake n = 2 * (items - n) + 3"
  "producer_left items (MPush v) n = 2 * (items - n) + 2" "producer_left items MJoin n = 1" "producer_left items MEnd n = 0"
  "consumer_left items KWait n = 2 * items + 4" "consumer_left items KTry n = 2 * (items - n) + 3"
  "consumer_left items (KGot v) n = 2 * (items - n) + 2" "consumer_left items KStore n = 1" "consumer_left items KEnd n = 0"
  by (simp_all add: producer_left_def consumer_left_def)

lemma left_mono: "spsc_step push try_pop items mk s s' \<Longrightarrow> count_inv items s \<Longrightarrow> spsc_left items s' \<le> spsc_left items s"
  by (erule spsc_stepE) (auto simp: spsc_left_def count_inv_def)

definition advances where
  "advances push try_pop items mk s \<longleftrightarrow>
     (\<exists>s'. spsc_step push try_pop items mk s s' \<and> spsc_left items s' < spsc_left items s)"

lemma advancesI: "spsc_step push try_pop items mk s s' \<Longrightarrow> spsc_left items s' < spsc_left items s \<Longrightarrow> advances push try_pop items mk s"
  unfolding advances_def by blast

context fifo_queue
begin

text \<open>The consumer can move when the flag is set and there is something to receive, or when it has everything.\<close>

lemma consumer_advances:
  assumes "spsc_inv contents ok cap items mk s" and "sb_ready s \<or> sb_cons s \<noteq> KWait" and "sb_cons s \<noteq> KEnd"
    and "sb_cons s = KTry \<Longrightarrow> sb_cnt s < items \<Longrightarrow> contents (sb_queue s) \<noteq> []"
  shows "advances push try_pop items mk s"
proof (cases "sb_cons s")
  case KWait
  then show ?thesis using assms(1,2)
    by (intro advancesI [OF spsc_wait]) (auto simp: spsc_left_def spsc_inv_def count_inv_def)
next
  case KTry
  show ?thesis
  proof (cases "sb_cnt s < items")
    case True
    obtain q v b where p: "try_pop (sb_var s) (sb_queue s) = (q, v, b)" by (metis prod_cases3)
    moreover have "ok (sb_queue s)" using assms(1) by (simp add: spsc_inv_def order_inv_def)
    ultimately have "b" using pop_fifo [of "sb_queue s" "sb_var s" q v b] assms(4) KTry True by (auto split: if_splits)
    with p have "try_pop (sb_var s) (sb_queue s) = (q, v, True)" by simp
    from spsc_got [where push = push and try_pop = try_pop and mk = mk, OF KTry True this] show ?thesis
      using KTry by (intro advancesI) (auto simp: spsc_left_def)
  next
    case False
    from spsc_leave [where push = push and try_pop = try_pop and mk = mk, OF KTry False] show ?thesis
      using KTry by (intro advancesI) (auto simp: spsc_left_def)
  qed
next
  case (KGot v)
  then have "sb_cnt s < items" using assms(1) by (simp add: spsc_inv_def count_inv_def)
  with spsc_record [where push = push and try_pop = try_pop and mk = mk and items = items, OF KGot] show ?thesis
    using KGot by (intro advancesI) (auto simp: spsc_left_def)
next
  case KStore
  from spsc_store [where push = push and try_pop = try_pop and mk = mk and items = items, OF KStore] show ?thesis
    using KStore by (intro advancesI) (auto simp: spsc_left_def)
qed (use assms(3) in simp)

lemma waiting_ready: "count_inv items s \<Longrightarrow> sb_main s \<noteq> MReady \<Longrightarrow> sb_ready s \<or> sb_cons s \<noteq> KWait"
  by (auto simp: count_inv_def)

lemma spsc_advances:
  assumes "0 < cap" and inv: "spsc_inv contents ok cap items mk s" and "sb_main s \<noteq> MEnd"
  shows "advances push try_pop items mk s"
proof (cases "sb_main s")
  case MReady
  then have "sb_sent s = 0" using inv by (simp add: spsc_inv_def count_inv_def)
  then show ?thesis using MReady by (intro advancesI [OF spsc_ready]) (auto simp: spsc_left_def)
next
  case MMake
  show ?thesis
  proof (cases "sb_sent s < items")
    case True
    from spsc_make [where push = push and try_pop = try_pop and mk = mk, OF MMake True] show ?thesis
      using MMake by (intro advancesI) (auto simp: spsc_left_def)
  next
    case False
    from spsc_sent [where push = push and try_pop = try_pop and mk = mk, OF MMake False] show ?thesis
      using MMake by (intro advancesI) (auto simp: spsc_left_def)
  qed
next
  case (MPush v)
  have *: "count_inv items s" "ok (sb_queue s)" "sb_sent s < items"
      "map fst (sb_got s) @ in_hand (sb_cons s) @ contents (sb_queue s) = sb_pushed s"
    using inv MPush by (auto simp: spsc_inv_def order_inv_def count_inv_def)
  obtain q b where p: "push v (sb_queue s) = (q, b)" by (cases "push v (sb_queue s)")
  show ?thesis
  proof (cases b)
    case True
    with p have "push v (sb_queue s) = (q, True)" by simp
    from spsc_push [where push = push and try_pop = try_pop and mk = mk and items = items, OF MPush this] show ?thesis
      using MPush *(3) by (intro advancesI) (auto simp: spsc_left_def)
  next
    case False
    then have full: "contents (sb_queue s) \<noteq> []" using push_fifo [OF *(2) p] assms(1) by auto
    moreover have "sb_cons s \<noteq> KEnd"
      using *(1,3) arg_cong [OF *(4), of length] full by (auto simp: count_inv_def)
    ultimately show ?thesis using waiting_ready [OF *(1)] MPush by (intro consumer_advances [OF inv]) simp_all
  qed
next
  case MJoin
  have *: "count_inv items s" "sb_sent s = items"
      "map fst (sb_got s) @ in_hand (sb_cons s) @ contents (sb_queue s) = sb_pushed s"
    using inv MJoin by (auto simp: spsc_inv_def order_inv_def count_inv_def)
  show ?thesis
  proof (cases "sb_cons s = KEnd")
    case True
    from spsc_join [where push = push and try_pop = try_pop and mk = mk and items = items, OF MJoin True] show ?thesis
      using MJoin by (intro advancesI) (auto simp: spsc_left_def)
  next
    case False
    have "contents (sb_queue s) \<noteq> []" if "sb_cons s = KTry" "sb_cnt s < items"
      using *(1,2) arg_cong [OF *(3), of length] that by (auto simp: count_inv_def)
    then show ?thesis using False waiting_ready [OF *(1)] MJoin by (intro consumer_advances [OF inv]) simp_all
  qed
qed (use assms(3) in simp)

lemma spsc_progress_system:
  assumes "0 < cap"
  shows "progress_system (spsc_start q0) (spsc_step push try_pop items mk) (spsc_inv contents ok cap items mk)
    (\<lambda>s. sb_main s = MEnd) (spsc_left items)"
proof
  show "spsc_left items s' \<le> spsc_left items s"
    if "spsc_inv contents ok cap items mk s" "spsc_step push try_pop items mk s s'" for s s'
    using that left_mono by (auto simp: spsc_inv_def)
  show "\<exists>s'. (spsc_step push try_pop items mk)\<^sup>*\<^sup>* s s' \<and> spsc_left items s' < spsc_left items s"
    if "spsc_inv contents ok cap items mk s" "sb_main s \<noteq> MEnd" for s
    using spsc_advances [OF assms that] unfolding advances_def by blast
qed

text \<open>Nothing is sent through a queue without room.\<close>

lemma no_room:
  assumes "cap = 0" and "0 < items" and "reach (spsc_start q0) (spsc_step push try_pop items mk) s"
  shows "sb_sent s = 0 \<and> sb_main s \<noteq> MEnd \<and> sb_main s \<noteq> MJoin \<and> sb_got s = []"
proof -
  have "sb_sent s = 0 \<and> sb_main s \<noteq> MEnd \<and> sb_main s \<noteq> MJoin"
    using assms(3)
  proof (induction rule: reach.induct)
    case (reach_step s s')
    have ok: "ok (sb_queue s)" using reach_spsc_inv [OF reach_step(1)] by (simp add: spsc_inv_def order_inv_def)
    from reach_step(2) show ?case
      using reach_step(3) assms(1,2) push_fifo [OF ok] by cases fastforce+
  qed (auto simp: spsc_start_def)
  moreover from this have "sb_got s = []" using reach_spsc_inv [OF assms(3)] by (auto simp: spsc_inv_def count_inv_def order_inv_def)
  ultimately show ?thesis by blast
qed

end

subsection \<open>The queue of the repository, and the one its header documents\<close>

text \<open>With the placeholders no queue ever has an element: a FIFO queue with room for none.\<close>

interpretation code_spsc: fifo_queue spsc_push spsc_try_pop "\<lambda>q. []" "\<lambda>q. True" 0 q0 for q0
  by unfold_locales (auto simp: spsc_push_def spsc_try_pop_def)

text \<open>The ring buffer of the comment: full when the head is one before the tail, empty when they are equal. It uses
  the observers of the repository.\<close>

definition ring_push :: "64 word \<Rightarrow> 'a \<Rightarrow> 'a spsc \<Rightarrow> 'a spsc \<times> bool" where
  "ring_push N v q =
     (if spsc_full N q then (q, False)
      else (q\<lparr>slots := (slots q)[unat (and (head_idx q) (N - 1)) := v], head_idx := head_idx q + 1\<rparr>, True))"

definition ring_try_pop :: "64 word \<Rightarrow> 'a \<Rightarrow> 'a spsc \<Rightarrow> 'a spsc \<times> 'a \<times> bool" where
  "ring_try_pop N out q =
     (if spsc_empty q then (q, out, False)
      else (q\<lparr>tail_idx := tail_idx q + 1\<rparr>, slots q ! unat (and (tail_idx q) (N - 1)), True))"

definition ring_pos :: "nat \<Rightarrow> 'a spsc \<Rightarrow> nat \<Rightarrow> nat" where
  "ring_pos k q i = unat (take_bit k (tail_idx q + of_nat i))"

definition ring_len :: "'a spsc \<Rightarrow> nat" where
  "ring_len q = unat (head_idx q - tail_idx q)"

definition ring_contents :: "nat \<Rightarrow> 'a spsc \<Rightarrow> 'a list" where
  "ring_contents k q = map (\<lambda>i. slots q ! ring_pos k q i) [0..<ring_len q]"

definition ring_ok :: "nat \<Rightarrow> 'a spsc \<Rightarrow> bool" where
  "ring_ok k q \<longleftrightarrow> k < 64 \<and> length (slots q) = 2 ^ k \<and> ring_len q < 2 ^ k"

lemma ring_head: "head_idx q = tail_idx q + of_nat (ring_len q)"
  by (simp add: ring_len_def)

lemma ring_len_less: "ring_len q < 2 ^ 64"
  using unsigned_less [of "head_idx q - tail_idx q", where ?'a = nat] by (simp add: ring_len_def)

lemma ring_lenI: "head_idx q = tail_idx q + of_nat n \<Longrightarrow> n < 2 ^ 64 \<Longrightarrow> ring_len q = n"
  by (simp add: ring_len_def unsigned_of_nat take_bit_nat_eq_self)

lemma ring_observers:
  assumes "ring_ok k q"
  shows "spsc_empty q \<longleftrightarrow> ring_contents k q = []"
    and "spsc_full (2 ^ k) q \<longleftrightarrow> length (ring_contents k q) = 2 ^ k - 1"
  using spsc_observers_consistent_parts(2,3) [OF _ _ ring_head, of k q] assms
  by (auto simp: ring_ok_def ring_contents_def)

lemma ring_pos_less: "ring_ok k q \<Longrightarrow> ring_pos k q i < length (slots q)"
  using take_bit_nat_less_exp [of k] by (simp add: ring_pos_def ring_ok_def unsigned_take_bit_eq)

lemma ring_pos_inj:
  assumes "ring_ok k q" and "i < j" and "j < 2 ^ k"
  shows "ring_pos k q i \<noteq> ring_pos k q j"
proof
  assume "ring_pos k q i = ring_pos k q j"
  then have "take_bit k (tail_idx q + of_nat i + of_nat (j - i)) = take_bit k (tail_idx q + of_nat i)"
    using assms(2) by (simp add: ring_pos_def of_nat_diff word_unat_eq_iff)
  then have "2 ^ k dvd j - i" by (subst (asm) take_bit_shift_eq) (use assms(1) in \<open>simp_all add: ring_ok_def\<close>)
  then show False using assms(2,3) by (auto dest: dvd_imp_le)
qed

lemma ring_push_ok:
  assumes "ring_ok k q" and "ring_push (2 ^ k) v q = (q', b)"
  shows "ring_ok k q' \<and> (b \<longleftrightarrow> length (ring_contents k q) < 2 ^ k - 1) \<and>
    ring_contents k q' = (if b then ring_contents k q @ [v] else ring_contents k q)"
proof (cases "spsc_full (2 ^ k) q")
  case True
  then show ?thesis using assms ring_observers(2) [OF assms(1)] by (auto simp: ring_push_def)
next
  case False
  let ?n = "ring_len q"
  have n: "?n < 2 ^ k" "?n + 1 \<noteq> 2 ^ k" using False assms(1) ring_observers(2) [OF assms(1)] by (auto simp: ring_ok_def ring_contents_def)
  have slot: "unat (and (head_idx q) (2 ^ k - 1)) = ring_pos k q ?n"
    by (simp add: ring_pos_def mask_take_bit ring_head [symmetric])
  have q': "q' = q\<lparr>slots := (slots q)[ring_pos k q ?n := v], head_idx := head_idx q + 1\<rparr>" and b: "b"
    using assms(2) False slot by (auto simp: ring_push_def)
  have "(2 :: nat) ^ k \<le> 2 ^ 63" using assms(1) by (intro power_increasing) (auto simp: ring_ok_def)
  then have len: "ring_len q' = ?n + 1"
    using n ring_head [of q] by (intro ring_lenI) (auto simp: q' algebra_simps)
  have "slots q' ! ring_pos k q' i = (if i = ?n then v else slots q ! ring_pos k q i)" if "i \<le> ?n" for i
    using that n ring_pos_inj [OF assms(1), of i ?n] ring_pos_less [OF assms(1)] by (auto simp: q' ring_pos_def)
  then have "ring_contents k q' = ring_contents k q @ [v]" by (simp add: ring_contents_def len)
  then show ?thesis using b n assms(1) len by (auto simp: ring_ok_def q' ring_contents_def)
qed

lemma ring_pop_ok:
  assumes "ring_ok k q" and "ring_try_pop (2 ^ k) out q = (q', v, b)"
  shows "ring_ok k q' \<and> (if b then ring_contents k q = v # ring_contents k q'
    else ring_contents k q = [] \<and> ring_contents k q' = [] \<and> v = out)"
proof (cases "spsc_empty q")
  case True
  then show ?thesis using assms ring_observers(1) [OF assms(1)] by (auto simp: ring_try_pop_def)
next
  case False
  let ?n = "ring_len q"
  have n: "0 < ?n" using False ring_observers(1) [OF assms(1)] by (auto simp: ring_contents_def)
  have q': "q' = q\<lparr>tail_idx := tail_idx q + 1\<rparr>" and b: "b" "v = slots q ! ring_pos k q 0"
    using assms(2) False by (auto simp: ring_try_pop_def ring_pos_def mask_take_bit)
  have len: "ring_len q' = ?n - 1"
    using n ring_head [of q] ring_len_less [of q] by (intro ring_lenI) (auto simp: q' of_nat_diff algebra_simps)
  have "slots q' ! ring_pos k q' i = slots q ! ring_pos k q (Suc i)" for i
    by (simp add: q' ring_pos_def algebra_simps)
  moreover have "[0..<?n] = 0 # map Suc [0..<?n - 1]" using n by (simp add: map_Suc_upt upt_conv_Cons)
  ultimately have "ring_contents k q = v # ring_contents k q'" by (simp add: ring_contents_def len b o_def)
  then show ?thesis using b assms(1) len by (auto simp: ring_ok_def q')
qed

text \<open>A ring buffer fresh from its constructor.\<close>

lemma ring_new: "k < 64 \<Longrightarrow> ring_ok k (spsc_new (replicate (2 ^ k) x)) \<and> ring_contents k (spsc_new (replicate (2 ^ k) x)) = []"
  by (simp add: ring_ok_def ring_contents_def ring_len_def spsc_new_def)

lemma ring_queue:
  assumes "k < 64"
  shows "observed_queue (ring_push (2 ^ k)) (ring_try_pop (2 ^ k)) (ring_contents k) (ring_ok k) (2 ^ k - 1)
    (spsc_new (replicate (2 ^ k) x)) spsc_empty (spsc_full (2 ^ k))"
proof
  show "ring_ok k (spsc_new (replicate (2 ^ k) x)) \<and> ring_contents k (spsc_new (replicate (2 ^ k) x)) = []"
    by (rule ring_new [OF assms])
qed (erule (1) ring_push_ok ring_pop_ok | erule ring_observers)+

interpretation ring16: observed_queue "ring_push (2 ^ 16)" "ring_try_pop (2 ^ 16)" "ring_contents 16" "ring_ok 16" "2 ^ 16 - 1"
    "spsc_new (replicate (2 ^ 16) x)" spsc_empty "spsc_full (2 ^ 16)" for x
  by (rule ring_queue) simp

subsection \<open>The single-threaded tests\<close>

text \<open>The conditions that the assertions check, in order. \<open>test_full_behavior\<close> pushes until a push fails: a loop that
  may not end.\<close>

definition spsc_test_push_pop_basic ::
    "(int \<Rightarrow> 'q \<Rightarrow> 'q \<times> bool) \<Rightarrow> ('q \<Rightarrow> 'q \<times> int option) \<Rightarrow> ('q \<Rightarrow> bool) \<Rightarrow> 'q \<Rightarrow> bool list" where
  "spsc_test_push_pop_basic push pop is_empty q =
     (let (q1, b1) = push 1 q; (q2, b2) = push 2 q1; (q3, b3) = push 3 q2;
          (q4, v1) = pop q3; (q5, v2) = pop q4; (q6, v3) = pop q5; (q7, v4) = pop q6
      in [is_empty q, b1, b2, b3, \<not> is_empty q3, v1 \<noteq> None, v1 = Some 1, v2 = Some 2, v3 = Some 3, is_empty q6, v4 = None])"

definition spsc_test_try_pop :: "(int \<Rightarrow> 'q \<Rightarrow> 'q \<times> bool) \<Rightarrow> (int \<Rightarrow> 'q \<Rightarrow> 'q \<times> int \<times> bool) \<Rightarrow> 'q \<Rightarrow> bool list" where
  "spsc_test_try_pop push try_pop q =
     (let (q1, _) = push 99 q; (q2, out, b) = try_pop 0 q1; (q3, out2, b2) = try_pop 0 q2
      in [b, 99 = out, \<not> b2, 0 = out2])"

partial_function (option) fill_up :: "(int \<Rightarrow> 'q \<Rightarrow> 'q \<times> bool) \<Rightarrow> int \<Rightarrow> 'q \<Rightarrow> (int \<times> 'q) option" where
  "fill_up push pushes q = (case push pushes q of (q', b) \<Rightarrow> if b then fill_up push (pushes + 1) q' else Some (pushes, q'))"

definition spsc_test_full_behavior :: "(int \<Rightarrow> 'q \<Rightarrow> 'q \<times> bool) \<Rightarrow> ('q \<Rightarrow> bool) \<Rightarrow> 'q \<Rightarrow> bool list option" where
  "spsc_test_full_behavior push is_full q =
     map_option (\<lambda>(pushes, q'). [7 = pushes, is_full q', \<not> snd (push 999 q')]) (fill_up push 0 q)"

fun push_each :: "(int \<Rightarrow> 'q \<Rightarrow> 'q \<times> bool) \<Rightarrow> int list \<Rightarrow> 'q \<Rightarrow> 'q \<times> bool list" where
  "push_each push [] q = (q, [])"
| "push_each push (v # vs) q = (let (q1, b) = push v q; (q2, bs) = push_each push vs q1 in (q2, b # bs))"

fun drain_each :: "('q \<Rightarrow> 'q \<times> int option) \<Rightarrow> int list \<Rightarrow> 'q \<Rightarrow> 'q \<times> bool list" where
  "drain_each pop [] q = (q, [])"
| "drain_each pop (v # vs) q =
     (let (q1, r) = pop q; (q2, bs) = drain_each pop vs q1 in (q2, [r \<noteq> None, r = Some v] @ bs))"

definition spsc_test_wrap_around ::
    "(int \<Rightarrow> 'q \<Rightarrow> 'q \<times> bool) \<Rightarrow> ('q \<Rightarrow> 'q \<times> int option) \<Rightarrow> ('q \<Rightarrow> bool) \<Rightarrow> 'q \<Rightarrow> bool list" where
  "spsc_test_wrap_around push pop is_empty q =
     (let (q1, bs1) = push_each push [0..6] q; (q2, bs2) = drain_each pop [0..6] q1;
          (q3, bs3) = push_each push [100..106] q2; (q4, bs4) = drain_each pop [100..106] q3
      in bs1 @ bs2 @ [is_empty q2] @ bs3 @ bs4 @ [is_empty q4])"

definition spsc_test_move_push :: "(event \<Rightarrow> 'p \<Rightarrow> 'p \<times> bool) \<Rightarrow> (event \<Rightarrow> 'p \<Rightarrow> 'p \<times> event \<times> bool) \<Rightarrow> 'p \<Rightarrow> bool list" where
  "spsc_test_move_push push try_pop q =
     (let (q1, b1) = push \<lparr>timestamp = 12345, price = 100, qty = 500\<rparr> q;
          (q2, out, b2) = try_pop \<lparr>timestamp = 0, price = 0, qty = 0\<rparr> q1
      in [b1, b2, 100 = price out, 500 = qty out])"

text \<open>\<open>main\<close> up to the benchmarks, for queues of 16 and 8 integers and of 16 events.\<close>

definition spsc_main_prefix ::
    "(64 word \<Rightarrow> int \<Rightarrow> int spsc \<Rightarrow> int spsc \<times> bool) \<Rightarrow> (64 word \<Rightarrow> int spsc \<Rightarrow> int spsc \<times> int option) \<Rightarrow>
     (64 word \<Rightarrow> int \<Rightarrow> int spsc \<Rightarrow> int spsc \<times> int \<times> bool) \<Rightarrow> (64 word \<Rightarrow> event \<Rightarrow> event spsc \<Rightarrow> event spsc \<times> bool) \<Rightarrow>
     (64 word \<Rightarrow> event \<Rightarrow> event spsc \<Rightarrow> event spsc \<times> event \<times> bool) \<Rightarrow> int spsc \<Rightarrow> int spsc \<Rightarrow> event spsc \<Rightarrow>
     harness \<Rightarrow> harness option" where
  "spsc_main_prefix push pop try_pop epush etry_pop q16 q8 e16 h =
     map_option (\<lambda>full. run_tests
       [(''test_push_pop_basic'', spsc_test_push_pop_basic (push 16) (pop 16) spsc_empty q16),
        (''test_try_pop'', spsc_test_try_pop (push 8) (try_pop 8) q8), (''test_full_behavior'', full),
        (''test_wrap_around'', spsc_test_wrap_around (push 8) (pop 8) spsc_empty q8),
        (''test_move_push'', spsc_test_move_push (epush 16) (etry_pop 16) e16)] (TEST_BEGIN h))
     (spsc_test_full_behavior (push 8) (spsc_full 8) q8)"

definition ring_pop :: "64 word \<Rightarrow> 'a spsc \<Rightarrow> 'a spsc \<times> 'a option" where
  "ring_pop N q =
     (if spsc_empty q then (q, None)
      else (q\<lparr>tail_idx := tail_idx q + 1\<rparr>, Some (slots q ! unat (and (tail_idx q) (N - 1)))))"

declare fill_up.simps [code]

lemma ring_tests_pass:
  "spsc_test_push_pop_basic (ring_push 16) (ring_pop 16) spsc_empty (spsc_new (replicate 16 0)) = replicate 11 True"
  "spsc_test_try_pop (ring_push 8) (ring_try_pop 8) (spsc_new (replicate 8 0)) = replicate 4 True"
  "spsc_test_full_behavior (ring_push 8) (spsc_full 8) (spsc_new (replicate 8 0)) = Some (replicate 3 True)"
  "spsc_test_wrap_around (ring_push 8) (ring_pop 8) spsc_empty (spsc_new (replicate 8 0)) = replicate 44 True"
  "spsc_test_move_push (ring_push 16) (ring_try_pop 16) (spsc_new (replicate 16 \<lparr>timestamp = 0, price = 0, qty = 0\<rparr>)) = replicate 4 True"
  by code_simp+

lemma code_tests_fail:
  "\<not> (\<forall>c\<in>set (spsc_test_push_pop_basic spsc_push spsc_pop spsc_empty q). c)"
  "\<not> (\<forall>c\<in>set (spsc_test_try_pop spsc_push spsc_try_pop q). c)"
  "\<exists>cs. spsc_test_full_behavior spsc_push (spsc_full 8) q = Some cs \<and> \<not> (\<forall>c\<in>set cs. c)"
  "\<not> (\<forall>c\<in>set (spsc_test_wrap_around spsc_push spsc_pop spsc_empty q). c)"
  "\<not> (\<forall>c\<in>set (spsc_test_move_push spsc_push spsc_try_pop e). c)"
  by (simp_all add: spsc_test_push_pop_basic_def spsc_test_try_pop_def spsc_test_full_behavior_def spsc_test_wrap_around_def
      spsc_test_move_push_def fill_up.simps [of spsc_push] spsc_push_def spsc_pop_def spsc_try_pop_def upto_rec1)

text \<open>Filling a bounded queue ends, after as many pushes as there was room for.\<close>

lemma fill_up_ends:
  assumes "fifo_queue push try_pop contents ok cap q0"
  shows "ok q \<Longrightarrow> length (contents q) \<le> cap \<Longrightarrow>
    \<exists>q'. fill_up push n q = Some (n + int (cap - length (contents q)), q') \<and> ok q' \<and> length (contents q') = cap"
proof (induction "cap - length (contents q)" arbitrary: n q)
  case 0
  obtain q' b where p: "push n q = (q', b)" by (cases "push n q")
  with fifo_queue.push_fifo [OF assms 0(2) p] 0 show ?case by (auto simp: fill_up.simps [of push n])
next
  case (Suc d)
  obtain q' b where p: "push n q = (q', b)" by (cases "push n q")
  with fifo_queue.push_fifo [OF assms Suc(3) p] Suc(2,4) have q': "b" "ok q'" "length (contents q') = Suc (length (contents q))"
    by auto
  have "d = cap - length (contents q')" "length (contents q') \<le> cap" using Suc(2,4) q'(3) by arith+
  then obtain r where "fill_up push (n + 1) q' = Some (n + 1 + int (cap - length (contents q')), r)" "ok r" "length (contents r) = cap"
    using Suc(1) [of q' "n + 1"] q'(2) by auto
  with p q' Suc(2) show ?case by (simp add: fill_up.simps [of push n] of_nat_diff)
qed

subsection \<open>What the benchmarks deliver\<close>

lemma reach_throughput:
  "reach (throughput_start q) step s \<Longrightarrow> reach (spsc_start q) step s"
  by (induction rule: reach.induct) (auto intro: reach.intros starts)

lemma reach_latency:
  "reach (latency_start q) step s \<Longrightarrow> reach (spsc_start q) step s"
  by (induction rule: reach.induct) (auto intro: reach.intros starts)

lemma inv_end:
  assumes "spsc_inv contents ok cap items mk s" and "sb_main s = MEnd"
  shows "map fst (sb_got s) = sb_pushed s \<and> length (sb_got s) = items \<and> sb_count s = items \<and> sb_done s"
proof -
  have c: "sb_cons s = KEnd" "length (sb_pushed s) = items" "length (sb_got s) = items" "sb_count s = items" "sb_done s"
    using assms by (auto simp: spsc_inv_def count_inv_def)
  have o: "map fst (sb_got s) @ contents (sb_queue s) = sb_pushed s"
    using assms(1) c(1) by (simp add: spsc_inv_def order_inv_def)
  then have "contents (sb_queue s) = []" using c(2,3) by (auto dest: arg_cong [of _ _ length])
  with o c show ?thesis by simp
qed

lemma sent_events:
  assumes "time_inv (\<lambda>i t. make_event i) s" and "count_inv items s"
  shows "sb_pushed s = map make_event [0..<sb_sent s]"
  using assms by (intro nth_equalityI) (auto simp: time_inv_def count_inv_def)

lemma got_events:
  assumes "spsc_inv contents ok cap items (\<lambda>i t. make_event i) s"
  shows "map fst (sb_got s) = map make_event [0..<sb_cnt s] \<and> sb_cnt s \<le> sb_sent s \<and> sb_sent s - sb_cnt s \<le> cap + 1"
proof -
  have inv: "map fst (sb_got s) @ in_hand (sb_cons s) @ contents (sb_queue s) = sb_pushed s" "length (contents (sb_queue s)) \<le> cap"
      "length (sb_got s) = sb_cnt s" "length (sb_pushed s) = sb_sent s" "time_inv (\<lambda>i t. make_event i) s"
    using assms by (auto simp: spsc_inv_def order_inv_def count_inv_def)
  have "length (in_hand (sb_cons s)) \<le> 1" by (cases "sb_cons s") auto
  moreover have "sb_cnt s + length (in_hand (sb_cons s)) + length (contents (sb_queue s)) = sb_sent s"
    using arg_cong [OF inv(1), of length] inv(3,4) by simp
  moreover have "map fst (sb_got s) = map make_event [0..<sb_cnt s]"
    using inv(3,5) by (intro nth_equalityI) (auto simp: time_inv_def)
  ultimately show ?thesis using inv(2) by auto
qed

lemma latency_bounds:
  assumes "t \<le> r" and "r < 2 ^ 63"
  shows "sint (of_nat r - of_nat t :: 64 word) = int (r - t)"
proof -
  have "of_nat r - of_nat t = (of_nat (r - t) :: 64 word)" using assms(1) by (simp add: of_nat_diff)
  moreover have "r - t < 2 ^ 63" using assms by simp
  then have "sint (of_nat (r - t) :: 64 word) = int (r - t)"
    by (simp add: signed_of_nat signed_take_bit_int_eq_self)
  ultimately show ?thesis by simp
qed

subsection \<open>Main results\<close>

text \<open>C2: for every bounded FIFO queue and every interleaving of the two threads of the throughput benchmark: the
  events arrive in the order in which they were made, none lost and none twice; the consumer is never more than
  the capacity and one item behind; and when \<open>main\<close> has joined, all ten million arrived, so its assertion holds.\<close>

theorem spsc_throughput_in_order:
  assumes "fifo_queue push try_pop contents ok cap q0"
    and "reach (throughput_start q0) (spsc_step push try_pop SPSC_TOTAL (\<lambda>i t. make_event i)) s"
  shows "sb_pushed s = map make_event [0..<sb_sent s] \<and> map fst (sb_got s) = map make_event [0..<sb_cnt s] \<and>
    sb_cnt s \<le> sb_sent s \<and> sb_sent s - sb_cnt s \<le> cap + 1 \<and> sb_sent s \<le> SPSC_TOTAL \<and>
    (sb_main s = MEnd \<longrightarrow> sb_count s = SPSC_TOTAL \<and> sb_cnt s = SPSC_TOTAL \<and> sb_done s)"
proof -
  note inv = fifo_queue.reach_spsc_inv [OF assms(1) reach_throughput [OF assms(2)]]
  have c: "count_inv SPSC_TOTAL s" "time_inv (\<lambda>i t. make_event i) s" using inv by (auto simp: spsc_inv_def)
  moreover have "sb_sent s \<le> SPSC_TOTAL" "length (sb_got s) = sb_cnt s" using c(1) by (auto simp: count_inv_def)
  ultimately show ?thesis using sent_events [OF c(2,1)] got_events [OF inv] inv_end [OF inv] by auto
qed

theorem spsc_throughput_in_order_witness:
  "\<exists>s. reach (throughput_start (spsc_new (replicate (2 ^ 16) \<lparr>timestamp = 0, price = 0, qty = 0\<rparr>)))
      (spsc_step (ring_push (2 ^ 16)) (ring_try_pop (2 ^ 16)) SPSC_TOTAL (\<lambda>i t. make_event i)) s \<and>
    sb_main s = MPush (make_event 0) \<and> sb_sent s \<le> SPSC_TOTAL"
proof -
  define q0 where "q0 = spsc_new (replicate (2 ^ 16) \<lparr>timestamp = 0, price = 0, qty = 0\<rparr>)"
  define s0 where "s0 = \<lparr>sb_queue = q0, sb_ready = False, sb_done = False, sb_count = 0, sb_now = 0, sb_main = MMake,
     sb_sent = 0, sb_pushed = [], sb_made = [], sb_cons = KTry, sb_var = \<lparr>timestamp = 0, price = 0, qty = 0\<rparr>, sb_cnt = 0, sb_got = []\<rparr>"
  let ?reach = "reach (throughput_start q0) (spsc_step (ring_push (2 ^ 16)) (ring_try_pop (2 ^ 16)) SPSC_TOTAL (\<lambda>i t. make_event i))"
  have "?reach s0" by (rule reach_start) (simp add: throughput_start_def s0_def)
  from reach_step [OF this spsc_make] have r: "?reach (s0\<lparr>sb_main := MPush (make_event 0), sb_made := [0]\<rparr>)"
    by (simp add: s0_def SPSC_TOTAL_def)
  have "fifo_queue (ring_push (2 ^ 16)) (ring_try_pop (2 ^ 16)) (ring_contents 16) (ring_ok 16) (2 ^ 16 - 1) q0"
    unfolding q0_def by (rule ring16.fifo_queue_axioms)
  from spsc_throughput_in_order [OF this r] r show ?thesis unfolding q0_def by (intro exI conjI) auto
qed

text \<open>C15: for every bounded FIFO queue and every interleaving of the latency benchmark, while the clock shows less than
  2^63 nanoseconds: the recorded latency of the \<open>j\<close>-th sample, computed in wrapping 64-bit arithmetic from the stamp
  that travelled through the queue, is exactly the time from the moment the producer read the clock for its
  \<open>j\<close>-th stamp to the moment the consumer read it for the \<open>j\<close>-th item it received; the second moment is not before
  the first and not in the future. There are never more than the 10000 samples, and exactly so many
  when \<open>main\<close> has joined the consumer.\<close>

theorem spsc_latency_measured:
  assumes "fifo_queue push try_pop contents ok cap q0"
    and "reach (latency_start q0) (spsc_step push try_pop SPSC_SAMPLES make_stamp) s" and "sb_now s < 2 ^ 63"
  shows "latencies s = map (\<lambda>j. int (snd (sb_got s ! j)) - int (sb_made s ! j)) [0..<length (sb_got s)] \<and>
    (\<forall>j<length (latencies s). sb_made s ! j \<le> snd (sb_got s ! j) \<and> snd (sb_got s ! j) \<le> sb_now s) \<and>
    length (latencies s) \<le> SPSC_SAMPLES \<and> (sb_main s = MEnd \<longrightarrow> length (latencies s) = SPSC_SAMPLES)"
proof -
  note inv = fifo_queue.reach_spsc_inv [OF assms(1) reach_latency [OF assms(2)]]
  have got: "length (sb_got s) \<le> SPSC_SAMPLES" using inv by (auto simp: spsc_inv_def count_inv_def)
  have times: "sb_made s ! j \<le> snd (sb_got s ! j)" "snd (sb_got s ! j) \<le> sb_now s"
    "fst (sb_got s ! j) = of_nat (sb_made s ! j)" if "j < length (sb_got s)" for j
    using inv that by (auto simp: spsc_inv_def time_inv_def make_stamp_def)
  have "sint (of_nat (snd (sb_got s ! j)) - fst (sb_got s ! j)) = int (snd (sb_got s ! j)) - int (sb_made s ! j)"
    if "j < length (sb_got s)" for j
  proof -
    note t = times [OF that]
    have "snd (sb_got s ! j) < 2 ^ 63" using t(2) assms(3) by simp
    from latency_bounds [OF t(1) this] t show ?thesis by (simp add: of_nat_diff)
  qed
  then have "latencies s = map (\<lambda>j. int (snd (sb_got s ! j)) - int (sb_made s ! j)) [0..<length (sb_got s)]"
    by (intro nth_equalityI) (simp_all add: latencies_def case_prod_unfold)
  then show ?thesis using got times inv_end [OF inv] by auto
qed

theorem spsc_latency_measured_witness:
  "\<exists>s. reach (latency_start (spsc_new (replicate (2 ^ 16) 0)))
        (spsc_step (ring_push (2 ^ 16)) (ring_try_pop (2 ^ 16)) SPSC_SAMPLES make_stamp) s \<and>
    sb_made s = [0] \<and> length (latencies s) \<le> SPSC_SAMPLES"
proof -
  define q0 :: "64 word spsc" where "q0 = spsc_new (replicate (2 ^ 16) 0)"
  define s0 where "s0 = \<lparr>sb_queue = q0, sb_ready = False, sb_done = False, sb_count = 0, sb_now = 0, sb_main = MReady,
     sb_sent = 0, sb_pushed = [], sb_made = [], sb_cons = KWait, sb_var = 0 :: 64 word, sb_cnt = 0, sb_got = []\<rparr>"
  let ?reach = "reach (latency_start q0) (spsc_step (ring_push (2 ^ 16)) (ring_try_pop (2 ^ 16)) SPSC_SAMPLES make_stamp)"
  have "?reach s0" by (rule reach_start) (simp add: latency_start_def s0_def)
  from reach_step [OF this spsc_ready] have "?reach (s0\<lparr>sb_ready := True, sb_main := MMake\<rparr>)" by (simp add: s0_def)
  from reach_step [OF this spsc_make] have r: "?reach (s0\<lparr>sb_ready := True, sb_main := MPush (make_stamp 0 0), sb_made := [0]\<rparr>)"
    by (simp add: s0_def SPSC_SAMPLES_def)
  have "fifo_queue (ring_push (2 ^ 16)) (ring_try_pop (2 ^ 16)) (ring_contents 16) (ring_ok 16) (2 ^ 16 - 1) q0"
    unfolding q0_def by (rule ring16.fifo_queue_axioms)
  from spsc_latency_measured [OF this r] r show ?thesis
    unfolding q0_def by (intro exI conjI) (auto simp: s0_def)
qed

text \<open>C3: with a bounded FIFO queue that has room for an element, both benchmarks can be brought to their end from every
  state that an interleaving reaches; with room for none, as the queue of the repository, neither ever
  ends, and nothing arrives.\<close>

theorem spsc_bench_completes:
  assumes "fifo_queue push try_pop contents ok cap q0" and "0 < items"
  shows "(0 < cap \<longrightarrow> (\<forall>s. reach (spsc_start q0) (spsc_step push try_pop items mk) s \<longrightarrow>
      (\<exists>s'. (spsc_step push try_pop items mk)\<^sup>*\<^sup>* s s' \<and> sb_main s' = MEnd \<and> sb_count s' = items))) \<and>
    (cap = 0 \<longrightarrow> (\<forall>s. reach (spsc_start q0) (spsc_step push try_pop items mk) s \<longrightarrow> sb_main s \<noteq> MEnd \<and> sb_got s = []))"
proof (intro conjI impI allI)
  fix s
  assume cap: "0 < cap" and r: "reach (spsc_start q0) (spsc_step push try_pop items mk) s"
  note sys = fifo_queue.spsc_progress_system [OF assms(1) cap]
  obtain s' where s': "(spsc_step push try_pop items mk)\<^sup>*\<^sup>* s s'" "sb_main s' = MEnd"
    using progress_system.can_finish [OF sys r] by blast
  have "spsc_inv contents ok cap items mk s'"
    using invariant_system.run_inv [OF progress_system.axioms(1) [OF sys] r s'(1)] .
  with s' inv_end show "\<exists>s'. (spsc_step push try_pop items mk)\<^sup>*\<^sup>* s s' \<and> sb_main s' = MEnd \<and> sb_count s' = items" by blast
qed (use fifo_queue.no_room [OF assms(1) _ assms(2)] in blast)+

theorem spsc_bench_completes_witness:
  "(\<nexists>s. reach (spsc_start (spsc_new [0])) (spsc_step spsc_push spsc_try_pop SPSC_SAMPLES make_stamp) s \<and> sb_main s = MEnd) \<and>
   (\<exists>s. reach (spsc_start (spsc_new (replicate (2 ^ 16) 0))) (spsc_step (ring_push (2 ^ 16)) (ring_try_pop (2 ^ 16)) SPSC_SAMPLES make_stamp) s \<and>
      sb_main s = MReady \<and>
      (\<exists>s'. (spsc_step (ring_push (2 ^ 16)) (ring_try_pop (2 ^ 16)) SPSC_SAMPLES make_stamp)\<^sup>*\<^sup>* s s' \<and> sb_main s' = MEnd))"
proof -
  have pos: "0 < SPSC_SAMPLES" "0 < (2 :: nat) ^ 16 - 1" by (simp_all add: SPSC_SAMPLES_def)
  define s0 where "s0 = \<lparr>sb_queue = spsc_new (replicate (2 ^ 16) 0) :: 64 word spsc, sb_ready = False, sb_done = False, sb_count = 0,
     sb_now = 0, sb_main = MReady, sb_sent = 0, sb_pushed = [], sb_made = [], sb_cons = KWait, sb_var = 0 :: 64 word, sb_cnt = 0, sb_got = []\<rparr>"
  have "latency_start (spsc_new (replicate (2 ^ 16) 0)) s0" by (simp add: latency_start_def s0_def)
  then have r: "reach (spsc_start (spsc_new (replicate (2 ^ 16) 0)))
      (spsc_step (ring_push (2 ^ 16)) (ring_try_pop (2 ^ 16)) SPSC_SAMPLES make_stamp) s0"
    by (intro reach_start starts(2))
  have "sb_main s0 = MReady" by (simp add: s0_def)
  moreover note r
  moreover have "\<exists>s'. (spsc_step (ring_push (2 ^ 16)) (ring_try_pop (2 ^ 16)) SPSC_SAMPLES make_stamp)\<^sup>*\<^sup>* s0 s' \<and> sb_main s' = MEnd"
    using spsc_bench_completes [OF ring16.fifo_queue_axioms pos(1), of 0 make_stamp] pos(2) r by blast
  moreover have "\<nexists>s. reach (spsc_start (spsc_new [0])) (spsc_step spsc_push spsc_try_pop SPSC_SAMPLES make_stamp) s \<and> sb_main s = MEnd"
    using spsc_bench_completes [OF code_spsc.fifo_queue_axioms pos(1), of "spsc_new [0]" make_stamp] by blast
  ultimately show ?thesis by blast
qed

text \<open>On the queue of the repository all five single-threaded tests fail; on the documented one all pass.\<close>

theorem spsc_unit_tests:
  "(\<exists>h'. spsc_main_prefix (\<lambda>N. spsc_push) (\<lambda>N. spsc_pop) (\<lambda>N. spsc_try_pop) (\<lambda>N. spsc_push) (\<lambda>N. spsc_try_pop) q16 q8 e16 h = Some h' \<and>
     tests_run h' = 5 \<and> tests_passed h' = 0 \<and> tests_failed h' = 5) \<and>
   (\<exists>h'. spsc_main_prefix ring_push ring_pop ring_try_pop ring_push ring_try_pop (spsc_new (replicate 16 0)) (spsc_new (replicate 8 0))
       (spsc_new (replicate 16 \<lparr>timestamp = 0, price = 0, qty = 0\<rparr>)) h = Some h' \<and>
     tests_run h' = 5 \<and> tests_passed h' = 5 \<and> tests_failed h' = 0)"
proof
  obtain c3 where "spsc_test_full_behavior spsc_push (spsc_full 8) q8 = Some c3" "\<not> (\<forall>c\<in>set c3. c)"
    using code_tests_fail(3) by blast
  then show "\<exists>h'. spsc_main_prefix (\<lambda>N. spsc_push) (\<lambda>N. spsc_pop) (\<lambda>N. spsc_try_pop) (\<lambda>N. spsc_push) (\<lambda>N. spsc_try_pop) q16 q8 e16 h = Some h' \<and>
     tests_run h' = 5 \<and> tests_passed h' = 0 \<and> tests_failed h' = 5"
    using code_tests_fail(1) [of q16] code_tests_fail(2,4) [of q8] code_tests_fail(5) [of e16]
    by (simp add: spsc_main_prefix_def run_tests_counts TEST_BEGIN_def del: run_tests.simps bex_simps ball_simps)
next
  show "\<exists>h'. spsc_main_prefix ring_push ring_pop ring_try_pop ring_push ring_try_pop (spsc_new (replicate 16 0)) (spsc_new (replicate 8 0))
       (spsc_new (replicate 16 \<lparr>timestamp = 0, price = 0, qty = 0\<rparr>)) h = Some h' \<and>
     tests_run h' = 5 \<and> tests_passed h' = 5 \<and> tests_failed h' = 0"
    unfolding spsc_main_prefix_def ring_tests_pass
    by (simp add: run_tests_counts TEST_BEGIN_def del: run_tests.simps)
qed

end
