(* ===== verification/Lock_Bench.thy ===== *)
theory Lock_Bench
  imports Interleaving
begin

section \<open>The benchmark of the sequence lock\<close>

text \<open>
  \<open>bench_seqlock_vs_shared_mutex\<close> of \<open>05-concurrency/exercises/ex1-seqlock/test_seqlock.cpp\<close>. Its two halves have one shape:
  four readers wait for the flag \<open>go\<close>, read a number of times, and add the time they took to \<open>total\<close>; \<open>main\<close> sets
  the flag and joins them. In the second half (\<open>mutex\<close>) every read is made under a \<open>std::shared_lock\<close>; as nobody
  locks the mutex exclusively, it is the number of its shared owners, and locking never waits. One step
  is one access to the lock, the mutex, an atomic variable or the clock, whose time passes at any moment.
\<close>

datatype bench_reader = BSpin | BClock | BLoop | BHeld | BRelease | BAdd nat | BEnd

datatype lb_main_pc = GSet | GJoin nat | GEnd

record lock_bench =
  lb_go :: bool
  lb_total :: nat
  lb_owners :: nat
  lb_now :: nat
  lb_pc :: "nat \<Rightarrow> bench_reader"
  lb_cnt :: "nat \<Rightarrow> nat"
  lb_from :: "nat \<Rightarrow> nat"
  lb_main :: lb_main_pc

definition LB_READERS :: nat where "LB_READERS = 4"

definition LB_ITERS :: nat where "LB_ITERS = 2000000"

definition lb_start :: "lock_bench \<Rightarrow> bool" where
  "lb_start s \<longleftrightarrow> (\<exists>t. s = \<lparr>lb_go = False, lb_total = 0, lb_owners = 0, lb_now = t, lb_pc = (\<lambda>_. BSpin), lb_cnt = (\<lambda>_. 0),
     lb_from = (\<lambda>_. 0), lb_main = GSet\<rparr>)"

inductive lb_step :: "bool \<Rightarrow> lock_bench \<Rightarrow> lock_bench \<Rightarrow> bool" for mutex where
  lb_tick: "lb_step mutex s (s\<lparr>lb_now := lb_now s + 1\<rparr>)"
| lb_set: "lb_main s = GSet \<Longrightarrow> lb_step mutex s (s\<lparr>lb_go := True, lb_main := GJoin 0\<rparr>)"
| lb_join: "lb_main s = GJoin i \<Longrightarrow> i < LB_READERS \<Longrightarrow> lb_pc s i = BEnd \<Longrightarrow> lb_step mutex s (s\<lparr>lb_main := GJoin (Suc i)\<rparr>)"
| lb_joined: "lb_main s = GJoin i \<Longrightarrow> \<not> i < LB_READERS \<Longrightarrow> lb_step mutex s (s\<lparr>lb_main := GEnd\<rparr>)"
| lb_spin: "i < LB_READERS \<Longrightarrow> lb_pc s i = BSpin \<Longrightarrow>
    lb_step mutex s (s\<lparr>lb_pc := (lb_pc s)(i := (if lb_go s then BClock else BSpin))\<rparr>)"
| lb_clock: "i < LB_READERS \<Longrightarrow> lb_pc s i = BClock \<Longrightarrow>
    lb_step mutex s (s\<lparr>lb_pc := (lb_pc s)(i := BLoop), lb_from := (lb_from s)(i := lb_now s)\<rparr>)"
| lb_read: "i < LB_READERS \<Longrightarrow> lb_pc s i = BLoop \<Longrightarrow> lb_cnt s i < LB_ITERS \<Longrightarrow> \<not> mutex \<Longrightarrow>
    lb_step mutex s (s\<lparr>lb_cnt := (lb_cnt s)(i := Suc (lb_cnt s i))\<rparr>)"
| lb_lock: "i < LB_READERS \<Longrightarrow> lb_pc s i = BLoop \<Longrightarrow> lb_cnt s i < LB_ITERS \<Longrightarrow> mutex \<Longrightarrow>
    lb_step mutex s (s\<lparr>lb_pc := (lb_pc s)(i := BHeld), lb_owners := lb_owners s + 1\<rparr>)"
| lb_held: "i < LB_READERS \<Longrightarrow> lb_pc s i = BHeld \<Longrightarrow>
    lb_step mutex s (s\<lparr>lb_pc := (lb_pc s)(i := BRelease), lb_cnt := (lb_cnt s)(i := Suc (lb_cnt s i))\<rparr>)"
| lb_unlock: "i < LB_READERS \<Longrightarrow> lb_pc s i = BRelease \<Longrightarrow>
    lb_step mutex s (s\<lparr>lb_pc := (lb_pc s)(i := BLoop), lb_owners := lb_owners s - 1\<rparr>)"
| lb_elapsed: "i < LB_READERS \<Longrightarrow> lb_pc s i = BLoop \<Longrightarrow> \<not> lb_cnt s i < LB_ITERS \<Longrightarrow>
    lb_step mutex s (s\<lparr>lb_pc := (lb_pc s)(i := BAdd (lb_now s - lb_from s i))\<rparr>)"
| lb_add: "i < LB_READERS \<Longrightarrow> lb_pc s i = BAdd d \<Longrightarrow>
    lb_step mutex s (s\<lparr>lb_pc := (lb_pc s)(i := BEnd), lb_total := lb_total s + d\<rparr>)"

inductive_cases lb_stepE: "lb_step mutex s s'"

subsection \<open>Consistency\<close>

definition owns :: "bench_reader \<Rightarrow> nat" where
  "owns pc = (case pc of BHeld \<Rightarrow> 1 | BRelease \<Rightarrow> 1 | _ \<Rightarrow> 0)"

definition counts_ok :: "bool \<Rightarrow> bench_reader \<Rightarrow> nat \<Rightarrow> bool" where
  "counts_ok mutex pc n \<longleftrightarrow> n \<le> LB_ITERS \<and>
     (case pc of BHeld \<Rightarrow> mutex \<and> n < LB_ITERS | BRelease \<Rightarrow> mutex | BAdd d \<Rightarrow> n = LB_ITERS | BEnd \<Rightarrow> n = LB_ITERS | _ \<Rightarrow> True)"

text \<open>The time that a reader has added or is about to add is at most what the clock shows.\<close>

definition ended :: "bench_reader \<Rightarrow> nat" where
  "ended pc = (case pc of BEnd \<Rightarrow> 1 | _ \<Rightarrow> 0)"

lemma reader_simps [simp]:
  "owns BSpin = 0" "owns BClock = 0" "owns BLoop = 0" "owns BHeld = 1" "owns BRelease = 1" "owns (BAdd d) = 0" "owns BEnd = 0"
  "ended BSpin = 0" "ended BClock = 0" "ended BLoop = 0" "ended BHeld = 0" "ended BRelease = 0" "ended (BAdd d) = 0" "ended BEnd = 1"
  by (simp_all add: owns_def ended_def)

definition lb_inv :: "bool \<Rightarrow> lock_bench \<Rightarrow> bool" where
  "lb_inv mutex s \<longleftrightarrow> (\<forall>i<LB_READERS. counts_ok mutex (lb_pc s i) (lb_cnt s i)) \<and>
     lb_owners s = (\<Sum>i<LB_READERS. owns (lb_pc s i)) \<and>
     (\<forall>i<LB_READERS. \<forall>d. lb_pc s i = BAdd d \<longrightarrow> d \<le> lb_now s) \<and>
     lb_total s \<le> (\<Sum>i<LB_READERS. ended (lb_pc s i)) * lb_now s \<and>
     (lb_main s \<noteq> GSet \<longrightarrow> lb_go s) \<and>
     (case lb_main s of GSet \<Rightarrow> True | GJoin i \<Rightarrow> i \<le> LB_READERS \<and> (\<forall>j<i. lb_pc s j = BEnd) | GEnd \<Rightarrow> \<forall>j<LB_READERS. lb_pc s j = BEnd)"

lemma sum_upd:
  "i < LB_READERS \<Longrightarrow> (\<Sum>j<LB_READERS. f (((lb_pc s)(i := pc)) j)) + f (lb_pc s i) = (\<Sum>j<LB_READERS. f (lb_pc s j)) + (f pc :: nat)"
  using sum_fun_upd [of "{..<LB_READERS}" i f "lb_pc s" pc] by simp

lemma lb_inv_step: "lb_step mutex s s' \<Longrightarrow> lb_inv mutex s \<Longrightarrow> lb_inv mutex s'"
proof (induction rule: lb_step.induct)
  case (lb_tick s)
  then have "lb_total s \<le> (\<Sum>i<LB_READERS. ended (lb_pc s i)) * Suc (lb_now s)"
    unfolding lb_inv_def by (meson le_SucI mult_le_mono2 order_trans le_refl)
  with lb_tick show ?case by (auto simp: lb_inv_def le_SucI split: lb_main_pc.splits)
next
  case (lb_join s i)
  then show ?case by (auto simp: lb_inv_def less_Suc_eq)
next
  case (lb_spin i s)
  then show ?case using sum_upd [of i owns s BClock] sum_upd [of i ended s BClock] sum_upd [of i owns s BSpin] sum_upd [of i ended s BSpin]
    by (auto simp: lb_inv_def counts_ok_def split: lb_main_pc.splits)
next
  case (lb_clock i s)
  then show ?case using sum_upd [of i owns s BLoop] sum_upd [of i ended s BLoop]
    by (auto simp: lb_inv_def counts_ok_def split: lb_main_pc.splits)
next
  case (lb_read i s)
  then show ?case by (auto simp: lb_inv_def counts_ok_def split: lb_main_pc.splits)
next
  case (lb_lock i s)
  then show ?case using sum_upd [of i owns s BHeld] sum_upd [of i ended s BHeld]
    by (auto simp: lb_inv_def counts_ok_def split: lb_main_pc.splits)
next
  case (lb_held i s)
  then show ?case using sum_upd [of i owns s BRelease] sum_upd [of i ended s BRelease]
    by (auto simp: lb_inv_def counts_ok_def split: lb_main_pc.splits)
next
  case (lb_unlock i s)
  then show ?case using sum_upd [of i owns s BLoop] sum_upd [of i ended s BLoop]
    by (auto simp: lb_inv_def counts_ok_def split: lb_main_pc.splits)
next
  case (lb_elapsed i s)
  then show ?case using sum_upd [of i owns s "BAdd (lb_now s - lb_from s i)"] sum_upd [of i ended s "BAdd (lb_now s - lb_from s i)"]
    by (auto simp: lb_inv_def counts_ok_def split: lb_main_pc.splits)
next
  case (lb_add i s d)
  have "d \<le> lb_now s" using lb_add by (auto simp: lb_inv_def)
  then show ?case using lb_add sum_upd [of i owns s BEnd] sum_upd [of i ended s BEnd]
    by (auto simp: lb_inv_def counts_ok_def split: lb_main_pc.splits)
qed (auto simp: lb_inv_def split: lb_main_pc.splits)

interpretation lock_bench_inv: invariant_system lb_start "lb_step mutex" "lb_inv mutex" for mutex
proof
  show "lb_inv mutex s" if "lb_start s" for s
    using that by (auto simp: lb_start_def lb_inv_def counts_ok_def)
qed (rule lb_inv_step)

subsection \<open>Progress\<close>

definition bench_left :: "bench_reader \<Rightarrow> nat \<Rightarrow> nat" where
  "bench_left pc n = (case pc of BSpin \<Rightarrow> 3 * LB_ITERS + 5 | BClock \<Rightarrow> 3 * LB_ITERS + 4 | BLoop \<Rightarrow> 3 * (LB_ITERS - n) + 3
     | BHeld \<Rightarrow> 3 * (LB_ITERS - n) + 2 | BRelease \<Rightarrow> 3 * (LB_ITERS - n) + 4 | BAdd d \<Rightarrow> 2 | BEnd \<Rightarrow> 0)"

definition joins_left :: "lb_main_pc \<Rightarrow> nat" where
  "joins_left pc = (case pc of GSet \<Rightarrow> LB_READERS + 3 | GJoin i \<Rightarrow> LB_READERS - i + 2 | GEnd \<Rightarrow> 0)"

definition lb_left :: "lock_bench \<Rightarrow> nat" where
  "lb_left s = (\<Sum>i<LB_READERS. bench_left (lb_pc s i) (lb_cnt s i)) + joins_left (lb_main s)"

lemma bench_left_simps [simp]:
  "bench_left BSpin n = 3 * LB_ITERS + 5" "bench_left BClock n = 3 * LB_ITERS + 4" "bench_left BLoop n = 3 * (LB_ITERS - n) + 3"
  "bench_left BHeld n = 3 * (LB_ITERS - n) + 2" "bench_left BRelease n = 3 * (LB_ITERS - n) + 4" "bench_left (BAdd d) n = 2"
  "bench_left BEnd n = 0"
  by (simp_all add: bench_left_def)

lemma joins_left_simps [simp]:
  "joins_left GSet = LB_READERS + 3" "joins_left (GJoin i) = LB_READERS - i + 2" "joins_left GEnd = 0"
  by (simp_all add: joins_left_def)

lemma left_upd:
  assumes "i < LB_READERS"
  shows "(\<Sum>j<LB_READERS. bench_left ((p(i := pc)) j) ((c(i := n)) j)) + bench_left (p i) (c i) =
    (\<Sum>j<LB_READERS. bench_left (p j) (c j)) + bench_left pc n"
proof -
  have "(\<Sum>j\<in>{..<LB_READERS} - {i}. bench_left ((p(i := pc)) j) ((c(i := n)) j)) = (\<Sum>j\<in>{..<LB_READERS} - {i}. bench_left (p j) (c j))"
    by (rule sum.cong) auto
  then show ?thesis using assms by (simp add: sum.remove [of "{..<LB_READERS}" i])
qed

text \<open>How a step of a reader changes what is left.\<close>

lemma left_reader:
  assumes "i < LB_READERS" and "lb_pc s' = (lb_pc s)(i := pc)" and "lb_cnt s' = (lb_cnt s)(i := n)" and "lb_main s' = lb_main s"
  shows "lb_left s' + bench_left (lb_pc s i) (lb_cnt s i) = lb_left s + bench_left pc n"
  using left_upd [OF assms(1), of "lb_pc s" pc "lb_cnt s" n] assms(2-4) by (simp add: lb_left_def)

lemma reader_step_left:
  assumes "lb_step mutex s s'" and "i < LB_READERS" and "lb_pc s' = (lb_pc s)(i := pc)" and "lb_cnt s' = (lb_cnt s)(i := n)"
    and "lb_main s' = lb_main s" and "bench_left pc n < bench_left (lb_pc s i) (lb_cnt s i)"
  shows "\<exists>s'. lb_step mutex s s' \<and> lb_left s' < lb_left s"
  using left_reader [OF assms(2-5)] assms(1,6) by (intro exI [of _ s']) auto

lemma reader_advances:
  assumes "lb_inv mutex s" and "lb_go s" and i: "i < LB_READERS" and "lb_pc s i \<noteq> BEnd"
  shows "\<exists>s'. lb_step mutex s s' \<and> lb_left s' < lb_left s"
proof -
  have c: "counts_ok mutex (lb_pc s i) (lb_cnt s i)" using assms(1,3) by (simp add: lb_inv_def)
  show ?thesis
  proof (cases "lb_pc s i")
    case BSpin
    then show ?thesis using assms(2) by (intro reader_step_left [OF lb_spin [OF i BSpin] i]) (auto simp: fun_eq_iff)
  next
    case BClock
    then show ?thesis by (intro reader_step_left [OF lb_clock [OF i BClock] i]) (auto simp: fun_eq_iff)
  next
    case BLoop
    show ?thesis
    proof (cases "lb_cnt s i < LB_ITERS")
      case False
      then show ?thesis using BLoop by (intro reader_step_left [OF lb_elapsed [OF i BLoop False] i]) (auto simp: fun_eq_iff)
    next
      case True
      show ?thesis
      proof (cases mutex)
        case m: True
        show ?thesis using BLoop by (intro reader_step_left [OF lb_lock [OF i BLoop True m] i]) (auto simp: fun_eq_iff)
      next
        case m: False
        show ?thesis using BLoop True by (intro reader_step_left [OF lb_read [OF i BLoop True m] i]) (auto simp: fun_eq_iff)
      qed
    qed
  next
    case BHeld
    then show ?thesis using c by (intro reader_step_left [OF lb_held [OF i BHeld] i]) (auto simp: fun_eq_iff counts_ok_def)
  next
    case BRelease
    then show ?thesis by (intro reader_step_left [OF lb_unlock [OF i BRelease] i]) (auto simp: fun_eq_iff)
  next
    case (BAdd d)
    then show ?thesis by (intro reader_step_left [OF lb_add [OF i BAdd] i]) (auto simp: fun_eq_iff)
  qed (use assms(4) in simp)
qed

lemma lb_mono: "lb_step mutex s s' \<Longrightarrow> lb_inv mutex s \<Longrightarrow> lb_left s' \<le> lb_left s"
proof (induction rule: lb_step.induct)
  case (lb_spin i s)
  then show ?case using left_upd [of i "lb_pc s" BClock "lb_cnt s" "lb_cnt s i"] left_upd [of i "lb_pc s" BSpin "lb_cnt s" "lb_cnt s i"]
    by (simp add: lb_left_def)
next
  case (lb_clock i s)
  then show ?case using left_upd [of i "lb_pc s" BLoop "lb_cnt s" "lb_cnt s i"] by (simp add: lb_left_def)
next
  case (lb_read i s)
  then show ?case using left_upd [of i "lb_pc s" BLoop "lb_cnt s" "Suc (lb_cnt s i)"] by (simp add: lb_left_def fun_upd_idem)
next
  case (lb_lock i s)
  then show ?case using left_upd [of i "lb_pc s" BHeld "lb_cnt s" "lb_cnt s i"] by (simp add: lb_left_def)
next
  case (lb_held i s)
  have "lb_cnt s i < LB_ITERS" using lb_held by (auto simp: lb_inv_def counts_ok_def)
  then show ?case using lb_held left_upd [of i "lb_pc s" BRelease "lb_cnt s" "Suc (lb_cnt s i)"] by (simp add: lb_left_def)
next
  case (lb_unlock i s)
  then show ?case using left_upd [of i "lb_pc s" BLoop "lb_cnt s" "lb_cnt s i"] by (simp add: lb_left_def)
next
  case (lb_elapsed i s)
  then show ?case using left_upd [of i "lb_pc s" "BAdd (lb_now s - lb_from s i)" "lb_cnt s" "lb_cnt s i"] by (simp add: lb_left_def)
next
  case (lb_add i s d)
  then show ?case using left_upd [of i "lb_pc s" BEnd "lb_cnt s" "lb_cnt s i"] by (simp add: lb_left_def)
qed (auto simp: lb_left_def)

lemma lb_progress: "progress_system lb_start (lb_step mutex) (lb_inv mutex) (\<lambda>s. lb_main s = GEnd) lb_left"
proof
  show "\<exists>s'. (lb_step mutex)\<^sup>*\<^sup>* s s' \<and> lb_left s' < lb_left s" if inv: "lb_inv mutex s" and "lb_main s \<noteq> GEnd" for s
  proof -
    have "\<exists>s'. lb_step mutex s s' \<and> lb_left s' < lb_left s"
    proof (cases "lb_main s")
      case GSet
      show ?thesis by (intro exI conjI, rule lb_set [OF GSet]) (use GSet in \<open>auto simp: lb_left_def\<close>)
    next
      case (GJoin i)
      have go: "lb_go s" using inv GJoin by (simp add: lb_inv_def)
      show ?thesis
      proof (cases "i < LB_READERS")
        case True
        show ?thesis
        proof (cases "lb_pc s i = BEnd")
          case e: True
          show ?thesis by (intro exI conjI, rule lb_join [OF GJoin True e]) (use True GJoin in \<open>auto simp: lb_left_def\<close>)
        qed (rule reader_advances [OF inv go True])
      next
        case False
        show ?thesis by (intro exI conjI, rule lb_joined [OF GJoin False]) (use GJoin in \<open>auto simp: lb_left_def\<close>)
      qed
    qed (use that(2) in simp)
    then show ?thesis by blast
  qed
qed (rule lb_mono)

subsection \<open>Main result\<close>

text \<open>C14: both halves of the benchmark, in every interleaving: no reader reads more often than it should; the mutex has
  at most four shared owners, none unless it is used, and none when \<open>main\<close> has joined; then every reader has
  made its two million reads and the total time is at most four times what the clock shows; and \<open>main\<close> can be
  brought to this end from every state that is reached.\<close>

theorem lock_bench_outcome:
  assumes "reach lb_start (lb_step mutex) s"
  shows "(\<forall>i<LB_READERS. lb_cnt s i \<le> LB_ITERS) \<and> lb_owners s \<le> LB_READERS \<and> (\<not> mutex \<longrightarrow> lb_owners s = 0) \<and>
    lb_total s \<le> LB_READERS * lb_now s \<and>
    (lb_main s = GEnd \<longrightarrow> lb_owners s = 0 \<and> (\<forall>i<LB_READERS. lb_cnt s i = LB_ITERS)) \<and>
    (\<exists>s'. (lb_step mutex)\<^sup>*\<^sup>* s s' \<and> lb_main s' = GEnd)"
proof -
  have inv: "lb_inv mutex s" by (rule lock_bench_inv.reach_inv [OF assms])
  have "(\<Sum>i<LB_READERS. owns (lb_pc s i)) \<le> (\<Sum>i<LB_READERS. 1)"
    by (rule sum_mono) (simp add: owns_def split: bench_reader.splits)
  moreover have "(\<Sum>i<LB_READERS. ended (lb_pc s i)) \<le> (\<Sum>i<LB_READERS. 1)"
    by (rule sum_mono) (simp add: ended_def split: bench_reader.splits)
  then have "(\<Sum>i<LB_READERS. ended (lb_pc s i)) * lb_now s \<le> LB_READERS * lb_now s" by (intro mult_le_mono1) simp
  then have "lb_total s \<le> LB_READERS * lb_now s" using inv by (simp only: lb_inv_def) (meson order_trans)
  moreover have "owns (lb_pc s i) = 0" if "\<not> mutex" "i < LB_READERS" for i
    using inv that by (auto simp: lb_inv_def counts_ok_def owns_def split: bench_reader.splits)
  moreover have "(\<forall>i<LB_READERS. lb_pc s i = BEnd)" if "lb_main s = GEnd" using inv that by (simp add: lb_inv_def)
  ultimately show ?thesis using inv progress_system.can_finish [OF lb_progress assms]
    by (auto simp: lb_inv_def counts_ok_def)
qed

theorem lock_bench_outcome_witness:
  "\<exists>s s'. reach lb_start (lb_step True) s \<and> lb_owners s = 1 \<and> (lb_step True)\<^sup>*\<^sup>* s s' \<and> lb_main s' = GEnd"
proof -
  define s0 where "s0 = \<lparr>lb_go = False, lb_total = 0, lb_owners = 0, lb_now = 0, lb_pc = (\<lambda>_. BSpin), lb_cnt = (\<lambda>_. 0),
     lb_from = (\<lambda>_. 0), lb_main = GSet\<rparr>"
  have zero: "(0 :: nat) < LB_READERS" "0 < LB_ITERS" by (simp_all add: LB_READERS_def LB_ITERS_def)
  have "reach lb_start (lb_step True) s0" by (rule reach_start) (simp add: lb_start_def s0_def)
  from reach_step [OF this lb_set] have "reach lb_start (lb_step True) (s0\<lparr>lb_go := True, lb_main := GJoin 0\<rparr>)"
    (is "reach _ _ ?s1") by (simp add: s0_def)
  from reach_step [OF this lb_spin [OF zero(1)]] have "reach lb_start (lb_step True) (?s1\<lparr>lb_pc := (lb_pc ?s1)(0 := BClock)\<rparr>)"
    (is "reach _ _ ?s2") by (simp add: s0_def)
  from reach_step [OF this lb_clock [OF zero(1)]]
  have "reach lb_start (lb_step True) (?s2\<lparr>lb_pc := (lb_pc ?s2)(0 := BLoop), lb_from := (lb_from ?s2)(0 := lb_now ?s2)\<rparr>)"
    (is "reach _ _ ?s3") by (simp add: s0_def)
  from reach_step [OF this lb_lock [OF zero(1)]] zero(2)
  have r: "reach lb_start (lb_step True) (?s3\<lparr>lb_pc := (lb_pc ?s3)(0 := BHeld), lb_owners := lb_owners ?s3 + 1\<rparr>)"
    by (simp add: s0_def)
  from lock_bench_outcome [OF r] obtain s' where
    "(lb_step True)\<^sup>*\<^sup>* (?s3\<lparr>lb_pc := (lb_pc ?s3)(0 := BHeld), lb_owners := lb_owners ?s3 + 1\<rparr>) s'" "lb_main s' = GEnd"
    by blast
  with r show ?thesis by (intro exI conjI) (auto simp: s0_def)
qed

end
