(* ===== verification/Workbook_Tests.thy ===== *)
theory Workbook_Tests
  imports Cpp_Output Order_Book Circular_Buffer Hot_Alloc Fix_Message Dns Networking
begin

section \<open>The test programs of the exercises left open\<close>

text \<open>
  The test programs of the components whose main operations are placeholders, assertion by assertion with its line
  in the file, on the models of those components and on the two headers: what they report as the repository
  stands. An entry of a test is a statement that may fault (\<open>None\<close>) or an assertion; dereferencing what a failed
  assertion has found to be missing is a fault, which is not reached. \<open>file\<close> is the text of \<open>__FILE__\<close>, \<open>draw\<close>
  the values drawn from the random distributions. The benchmarks that some of the programs run between the last
  test and the summary are left out.
\<close>

type_synonym entry = "cpp_assertion option res"

type_synonym program = "entry listed_test list"

definition check_entry :: "(real \<Rightarrow> real \<Rightarrow> real) \<Rightarrow> entry checker" where
  "check_entry sub loc r rest h =
     rbind r (\<lambda>x. case x of None \<Rightarrow> rest h | Some a \<Rightarrow> cpp_assert sub loc a rest h)"

fun entry_holds :: "(real \<Rightarrow> real \<Rightarrow> real) \<Rightarrow> entry \<Rightarrow> bool" where
  "entry_holds sub (Inl e) = False"
| "entry_holds sub (Inr None) = True"
| "entry_holds sub (Inr (Some a)) = cpp_holds sub a"

fun entry_defined :: "entry \<Rightarrow> bool" where
  "entry_defined (Inl e) = False"
| "entry_defined (Inr None) = True"
| "entry_defined (Inr (Some a)) = cpp_defined a"

fun entry_message :: "entry \<Rightarrow> string" where
  "entry_message (Inr (Some a)) = cpp_message a"
| "entry_message _ = []"

interpretation entry_header: test_header "check_entry sub" "entry_holds sub" entry_defined entry_message for sub
proof
  fix a loc rest h
  show "entry_defined a \<Longrightarrow> check_entry sub loc a rest h = (if entry_holds sub a then rest h else c_fail (entry_message a) loc h)"
    by (cases a rule: entry_defined.cases) (simp_all add: check_entry_def cpp_assert_spec)
qed

definition does :: "string \<Rightarrow> nat \<Rightarrow> 'a res \<Rightarrow> site \<times> entry" where
  "does file l r = ((file, l), rbind r (\<lambda>_. Inr None))"

definition is_of :: "int_type \<Rightarrow> string \<Rightarrow> nat \<Rightarrow> int \<Rightarrow> int res \<Rightarrow> site \<times> entry" where
  "is_of t file l e r = ((file, l), rbind r (\<lambda>a. Inr (Some (CppEq (TInt, e) (t, a)))))"

definition is_int :: "string \<Rightarrow> nat \<Rightarrow> int \<Rightarrow> int \<Rightarrow> site \<times> entry" where
  "is_int file l e a = is_of TInt file l e (Inr a)"

definition is_long :: "string \<Rightarrow> nat \<Rightarrow> int \<Rightarrow> int \<Rightarrow> site \<times> entry" where
  "is_long file l e a = is_of TLong file l e (Inr a)"

definition is_true :: "string \<Rightarrow> nat \<Rightarrow> string \<Rightarrow> bool \<Rightarrow> site \<times> entry" where
  "is_true file l txt c = ((file, l), Inr (Some (CppTrue txt c)))"

definition is_false :: "string \<Rightarrow> nat \<Rightarrow> string \<Rightarrow> bool \<Rightarrow> site \<times> entry" where
  "is_false file l txt c = ((file, l), Inr (Some (CppFalse txt c)))"

definition is_null :: "string \<Rightarrow> nat \<Rightarrow> string \<Rightarrow> 'p option \<Rightarrow> site \<times> entry" where
  "is_null file l txt p = ((file, l), Inr (Some (CppNull txt (map_option (\<lambda>_. 1) p))))"

definition not_null :: "string \<Rightarrow> nat \<Rightarrow> string \<Rightarrow> 'p option \<Rightarrow> site \<times> entry" where
  "not_null file l txt p = ((file, l), Inr (Some (CppNotNull txt (map_option (\<lambda>_. 1) p))))"

definition is_str :: "string \<Rightarrow> nat \<Rightarrow> string \<Rightarrow> string \<Rightarrow> site \<times> entry" where
  "is_str file l e a = ((file, l), Inr (Some (CppStrEq (Some e) (Some a))))"

definition deref :: "'p option \<Rightarrow> ('p \<Rightarrow> 'a) \<Rightarrow> 'a res" where
  "deref p f = (case p of None \<Rightarrow> Inl NullDeref | Some x \<Rightarrow> Inr (f x))"

definition elem :: "'p list \<Rightarrow> nat \<Rightarrow> ('p \<Rightarrow> 'a) \<Rightarrow> 'a res" where
  "elem xs i f = (if i < length xs then Inr (f (xs ! i)) else Inl OutOfBounds)"

subsection \<open>\<open>test_price_levels.cpp\<close>\<close>

definition sim_book :: "(nat \<Rightarrow> side \<times> int \<times> int) \<Rightarrow> nat \<Rightarrow> price_level_book" where
  "sim_book draw n = fold (\<lambda>i b. case draw i of (s, p, q) \<Rightarrow> plb_update s p q b) [0..<n] plb_new"

definition price_level_tests :: "string \<Rightarrow> (nat \<Rightarrow> side \<times> int \<times> int) \<Rightarrow> program" where
  "price_level_tests file draw =
    [(''test_update_adds_levels'',
      let b1 = plb_update Buy 100 50 plb_new; b2 = plb_update Buy 99 30 b1; b3 = plb_update Sell 101 40 b2 in
      [is_int file 12 1 (size_to_int (plb_bid_levels b1)), is_long file 13 50 (plb_qty_at Buy 100 b1),
       is_int file 16 2 (size_to_int (plb_bid_levels b2)), is_int file 19 1 (size_to_int (plb_ask_levels b3)),
       is_long file 20 40 (plb_qty_at Sell 101 b3)]),
     (''test_update_removes_level'',
      let b = plb_update Buy 100 0 (plb_update Buy 100 50 plb_new) in
      [is_int file 27 0 (size_to_int (plb_bid_levels b)), is_long file 28 0 (plb_qty_at Buy 100 b)]),
     (''test_update_modifies_qty'',
      let b = plb_update Buy 100 75 (plb_update Buy 100 50 plb_new) in
      [is_long file 35 75 (plb_qty_at Buy 100 b), is_int file 36 1 (size_to_int (plb_bid_levels b))]),
     (''test_best_bid_ask_empty'',
      [is_long file 41 (-1) (plb_best_bid plb_new), is_long file 42 (-1) (plb_best_ask plb_new)]),
     (''test_best_bid_returns_highest'',
      [is_long file 50 100 (plb_best_bid (plb_update Buy 98 5 (plb_update Buy 100 20 (plb_update Buy 99 10 plb_new))))]),
     (''test_best_ask_returns_lowest'',
      [is_long file 58 101 (plb_best_ask (plb_update Sell 103 5 (plb_update Sell 101 20 (plb_update Sell 102 10 plb_new))))]),
     (''test_best_bid_after_removal'',
      [is_long file 66 99 (plb_best_bid (plb_update Buy 100 0 (plb_update Buy 99 30 (plb_update Buy 100 50 plb_new))))]),
     (''test_spread'',
      let b1 = plb_update Buy 99 10 plb_new; b2 = plb_update Sell 101 10 b1 in
      [is_long file 71 (-1) (plb_spread plb_new), is_long file 74 (-1) (plb_spread b1), is_long file 77 2 (plb_spread b2)]),
     (''test_spread_zero'',
      [is_long file 84 0 (plb_spread (plb_update Sell 100 10 (plb_update Buy 100 10 plb_new)))]),
     (''test_simulation_invariants'',
      concat (map (\<lambda>i.
        let b = sim_book draw (Suc i); bb = plb_best_bid b; ba = plb_best_ask b in
        if bb \<noteq> -1 \<and> ba \<noteq> -1 then [is_true file 107 ''bb < ba'' (bb < ba)] else []) [0..<1000])),
     (''test_print_top_no_crash'',
      let bids = fold (\<lambda>p. plb_update Buy p (100 * (100 - p))) [95..99] plb_new;
          b = fold (\<lambda>p. plb_update Sell p (100 * p)) [101..105] bids
      in [does file 115 (plb_print_top 3 b)])]"

subsection \<open>\<open>test_order_book.cpp\<close>\<close>

abbreviation mk_order :: "nat \<Rightarrow> side \<Rightarrow> int \<Rightarrow> int \<Rightarrow> order" where
  "mk_order i s p q \<equiv> \<lparr>order_id = i, order_side = s, order_price = p, order_qty = q\<rparr>"

definition added :: "order list \<Rightarrow> limit_order_book" where
  "added os = fold (\<lambda>ord b. fst (lob_add_order ord b)) os lob_new"

definition drawn_order :: "(nat \<Rightarrow> side \<times> int \<times> int) \<Rightarrow> nat \<Rightarrow> order" where
  "drawn_order draw i = (case draw i of (s, p, q) \<Rightarrow> mk_order (i + 1) s p q)"

definition order_simulation :: "string \<Rightarrow> (nat \<Rightarrow> side \<times> int \<times> int) \<Rightarrow> (nat list \<Rightarrow> nat list) \<Rightarrow> (site \<times> entry) list" where
  "order_simulation file draw shuffle =
     (let N = 10000; ords = map (drawn_order draw) [0..<N]; full = added ords;
          live = shuffle (map order_id ords); to_cancel = N * 3 div 10;
          left = (\<lambda>n. fold (\<lambda>i b. fst (lob_cancel_order (live ! i) b)) [0..<n] full)
      in map (\<lambda>i. is_true file 122 ''book.add_order(o)'' (snd (lob_add_order (drawn_order draw i) (added (take i ords))))) [0..<N] @
         [is_int file 125 (int N) (size_to_int (lob_order_count full))] @
         map (\<lambda>i. is_true file 131 ''book.cancel_order(live[i])'' (snd (lob_cancel_order (live ! i) (left i)))) [0..<to_cancel] @
         [is_int file 134 (int (N - to_cancel)) (size_to_int (lob_order_count (left to_cancel)))] @
         map (\<lambda>i. not_null file 138 ''book.find_order(live[i])'' (lob_find_order (live ! i) (left to_cancel))) [to_cancel..<N] @
         map (\<lambda>i. is_null file 142 ''book.find_order(live[i])'' (lob_find_order (live ! i) (left to_cancel))) [0..<to_cancel])"

definition order_book_tests :: "string \<Rightarrow> (nat \<Rightarrow> side \<times> int \<times> int) \<Rightarrow> (nat list \<Rightarrow> nat list) \<Rightarrow> program" where
  "order_book_tests file draw shuffle =
    [(''test_add_order_updates_level'',
      let (b, r) = lob_add_order (mk_order 1 Buy 100 50) lob_new; ord = lob_find_order 1 b in
      [is_true file 12 ''book.add_order({1, Side::Buy, 100, 50})'' r, is_int file 13 1 (size_to_int (lob_order_count b)),
       is_long file 14 100 (lob_best_bid b), is_long file 15 50 (lob_qty_at Buy 100 b), not_null file 18 ''o'' ord,
       is_of TInt file 19 1 (deref ord (\<lambda>x. size_to_int (order_id x))), is_of TLong file 20 100 (deref ord order_price),
       is_of TLong file 21 50 (deref ord order_qty)]),
     (''test_add_two_orders_same_level'',
      let b = added [mk_order 1 Buy 100 30, mk_order 2 Buy 100 20] in
      [is_int file 28 2 (size_to_int (lob_order_count b)), is_long file 29 50 (lob_qty_at Buy 100 b),
       is_long file 30 100 (lob_best_bid b)]),
     (''test_cancel_order'',
      let (b, r) = lob_cancel_order 1 (added [mk_order 1 Buy 100 50]) in
      [is_true file 36 ''book.cancel_order(1)'' r, is_int file 37 0 (size_to_int (lob_order_count b)),
       is_long file 38 (-1) (lob_best_bid b), is_long file 39 0 (lob_qty_at Buy 100 b),
       is_null file 40 ''book.find_order(1)'' (lob_find_order 1 b)]),
     (''test_cancel_partial_level'',
      let (b, r) = lob_cancel_order 1 (added [mk_order 1 Buy 100 50, mk_order 2 Buy 100 30]) in
      [is_true file 47 ''book.cancel_order(1)'' r, is_int file 48 1 (size_to_int (lob_order_count b)),
       is_long file 49 30 (lob_qty_at Buy 100 b), is_long file 50 100 (lob_best_bid b)]),
     (''test_modify_order_qty'',
      let (b, r) = lob_modify_order 1 30 (added [mk_order 1 Buy 100 50]); ord = lob_find_order 1 b in
      [is_true file 56 ''book.modify_order(1, 30)'' r, is_long file 57 30 (lob_qty_at Buy 100 b), not_null file 60 ''o'' ord,
       is_of TLong file 61 30 (deref ord order_qty), is_int file 62 1 (size_to_int (lob_order_count b))]),
     (''test_modify_to_zero_cancels'',
      let (b, r) = lob_modify_order 1 0 (added [mk_order 1 Buy 100 50]) in
      [is_true file 68 ''book.modify_order(1, 0)'' r, is_int file 69 0 (size_to_int (lob_order_count b)),
       is_null file 70 ''book.find_order(1)'' (lob_find_order 1 b), is_long file 71 (-1) (lob_best_bid b)]),
     (''test_duplicate_order_id_rejected'',
      let (b1, r1) = lob_add_order (mk_order 1 Buy 100 50) lob_new; (b2, r2) = lob_add_order (mk_order 1 Sell 101 20) b1 in
      [is_true file 76 ''book.add_order({1, Side::Buy, 100, 50})'' r1,
       is_false file 77 ''book.add_order({1, Side::Sell, 101, 20})'' r2, is_int file 78 1 (size_to_int (lob_order_count b2))]),
     (''test_cancel_nonexistent_returns_false'',
      [is_false file 83 ''book.cancel_order(999)'' (snd (lob_cancel_order 999 lob_new))]),
     (''test_modify_nonexistent_returns_false'',
      [is_false file 88 ''book.modify_order(999, 10)'' (snd (lob_modify_order 999 10 lob_new))]),
     (''test_best_bid_ask_delegation'',
      let b = added [mk_order 1 Buy 99 100, mk_order 2 Buy 100 200, mk_order 3 Sell 101 150, mk_order 4 Sell 102 50] in
      [is_long file 98 100 (lob_best_bid b), is_long file 99 101 (lob_best_ask b), is_long file 100 1 (lob_spread b)]),
     (''test_simulation'', order_simulation file draw shuffle)]"

subsection \<open>\<open>test_matching_engine.cpp\<close>\<close>

abbreviation add_ev :: "nat \<Rightarrow> side \<Rightarrow> int \<Rightarrow> int \<Rightarrow> order_event" where
  "add_ev i s p q \<equiv> \<lparr>ev_type = AddOrder, ev_id = i, ev_side = s, ev_price = p, ev_qty = q\<rparr>"

abbreviation cancel_ev :: "nat \<Rightarrow> order_event" where
  "cancel_ev i \<equiv> \<lparr>ev_type = CancelOrder, ev_id = i, ev_side = Buy, ev_price = 0, ev_qty = 0\<rparr>"

definition processed :: "order_event list \<Rightarrow> matching_engine \<times> fill list" where
  "processed evs = fold (\<lambda>ev (e, fills). process_event ev fills e) evs (engine_new, [])"

definition n_fills :: "fill list \<Rightarrow> int" where
  "n_fills fills = size_to_int (length fills)"

definition fill_tests :: "string \<Rightarrow> program" where
  "fill_tests file =
    [(''test_no_fills_non_crossing'',
      let (e, fs) = processed [add_ev 1 Buy 99 10, add_ev 2 Sell 101 10] in
      [is_int file 96 0 (n_fills fs), is_long file 97 99 (lob_best_bid (eng_book e)), is_long file 98 101 (lob_best_ask (eng_book e))]),
     (''test_single_match'',
      let sell = [add_ev 1 Sell 100 5]; (e, fs) = processed (sell @ [add_ev 2 Buy 100 5]) in
      [is_int file 110 0 (n_fills (snd (processed sell))), is_int file 116 1 (n_fills fs),
       is_of TInt file 117 2 (elem fs 0 (\<lambda>f. size_to_int (aggressor_id f))),
       is_of TInt file 118 1 (elem fs 0 (\<lambda>f. size_to_int (passive_id f))),
       is_of TLong file 119 100 (elem fs 0 fill_price), is_of TLong file 120 5 (elem fs 0 fill_qty),
       is_long file 121 (-1) (lob_best_bid (eng_book e)), is_long file 122 (-1) (lob_best_ask (eng_book e))]),
     (''test_partial_fill'',
      let (e, fs) = processed [add_ev 1 Sell 100 5, add_ev 2 Buy 100 10] in
      [is_int file 137 1 (n_fills fs), is_of TLong file 138 5 (elem fs 0 fill_qty), is_of TLong file 139 100 (elem fs 0 fill_price),
       is_long file 141 100 (lob_best_bid (eng_book e)), is_long file 142 5 (lob_qty_at Buy 100 (eng_book e)),
       is_long file 143 (-1) (lob_best_ask (eng_book e))]),
     (''test_multiple_fills_sweep'',
      let sells = [add_ev 1 Sell 100 5, add_ev 2 Sell 101 5]; (e, fs) = processed (sells @ [add_ev 3 Buy 105 20]) in
      [is_int file 156 0 (n_fills (snd (processed sells))), is_int file 162 2 (n_fills fs),
       is_of TLong file 163 100 (elem fs 0 fill_price), is_of TLong file 163 5 (elem fs 0 fill_qty),
       is_of TLong file 164 101 (elem fs 1 fill_price), is_of TLong file 164 5 (elem fs 1 fill_qty),
       is_long file 166 105 (lob_best_bid (eng_book e)), is_long file 167 10 (lob_qty_at Buy 105 (eng_book e))])]"

definition resting_tests :: "string \<Rightarrow> program" where
  "resting_tests file =
    [(''test_passive_partially_filled'',
      let (e, fs) = processed [add_ev 1 Sell 100 20, add_ev 2 Buy 100 7] in
      [is_int file 182 1 (n_fills fs), is_of TLong file 183 7 (elem fs 0 fill_qty),
       is_long file 185 100 (lob_best_ask (eng_book e)), is_long file 186 13 (lob_qty_at Sell 100 (eng_book e))]),
     (''test_cancel_before_match'',
      let (e, fs) = processed [add_ev 1 Sell 100 5, cancel_ev 1, add_ev 2 Buy 100 5] in
      [is_int file 208 0 (n_fills fs), is_long file 209 100 (lob_best_bid (eng_book e)),
       is_long file 210 (-1) (lob_best_ask (eng_book e))]),
     (''test_sell_aggressor_matches_bid'',
      let (e, fs) = processed [add_ev 1 Buy 100 8, add_ev 2 Sell 99 8] in
      [is_int file 225 1 (n_fills fs), is_of TLong file 226 100 (elem fs 0 fill_price), is_of TLong file 227 8 (elem fs 0 fill_qty),
       is_long file 228 (-1) (lob_best_bid (eng_book e)), is_long file 229 (-1) (lob_best_ask (eng_book e))]),
     (''test_stats_counters'',
      let (e, fs) = processed [add_ev 1 Sell 100 5, add_ev 2 Buy 100 5] in
      [is_int file 243 2 (size_to_int (orders_processed e)), is_int file 244 1 (size_to_int (fills_generated e))])]"

definition matching_engine_tests :: "string \<Rightarrow> program" where
  "matching_engine_tests file = fill_tests file @ resting_tests file"

subsection \<open>\<open>test_hot_alloc.cpp\<close>\<close>

text \<open>\<open>build\<close> constructs a \<open>Point3D\<close> from its coordinates at an address, \<open>coord\<close> reads one back.\<close>

definition aligned :: "nat \<Rightarrow> nat option \<Rightarrow> bool res" where
  "aligned n p = Inr ((case p of None \<Rightarrow> 0 | Some a \<Rightarrow> a) mod n = 0)"

definition holds_at :: "string \<Rightarrow> nat \<Rightarrow> string \<Rightarrow> bool res \<Rightarrow> site \<times> entry" where
  "holds_at file l txt r = ((file, l), rbind r (\<lambda>c. Inr (Some (CppTrue txt c))))"

definition is_real :: "string \<Rightarrow> nat \<Rightarrow> real \<Rightarrow> real res \<Rightarrow> real \<Rightarrow> site \<times> entry" where
  "is_real file l e r tol = ((file, l), rbind r (\<lambda>a. Inr (Some (CppEqF e a tol))))"

definition arena_tests ::
    "string \<Rightarrow> (real \<times> real \<times> real \<Rightarrow> nat \<Rightarrow> 'mem \<Rightarrow> 'mem res) \<Rightarrow> ('mem \<Rightarrow> nat \<Rightarrow> nat \<Rightarrow> real) \<Rightarrow> 'mem \<Rightarrow> program" where
  "arena_tests file build coord mem =
    [(''test_arena_basic_alloc'',
      let (a, p) = arena_allocate 64 16 (arena_new 4096) in
      [not_null file 30 ''p'' p, is_true file 31 ''arena.used() >= 64'' (arena_used a \<ge> 64),
       is_true file 32 ''arena.capacity() == 4096'' (arena_capacity a = 4096)]),
     (''test_arena_alignment'',
      let (a1, p1) = arena_allocate 1 1 (arena_new 4096); (a2, p64) = arena_allocate 64 64 a1; (a3, p16) = arena_allocate 32 16 a2 in
      [not_null file 39 ''p1'' p1, not_null file 42 ''p64'' p64,
       holds_at file 43 ''(reinterpret_cast<uintptr_t>(p64) % 64) == 0'' (aligned 64 p64), not_null file 46 ''p16'' p16,
       holds_at file 47 ''(reinterpret_cast<uintptr_t>(p16) % 16) == 0'' (aligned 16 p16)]),
     (''test_arena_overflow'',
      let (a1, p) = arena_allocate 128 16 (arena_new 128); (a2, q) = arena_allocate 1 16 a1 in
      [not_null file 53 ''p'' p, is_null file 55 ''overflow'' q]),
     (''test_arena_reset'',
      let (a1, p1) = arena_allocate 128 16 (arena_new 256); a2 = arena_reset a1; (a3, p2) = arena_allocate 128 16 a2 in
      [not_null file 61 ''p1'' p1, is_long file 63 0 (int (arena_used a2)), not_null file 65 ''p2'' p2,
       ((file, 67), Inr (Some (CppEq (TLong, int (arena_used a3)) (TLong, 128))))]),
     (''test_arena_emplace'',
      let r = arena_emplace 12 4 (build (1, 2, 3)) (arena_new 1024) mem; pt = rbind r (\<lambda>(a, m, p). Inr p);
          at_coord = (\<lambda>k. rbind r (\<lambda>(a, m, p). deref p (\<lambda>x. coord m x k)))
      in [((file, 73), rbind pt (\<lambda>p. Inr (Some (CppNotNull ''pt'' p)))), is_real file 74 1 (at_coord 0) (1 / 10 ^ 6),
          is_real file 75 2 (at_coord 1) (1 / 10 ^ 6), is_real file 76 3 (at_coord 2) (1 / 10 ^ 6)]),
     (''test_arena_emplace_multiple'',
      let next = (\<lambda>i (a, m, ps). rbind (arena_emplace 12 4 (build (real i, real (i * 2), real (i * 3))) a m)
                    (\<lambda>(a', m', p). Inr (a', m', ps @ [p])));
          upto_n = (\<lambda>n. fold (\<lambda>i r. rbind r (next i)) [0..<n] (Inr (arena_new 4096, mem, [])));
          at_coord = (\<lambda>i k. rbind (upto_n 10) (\<lambda>(a, m, ps). deref (ps ! i) (\<lambda>x. coord m x k)))
      in map (\<lambda>i. ((file, 89), rbind (upto_n (Suc i)) (\<lambda>(a, m, ps). Inr (Some (CppNotNull ''pts[i]'' (ps ! i)))))) [0..<10] @
         concat (map (\<lambda>i. [is_real file 92 (real i) (at_coord i 0) (1 / 10 ^ 5),
                           is_real file 93 (real (i * 2)) (at_coord i 1) (1 / 10 ^ 5)]) [0..<10]))]"

definition object_pool_tests :: "string \<Rightarrow> program" where
  "object_pool_tests file =
    [(''test_pool_basic_alloc'',
      let q0 = opool_new 4; (q1, p) = opool_allocate q0 in
      [is_long file 101 4 (int (opool_capacity q0)), is_long file 102 4 (int (opool_available q0)), not_null file 105 ''p'' p,
       is_long file 106 3 (int (opool_available q1))]),
     (''test_pool_exhaustion'',
      let (q1, p1) = opool_allocate (opool_new 2); (q2, p2) = opool_allocate q1; (q3, p3) = opool_allocate q2 in
      [not_null file 113 ''p1'' p1, not_null file 114 ''p2'' p2, is_long file 115 0 (int (opool_available q2)),
       is_null file 117 ''p3'' p3]),
     (''test_pool_deallocate'',
      let (q1, p) = opool_allocate (opool_new 1); q2 = opool_deallocate p q1; (q3, p2) = opool_allocate q2 in
      [not_null file 123 ''p'' p, is_long file 124 0 (int (opool_available q1)), is_long file 126 1 (int (opool_available q2)),
       not_null file 128 ''p2'' p2]),
     (''test_pool_lifo_order'',
      let (q1, a) = opool_allocate (opool_new 3); (q2, b) = opool_allocate q1; (q3, c) = opool_allocate q2;
          q4 = opool_deallocate c (opool_deallocate b (opool_deallocate a q3)); (q5, first) = opool_allocate q4;
          addr = (\<lambda>p. case p of None \<Rightarrow> 0 | Some x \<Rightarrow> int x)
      in [not_null file 137 ''a'' a, not_null file 138 ''b'' b, not_null file 139 ''c'' c, is_long file 145 3 (int (opool_available q4)),
          ((file, 148), Inr (Some (CppEq (TLong, addr c) (TLong, addr first))))]),
     (''test_pool_all_slots_unique'',
      let got = (\<lambda>n. fold (\<lambda>i (q, ps). let (q', p) = opool_allocate q in (q', ps @ [p])) [0..<n] (opool_new 8, []));
          ptrs = snd (got 8)
      in map (\<lambda>i. not_null file 157 ''ptrs[i]'' (snd (got (Suc i)) ! i)) [0..<8] @
         concat (map (\<lambda>i. map (\<lambda>j. is_true file 162 ''ptrs[i] != ptrs[j]'' (ptrs ! i \<noteq> ptrs ! j)) [Suc i..<8]) [0..<8]))]"

text \<open>\<open>main\<close> prints the summary itself and, when a test has failed, one line more before it returns.\<close>

definition hot_alloc_main ::
    "(real \<Rightarrow> real \<Rightarrow> real) \<Rightarrow> program \<Rightarrow> c_harness \<Rightarrow> (c_harness \<times> int) res" where
  "hot_alloc_main sub ts h =
     rbind (listed_main (check_entry sub) ts h) (\<lambda>(h', code).
     Inr (if code \<noteq> 0
          then (cprintf (newline @ ''Fix the correctness failures above before trusting the benchmarks.'' @ newline) h', code)
          else (h', 0)))"

subsection \<open>\<open>test_circular_buffer.cpp\<close>\<close>

text \<open>A buffer after some pushes; the values that a loop over it sees; (it ends, by \<open>ring_traversal\<close>); and the
  standard algorithms on such a range. What \<open>std::sort\<close> does to a range of two or more elements is the parameter \<open>srt\<close>.\<close>

definition pushed :: "nat \<Rightarrow> int list \<Rightarrow> int circular_buffer" where
  "pushed n xs = fold cb_push_back xs (cb_new n 0)"

definition range_values :: "int circular_buffer \<Rightarrow> int list res" where
  "range_values b =
     (case visit (cb_begin 0 b) (cb_end 0 b) of
        None \<Rightarrow> Inl OutOfBounds
      | Some r \<Rightarrow> rbind r (\<lambda>ps. fold (\<lambda>p acc. rbind acc (\<lambda>vs. rbind (it_deref b \<lparr>buf = 0, pos = p\<rparr>) (\<lambda>v. Inr (vs @ [v])))) ps (Inr [])))"

definition sort_range :: "(int circular_buffer \<Rightarrow> int circular_buffer) \<Rightarrow> int circular_buffer \<Rightarrow> int circular_buffer" where
  "sort_range srt b = (if cb_size b < 2 then b else srt b)"

definition is_at :: "string \<Rightarrow> nat \<Rightarrow> int \<Rightarrow> int res \<Rightarrow> site \<times> entry" where
  "is_at file l e r = is_of TInt file l e r"

text \<open>Advancing an iterator \<open>n\<close> times by \<open>step\<close>.\<close>

definition stepped :: "(iterator \<Rightarrow> iterator res) \<Rightarrow> nat \<Rightarrow> iterator \<Rightarrow> iterator res" where
  "stepped step n it = fold (\<lambda>_ r. rbind r step) [0..<n] (Inr it)"

definition buffer_tests :: "string \<Rightarrow> program" where
  "buffer_tests file =
    [(''test_size_and_full'',
      let b0 = pushed 4 []; b1 = pushed 4 [1]; b4 = pushed 4 [1, 2, 3, 4] in
      [is_int file 13 0 (size_to_int (cb_size b0)), is_false file 14 ''buf.full()'' (cb_full 4 b0),
       is_int file 15 4 (size_to_int (cb_capacity 4)), is_int file 18 1 (size_to_int (cb_size b1)),
       is_false file 19 ''buf.full()'' (cb_full 4 b1), is_int file 22 4 (size_to_int (cb_size b4)),
       is_true file 23 ''buf.full()'' (cb_full 4 b4)]),
     (''test_operator_index_order'',
      let b = pushed 3 [10, 20, 30] in
      [is_at file 30 10 (cb_index 0 b), is_at file 31 20 (cb_index 1 b), is_at file 32 30 (cb_index 2 b)]),
     (''test_ring_overwrite_one'',
      let b = pushed 3 [1, 2, 3, 4] in
      [is_int file 39 3 (size_to_int (cb_size b)), is_at file 40 2 (cb_index 0 b), is_at file 41 3 (cb_index 1 b),
       is_at file 42 4 (cb_index 2 b)]),
     (''test_ring_wraps_multiple_times'',
      let b = pushed 3 [0..9] in
      [is_int file 49 3 (size_to_int (cb_size b)), is_at file 50 7 (cb_index 0 b), is_at file 51 8 (cb_index 1 b),
       is_at file 52 9 (cb_index 2 b)]),
     (''test_clear_and_reuse'',
      let b1 = cb_clear (pushed 4 [1, 2, 3]); b2 = cb_push_back 99 b1 in
      [is_int file 59 0 (size_to_int (cb_size b1)), is_false file 60 ''buf.full()'' (cb_full 4 b1),
       is_int file 62 1 (size_to_int (cb_size b2)), is_at file 63 99 (cb_index 0 b2)]),
     (''test_single_element'',
      let b = pushed 4 [42] in
      [is_at file 69 42 (cb_index 0 b), is_at file 70 42 (it_deref b (cb_begin 0 b)),
       is_at file 71 1 (it_diff (cb_end 0 b) (cb_begin 0 b))]),
     (''test_partial_fill'',
      let b = pushed 10 [5, 6, 7] in
      [is_int file 77 3 (size_to_int (cb_size b)), is_false file 78 ''buf.full()'' (cb_full 10 b),
       is_at file 82 18 (rbind (range_values b) (\<lambda>vs. Inr (sum_list vs)))])]"

definition iterator_tests :: "string \<Rightarrow> program" where
  "iterator_tests file =
    [(''test_iterator_pre_increment'',
      let b = pushed 4 [1, 2, 3, 4]; it = (\<lambda>n. stepped it_preinc n (cb_begin 0 b)) in
      map (\<lambda>n. is_at file (91 + n) (int n + 1) (rbind (it n) (it_deref b))) [0..<4] @
      [holds_at file 95 ''it == buf.end()'' (rbind (it 4) (\<lambda>i. Inr (it_eq i (cb_end 0 b))))]),
     (''test_iterator_post_increment'',
      let b = pushed 3 [10, 20, 30]; it0 = cb_begin 0 b; r1 = it_postinc it0; r2 = rbind r1 (\<lambda>(_, i). it_postinc i) in
      [is_at file 102 10 (rbind r1 (\<lambda>(i, _). it_deref b i)), is_at file 103 20 (rbind r2 (\<lambda>(i, _). it_deref b i)),
       is_at file 104 30 (rbind r2 (\<lambda>(_, i). it_deref b i))]),
     (''test_iterator_decrement'',
      let b = pushed 4 [1, 2, 3, 4]; it = (\<lambda>n. stepped it_predec n (cb_end 0 b)) in
      map (\<lambda>n. is_at file (111 + n) (4 - int n) (rbind (it (Suc n)) (it_deref b))) [0..<4] @
      [holds_at file 115 ''it == buf.begin()'' (rbind (it 4) (\<lambda>i. Inr (it_eq i (cb_begin 0 b))))]),
     (''test_iterator_advance'',
      let b = pushed 5 [0, 10, 20, 30, 40]; it1 = it_plus (cb_begin 0 b) 3; it2 = rbind it1 (\<lambda>i. it_minus i 2) in
      [is_at file 122 30 (rbind it1 (it_deref b)), is_at file 124 10 (rbind it2 (it_deref b))]),
     (''test_iterator_difference'',
      let b = pushed 4 [0, 1, 2, 3] in
      [is_at file 130 4 (it_diff (cb_end 0 b) (cb_begin 0 b)),
       is_at file 131 2 (rbind (it_plus (cb_begin 0 b) 2) (\<lambda>i. it_diff i (cb_begin 0 b)))]),
     (''test_iterator_subscript'',
      let b = pushed 4 [10, 20, 30, 40] in
      map (\<lambda>n. is_at file (138 + n) (10 * int n + 10) (it_index b (cb_begin 0 b) (int n))) [0..<4]),
     (''test_iterator_comparison'',
      let b = pushed 4 [0, 1, 2, 3]; i = cb_begin 0 b; on = (\<lambda>f. rbind (it_plus i 2) (\<lambda>j. Inr (f i j))) in
      [holds_at file 149 ''a <  b'' (on it_lt),
       ((file, 150), rbind (on (\<lambda>i j. it_lt j i)) (\<lambda>c. Inr (Some (CppFalse ''b <  a'' c)))),
       holds_at file 151 ''a <= b'' (on it_le), holds_at file 152 ''b >  a'' (on (\<lambda>i j. it_gt j i)),
       holds_at file 153 ''a != b'' (on it_ne),
       ((file, 154), rbind (on it_eq) (\<lambda>c. Inr (Some (CppFalse ''a == b'' c))))]),
     (''test_iterator_after_wrap'',
      let vals = rbind (range_values (pushed 3 [1, 2, 3, 4])) (\<lambda>vs. Inr (vs @ drop (length vs) [-1, -1, -1])) in
      map (\<lambda>n. is_at file (165 + n) (int n + 2) (rbind vals (\<lambda>vs. elem vs n id))) [0..<3])]"

definition algorithm_tests :: "string \<Rightarrow> (int circular_buffer \<Rightarrow> int circular_buffer) \<Rightarrow> program" where
  "algorithm_tests file srt =
    [(''test_std_accumulate'', [is_at file 176 15 (rbind (range_values (pushed 5 [1..5])) (\<lambda>vs. Inr (sum_list vs)))]),
     (''test_std_find_if'',
      let r = range_values (pushed 5 [1..5]); found = rbind r (\<lambda>vs. Inr (find (\<lambda>v. v > 3) vs)) in
      [holds_at file 183 ''it != buf.end()'' (rbind found (\<lambda>f. Inr (f \<noteq> None))), is_at file 184 4 (rbind found (\<lambda>f. deref f id))]),
     (''test_std_sort'',
      let b = sort_range srt (pushed 5 [3, 1, 4, 1, 5]) in
      map (\<lambda>n. is_at file (192 + n) ([1, 1, 3, 4, 5] ! n) (cb_index n b)) [0..<5] @
      [holds_at file 197 ''std::is_sorted(buf.begin(), buf.end())'' (rbind (range_values b) (\<lambda>vs. Inr (sorted vs)))]),
     (''test_std_copy_n'',
      let b = pushed 5 [10, 20, 30, 40, 50]; v = (\<lambda>n. rbind (stepped it_preinc n (cb_begin 0 b)) (it_deref b)) in
      map (\<lambda>n. is_at file (205 + n) (10 * int n + 10) (v n)) [0..<3]),
     (''test_std_min_max_element'',
      let b = pushed 6 [7, 2, 9, 1, 5, 3];
          best = (\<lambda>f. rbind (range_values b) (\<lambda>vs. if vs = [] then it_deref b (cb_end 0 b) else Inr (f vs)))
      in [is_at file 216 1 (best (\<lambda>vs. Min (set vs))), is_at file 217 9 (best (\<lambda>vs. Max (set vs)))]),
     (''test_std_count_if'',
      [is_at file 224 3 (rbind (range_values (pushed 6 [1..6])) (\<lambda>vs. Inr (int (length (filter even vs)))))]),
     (''test_std_distance'',
      let b = pushed 5 [0..4] in
      [is_at file 230 5 (it_diff (cb_end 0 b) (cb_begin 0 b)),
       is_at file 231 3 (rbind (it_plus (cb_begin 0 b) 3) (\<lambda>i. it_diff i (cb_begin 0 b)))]),
     (''test_std_sort_after_wrap'',
      let b = sort_range srt (pushed 4 [5, 3, 8, 1, 9, 2]) in
      [holds_at file 240 ''std::is_sorted(buf.begin(), buf.end())'' (rbind (range_values b) (\<lambda>vs. Inr (sorted vs)))] @
      map (\<lambda>n. is_at file (241 + n) ([1, 2, 8, 9] ! n) (cb_index n b)) [0..<4])]"

definition circular_buffer_tests :: "string \<Rightarrow> (int circular_buffer \<Rightarrow> int circular_buffer) \<Rightarrow> program" where
  "circular_buffer_tests file srt = buffer_tests file @ iterator_tests file @ algorithm_tests file srt"

subsection \<open>\<open>test_multicast.cpp\<close>\<close>

abbreviation mk_quote :: "nat \<Rightarrow> int \<Rightarrow> int \<Rightarrow> int \<Rightarrow> nat \<Rightarrow> quote_msg" where
  "mk_quote sid p b a n \<equiv> \<lparr>symbol_id = of_nat sid, price = p, bid_qty = b, ask_qty = a, msg_seq_no = of_nat n\<rparr>"

definition sent :: "quote_msg list \<Rightarrow> multicast_sender \<Rightarrow> multicast_sender" where
  "sent qs s = fold (\<lambda>m s. fst (sender_send m s)) qs s"

text \<open>The loop that receives: at most \<open>k\<close> attempts, until \<open>n\<close> messages have arrived.\<close>

fun recv_many :: "nat \<Rightarrow> nat \<Rightarrow> quote_msg \<Rightarrow> multicast_receiver \<Rightarrow> nat \<Rightarrow> multicast_receiver \<times> nat" where
  "recv_many 0 n out r received = (r, received)"
| "recv_many (Suc k) n out r received =
     (if received < n then
        (case recv_one out r of (r', out', got) \<Rightarrow> recv_many k n out' r' (if got then received + 1 else received))
      else (r, received))"

text \<open>A receiver and a sender are set up, the messages are sent, and then received.\<close>

definition transfer_test ::
    "string \<Rightarrow> nat \<Rightarrow> nat \<Rightarrow> nat \<Rightarrow> quote_msg list \<Rightarrow> (multicast_receiver \<times> nat \<Rightarrow> (site \<times> entry) list) \<Rightarrow> (site \<times> entry) list" where
  "transfer_test file l l_send tries qs checks =
     (let (r, ok1) = receiver_init receiver_new; (s, ok2) = sender_init sender_new; N = length qs in
      [is_true file l ''receiver.init()'' ok1, is_true file (l + 1) ''sender.init()'' ok2] @
      map (\<lambda>i. is_true file l_send ''sender.send(msg)'' (snd (sender_send (qs ! i) (sent (take i qs) s)))) [0..<N] @
      checks (recv_many tries N (mk_quote 0 0 0 0 0) r 0))"

definition multicast_tests :: "string \<Rightarrow> program" where
  "multicast_tests file =
    [(''test_wire_format_size'', []),
     (''test_send_recv_100'',
      transfer_test file 26 33 2000 (map (\<lambda>i. mk_quote 0 (10000 + int i) 100 200 i) [0..<100]) (\<lambda>(r, received).
        [is_int file 44 100 (int received), ((file, 45), Inr (Some (CppEq (TUInt, 0) (TULong, uint (gaps_detected r))))),
         ((file, 46), Inr (Some (CppEq (TULong, 100) (TULong, uint (packets_received r)))))])),
     (''test_gap_detection'',
      transfer_test file 52 59 200 (map (mk_quote 1 20000 50 75) [0, 1, 2, 4]) (\<lambda>(r, received).
        [is_int file 70 4 (int received), ((file, 71), Inr (Some (CppEq (TUInt, 1) (TULong, uint (gaps_detected r)))))])),
     (''test_price_table'',
      let upd = (\<lambda>sid u. table_update (mk_quote sid (10000 + int sid * 100 + int u) (200 + int u) (300 + int u) u));
          t = fold (\<lambda>sid. fold (upd sid) [0..<10]) [0..<5] ()
      in [((file, 91), Inr (Some (CppEq (TUInt, 5) (TULong, int (table_symbol_count t)))))] @
         concat (map (\<lambda>sid. let q = table_get (of_nat sid) t; e = 10000 + int sid * 100 + 9 in
           [is_int file 97 e (q_bid q), is_int file 98 e (q_ask q), is_int file 99 209 (q_bid_qty q),
            is_int file 100 309 (q_ask_qty q)]) [0..<5]) @
         [is_int file 105 0 (q_bid (table_get 999 t)), is_int file 106 0 (q_ask (table_get 999 t))]),
     (''test_throughput'',
      [is_true file 112 ''receiver.init()'' (snd (receiver_init receiver_new)),
       is_true file 113 ''sender.init()'' (snd (sender_init sender_new))])]"

subsection \<open>\<open>test_fix_parser.cpp\<close>\<close>

text \<open>A parser that is fed some pieces. The parser of the repository never calls its callback, so nothing is counted.\<close>

definition fed :: "string list \<Rightarrow> fix_parser \<times> string list \<Rightarrow> fix_parser \<times> string list" where
  "fed ds = fold (\<lambda>d (p, called). (parser_feed d p, called)) ds"

abbreviation fresh_parser :: "fix_parser \<times> string list" where
  "fresh_parser \<equiv> (parser_new, [])"

definition counted :: "fix_parser \<times> string list \<Rightarrow> int" where
  "counted st = int (length (snd st))"

definition fix_field_tests :: "string \<Rightarrow> program" where
  "fix_field_tests file =
    [(''test_fix_checksum_known'',
      [is_int file 49 9 (uint (fix_checksum (''8=FIX.4.2'' @ [SOH] @ ''35=D'' @ [SOH]))), is_int file 52 0 (uint (fix_checksum []))]),
     (''test_parse_fields_valid'',
      let flds = parse_fields (build_fix_message [(35, ''D''), (49, ''SENDER''), (56, ''TARGET''), (11, ''ORDER1''), (55, ''AAPL''),
            (54, ''1''), (38, ''100''), (44, ''150.00''), (40, ''2'')]);
          has = (\<lambda>l t v. is_str file l v (find_field flds t))
      in [is_false file 69 ''fields.empty()'' (flds = []), has 70 8 ''FIX.4.2'', has 71 35 ''D'', has 72 49 ''SENDER'',
          has 73 56 ''TARGET'', has 74 55 ''AAPL'', has 75 38 ''100'', has 76 44 ''150.00'', has 77 54 ''1'', has 78 40 ''2'']),
     (''test_parse_fields_bad_checksum'',
      [is_true file 85 ''fields.empty()''
         (parse_fields (''8=FIX.4.2'' @ [SOH] @ ''9=5'' @ [SOH] @ ''35=D'' @ [SOH] @ ''10=000'' @ [SOH]) = [])])]"

definition fix_stream_tests :: "string \<Rightarrow> program" where
  "fix_stream_tests file =
    [(''test_streaming_complete_message'',
      let msg = build_fix_message [(35, ''D''), (55, ''AAPL'')]; st = fed [msg] fresh_parser in
      [is_int file 99 1 (counted st), ((file, 100), Inr (Some (CppEq (TUInt, 1) (TULong, uint (messages_parsed (fst st)))))),
       ((file, 101), Inr (Some (CppEq (TULong, int (length msg)) (TULong, uint (bytes_consumed (fst st)))))),
       is_str file 102 msg (if snd st = [] then [] else last (snd st))]),
     (''test_streaming_split_3_pieces'',
      let msg = build_fix_message [(35, ''D''), (55, ''MSFT''), (38, ''500'')]; third = length msg div 3;
          st1 = fed [take third msg] fresh_parser; st2 = fed [take third (drop third msg)] st1; st3 = fed [drop (2 * third) msg] st2
      in [is_int file 113 0 (counted st1), is_int file 116 0 (counted st2), is_int file 119 1 (counted st3)]),
     (''test_streaming_two_back_to_back'',
      let both = build_fix_message [(35, ''D''), (55, ''AAPL'')] @ build_fix_message [(35, ''8''), (55, ''GOOG'')] in
      [is_int file 131 2 (counted (fed [both] fresh_parser))]),
     (''test_streaming_half_and_half'',
      let msg = build_fix_message [(35, ''D''), (55, ''TSLA''), (38, ''1000''), (44, ''250.00'')]; half = length msg div 2;
          st1 = fed [take half msg] fresh_parser
      in [is_int file 142 0 (counted st1), is_int file 145 1 (counted (fed [drop half msg] st1))]),
     (''test_streaming_10_messages'',
      let st = fed (map (\<lambda>i. build_fix_message [(35, ''D''), (11, show_nat i), (55, ''AAPL'')]) [0..<10]) fresh_parser in
      [is_int file 157 10 (counted st), ((file, 158), Inr (Some (CppEq (TUInt, 10) (TULong, uint (messages_parsed (fst st))))))]),
     (''test_streaming_reset'',
      let msg = build_fix_message [(35, ''D''), (55, ''AAPL'')]; half = length msg div 2; (p, called) = fed [take half msg] fresh_parser in
      [is_int file 169 0 (counted (p, called)), is_int file 174 1 (counted (fed [msg] (parser_reset p, called)))]),
     (''test_benchmark_100k'',
      let msg = build_fix_message [(35, ''D''), (49, ''SENDER''), (56, ''TARGET''), (11, ''ORDER1''), (55, ''AAPL''), (54, ''1''),
            (38, ''100''), (44, ''150.00'')]
      in [is_int file 193 100000 (counted (fed (replicate 100000 msg) fresh_parser))])]"

definition fix_tests :: "string \<Rightarrow> program" where
  "fix_tests file = fix_field_tests file @ fix_stream_tests file"

subsection \<open>\<open>test_dns.c\<close>\<close>

text \<open>This program is on the C header. \<open>wire\<close> is the content of the array that \<open>test_roundtrip\<close> leaves uninitialised.\<close>

definition zero_header :: dns_header where
  "zero_header = \<lparr>id_field = 0, qr = 0, opcode = 0, aa = 0, tc = 0, rd = 0, ra = 0, z = 0, rcode = 0,
     qdcount = 0, ancount = 0, nscount = 0, arcount = 0\<rparr>"

definition garbage_header :: dns_header where
  "garbage_header = \<lparr>id_field = 0xFFFF, qr = 1, opcode = 15, aa = 1, tc = 1, rd = 1, ra = 1, z = 7, rcode = 15,
     qdcount = 0xFFFF, ancount = 0xFFFF, nscount = 0xFFFF, arcount = 0xFFFF\<rparr>"

text \<open>The fields in the order in which the tests compare them, on successive lines.\<close>

definition header_fields :: "dns_header \<Rightarrow> int list" where
  "header_fields h = [uint (id_field h), qr h, opcode h, aa h, tc h, rd h, ra h, z h, rcode h, uint (qdcount h),
     uint (ancount h), uint (nscount h), uint (arcount h)]"

definition eq_lines :: "string \<Rightarrow> nat \<Rightarrow> int list \<Rightarrow> int list \<Rightarrow> (site \<times> c_assertion) list" where
  "eq_lines file l es as = map (\<lambda>k. ((file, l + k), EQ (es ! k) (as ! k))) [0..<length es]"

definition packed :: "dns_header \<Rightarrow> int list" where
  "packed h = map uint (dns_pack h (replicate 12 0))"

definition dns_first_tests :: "string \<Rightarrow> c_assertion listed_test list" where
  "dns_first_tests file =
    [(''test_pack_standard_query'',
      eq_lines file 30 [0xAB, 0xCD, 0x01, 0, 0, 0x01, 0, 0, 0, 0, 0, 0]
        (packed (zero_header\<lparr>id_field := 0xABCD, rd := 1, qdcount := 1\<rparr>))),
     (''test_pack_response'',
      eq_lines file 66 [0x12, 0x34, 0x85, 0x80, 0, 0x01, 0, 0x02]
        (packed (zero_header\<lparr>id_field := 0x1234, qr := 1, aa := 1, rd := 1, ra := 1, qdcount := 1, ancount := 2\<rparr>))),
     (''test_unpack_query'',
      eq_lines file 85 [0xABCD, 0, 0, 0, 0, 1, 0, 0, 0, 1, 0, 0, 0]
        (header_fields (dns_unpack [0xAB, 0xCD, 0x01, 0, 0, 0x01, 0, 0, 0, 0, 0, 0] zero_header))),
     (''test_unpack_all_flags'',
      eq_lines file 113 [0xFFFF, 1, 0x0F, 1, 1, 1, 1, 7, 0x0F, 0xFFFF, 0xFFFF, 0xFFFF, 0xFFFF]
        (header_fields (dns_unpack (replicate 12 0xFF) zero_header)))]"

definition dns_last_tests :: "string \<Rightarrow> 8 word list \<Rightarrow> c_assertion listed_test list" where
  "dns_last_tests file wire =
    [(''test_unpack_all_clear'',
      eq_lines file 136 (replicate 13 0) (header_fields (dns_unpack (replicate 12 0) garbage_header))),
     (''test_roundtrip'',
      let original = \<lparr>id_field = 0xBEEF, qr = 1, opcode = 5, aa = 0, tc = 1, rd = 1, ra = 1, z = 2, rcode = 3,
            qdcount = 100, ancount = 200, nscount = 300, arcount = 400\<rparr>
      in eq_lines file 176 (header_fields original) (header_fields (dns_unpack (dns_pack original wire) zero_header))),
     (''test_pack_opcode_rcode'',
      eq_lines file 208 [0x00, 0x01, 0x10, 0x05]
        (packed (zero_header\<lparr>id_field := 0x0001, opcode := 2, rcode := 5, qdcount := 1\<rparr>)))]"

definition dns_tests :: "string \<Rightarrow> 8 word list \<Rightarrow> c_assertion listed_test list" where
  "dns_tests file wire = dns_first_tests file @ dns_last_tests file wire"

subsection \<open>What the programs report\<close>

text \<open>The tests of a program that pass.\<close>

definition passing :: "('a \<Rightarrow> bool) \<Rightarrow> 'a listed_test list \<Rightarrow> string list" where
  "passing ok ts = map fst (filter (\<lambda>t. first_failure ok (snd t) = None) ts)"

text \<open>The program returns, without a fault, with the exit code 1; it has printed a line for each test and the summary;
  the named tests pass, all others fail.\<close>

definition reports_failure ::
    "'a checker \<Rightarrow> ('a \<Rightarrow> bool) \<Rightarrow> ('a \<Rightarrow> string) \<Rightarrow> 'a listed_test list \<Rightarrow> string list \<Rightarrow> bool" where
  "reports_failure check ok msg ts names \<longleftrightarrow> passing ok ts = names \<and> (\<forall>h. \<exists>h'. listed_main check ts h = Inr (h', 1) \<and>
     ch_run h' = int (length ts) \<and> ch_passed h' = int (length names) \<and> ch_failed h' = int (length ts) - int (length names) \<and>
     ch_out h' = ch_out h @ map (test_line ok msg) ts @ [summary_line h'])"

lemma passing_length: "length (passing ok ts) = length (filter (\<lambda>t. \<forall>c \<in> set (snd t). c) (map (conditions ok) ts))"
proof -
  have "(\<lambda>t. first_failure ok (snd t) = None) = (\<lambda>t. \<forall>c \<in> set (snd t). c) \<circ> conditions ok"
    by (simp add: fun_eq_iff first_failure_None conditions_def)
  then show ?thesis by (simp add: passing_def filter_map)
qed

lemma passing_append: "passing ok (ts @ us) = passing ok ts @ passing ok us"
  by (simp add: passing_def)

context test_header
begin

lemma reports:
  assumes "list_all (well_defined ok dfd) ts" and "passing ok ts = names" and "length names < length ts"
  shows "reports_failure check ok msg ts names"
  unfolding reports_failure_def
proof (intro conjI allI)
  fix h
  obtain h' code where e: "c_TEST_END (fold (run_result ok msg) ts (c_TEST_BEGIN h)) = (h', code)"
    by (meson surj_pair)
  note r = end_result [OF e]
  let ?cs = "map (conditions ok) ts"
  have h': "harness_of h' = run_tests ?cs (TEST_BEGIN (harness_of h))" "code = TEST_END (harness_of h')"
    using r by (simp_all add: test_main_def Let_def)
  have "ch_run h' = tests_run (harness_of h')" "ch_passed h' = tests_passed (harness_of h')" by (simp_all add: harness_of_def)
  moreover have "tests_run (harness_of h') = int (length ts)" "tests_passed (harness_of h') = int (length names)"
    using run_tests_counts [of ?cs "TEST_BEGIN (harness_of h)", folded passing_length] assms(2) h' by (simp_all add: TEST_BEGIN_def)
  moreover have counts: "ch_run h' = int (length ts)" "ch_passed h' + ch_failed h' = ch_run h'"
    using end_counts [of h' code ok ts] r by blast+
  ultimately have failed: "ch_failed h' = int (length ts) - int (length names)" "ch_passed h' = int (length names)" by simp_all
  then have "code = 1" using h'(2) assms(3) by (simp add: TEST_END_def harness_of_def)
  then show "\<exists>h'. listed_main check ts h = Inr (h', 1) \<and> ch_run h' = int (length ts) \<and> ch_passed h' = int (length names) \<and>
      ch_failed h' = int (length ts) - int (length names) \<and> ch_out h' = ch_out h @ map (test_line ok msg) ts @ [summary_line h']"
    using r counts failed listed_main_result [OF assms(1), of h] e by (intro exI [of _ h']) simp
qed (rule assms(2))

end

subsection \<open>The programs\<close>

lemmas entry_simps = is_of_def is_int_def is_long_def is_true_def is_false_def is_null_def not_null_def is_str_def does_def
  holds_at_def is_real_def is_at_def deref_def cpp_equal_def common_type_def to_long_long_def to_unsigned_long_long_def

lemmas outcome_simps = passing_def well_defined_def entry_simps

lemmas book_simps = plb_update_def plb_best_bid_def plb_best_ask_def plb_qty_at_def plb_bid_levels_def plb_ask_levels_def plb_spread_def
  lob_add_order_def lob_cancel_order_def lob_modify_order_def lob_best_bid_def lob_best_ask_def lob_spread_def lob_qty_at_def
  lob_order_count_def lob_find_order_def

lemma size_to_int_simps [simp]: "size_to_int 0 = 0" "size_to_int (Suc 0) = 1" "size_to_int (numeral k) = (numeral k + 2147483648) mod 4294967296 - 2147483648"
  by (simp_all add: size_to_int_def)

lemma concat_nils [simp]: "concat (map (\<lambda>i. []) xs) = []"
  by (induction xs) simp_all

lemma display_empty: "plb_print_top 3 plb_new = Inr [spread_line (-1)]"
  by (simp add: plb_print_top_def plb_new_def plb_spread_def print_asks_down.simps)

lemma price_levels_report:
  "reports_failure (check_entry sub) (entry_holds sub) entry_message (price_level_tests file draw)
    [''test_update_removes_level'', ''test_best_bid_ask_empty'', ''test_simulation_invariants'', ''test_print_top_no_crash'']"
  by (rule entry_header.reports)
    (simp_all add: price_level_tests_def outcome_simps book_simps display_empty del: upt_rec_numeral)

text \<open>The first order is not accepted.\<close>

lemma order_simulation_first: "\<exists>rest. order_simulation file draw shuffle = is_true file 122 ''book.add_order(o)'' False # rest"
  by (simp add: order_simulation_def Let_def lob_add_order_def upt_conv_Cons [of 0 10000] del: upt_rec_numeral)

lemma order_book_report:
  "reports_failure (check_entry sub) (entry_holds sub) entry_message (order_book_tests file draw shuffle)
    [''test_cancel_nonexistent_returns_false'', ''test_modify_nonexistent_returns_false'']"
proof -
  obtain rest where "order_simulation file draw shuffle = is_true file 122 ''book.add_order(o)'' False # rest"
    using order_simulation_first by blast
  then show ?thesis
    by (intro entry_header.reports) (simp_all add: order_book_tests_def outcome_simps book_simps added_def)
qed

lemma matching_engine_report:
  "reports_failure (check_entry sub) (entry_holds sub) entry_message (matching_engine_tests file) []"
  by (rule entry_header.reports)
    (simp_all add: matching_engine_tests_def fill_tests_def resting_tests_def outcome_simps book_simps processed_def process_event_def engine_new_def n_fills_def)

lemma hot_alloc_report:
  "reports_failure (check_entry sub) (entry_holds sub) entry_message (arena_tests file build coord mem @ object_pool_tests file) []"
  by (rule entry_header.reports)
    (simp_all add: arena_tests_def object_pool_tests_def outcome_simps arena_allocate_def arena_never_constructs opool_allocate_def
      opool_new_def opool_capacity_def opool_available_def Let_def upt_conv_Cons del: upt_rec_numeral)

lemma pushed_new: "pushed n xs = cb_new n 0"
  by (simp add: pushed_def push_back_placeholder)

lemma placeholder_buffer:
  "0 < n \<Longrightarrow> cb_index i (cb_new n 0) = Inr (0 :: int)" "0 < n \<Longrightarrow> it_deref (cb_new n (0 :: int)) it = Inr 0"
  "0 < n \<Longrightarrow> it_index (cb_new n (0 :: int)) it k = Inr 0" "range_values (cb_new n 0) = Inr []"
  "cb_size (cb_new n d) = 0" "cb_full n (cb_new n d) \<longleftrightarrow> n = 0" "sort_range srt (cb_new n 0) = cb_new n 0"
  "cb_begin 0 (cb_new n d) = \<lparr>buf = 0, pos = 0\<rparr>" "cb_end 0 (cb_new n d) = \<lparr>buf = 0, pos = 0\<rparr>"
  "cb_clear (cb_new n d) = cb_new n d" "cb_push_back v b = b"
  using ring_traversal [of "cb_new n 0" 0]
  by (simp_all add: cb_index_def it_deref_def it_index_def cb_new_def range_values_def cb_size_def cb_full_def sort_range_def
      cb_begin_def cb_end_def cb_clear_def cb_push_back_def)

lemmas iterator_ops = stepped_def it_preinc_def it_predec_def it_postinc_def it_plus_def it_minus_def it_diff_def it_eq_def it_ne_def
  it_lt_def it_le_def it_gt_def chk64_ok in_int64_def cb_capacity_def

lemma circular_buffer_report:
  "reports_failure (check_entry sub) (entry_holds sub) entry_message (circular_buffer_tests file srt) [''test_iterator_comparison'']"
proof -
  let ?ok = "entry_holds sub"
  have b: "passing ?ok (buffer_tests file) = []" "list_all (well_defined ?ok entry_defined) (buffer_tests file)"
    by (simp_all add: buffer_tests_def outcome_simps pushed_new placeholder_buffer iterator_ops Let_def)
  have i: "passing ?ok (iterator_tests file) = [''test_iterator_comparison'']" "list_all (well_defined ?ok entry_defined) (iterator_tests file)"
    by (simp_all add: iterator_tests_def outcome_simps pushed_new placeholder_buffer iterator_ops Let_def upt_conv_Cons elem_def)
  have a: "passing ?ok (algorithm_tests file srt) = []" "list_all (well_defined ?ok entry_defined) (algorithm_tests file srt)"
    by (simp_all add: algorithm_tests_def outcome_simps pushed_new placeholder_buffer iterator_ops Let_def upt_conv_Cons)
  have "length (buffer_tests file) = 7" by (simp add: buffer_tests_def)
  then show ?thesis
    using a b i by (intro entry_header.reports) (simp_all add: circular_buffer_tests_def passing_append)
qed

lemma transfer_first:
  "\<exists>rest. transfer_test file l l_send tries qs checks = is_true file l ''receiver.init()'' False # rest"
  by (simp add: transfer_test_def receiver_init_def sender_init_def Let_def)

lemma multicast_report:
  "reports_failure (check_entry sub) (entry_holds sub) entry_message (multicast_tests file) [''test_wire_format_size'']"
proof -
  obtain r1 where r1: "transfer_test file 26 33 2000 (map (\<lambda>i. mk_quote 0 (10000 + int i) 100 200 i) [0..<100]) (\<lambda>(r, received).
        [is_int file 44 100 (int received), ((file, 45), Inr (Some (CppEq (TUInt, 0) (TULong, uint (gaps_detected r))))),
         ((file, 46), Inr (Some (CppEq (TULong, 100) (TULong, uint (packets_received r)))))]) = is_true file 26 ''receiver.init()'' False # r1"
    using transfer_first by blast
  obtain r2 where r2: "transfer_test file 52 59 200 (map (mk_quote 1 20000 50 75) [0, 1, 2, 4]) (\<lambda>(r, received).
        [is_int file 70 4 (int received), ((file, 71), Inr (Some (CppEq (TUInt, 1) (TULong, uint (gaps_detected r)))))]) =
      is_true file 52 ''receiver.init()'' False # r2"
    using transfer_first by blast
  show ?thesis unfolding multicast_tests_def r1 r2
    by (intro entry_header.reports)
      (simp_all add: outcome_simps receiver_init_def sender_init_def table_symbol_count_def Let_def del: upt_rec_numeral)
qed

lemma fed_id [simp]: "fed ds st = st"
  by (cases st) (induction ds; simp add: fed_def parser_feed_def)

lemma fix_report:
  "reports_failure (check_entry sub) (entry_holds sub) entry_message (fix_tests file) [''test_parse_fields_bad_checksum'']"
  by (rule entry_header.reports)
    (simp_all add: fix_tests_def fix_field_tests_def fix_stream_tests_def outcome_simps fix_checksum_def parse_fields_def counted_def parser_reset_def Let_def del: upt_rec_numeral)

lemma dns_report:
  "reports_failure (c_assert sp) holds (message sp) (dns_tests file wire) []"
  by (rule c_header.reports)
    (simp_all add: dns_tests_def dns_first_tests_def dns_last_tests_def passing_def well_defined_def eq_lines_def packed_def header_fields_def dns_pack_placeholder
      zero_header_def garbage_header_def to_long_long_def upt_conv_Cons)

subsection \<open>Main result\<close>

text \<open>What the test programs of the unfinished exercises report, on the components as they stand: none of them faults, each
  prints a line for every test and the summary and exits with 1, and exactly the listed nine tests pass; the program of
  the allocators ends with the advice not to trust the benchmarks.\<close>

theorem workbook_programs_report:
  "reports_failure (check_entry sub) (entry_holds sub) entry_message (price_level_tests file draw)
     [''test_update_removes_level'', ''test_best_bid_ask_empty'', ''test_simulation_invariants'', ''test_print_top_no_crash''] \<and>
   reports_failure (check_entry sub) (entry_holds sub) entry_message (order_book_tests file draw shuffle)
     [''test_cancel_nonexistent_returns_false'', ''test_modify_nonexistent_returns_false''] \<and>
   reports_failure (check_entry sub) (entry_holds sub) entry_message (matching_engine_tests file) [] \<and>
   reports_failure (check_entry sub) (entry_holds sub) entry_message (circular_buffer_tests file srt) [''test_iterator_comparison''] \<and>
   reports_failure (check_entry sub) (entry_holds sub) entry_message (multicast_tests file) [''test_wire_format_size''] \<and>
   reports_failure (check_entry sub) (entry_holds sub) entry_message (fix_tests file) [''test_parse_fields_bad_checksum''] \<and>
   reports_failure (c_assert sp) holds (message sp) (dns_tests file wire) [] \<and>
   (\<exists>h'. hot_alloc_main sub (arena_tests file build coord mem @ object_pool_tests file) h = Inr (h', 1) \<and>
     ch_run h' = 11 \<and> ch_passed h' = 0 \<and> length (ch_out h') = length (ch_out h) + 13 \<and>
     last (ch_out h') = newline @ ''Fix the correctness failures above before trusting the benchmarks.'' @ newline)"
proof -
  have "reports_failure (check_entry sub) (entry_holds sub) entry_message (arena_tests file build coord mem @ object_pool_tests file) []"
    by (rule hot_alloc_report)
  then obtain h1 where "listed_main (check_entry sub) (arena_tests file build coord mem @ object_pool_tests file) h = Inr (h1, 1)"
      "ch_run h1 = 11" "ch_passed h1 = 0" "length (ch_out h1) = length (ch_out h) + 12"
    unfolding reports_failure_def by (auto simp: arena_tests_def object_pool_tests_def dest: spec [where x = h])
  then have "\<exists>h'. hot_alloc_main sub (arena_tests file build coord mem @ object_pool_tests file) h = Inr (h', 1) \<and>
     ch_run h' = 11 \<and> ch_passed h' = 0 \<and> length (ch_out h') = length (ch_out h) + 13 \<and>
     last (ch_out h') = newline @ ''Fix the correctness failures above before trusting the benchmarks.'' @ newline"
    by (simp add: hot_alloc_main_def cprintf_def)
  then show ?thesis
    by (intro conjI price_levels_report order_book_report matching_engine_report circular_buffer_report multicast_report
        fix_report dns_report)
qed

end
