(* ===== verification/Spec2Isabelle.thy ===== *)
theory Spec2Isabelle
  imports Ownership Move_Buffer Primitives Bitwise Float_Bits Hello_C C_Strings Linked_List Int_Vec Entity
    Pool_Allocator Test_Harness Containers_Bench Circular_Buffer Lockfree_Queues Order_Book Event_Stream
    Networking Fix_Message Hot_Alloc Dns Object_Layout Server_Threads Queue_Threads Socket_IO C_Harness
    Conformance Bench_Table Queue_Bench Seqlock_Threads Test_Scripts String_Tests
    Cpp_Tests Ownership_Tests Report_Lines Cpp_Output Pool_Vector Pool_Tests Spsc_Bench Lock_Bench Workbook_Tests
begin

text \<open>
  Verification of the \<open>syseng\<close> workbook: C and C++ components for systems programming, one per
  directory \<open>src/<module>/exercises/<exercise>\<close>, and the test harness \<open>src/tools\<close>. The components are
  independent programs; they share the harness, and within a module the later exercises include the
  earlier ones (the matching engine the limit order book, that the price levels).

  \<^bold>\<open>Shared layer.\<close> \<open>Prelude\<close> has the faults (undefined behaviours and exceptions) as a datatype, the
  result type \<open>fault + 'a\<close> with its sequencing, signed range checks, counting loops with their
  invariant rule, and decimal output. \<open>C_Heap\<close> is the heap of blocks with \<open>malloc\<close>, \<open>realloc\<close>, \<open>free\<close> and
  checked accesses. An operation that returns \<open>Inr\<close> has none of the listed undefined behaviours.
  A failing allocation is an argument: \<open>None\<close> makes \<open>malloc\<close> return the null pointer, \<open>Some f\<close>
  makes it succeed with the indeterminate contents \<open>f\<close>; in the programs on the list and the vector every call
  carries such an answer. The operations of \<open>Buffer\<close> and \<open>UniqueBuffer\<close> that call \<open>new[]\<close> are told whether it throws, and
  return an \<open>outcome\<close>: the state, and whether \<open>bad_alloc\<close> left them. The answers of \<open>open\<close> are arguments too.

  \<^bold>\<open>Interfaces.\<close> The contracts between components are locales, each interpreted on the model of the code:
  \<^item> \<open>Ownership_Spec\<close>, \<open>Heap_Owner\<close>: objects that own a resource, with move construction, move assignment,
    release and destruction as an abstract state machine; the locale \<open>raii_owner\<close> is interpreted for
    \<open>UniqueBuffer\<close> and \<open>Buffer\<close> (heap blocks), and safety of whole client programs is proved once. \<open>ScopedFd\<close>, which
    wraps any descriptor it is given, refines the machine directly: its clients and the kernel keep the contract
    \<open>owner_step\<close>, without which two objects on one descriptor close it twice.
  \<^item> \<open>Sequence_Spec\<close>: growable sequences; interpreted for the linked list, the integer vector
    and \<open>std::vector\<close> on the pool (for two growth policies).
  \<^item> \<open>In_Place\<close>: reversal by exchanging from both ends; interpreted for int arrays and strings.
  \<^item> \<open>Keyed_Map\<close>: what the benchmarks need of a map; interpreted for \<open>std::map\<close> and
    \<open>std::unordered_map\<close> (any iteration order), and the hypothesis on the Boost containers.
  \<^item> \<open>int_arith\<close> in \<open>Bitwise\<close> (the standard's and the wrap-around reading of overflow), \<open>strong_int64\<close> in
    \<open>Primitives\<close> (\<open>Price\<close> and \<open>Quantity\<close>), \<open>bump_allocator\<close> in \<open>Pool_Allocator\<close> and \<open>random_access\<close> in \<open>Circular_Buffer\<close>.
  \<^item> \<open>Interleaving\<close>: step systems with an invariant and with a measure of progress; interpreted for the
    server with its main thread and, for every queue of the contract \<open>item_queue\<close>, for the queue test and the
    queue benchmark; \<open>item_queue\<close> (a queue hands out at most what was put in) is interpreted for the queue of
    the repository, a FIFO list and a bounded one. \<open>triple_lock\<close> in \<open>Seqlock_Threads\<close> (a reader gets a triple
    that was stored whole) is interpreted for the lock of the repository and for an atomic variable.
    \<open>fifo_queue\<close> in \<open>Spsc_Bench\<close> (a bounded FIFO queue, as an abstract list) is interpreted for the queue of the
    repository, with capacity zero; \<open>observed_queue\<close>, which adds the observers, for the ring buffer that its header
    documents, with the observers of the repository. \<open>Lock_Bench\<close> interprets the step systems for the benchmark of the lock.
  \<^item> \<open>test_header\<close> in \<open>C_Harness\<close>: an assertion goes on with its test or fails with its message; interpreted for the
    assertions of both headers, and in \<open>Workbook_Tests\<close> for assertions on values whose computation may fault.
  \<^item> \<open>placement\<close> in \<open>Object_Layout\<close>: rules that place the members of a structure; interpreted for the natural
    and the packed layout.

  \<^bold>\<open>Components.\<close>
  \<^item> \<open>Hello_C\<close>, \<open>C_Strings\<close>, \<open>Int_Vec\<close>, \<open>Linked_List\<close>, \<open>Entity\<close> model \<open>00-c-for-programmers\<close> (\<open>hello.c\<close>,
    \<open>strings.c\<close>, \<open>structs.c\<close>). Linked list and vector refine abstract lists, for all operation sequences and all answers of \<open>malloc\<close>
    and \<open>realloc\<close>: the heap is returned to its state before, or the program stops at the null pointer; string functions are exact including their
    out-of-bounds and null-pointer cases; entity operations keep the hit-point invariant. Loops over
    \<open>next\<close> pointers are partial functions, and their termination is part of the refinement.
  \<^item> \<open>Bitwise\<close>, \<open>Float_Bits\<close>, \<open>Dns\<close> model \<open>01-bits-and-bytes\<close> (\<open>bits.c\<close>, \<open>float_bits.c\<close>, \<open>dns.c\<close>). Each bit
    trick is equal to its arithmetic meaning for all 32-bit arguments, and the inputs on which the
    standard leaves it undefined are exactly known; doubling and halving of floats are related to the
    represented value, the cases in which the code departs from IEEE 754 included.
  \<^item> \<open>Ownership\<close>, \<open>Primitives\<close>, \<open>Move_Buffer\<close> model \<open>02-modern-cpp\<close> (\<open>ownership.hpp\<close>, \<open>primitives.hpp\<close>,
    \<open>buffer.hpp\<close>): no double close or free, no leak and no use of a dead object in any client
    program that keeps the contract, with throwing constructors; the dangling pointer after a copy assignment
    that throws; deep copies; exact counters; exact int64 arithmetic; the symbol table lookup.
  \<^item> \<open>Containers_Bench\<close>, \<open>Circular_Buffer\<close>, \<open>Pool_Allocator\<close> model \<open>03-stl-internals\<close>
    (\<open>bench_containers.cpp\<close>, \<open>circular_buffer.hpp\<close>, \<open>pool_allocator.hpp\<close>): all lookup benchmarks compute the
    same sum where the queries are keys, and what each does on the others; the map of owning pointers neither leaks nor double frees; \<open>main\<close> overflows an \<open>int\<close>;
    iterator traversal; disjointness of pool regions and its failure on wrap-around. \<open>Bench_Table\<close> adds the
    output of \<open>main\<close>: with its million keys it overflows before the first line; were its constant at most 65536, it
    would run without a fault and print the elapsed times.
    \<open>Pool_Vector\<close> puts \<open>std::vector\<close> on the pool: any number of vectors in one array of bytes behave as lists
    that do not interfere, whatever calls throw, and at least 131072 integers fit into one vector.
  \<^item> \<open>Object_Layout\<close> has the structures whose layout the workbook discusses (\<open>cache_profiler.cpp\<close>,
    \<open>data_layout.cpp\<close>, the counters and indices of the queues, the wire format): every member is aligned,
    disjoint from the others and inside the structure; which counters share a cache line, for every
    address their alignment allows.
  \<^item> \<open>Hot_Alloc\<close> models \<open>04-cache-and-memory\<close>, \<open>Lockfree_Queues\<close> models \<open>05-concurrency\<close>, \<open>Order_Book\<close> and
    \<open>Event_Stream\<close> model \<open>06-order-book\<close>, \<open>Networking\<close> and \<open>Fix_Message\<close> model \<open>07-networking\<close>. Many
    operations of these modules are placeholders in the source, and the models say so; proved are the
    parts with code: the queue observers under counter wrap-around, the order book display, the event
    generator with the invariant of its live orders, the server's stop protocol and the message
    builder against the documented framing rule.
  \<^item> \<open>Test_Harness\<close> models \<open>tools/common.hpp\<close>: exact counters and exit code, median and percentiles. \<open>C_Harness\<close>
    models \<open>tools/common.h\<close> with everything it prints; \<open>Cpp_Output\<close> has the assertions of the C++ header with what they
    print, and shows on which programs the two headers agree. \<open>Report_Lines\<close> has the
    lines of the benchmark functions, on the decimal output of \<open>Decimal_Output\<close>: fixed columns, and the printed
    number within half a unit of its last place.
  \<^item> The test programs: \<open>Conformance\<close> runs \<open>test_hello.c\<close>, \<open>test_bits.c\<close> and \<open>test_float_bits.c\<close> on the models;
    \<open>Test_Scripts\<close> and \<open>String_Tests\<close> run \<open>test_structs.c\<close> and \<open>test_strings.c\<close>, the list and vector tests by way
    of their abstract lists, \<open>Cpp_Tests\<close> and \<open>Ownership_Tests\<close> the tests of \<open>test_buffer.cpp\<close>,
    \<open>test_primitives.cpp\<close> and \<open>test_ownership.cpp\<close>: all pass, and nothing is leaked, in the runs in which no
    \<open>new\<close> throws and the kernel answers as it should.
    \<open>Server_Threads\<close> is the program of \<open>test_server.cpp\<close> as an interleaving of \<open>main\<close> with the server thread (no
    early return, no deadlock, an end within six steps of \<open>stop\<close>), \<open>Socket_IO\<close> its transfer helpers for
    every way the kernel splits a transfer; \<open>Queue_Threads\<close> is the four-producer, four-consumer test of
    \<open>test_mpmc_queue.cpp\<close>: no value is counted twice, and the test hangs once two consumers have each
    received an item. \<open>Queue_Bench\<close> is the rest of that file: the benchmark counts exactly its total and, with
    a queue that loses nothing, can always be brought to its end; with the placeholder queue neither test nor
    benchmark returns. \<open>Seqlock_Threads\<close> is the reader and writer test of \<open>test_seqlock.cpp\<close>: no torn read, an
    end within 25 steps of the flag, and a schedule in which it fails with a correct lock. \<open>Lock_Bench\<close> is the
    benchmark of that file: every reader reads as often as it should, the lock is given back, and the total lies
    within the readers' time. \<open>Pool_Tests\<close> runs \<open>test_pool_allocator.cpp\<close>: all eight tests pass for every growth
    policy. \<open>Spsc_Bench\<close> is \<open>test_spsc_queue.cpp\<close>: the events arrive complete and in order, each latency is the time
    between the two clock readings it is meant to measure (a field that the program does not have, \<open>sb_made\<close>, records the first), and the end is reachable exactly when the queue has room for an element. \<open>Workbook_Tests\<close> has the
    eight programs of the exercises whose main operations are placeholders (price levels, order book, matching
    engine, circular buffer, allocators, multicast, FIX parser, DNS header): what they report as the files stand.

  \<^bold>\<open>Bounds and non-termination.\<close> No fuel is used: loops are structural, counting loops, functions with a
  measure, or partial functions whose termination is proved where it is claimed. Theorems carry the
  bounds of the machine: sizes below \<open>2 ^ 31\<close> where the code converts a size to \<open>int\<close>, operation counts
  below \<open>2 ^ 64\<close> for \<open>size_t\<close> counters. The clock, the random draws, the rounding of \<open>double\<close>, the
  iteration order of hash maps and the calls of other threads are arguments; theorems hold for all of
  them or name what they assume.

  \<^bold>\<open>Concurrency.\<close> A step is one access to shared data; atomic accesses are sequentially consistent in the
  model, while the relaxed accesses of the code may be reordered. A progress statement says
  that the end stays reachable and, where it says so, that every interleaving reaches it.

  \<^bold>\<open>Not modelled.\<close> The lines of the benchmarks that report a measured time, where no statement is made about them, the
  benchmarks that the eight programs of \<open>Workbook_Tests\<close> run between the last test and the summary, and the containers
  on the default allocator in the others; \<open>tools/check.py\<close>, which builds and runs the exercises; build files and
  documents; memory ordering weaker than sequential consistency; kernel sockets, which are parameters.
\<close>

end
